(* ===== verification/Prelude.thy ===== *)
theory Prelude
  imports Main "HOL-Library.Word" "HOL-Library.Monad_Syntax"
begin

unbundle bit_operations_syntax

section \<open>Prelude: machine words, byte buffers and shared facts\<close>

text \<open>
  The types and facts every component shares: the fixed-width integers of the C code as
  words, byte buffers with bounds-checked access (\<^const>\<open>None\<close> is the undefined behaviour
  of an out-of-range C access, so a theorem that an operation returns \<^const>\<open>Some\<close> is a
  memory-safety theorem), the little-endian image of a 32-bit value, and the arithmetic of
  counters that wrap at \<open>2 ^ 32\<close>.
\<close>

named_theorems buf_simps "facts on bounds-checked buffer accesses"
named_theorems le_simps "facts on the little-endian image of words"
named_theorems counter_simps "facts on wrapping 32-bit counters"

type_synonym u8 = "8 word"
type_synonym u16 = "16 word"
type_synonym u32 = "32 word"
type_synonym u64 = "64 word"
type_synonym bytes = "u8 list"

subsection \<open>Bounds-checked byte buffers\<close>

text \<open>\<open>buf[i]\<close> as an rvalue.\<close>

definition read_byte :: "bytes \<Rightarrow> nat \<Rightarrow> u8 option" where
  "read_byte buf i = (if i < length buf then Some (buf ! i) else None)"

text \<open>The \<open>n\<close> bytes a \<^verbatim>\<open>memcpy\<close> reads at \<open>buf + off\<close>.\<close>

definition read_bytes :: "bytes \<Rightarrow> nat \<Rightarrow> nat \<Rightarrow> bytes option" where
  "read_bytes buf off n =
     (if off + n \<le> length buf then Some (take n (drop off buf)) else None)"

text \<open>The effect of a \<^verbatim>\<open>memcpy\<close> of \<open>bs\<close> to \<open>buf + off\<close>; a single store is the case
  of one byte.\<close>

definition write_bytes :: "bytes \<Rightarrow> nat \<Rightarrow> bytes \<Rightarrow> bytes option" where
  "write_bytes buf off bs =
     (if off + length bs \<le> length buf
      then Some (take off buf @ bs @ drop (off + length bs) buf) else None)"

subsection \<open>Little-endian image of a 32-bit value\<close>

text \<open>Both cores are little endian: \<^verbatim>\<open>memcpy(p, &value, 4)\<close> stores the low byte first.\<close>

definition le32 :: "u32 \<Rightarrow> bytes" where
  "le32 v = [ucast v, ucast (drop_bit 8 v), ucast (drop_bit 16 v), ucast (drop_bit 24 v)]"

definition of_le32 :: "bytes \<Rightarrow> u32" where
  "of_le32 bs = (case bs of
       [b0, b1, b2, b3] \<Rightarrow>
         ucast b0 OR push_bit 8 (ucast b1) OR push_bit 16 (ucast b2) OR push_bit 24 (ucast b3)
     | _ \<Rightarrow> 0)"

subsection \<open>Lemmas\<close>

lemma read_byte_eq_Some [buf_simps]:
  "read_byte buf i = Some b \<longleftrightarrow> i < length buf \<and> b = buf ! i"
  by (auto simp: read_byte_def)

lemma read_bytes_eq_Some [buf_simps]:
  "read_bytes buf off n = Some bs \<longleftrightarrow> off + n \<le> length buf \<and> bs = take n (drop off buf)"
  by (auto simp: read_bytes_def)

lemma write_bytes_eq_Some [buf_simps]:
  "write_bytes buf off bs = Some buf' \<longleftrightarrow>
     off + length bs \<le> length buf \<and> buf' = take off buf @ bs @ drop (off + length bs) buf"
  by (auto simp: write_bytes_def)

lemma length_write_bytes:
  "write_bytes buf off bs = Some buf' \<Longrightarrow> length buf' = length buf"
  by (auto simp: buf_simps)

text \<open>A write is local: bytes outside the written range keep their value.\<close>

lemma write_bytes_outside:
  assumes "write_bytes buf off bs = Some buf'" "i < off \<or> off + length bs \<le> i"
  shows "buf' ! i = buf ! i"
  using assms by (cases "i < length buf")
    (auto simp: buf_simps nth_append nth_drop not_less)

lemma read_bytes_write_bytes:
  assumes "write_bytes buf off bs = Some buf'"
  shows "read_bytes buf' off (length bs) = Some bs"
  using assms by (auto simp: buf_simps)

lemma length_le32 [simp, le_simps]: "length (le32 v) = 4"
  by (simp add: le32_def)

lemma of_le32_le32 [simp, le_simps]: "of_le32 (le32 v) = v"
proof (rule bit_word_eqI)
  fix n
  assume "n < LENGTH(32)"
  then consider "n < 8" | "8 \<le> n" "n < 16" | "16 \<le> n" "n < 24" | "24 \<le> n" "n < 32"
    by fastforce
  then show "bit (of_le32 (le32 v)) n \<longleftrightarrow> bit v n"
    by cases (auto simp: of_le32_def le32_def bit_simps)
qed

lemma le32_inj [simp]: "le32 a = le32 b \<longleftrightarrow> a = b"
  by (metis of_le32_le32)

lemma length4_cases:
  assumes "length bs = 4"
  obtains a b c d where "bs = [a, b, c, d]"
  using assms by (auto simp: length_Suc_conv eval_nat_numeral)

lemma bit_u8_beyond [simp]: "8 \<le> n \<Longrightarrow> \<not> bit (w :: u8) n"
  using bit_imp_le_length [of w n] by auto

lemma le32_of_le32 [le_simps]: "length bs = 4 \<Longrightarrow> le32 (of_le32 bs) = bs"
  by (erule length4_cases)
    (auto simp: le32_def of_le32_def bit_simps intro!: bit_eqI)

lemma unat_u16_less [simp]: "unat (w :: u16) < 65536"
proof -
  have "unat w < 2 ^ LENGTH(16)" by (rule unsigned_less)
  then show ?thesis by simp
qed

lemma unat_u32_less [simp]: "unat (w :: u32) < 4294967296"
proof -
  have "unat w < 2 ^ LENGTH(32)" by (rule unsigned_less)
  then show ?thesis by simp
qed

lemma unat_of_nat_u16: "n < 65536 \<Longrightarrow> unat (of_nat n :: u16) = n"
  by (simp add: unat_of_nat take_bit_nat_eq_self)

lemma unat_of_nat_u32: "n < 4294967296 \<Longrightarrow> unat (of_nat n :: u32) = n"
  by (simp add: unat_of_nat take_bit_nat_eq_self)

subsection \<open>Wrapping counters\<close>

lemma unat_and_63 [counter_simps]: "unat ((x :: u32) AND 63) = unat x mod 64"
proof -
  have "x AND 63 = take_bit 6 x"
    by (simp add: take_bit_eq_mask mask_numeral)
  moreover have "unat (take_bit 6 x) = unat x mod 64"
    by (simp only: unsigned_take_bit_eq) (simp add: take_bit_eq_mod)
  ultimately show ?thesis by (simp only:)
qed

lemma mod_64_mod_2_32 [counter_simps]: "(n mod 4294967296) mod 64 = n mod (64 :: nat)"
  by (simp add: mod_mod_cancel)

text \<open>The slot a counter \<open>c + i\<close> selects, computed without the wrap-around.\<close>

lemma unat_add_and_63 [counter_simps]:
  "unat ((c + of_nat i :: u32) AND 63) = (unat c + i) mod 64"
  by (simp add: unat_and_63 unat_word_ariths unat_of_nat take_bit_eq_mod counter_simps
      mod_add_right_eq)

lemma unat_succ_mod_64:
  "(unat (c + 1 :: u32) + i) mod 64 = (unat c + Suc i) mod 64"
proof -
  have "c + 1 + of_nat i = c + of_nat (Suc i)" by simp
  then have "unat ((c + 1 + of_nat i) AND 63) = unat ((c + of_nat (Suc i)) AND 63)"
    by (simp only:)
  then show ?thesis by (simp only: unat_add_and_63)
qed

lemma unat_succ_diff:
  assumes "unat (p - c :: u32) < 64"
  shows "unat (p + 1 - c) = Suc (unat (p - c))"
proof -
  have "p + 1 - c = (p - c) + 1" by simp
  moreover have "unat ((p - c) + 1) = Suc (unat (p - c))"
    using assms by (simp add: unat_word_ariths)
  ultimately show ?thesis by (simp only:)
qed

lemma unat_diff_succ:
  assumes "0 < unat (p - c :: u32)"
  shows "unat (p - (c + 1)) = unat (p - c) - 1"
proof -
  have "p - (c + 1) = (p - c) - 1" by simp
  moreover have "unat ((p - c) - 1) = unat (p - c) - 1"
    using assms by (metis One_nat_def Suc_leI unat_1 unat_sub word_le_nat_alt)
  ultimately show ?thesis by (simp only:)
qed

text \<open>Positions in a window of at most 64 consecutive counters select distinct slots.\<close>

lemma mod_64_window_le:
  fixes b :: nat
  assumes "(b + i) mod 64 = (b + j) mod 64" "i \<le> j" "j < 64"
  shows "i = j"
proof -
  have "64 dvd j - i"
    using assms(1,2) by (metis add_diff_cancel_left mod_eq_dvd_iff_nat nat_add_left_cancel_le)
  moreover have "j - i < 64" using assms(3) by linarith
  ultimately have "j - i = 0" using nat_dvd_not_less neq0_conv by blast
  with assms(2) show ?thesis by simp
qed

lemma mod_64_window_inj:
  fixes b :: nat
  assumes "(b + i) mod 64 = (b + j) mod 64" "i < 64" "j < 64"
  shows "i = j"
  using mod_64_window_le [OF assms(1) _ assms(3)]
    mod_64_window_le [OF assms(1) [symmetric] _ assms(2)] linear [of i j] by blast

end
