(* ===== verification/Protocol.thy ===== *)
theory Protocol
  imports Prelude
begin

section \<open>The application protocol\<close>

text \<open>
  \<^verbatim>\<open>include/sg2002_rtos_protocol.h\<close>: command identifiers, the packed information word, the
  packed GPIO argument and the reserved reply values. The macros of the header are functions
  on 32-bit words with the same shifts and masks; the lemmas show that packing and unpacking
  are inverse, so the two cores agree on every field.
\<close>

subsection \<open>Commands and constants\<close>

abbreviation SG2002_RTOS_CMD_FIRST :: u8 where "SG2002_RTOS_CMD_FIRST \<equiv> 0x60"
abbreviation SG2002_RTOS_CMD_LAST :: u8 where "SG2002_RTOS_CMD_LAST \<equiv> 0x7e"
abbreviation SG2002_RTOS_CMD_PING :: u8 where "SG2002_RTOS_CMD_PING \<equiv> 0x60"
abbreviation SG2002_RTOS_CMD_GPIO_SET :: u8 where "SG2002_RTOS_CMD_GPIO_SET \<equiv> 0x61"
abbreviation SG2002_RTOS_CMD_GPIO_GET :: u8 where "SG2002_RTOS_CMD_GPIO_GET \<equiv> 0x62"
abbreviation SG2002_RTOS_CMD_GET_INFO :: u8 where "SG2002_RTOS_CMD_GET_INFO \<equiv> 0x63"
abbreviation SG2002_RTOS_CMD_ECHO :: u8 where "SG2002_RTOS_CMD_ECHO \<equiv> 0x64"

abbreviation SG2002_RTOS_PING_XOR :: u32 where "SG2002_RTOS_PING_XOR \<equiv> 0xa5a55a5a"

abbreviation SG2002_RTOS_VALUE_MESSAGE_SIZE :: "'a :: numeral" where
  "SG2002_RTOS_VALUE_MESSAGE_SIZE \<equiv> 5"
abbreviation SG2002_RTOS_VALUE_MESSAGE_COMMAND_OFFSET :: nat where
  "SG2002_RTOS_VALUE_MESSAGE_COMMAND_OFFSET \<equiv> 0"
abbreviation SG2002_RTOS_VALUE_MESSAGE_VALUE_OFFSET :: nat where
  "SG2002_RTOS_VALUE_MESSAGE_VALUE_OFFSET \<equiv> 1"

abbreviation SG2002_RTOS_PROTOCOL_MAJOR :: u32 where "SG2002_RTOS_PROTOCOL_MAJOR \<equiv> 1"
abbreviation SG2002_RTOS_PROTOCOL_MINOR :: u32 where "SG2002_RTOS_PROTOCOL_MINOR \<equiv> 0"
abbreviation SG2002_RTOS_INFO_MAGIC :: u32 where "SG2002_RTOS_INFO_MAGIC \<equiv> 0xa5"
abbreviation SG2002_RTOS_CAPABILITIES :: u32 where
  "SG2002_RTOS_CAPABILITIES \<equiv> push_bit 0 1 OR push_bit 1 1"

abbreviation SG2002_RTOS_RESPONSE_INVALID_ARGUMENT :: u32 where
  "SG2002_RTOS_RESPONSE_INVALID_ARGUMENT \<equiv> 0xfffffffe"
abbreviation SG2002_RTOS_RESPONSE_UNSUPPORTED :: u32 where
  "SG2002_RTOS_RESPONSE_UNSUPPORTED \<equiv> 0xffffffff"

subsection \<open>The information word\<close>

definition SG2002_RTOS_INFO_ENCODE :: "u32 \<Rightarrow> u32 \<Rightarrow> u32 \<Rightarrow> u32" where
  "SG2002_RTOS_INFO_ENCODE major minor capabilities =
     (push_bit 24 SG2002_RTOS_INFO_MAGIC OR push_bit 16 (major AND 0xff) OR
      push_bit 8 (minor AND 0xff) OR (capabilities AND 0xff))"

definition SG2002_RTOS_INFO_VALUE :: u32 where
  "SG2002_RTOS_INFO_VALUE =
     SG2002_RTOS_INFO_ENCODE SG2002_RTOS_PROTOCOL_MAJOR SG2002_RTOS_PROTOCOL_MINOR
       SG2002_RTOS_CAPABILITIES"

definition SG2002_RTOS_INFO_IS_VALID :: "u32 \<Rightarrow> bool" where
  "SG2002_RTOS_INFO_IS_VALID v \<longleftrightarrow> drop_bit 24 v AND 0xff = SG2002_RTOS_INFO_MAGIC"

definition SG2002_RTOS_INFO_MAJOR :: "u32 \<Rightarrow> u32" where
  "SG2002_RTOS_INFO_MAJOR v = drop_bit 16 v AND 0xff"

definition SG2002_RTOS_INFO_MINOR :: "u32 \<Rightarrow> u32" where
  "SG2002_RTOS_INFO_MINOR v = drop_bit 8 v AND 0xff"

definition SG2002_RTOS_INFO_CAPABILITIES :: "u32 \<Rightarrow> u32" where
  "SG2002_RTOS_INFO_CAPABILITIES v = v AND 0xff"

subsection \<open>The GPIO argument\<close>

definition SG2002_RTOS_GPIO_ENCODE :: "u32 \<Rightarrow> u32 \<Rightarrow> u32" where
  "SG2002_RTOS_GPIO_ENCODE pin v = (push_bit 16 (pin AND 0xffff) OR (v AND 0x1))"

definition SG2002_RTOS_GPIO_PIN :: "u32 \<Rightarrow> u32" where
  "SG2002_RTOS_GPIO_PIN v = drop_bit 16 v AND 0xffff"

definition SG2002_RTOS_GPIO_VALUE :: "u32 \<Rightarrow> u32" where
  "SG2002_RTOS_GPIO_VALUE v = v AND 0x1"

subsection \<open>Packing and unpacking are inverse\<close>

text \<open>The masks of the header as bit masks, so that fields are compared bit by bit.\<close>

lemma and_0xff_take_bit: "(x :: u32) AND 0xff = take_bit 8 x"
  by (simp add: take_bit_eq_mask mask_numeral)

lemma and_0xffff_take_bit: "(x :: u32) AND 0xffff = take_bit 16 x"
  by (simp add: take_bit_eq_mask mask_numeral)

lemma and_1_take_bit: "(x :: u32) AND 1 = take_bit 1 x"
  by (simp add: take_bit_eq_mask mask_numeral)

lemmas mask_bits = and_0xff_take_bit and_0xffff_take_bit and_1_take_bit

lemma gpio_pin_encode: "SG2002_RTOS_GPIO_PIN (SG2002_RTOS_GPIO_ENCODE pin v) = pin AND 0xffff"
  unfolding SG2002_RTOS_GPIO_PIN_def SG2002_RTOS_GPIO_ENCODE_def mask_bits
  by (rule bit_eqI) (auto simp: bit_simps)

lemma gpio_value_encode: "SG2002_RTOS_GPIO_VALUE (SG2002_RTOS_GPIO_ENCODE pin v) = v AND 0x1"
  unfolding SG2002_RTOS_GPIO_VALUE_def SG2002_RTOS_GPIO_ENCODE_def mask_bits
  by (rule bit_eqI) (auto simp: bit_simps)

lemma info_major_encode: "SG2002_RTOS_INFO_MAJOR (SG2002_RTOS_INFO_ENCODE a b c) = a AND 0xff"
  unfolding SG2002_RTOS_INFO_MAJOR_def SG2002_RTOS_INFO_ENCODE_def mask_bits
  by (rule bit_eqI) (auto simp: bit_simps)

lemma info_minor_encode: "SG2002_RTOS_INFO_MINOR (SG2002_RTOS_INFO_ENCODE a b c) = b AND 0xff"
  unfolding SG2002_RTOS_INFO_MINOR_def SG2002_RTOS_INFO_ENCODE_def mask_bits
  by (rule bit_eqI) (auto simp: bit_simps)

lemma info_capabilities_encode:
  "SG2002_RTOS_INFO_CAPABILITIES (SG2002_RTOS_INFO_ENCODE a b c) = c AND 0xff"
  unfolding SG2002_RTOS_INFO_CAPABILITIES_def SG2002_RTOS_INFO_ENCODE_def mask_bits
  by (rule bit_eqI) (auto simp: bit_simps)

lemma info_encode_valid: "SG2002_RTOS_INFO_IS_VALID (SG2002_RTOS_INFO_ENCODE a b c)"
  unfolding SG2002_RTOS_INFO_IS_VALID_def SG2002_RTOS_INFO_ENCODE_def mask_bits
  by (rule bit_eqI) (auto simp: bit_simps)

lemmas protocol_decode [simp] =
  gpio_pin_encode gpio_value_encode info_major_encode info_minor_encode
  info_capabilities_encode info_encode_valid

text \<open>A word with the magic byte is determined by its three fields.\<close>

lemma info_encode_decode:
  "SG2002_RTOS_INFO_IS_VALID w \<longleftrightarrow>
   SG2002_RTOS_INFO_ENCODE (SG2002_RTOS_INFO_MAJOR w) (SG2002_RTOS_INFO_MINOR w)
     (SG2002_RTOS_INFO_CAPABILITIES w) = w"
proof
  assume valid: "SG2002_RTOS_INFO_IS_VALID w"
  show "SG2002_RTOS_INFO_ENCODE (SG2002_RTOS_INFO_MAJOR w) (SG2002_RTOS_INFO_MINOR w)
     (SG2002_RTOS_INFO_CAPABILITIES w) = w"
  proof (rule bit_eqI)
    fix n
    assume "possible_bit TYPE(u32) n"
    then have n: "n < 32" by simp
    define M :: u32 where "M = SG2002_RTOS_INFO_MAGIC"
    have "bit M (n - 24) = bit w n" if "24 \<le> n"
    proof -
      have "bit (take_bit 8 (drop_bit 24 w)) (n - 24) = bit w n"
        using that n by (auto simp: bit_take_bit_iff bit_drop_bit_eq)
      with valid show ?thesis by (simp add: SG2002_RTOS_INFO_IS_VALID_def and_0xff_take_bit M_def)
    qed
    then show "bit (SG2002_RTOS_INFO_ENCODE (SG2002_RTOS_INFO_MAJOR w) (SG2002_RTOS_INFO_MINOR w)
        (SG2002_RTOS_INFO_CAPABILITIES w)) n = bit w n"
      using n unfolding SG2002_RTOS_INFO_ENCODE_def SG2002_RTOS_INFO_MAJOR_def
        SG2002_RTOS_INFO_MINOR_def SG2002_RTOS_INFO_CAPABILITIES_def mask_bits M_def [symmetric]
      by (cases "n < 8"; cases "n < 16"; cases "n < 24") (auto simp: bit_push_bit_iff bit_or_iff
          bit_take_bit_iff bit_drop_bit_eq not_less)
  qed
qed (metis info_encode_valid)

subsection \<open>Properties\<close>

text \<open>The packed words of the protocol decode to what was encoded, truncated to the
  width of each field, and a word passes the validity test of the client exactly when it is the
  encoding of its own fields; the information word the firmware sends has version 1.0 and the GPIO
  and ECHO capabilities.\<close>

theorem protocol_roundtrip:
  "SG2002_RTOS_GPIO_PIN (SG2002_RTOS_GPIO_ENCODE pin v) = pin AND 0xffff \<and>
   SG2002_RTOS_GPIO_VALUE (SG2002_RTOS_GPIO_ENCODE pin v) = v AND 0x1 \<and>
   SG2002_RTOS_INFO_MAJOR (SG2002_RTOS_INFO_ENCODE a b c) = a AND 0xff \<and>
   SG2002_RTOS_INFO_MINOR (SG2002_RTOS_INFO_ENCODE a b c) = b AND 0xff \<and>
   SG2002_RTOS_INFO_CAPABILITIES (SG2002_RTOS_INFO_ENCODE a b c) = c AND 0xff \<and>
   (SG2002_RTOS_INFO_IS_VALID w \<longleftrightarrow>
     SG2002_RTOS_INFO_ENCODE (SG2002_RTOS_INFO_MAJOR w) (SG2002_RTOS_INFO_MINOR w)
       (SG2002_RTOS_INFO_CAPABILITIES w) = w) \<and>
   SG2002_RTOS_INFO_MAJOR SG2002_RTOS_INFO_VALUE = 1 \<and> SG2002_RTOS_INFO_MINOR SG2002_RTOS_INFO_VALUE = 0 \<and>
   SG2002_RTOS_INFO_CAPABILITIES SG2002_RTOS_INFO_VALUE = 3"
  using info_encode_decode by (simp add: SG2002_RTOS_INFO_VALUE_def)

end
