(* ===== verification/Shm_Abi.thy ===== *)
theory Shm_Abi
  imports Prelude
begin

section \<open>The shared-memory ABI\<close>

text \<open>
  \<^verbatim>\<open>include/sg2002_rtos_shm.h\<close>: the sizes of the region, the slot and control structures,
  and the typed contents of the region. The compile-time layout is modelled by the size,
  alignment and offset rules of the C ABI applied to the field lists of the header, so the
  static assertions of the header are theorems. The run-time contents are records with the
  fields the code reads and writes; the padding bytes are not accessed by any code and have
  no field. An address is the object a pointer of the code points to: a control line or a
  ring slot.
\<close>

subsection \<open>Constants\<close>

abbreviation SG2002_RTOS_SHM_MAGIC :: u32 where "SG2002_RTOS_SHM_MAGIC \<equiv> 0x53475251"
abbreviation SG2002_RTOS_SHM_ABI_VERSION :: "'a :: numeral" where
  "SG2002_RTOS_SHM_ABI_VERSION \<equiv> 2"
abbreviation SG2002_RTOS_SHM_FEATURES :: u32 where "SG2002_RTOS_SHM_FEATURES \<equiv> 1"
abbreviation SG2002_RTOS_SHM_CACHE_LINE_SIZE :: nat where "SG2002_RTOS_SHM_CACHE_LINE_SIZE \<equiv> 64"
abbreviation SG2002_RTOS_SHM_CONTROL_SIZE :: "'a :: numeral" where
  "SG2002_RTOS_SHM_CONTROL_SIZE \<equiv> 0x1000"
abbreviation SG2002_RTOS_SHM_SLOT_SIZE :: "'a :: numeral" where
  "SG2002_RTOS_SHM_SLOT_SIZE \<equiv> 1024"
abbreviation SG2002_RTOS_SHM_SLOT_COUNT :: "'a :: numeral" where
  "SG2002_RTOS_SHM_SLOT_COUNT \<equiv> 64"
abbreviation SG2002_RTOS_SHM_SLOT_HEADER_SIZE :: nat where "SG2002_RTOS_SHM_SLOT_HEADER_SIZE \<equiv> 6"
abbreviation SG2002_RTOS_SHM_PAYLOAD_SIZE :: "'a :: numeral" where
  "SG2002_RTOS_SHM_PAYLOAD_SIZE \<equiv> 1018"
abbreviation SG2002_RTOS_SHM_REQUEST_OFFSET :: "'a :: numeral" where
  "SG2002_RTOS_SHM_REQUEST_OFFSET \<equiv> 0x1000"
abbreviation SG2002_RTOS_SHM_RING_SIZE :: "'a :: numeral" where
  "SG2002_RTOS_SHM_RING_SIZE \<equiv> 0x10000"
abbreviation SG2002_RTOS_SHM_RESPONSE_OFFSET :: "'a :: numeral" where
  "SG2002_RTOS_SHM_RESPONSE_OFFSET \<equiv> 0x11000"
abbreviation SG2002_RTOS_SHM_REGION_SIZE :: "'a :: numeral" where
  "SG2002_RTOS_SHM_REGION_SIZE \<equiv> 0x21000"
abbreviation SG2002_RTOS_SHM_DOORBELL_COMMAND :: u8 where
  "SG2002_RTOS_SHM_DOORBELL_COMMAND \<equiv> 0x7f"
abbreviation SG2002_RTOS_SHM_STATE_OFFLINE :: u32 where "SG2002_RTOS_SHM_STATE_OFFLINE \<equiv> 0"
abbreviation SG2002_RTOS_SHM_STATE_READY :: u32 where "SG2002_RTOS_SHM_STATE_READY \<equiv> 1"
abbreviation SG2002_RTOS_SHM_STATE_ERROR :: u32 where "SG2002_RTOS_SHM_STATE_ERROR \<equiv> 2"
abbreviation SG2002_RTOS_SHM_DEFAULT_TIMEOUT_MS :: u32 where
  "SG2002_RTOS_SHM_DEFAULT_TIMEOUT_MS \<equiv> 3000"

subsection \<open>The C layout rules and the structures of the header\<close>

text \<open>
  An integer type of \<open>n\<close> bytes is aligned to \<open>n\<close>, an array to its element, a structure to
  its most aligned field; a field is placed at the next multiple of its alignment and the
  structure is padded to a multiple of its own.
\<close>

datatype ctype =
    CInt nat
  | CArray ctype nat
  | CStruct "(string \<times> ctype) list"

definition align_up :: "nat \<Rightarrow> nat \<Rightarrow> nat" where
  "align_up a n = (if n mod a = 0 then n else n + (a - n mod a))"

fun alignof :: "ctype \<Rightarrow> nat" and alignof_fields :: "(string \<times> ctype) list \<Rightarrow> nat" where
  "alignof (CInt n) = n"
| "alignof (CArray t n) = alignof t"
| "alignof (CStruct fs) = alignof_fields fs"
| "alignof_fields [] = 1"
| "alignof_fields ((f, t) # fs) = max (alignof t) (alignof_fields fs)"

fun sizeof :: "ctype \<Rightarrow> nat" and end_of_fields :: "nat \<Rightarrow> (string \<times> ctype) list \<Rightarrow> nat" where
  "sizeof (CInt n) = n"
| "sizeof (CArray t n) = n * sizeof t"
| "sizeof (CStruct fs) = align_up (alignof_fields fs) (end_of_fields 0 fs)"
| "end_of_fields off [] = off"
| "end_of_fields off ((f, t) # fs) = end_of_fields (align_up (alignof t) off + sizeof t) fs"

fun offsetof_from :: "nat \<Rightarrow> (string \<times> ctype) list \<Rightarrow> string \<Rightarrow> nat option" where
  "offsetof_from off [] f = None"
| "offsetof_from off ((g, t) # fs) f =
     (if f = g then Some (align_up (alignof t) off)
      else offsetof_from (align_up (alignof t) off + sizeof t) fs f)"

fun offsetof :: "ctype \<Rightarrow> string \<Rightarrow> nat option" where
  "offsetof (CStruct fs) f = offsetof_from 0 fs f"
| "offsetof _ f = None"

abbreviation c_u8 :: ctype where "c_u8 \<equiv> CInt 1"
abbreviation c_u16 :: ctype where "c_u16 \<equiv> CInt 2"
abbreviation c_u32 :: ctype where "c_u32 \<equiv> CInt 4"
abbreviation c_u64 :: ctype where "c_u64 \<equiv> CInt 8"

definition slot_ctype :: ctype where
  "slot_ctype = CStruct
     [(''sequence'', c_u32), (''length'', c_u16),
      (''payload'', CArray c_u8 SG2002_RTOS_SHM_PAYLOAD_SIZE)]"

definition layout_line_ctype :: ctype where
  "layout_line_ctype = CStruct
     [(''magic'', c_u32), (''abi_version'', c_u16), (''control_size'', c_u16),
      (''region_size'', c_u32), (''slot_size'', c_u16), (''slot_count'', c_u16),
      (''request_offset'', c_u32), (''response_offset'', c_u32), (''generation'', c_u32),
      (''features'', c_u32), (''reserved'', CArray c_u8 32)]"

definition peer_line_ctype :: ctype where
  "peer_line_ctype = CStruct
     [(''state'', c_u32), (''generation'', c_u32), (''reserved'', CArray c_u8 56)]"

definition counter_line_ctype :: ctype where
  "counter_line_ctype = CStruct [(''value'', c_u32), (''reserved'', CArray c_u8 60)]"

definition control_ctype :: ctype where
  "control_ctype = CStruct
     [(''layout'', layout_line_ctype), (''linux_peer'', peer_line_ctype),
      (''rtos_peer'', peer_line_ctype), (''request_producer'', counter_line_ctype),
      (''request_consumer'', counter_line_ctype), (''response_producer'', counter_line_ctype),
      (''response_consumer'', counter_line_ctype),
      (''reserved'', CArray c_u8 (SG2002_RTOS_SHM_CONTROL_SIZE - SG2002_RTOS_SHM_CACHE_LINE_SIZE * 7))]"

definition transfer_ctype :: ctype where
  "transfer_ctype = CStruct [(''timeout_ms'', c_u32), (''message'', slot_ctype)]"

definition batch_ctype :: ctype where
  "batch_ctype = CStruct
     [(''slots_ptr'', c_u64), (''timeout_ms'', c_u32), (''generation'', c_u32),
      (''count'', c_u16), (''completed'', c_u16), (''flags'', c_u32),
      (''reserved'', CArray c_u32 2)]"

subsection \<open>Contents of the region\<close>

record sg2002_rtos_shm_slot =
  sequence :: u32
  slot_length :: u16
  payload :: bytes

definition slot_wf :: "sg2002_rtos_shm_slot \<Rightarrow> bool" where
  "slot_wf s \<longleftrightarrow> length (payload s) = SG2002_RTOS_SHM_PAYLOAD_SIZE"

text \<open>A slot cleared by \<^verbatim>\<open>memset(&slot, 0, sizeof(slot))\<close>.\<close>

definition zero_slot :: sg2002_rtos_shm_slot where
  "zero_slot = \<lparr>sequence = 0, slot_length = 0,
     payload = replicate SG2002_RTOS_SHM_PAYLOAD_SIZE 0\<rparr>"

record sg2002_rtos_shm_layout_line =
  magic :: u32
  abi_version :: u16
  control_size :: u16
  region_size :: u32
  slot_size :: u16
  slot_count :: u16
  request_offset :: u32
  response_offset :: u32
  layout_generation :: u32
  features :: u32

record sg2002_rtos_shm_peer_line =
  peer_state :: u32
  peer_generation :: u32

record shm_region =
  layout :: sg2002_rtos_shm_layout_line
  linux_peer :: sg2002_rtos_shm_peer_line
  rtos_peer :: sg2002_rtos_shm_peer_line
  request_producer :: u32
  request_consumer :: u32
  response_producer :: u32
  response_consumer :: u32
  request_slots :: "sg2002_rtos_shm_slot list"
  response_slots :: "sg2002_rtos_shm_slot list"

definition region_wf :: "shm_region \<Rightarrow> bool" where
  "region_wf m \<longleftrightarrow>
     length (request_slots m) = SG2002_RTOS_SHM_SLOT_COUNT \<and>
     length (response_slots m) = SG2002_RTOS_SHM_SLOT_COUNT \<and>
     list_all slot_wf (request_slots m) \<and> list_all slot_wf (response_slots m)"

text \<open>The region after \<^verbatim>\<open>memset_io(base, 0, size)\<close>.\<close>

definition blank_region :: shm_region where
  "blank_region = \<lparr>layout = \<lparr>magic = 0, abi_version = 0, control_size = 0, region_size = 0,
       slot_size = 0, slot_count = 0, request_offset = 0, response_offset = 0,
       layout_generation = 0, features = 0\<rparr>,
     linux_peer = \<lparr>peer_state = 0, peer_generation = 0\<rparr>,
     rtos_peer = \<lparr>peer_state = 0, peer_generation = 0\<rparr>,
     request_producer = 0, request_consumer = 0, response_producer = 0, response_consumer = 0,
     request_slots = replicate SG2002_RTOS_SHM_SLOT_COUNT zero_slot,
     response_slots = replicate SG2002_RTOS_SHM_SLOT_COUNT zero_slot\<rparr>"

subsection \<open>Addresses\<close>

datatype counter_ptr = Request_producer | Request_consumer | Response_producer | Response_consumer
datatype slots_ptr = Request_slots | Response_slots

datatype shm_addr =
    Layout_line
  | Linux_peer_line
  | Rtos_peer_line
  | Counter_line counter_ptr
  | Slot_at slots_ptr nat

fun load_counter :: "counter_ptr \<Rightarrow> shm_region \<Rightarrow> u32" where
  "load_counter Request_producer m = request_producer m"
| "load_counter Request_consumer m = request_consumer m"
| "load_counter Response_producer m = response_producer m"
| "load_counter Response_consumer m = response_consumer m"

fun store_counter :: "counter_ptr \<Rightarrow> u32 \<Rightarrow> shm_region \<Rightarrow> shm_region" where
  "store_counter Request_producer v m = m\<lparr>request_producer := v\<rparr>"
| "store_counter Request_consumer v m = m\<lparr>request_consumer := v\<rparr>"
| "store_counter Response_producer v m = m\<lparr>response_producer := v\<rparr>"
| "store_counter Response_consumer v m = m\<lparr>response_consumer := v\<rparr>"

fun slots_of :: "slots_ptr \<Rightarrow> shm_region \<Rightarrow> sg2002_rtos_shm_slot list" where
  "slots_of Request_slots m = request_slots m"
| "slots_of Response_slots m = response_slots m"

fun store_slot :: "slots_ptr \<Rightarrow> nat \<Rightarrow> sg2002_rtos_shm_slot \<Rightarrow> shm_region \<Rightarrow> shm_region" where
  "store_slot Request_slots i s m = m\<lparr>request_slots := (request_slots m)[i := s]\<rparr>"
| "store_slot Response_slots i s m = m\<lparr>response_slots := (response_slots m)[i := s]\<rparr>"

text \<open>The byte range an address occupies in the region.\<close>

fun counter_offset :: "counter_ptr \<Rightarrow> nat" where
  "counter_offset Request_producer = 192"
| "counter_offset Request_consumer = 256"
| "counter_offset Response_producer = 320"
| "counter_offset Response_consumer = 384"

fun slots_offset :: "slots_ptr \<Rightarrow> nat" where
  "slots_offset Request_slots = SG2002_RTOS_SHM_REQUEST_OFFSET"
| "slots_offset Response_slots = SG2002_RTOS_SHM_RESPONSE_OFFSET"

fun addr_offset :: "shm_addr \<Rightarrow> nat" where
  "addr_offset Layout_line = 0"
| "addr_offset Linux_peer_line = 64"
| "addr_offset Rtos_peer_line = 128"
| "addr_offset (Counter_line c) = counter_offset c"
| "addr_offset (Slot_at p i) = slots_offset p + i * SG2002_RTOS_SHM_SLOT_SIZE"

fun addr_size :: "shm_addr \<Rightarrow> nat" where
  "addr_size (Slot_at p i) = SG2002_RTOS_SHM_SLOT_SIZE"
| "addr_size _ = SG2002_RTOS_SHM_CACHE_LINE_SIZE"

definition addr_in_region :: "shm_addr \<Rightarrow> bool" where
  "addr_in_region a \<longleftrightarrow> (case a of Slot_at p i \<Rightarrow> i < SG2002_RTOS_SHM_SLOT_COUNT | _ \<Rightarrow> True)"

subsection \<open>Lemmas\<close>

lemmas ctype_defs = slot_ctype_def layout_line_ctype_def peer_line_ctype_def
  counter_line_ctype_def control_ctype_def transfer_ctype_def batch_ctype_def align_up_def

lemma slot_ctype_size [simp]: "sizeof slot_ctype = 1024" "alignof slot_ctype = 4"
  by (simp_all add: ctype_defs)

lemma line_ctype_sizes [simp]:
  "sizeof layout_line_ctype = 64" "sizeof peer_line_ctype = 64" "sizeof counter_line_ctype = 64"
  "alignof layout_line_ctype = 4" "alignof peer_line_ctype = 4" "alignof counter_line_ctype = 4"
  by (simp_all add: ctype_defs)

lemma slot_wf_zero_slot [simp]: "slot_wf zero_slot"
  by (simp add: slot_wf_def zero_slot_def)

lemma load_store_counter [simp]:
  "load_counter c (store_counter d v m) = (if c = d then v else load_counter c m)"
  by (cases c; cases d) simp_all

lemma slots_of_store_counter [simp]: "slots_of p (store_counter c v m) = slots_of p m"
  by (cases c; cases p) simp_all

lemma load_counter_store_slot [simp]: "load_counter c (store_slot p i s m) = load_counter c m"
  by (cases c; cases p) simp_all

lemma slots_of_store_slot [simp]:
  "slots_of q (store_slot p i s m) = (if q = p then (slots_of p m)[i := s] else slots_of q m)"
  by (cases p; cases q) simp_all

lemma store_counter_id [simp]: "store_counter c (load_counter c m) m = m"
  by (cases c) simp_all

lemma store_counter_commute:
  "c \<noteq> d \<Longrightarrow> store_counter c v (store_counter d w m) = store_counter d w (store_counter c v m)"
  by (cases c; cases d) simp_all

lemma store_counter_twice [simp]: "store_counter c v (store_counter c w m) = store_counter c v m"
  by (cases c) simp_all

text \<open>What a ring operation leaves alone: the layout line and the two peer lines.\<close>

lemma control_store_counter [simp]:
  "layout (store_counter c v m) = layout m"
  "linux_peer (store_counter c v m) = linux_peer m"
  "rtos_peer (store_counter c v m) = rtos_peer m"
  by (cases c; simp)+

lemma control_store_slot [simp]:
  "layout (store_slot p i s m) = layout m"
  "linux_peer (store_slot p i s m) = linux_peer m"
  "rtos_peer (store_slot p i s m) = rtos_peer m"
  by (cases p; simp)+

lemma all_slots_ptr: "(\<forall>p. P p) \<longleftrightarrow> P Request_slots \<and> P Response_slots"
  by (metis slots_ptr.exhaust)

lemma region_wf_slots:
  "region_wf m \<longleftrightarrow> (\<forall>p. length (slots_of p m) = 64 \<and> list_all slot_wf (slots_of p m))"
  by (auto simp: region_wf_def all_slots_ptr)

lemma region_wf_store_counter [simp]: "region_wf (store_counter c v m) = region_wf m"
  by (simp add: region_wf_slots)

lemma list_all_update: "list_all P xs \<Longrightarrow> P x \<Longrightarrow> list_all P (xs[i := x])"
  by (induction xs arbitrary: i) (auto split: nat.splits)

lemma region_wf_store_slot: "region_wf m \<Longrightarrow> slot_wf s \<Longrightarrow> region_wf (store_slot p i s m)"
  by (auto simp: region_wf_slots list_all_update)

lemma addr_offset_aligned: "SG2002_RTOS_SHM_CACHE_LINE_SIZE dvd addr_offset a"
proof (cases a)
  case (Counter_line c)
  then show ?thesis by (cases c) simp_all
next
  case (Slot_at p i)
  have "(64 :: nat) dvd i * 1024" by (rule dvd_mult) simp
  with Slot_at show ?thesis by (cases p) (auto intro!: dvd_add)
qed simp_all

lemma region_wf_blank [simp]: "region_wf blank_region"
  by (simp add: region_wf_def blank_region_def list_all_iff)

lemma addr_in_bounds:
  "addr_in_region a \<Longrightarrow> addr_offset a + addr_size a \<le> SG2002_RTOS_SHM_REGION_SIZE"
proof (cases a)
  case (Counter_line c)
  then show ?thesis by (cases c) simp_all
next
  case (Slot_at p i)
  then show "addr_in_region a \<Longrightarrow> ?thesis" by (cases p) (simp_all add: addr_in_region_def)
qed simp_all

text \<open>Slots lie behind the control page, control lines inside it.\<close>

lemma slot_offset_ge: "0x1000 \<le> addr_offset (Slot_at p i)"
  by (cases p) simp_all

lemma line_offset_less:
  assumes "\<forall>p i. a \<noteq> Slot_at p i"
  shows "addr_offset a + addr_size a \<le> 0x1000"
proof (cases a)
  case (Counter_line c)
  then show ?thesis by (cases c) simp_all
qed (use assms in simp_all)

lemma counter_offset_pos [simp]: "0 < counter_offset c"
  by (cases c) simp_all

lemma lines_disjoint:
  assumes "\<forall>p i. a \<noteq> Slot_at p i" "\<forall>p i. b \<noteq> Slot_at p i" "a \<noteq> b"
  shows "addr_offset a + 64 \<le> addr_offset b \<or> addr_offset b + 64 \<le> addr_offset a"
proof -
  have "addr_offset a \<noteq> addr_offset b"
    using assms by (cases a; cases b) (auto elim!: counter_offset.elims)
  moreover have "\<exists>k. addr_offset a = 64 * k" "\<exists>k. addr_offset b = 64 * k"
    using addr_offset_aligned [of a] addr_offset_aligned [of b] by (auto elim!: dvdE)
  ultimately show ?thesis by auto
qed

lemma slots_disjoint:
  assumes "Slot_at p i \<noteq> Slot_at q j" "i < 64" "j < 64"
  shows "addr_offset (Slot_at p i) + 1024 \<le> addr_offset (Slot_at q j) \<or>
    addr_offset (Slot_at q j) + 1024 \<le> addr_offset (Slot_at p i)"
  using assms by (cases p; cases q) auto

lemma objects_disjoint:
  assumes "addr_in_region a" "addr_in_region b" "a \<noteq> b"
  shows "addr_offset a + addr_size a \<le> addr_offset b \<or> addr_offset b + addr_size b \<le> addr_offset a"
proof (cases "\<exists>p i. a = Slot_at p i"; cases "\<exists>q j. b = Slot_at q j")
  assume "\<exists>p i. a = Slot_at p i" "\<exists>q j. b = Slot_at q j"
  then show ?thesis using assms slots_disjoint by (force simp: addr_in_region_def)
next
  assume "\<exists>p i. a = Slot_at p i" "\<nexists>q j. b = Slot_at q j"
  then show ?thesis using line_offset_less [of b] slot_offset_ge by (metis le_trans)
next
  assume "\<nexists>p i. a = Slot_at p i" "\<exists>q j. b = Slot_at q j"
  then show ?thesis using line_offset_less [of a] slot_offset_ge by (metis le_trans)
next
  assume lines: "\<nexists>p i. a = Slot_at p i" "\<nexists>q j. b = Slot_at q j"
  then have "addr_size a = 64" "addr_size b = 64" by (cases a; cases b; simp)+
  with lines lines_disjoint [of a b] assms(3) show ?thesis by simp
qed

lemma control_ctype_offsets:
  "map (offsetof control_ctype) [''layout'', ''linux_peer'', ''rtos_peer'', ''request_producer'',
      ''request_consumer'', ''response_producer'', ''response_consumer''] =
    map (Some \<circ> addr_offset) [Layout_line, Linux_peer_line, Rtos_peer_line,
      Counter_line Request_producer, Counter_line Request_consumer,
      Counter_line Response_producer, Counter_line Response_consumer]"
  by (simp add: control_ctype_def align_up_def)

subsection \<open>Properties\<close>

text \<open>Under the C layout rules the structures of the header satisfy every static
  assertion the header makes: slot and transfer sizes, the 6-byte slot header, the layout of the
  batch descriptor, the power-of-two slot count, one cache line per control structure and a
  control page of 4 KiB.\<close>

theorem static_asserts_hold:
  "sizeof slot_ctype = SG2002_RTOS_SHM_SLOT_SIZE \<and>
   offsetof slot_ctype ''payload'' = Some SG2002_RTOS_SHM_SLOT_HEADER_SIZE \<and>
   sizeof transfer_ctype = 1028 \<and> sizeof batch_ctype = 32 \<and>
   map (offsetof batch_ctype) [''slots_ptr'', ''timeout_ms'', ''generation'', ''count'',
     ''completed'', ''flags'', ''reserved''] = map Some [0, 8, 12, 16, 18, 20, 24] \<and>
   (SG2002_RTOS_SHM_SLOT_COUNT :: u32) AND (SG2002_RTOS_SHM_SLOT_COUNT - 1) = 0 \<and>
   sizeof layout_line_ctype = SG2002_RTOS_SHM_CACHE_LINE_SIZE \<and>
   sizeof peer_line_ctype = SG2002_RTOS_SHM_CACHE_LINE_SIZE \<and>
   sizeof counter_line_ctype = SG2002_RTOS_SHM_CACHE_LINE_SIZE \<and>
   sizeof control_ctype = SG2002_RTOS_SHM_CONTROL_SIZE"
  by (simp add: transfer_ctype_def batch_ctype_def control_ctype_def align_up_def)
    (simp add: slot_ctype_def align_up_def)

text \<open>The addresses the code passes to the cache primitives are cache-line aligned
  objects of the region, two different ones never overlap, and the control lines are where the
  C layout of the control structure puts them; so maintaining one object never touches the cache
  lines of another.\<close>

theorem region_objects_disjoint:
  assumes "addr_in_region a" "addr_in_region b" "a \<noteq> b"
  shows "SG2002_RTOS_SHM_CACHE_LINE_SIZE dvd addr_offset a \<and>
    SG2002_RTOS_SHM_CACHE_LINE_SIZE dvd addr_size a \<and>
    addr_offset a + addr_size a \<le> SG2002_RTOS_SHM_REGION_SIZE \<and>
    (addr_offset a + addr_size a \<le> addr_offset b \<or> addr_offset b + addr_size b \<le> addr_offset a) \<and>
    map (offsetof control_ctype) [''layout'', ''linux_peer'', ''rtos_peer'', ''request_producer'',
      ''request_consumer'', ''response_producer'', ''response_consumer''] =
    map (Some \<circ> addr_offset) [Layout_line, Linux_peer_line, Rtos_peer_line,
      Counter_line Request_producer, Counter_line Request_consumer,
      Counter_line Response_producer, Counter_line Response_consumer]"
  using objects_disjoint [OF assms] addr_in_bounds [OF assms(1)] addr_offset_aligned [of a]
    control_ctype_offsets
  by (cases a) simp_all

theorem region_objects_disjoint_witness:
  "addr_offset (Slot_at Request_slots 63) + addr_size (Slot_at Request_slots 63)
     \<le> addr_offset (Slot_at Response_slots 0)"
  using region_objects_disjoint [of "Slot_at Request_slots 63" "Slot_at Response_slots 0"]
  by (simp add: addr_in_region_def)

end
