(* ===== verification/Fifo_Spec.thy ===== *)
theory Fifo_Spec
  imports Prelude
begin

section \<open>Interface: a bounded first-in first-out channel\<close>

text \<open>
  What a ring promises to its clients, independently of counters, slots and caches: a list of
  messages of bounded length. Pushing appends when there is room and is refused without any
  effect when there is none; popping returns the oldest message. The laws are stated over any
  state type, so the same client lemmas hold for the ring in uncached memory and for the ring
  behind a write-back cache.
\<close>

datatype 'm fifo_op = Push 'm | Pop

text \<open>Running a client that issues the operations in order: the messages accepted, the
  messages received, and the final state.\<close>

fun fifo_run ::
  "('m \<Rightarrow> 's \<Rightarrow> bool \<times> 's) \<Rightarrow> ('s \<Rightarrow> 'm option \<times> 's) \<Rightarrow> 'm fifo_op list \<Rightarrow> 's \<Rightarrow>
    'm list \<times> 'm list \<times> 's" where
  "fifo_run push pop [] s = ([], [], s)"
| "fifo_run push pop (Push m # ops) s =
     (let (ok, s') = push m s; (acc, rcv, t) = fifo_run push pop ops s'
      in (if ok then m # acc else acc, rcv, t))"
| "fifo_run push pop (Pop # ops) s =
     (let (r, s') = pop s; (acc, rcv, t) = fifo_run push pop ops s'
      in (acc, (case r of None \<Rightarrow> rcv | Some m \<Rightarrow> m # rcv), t))"

fun op_ok :: "('m \<Rightarrow> bool) \<Rightarrow> 'm fifo_op \<Rightarrow> bool" where
  "op_ok ok (Push m) = ok m"
| "op_ok ok Pop = True"

locale bounded_fifo =
  fixes push :: "'m \<Rightarrow> 's \<Rightarrow> bool \<times> 's"
    and pop :: "'s \<Rightarrow> 'm option \<times> 's"
    and contents :: "'s \<Rightarrow> 'm list"
    and capacity :: nat
    and invar :: "'s \<Rightarrow> bool"
    and msg_ok :: "'m \<Rightarrow> bool"
  assumes capacity_bound: "invar s \<Longrightarrow> length (contents s) \<le> capacity"
    and push_room: "invar s \<Longrightarrow> msg_ok m \<Longrightarrow> length (contents s) < capacity \<Longrightarrow>
      fst (push m s) \<and> contents (snd (push m s)) = contents s @ [m]"
    and push_full: "invar s \<Longrightarrow> msg_ok m \<Longrightarrow> length (contents s) = capacity \<Longrightarrow>
      \<not> fst (push m s) \<and> contents (snd (push m s)) = contents s"
    and push_invar: "invar s \<Longrightarrow> msg_ok m \<Longrightarrow> invar (snd (push m s))"
    and pop_empty: "invar s \<Longrightarrow> contents s = [] \<Longrightarrow>
      fst (pop s) = None \<and> contents (snd (pop s)) = []"
    and pop_cons: "invar s \<Longrightarrow> contents s = m # ms \<Longrightarrow>
      fst (pop s) = Some m \<and> contents (snd (pop s)) = ms"
    and pop_invar: "invar s \<Longrightarrow> invar (snd (pop s))"
begin

lemma push_cases:
  assumes "invar s" "msg_ok m"
  obtains (room) s' where "push m s = (True, s')" "contents s' = contents s @ [m]" "invar s'"
    | (full) s' where "push m s = (False, s')" "contents s' = contents s" "invar s'"
      "length (contents s) = capacity"
  using assms capacity_bound [of s] push_room [of s m] push_full [of s m] push_invar [of s m]
  by (cases "push m s"; cases "length (contents s) < capacity") auto

lemma pop_cases:
  assumes "invar s"
  obtains (none) s' where "pop s = (None, s')" "contents s = []" "contents s' = []" "invar s'"
    | (some) m s' where "pop s = (Some m, s')" "contents s = m # contents s'" "invar s'"
  using assms pop_empty [of s] pop_cons [of s] pop_invar [of s]
  by (cases "pop s"; cases "contents s") auto

text \<open>Nothing is lost, duplicated or reordered: what was queued and then accepted is what was
  received followed by what is still queued.\<close>

lemma run_conserves:
  assumes "invar s" "list_all (op_ok msg_ok) ops" "fifo_run push pop ops s = (acc, rcv, t)"
  shows "contents s @ acc = rcv @ contents t \<and> invar t"
  using assms
proof (induction ops arbitrary: s acc rcv t)
  case Nil
  then show ?case by simp
next
  case (Cons x ops)
  show ?case
  proof (cases x)
    case (Push m)
    with Cons.prems have "msg_ok m" by simp
    with \<open>invar s\<close> show ?thesis
      by (cases rule: push_cases) (use Cons Push in \<open>fastforce split: prod.splits\<close>)+
  next
    case Pop
    from \<open>invar s\<close> show ?thesis
      by (cases rule: pop_cases) (use Cons Pop in \<open>fastforce split: prod.splits\<close>)+
  qed
qed

end

end
