(* ===== verification/Ring.thy ===== *)
theory Ring
  imports Shm_Abi Fifo_Spec
begin

section \<open>The single-producer single-consumer ring\<close>

text \<open>
  \<^verbatim>\<open>include/sg2002_rtos_ring.h\<close> and \<^verbatim>\<open>core/sg2002_rtos_ring.c\<close>. A ring is two counters and a
  slot array in the shared region, reached through pointers that may be null, together with
  optional cache-maintenance callbacks. The operations act on the memory of the CPU that runs
  them (\<open>view\<close>); the callbacks may change that memory and anything else of the world \<open>'w\<close>.

  The lemmas give closed forms of the operations when the callbacks have no effect on memory
  (Linux maps the region uncached) and when they maintain a write-back cache over the shared
  RAM (the C906L), and show in both cases that the ring is a bounded first-in first-out
  channel of 64 messages, also across the wrap-around of its 32-bit counters.
\<close>

subsection \<open>Data\<close>

datatype sg2002_rtos_ring_result =
    SG2002_RTOS_RING_OK
  | SG2002_RTOS_RING_EMPTY
  | SG2002_RTOS_RING_FULL
  | SG2002_RTOS_RING_CORRUPT
  | SG2002_RTOS_RING_INVALID

fun ring_result_code :: "sg2002_rtos_ring_result \<Rightarrow> int" where
  "ring_result_code SG2002_RTOS_RING_OK = 0"
| "ring_result_code SG2002_RTOS_RING_EMPTY = 1"
| "ring_result_code SG2002_RTOS_RING_FULL = 2"
| "ring_result_code SG2002_RTOS_RING_CORRUPT = 3"
| "ring_result_code SG2002_RTOS_RING_INVALID = 4"

text \<open>The memory a CPU's loads and stores act on.\<close>

record cpu_mem =
  view :: shm_region

record ('c, 'w) sg2002_rtos_ring_cache_ops =
  ops_sync_for_cpu :: "('c \<Rightarrow> shm_addr \<Rightarrow> nat \<Rightarrow> 'w \<Rightarrow> 'w) option"
  ops_sync_for_device :: "('c \<Rightarrow> shm_addr \<Rightarrow> nat \<Rightarrow> 'w \<Rightarrow> 'w) option"
  ops_memory_barrier :: "('c \<Rightarrow> 'w \<Rightarrow> 'w) option"
  ops_context :: 'c

record ('c, 'w) sg2002_rtos_ring =
  ring_producer :: "counter_ptr option"
  ring_consumer :: "counter_ptr option"
  ring_slots :: "slots_ptr option"
  ring_cache_ops :: "('c, 'w) sg2002_rtos_ring_cache_ops option"

subsection \<open>Operations\<close>

definition sync_for_cpu :: "('c, 'w) sg2002_rtos_ring \<Rightarrow> shm_addr \<Rightarrow> nat \<Rightarrow> 'w \<Rightarrow> 'w" where
  "sync_for_cpu r a n w = (case ring_cache_ops r of None \<Rightarrow> w
     | Some ops \<Rightarrow> (case ops_sync_for_cpu ops of None \<Rightarrow> w
       | Some f \<Rightarrow> f (ops_context ops) a n w))"

definition sync_for_device :: "('c, 'w) sg2002_rtos_ring \<Rightarrow> shm_addr \<Rightarrow> nat \<Rightarrow> 'w \<Rightarrow> 'w" where
  "sync_for_device r a n w = (case ring_cache_ops r of None \<Rightarrow> w
     | Some ops \<Rightarrow> (case ops_sync_for_device ops of None \<Rightarrow> w
       | Some f \<Rightarrow> f (ops_context ops) a n w))"

definition memory_barrier :: "('c, 'w) sg2002_rtos_ring \<Rightarrow> 'w \<Rightarrow> 'w" where
  "memory_barrier r w = (case ring_cache_ops r of None \<Rightarrow> w
     | Some ops \<Rightarrow> (case ops_memory_barrier ops of None \<Rightarrow> w | Some f \<Rightarrow> f (ops_context ops) w))"

text \<open>The three out-parameters are values of the result; every caller passes the addresses of
  its own locals, so they are never null.\<close>

definition read_occupancy ::
  "('c, 'x cpu_mem_scheme) sg2002_rtos_ring option \<Rightarrow> 'x cpu_mem_scheme \<Rightarrow>
    (sg2002_rtos_ring_result + u32 \<times> u32 \<times> u32) \<times> 'x cpu_mem_scheme" where
  "read_occupancy ring w = (case ring of None \<Rightarrow> (Inl SG2002_RTOS_RING_INVALID, w)
     | Some r \<Rightarrow>
         (case (ring_producer r, ring_consumer r, ring_slots r) of
            (Some P, Some C, Some S) \<Rightarrow>
              let w = sync_for_cpu r (Counter_line P) (addr_size (Counter_line P)) w;
                  w = sync_for_cpu r (Counter_line C) (addr_size (Counter_line C)) w;
                  w = memory_barrier r w;
                  producer = load_counter P (view w);
                  consumer = load_counter C (view w);
                  occupancy = producer - consumer
              in if occupancy > SG2002_RTOS_SHM_SLOT_COUNT then (Inl SG2002_RTOS_RING_CORRUPT, w)
                 else (Inr (producer, consumer, occupancy), w)
          | _ \<Rightarrow> (Inl SG2002_RTOS_RING_INVALID, w)))"

text \<open>Initialising a null ring has no effect.\<close>

definition sg2002_rtos_ring_init ::
  "('c, 'w) sg2002_rtos_ring option \<Rightarrow> counter_ptr option \<Rightarrow> counter_ptr option \<Rightarrow>
    slots_ptr option \<Rightarrow> ('c, 'w) sg2002_rtos_ring_cache_ops option \<Rightarrow>
    ('c, 'w) sg2002_rtos_ring option" where
  "sg2002_rtos_ring_init ring producer consumer slots cache_ops = (case ring of None \<Rightarrow> None
     | Some r \<Rightarrow> Some (r\<lparr>ring_producer := producer, ring_consumer := consumer,
         ring_slots := slots, ring_cache_ops := cache_ops\<rparr>))"

definition sg2002_rtos_ring_can_push ::
  "('c, 'x cpu_mem_scheme) sg2002_rtos_ring option \<Rightarrow> 'x cpu_mem_scheme \<Rightarrow>
    int \<times> 'x cpu_mem_scheme" where
  "sg2002_rtos_ring_can_push ring w = (case read_occupancy ring w of
       (Inl result, w) \<Rightarrow> (- ring_result_code result, w)
     | (Inr (producer, consumer, occupancy), w) \<Rightarrow>
         (if occupancy < SG2002_RTOS_SHM_SLOT_COUNT then 1 else 0, w))"

definition sg2002_rtos_ring_try_push ::
  "('c, 'x cpu_mem_scheme) sg2002_rtos_ring option \<Rightarrow> sg2002_rtos_shm_slot option \<Rightarrow>
    'x cpu_mem_scheme \<Rightarrow> sg2002_rtos_ring_result \<times> 'x cpu_mem_scheme" where
  "sg2002_rtos_ring_try_push ring message w = (case message of
       None \<Rightarrow> (SG2002_RTOS_RING_INVALID, w)
     | Some msg \<Rightarrow>
         if slot_length msg > SG2002_RTOS_SHM_PAYLOAD_SIZE then (SG2002_RTOS_RING_INVALID, w)
         else (case read_occupancy ring w of
             (Inl result, w) \<Rightarrow> (result, w)
           | (Inr (producer, consumer, occupancy), w) \<Rightarrow>
               if occupancy = SG2002_RTOS_SHM_SLOT_COUNT then (SG2002_RTOS_RING_FULL, w)
               else (case ring of Some r \<Rightarrow>
                 (case (ring_producer r, ring_slots r) of (Some P, Some S) \<Rightarrow>
                   let i = unat (producer AND (SG2002_RTOS_SHM_SLOT_COUNT - 1));
                       w = w\<lparr>view := store_slot S i msg (view w)\<rparr>;
                       w = sync_for_device r (Slot_at S i) (addr_size (Slot_at S i)) w;
                       w = memory_barrier r w;
                       w = w\<lparr>view := store_counter P (producer + 1) (view w)\<rparr>;
                       w = sync_for_device r (Counter_line P) (addr_size (Counter_line P)) w;
                       w = memory_barrier r w
                   in (SG2002_RTOS_RING_OK, w)
                 | _ \<Rightarrow> (SG2002_RTOS_RING_INVALID, w))
               | None \<Rightarrow> (SG2002_RTOS_RING_INVALID, w))))"

text \<open>In the two operations below the branches for null pointers after a successful
  \<open>read_occupancy\<close> are unreachable: it returns \<open>Inr\<close> only when no pointer is null. The
  destination of a pop is returned with the new contents, unchanged where the code
  returns before its \<^verbatim>\<open>memcpy\<close>.\<close>

definition sg2002_rtos_ring_try_pop ::
  "('c, 'x cpu_mem_scheme) sg2002_rtos_ring option \<Rightarrow> sg2002_rtos_shm_slot option \<Rightarrow>
    'x cpu_mem_scheme \<Rightarrow>
    sg2002_rtos_ring_result \<times> sg2002_rtos_shm_slot option \<times> 'x cpu_mem_scheme" where
  "sg2002_rtos_ring_try_pop ring message w = (case message of
       None \<Rightarrow> (SG2002_RTOS_RING_INVALID, None, w)
     | Some old \<Rightarrow> (case read_occupancy ring w of
         (Inl result, w) \<Rightarrow> (result, Some old, w)
       | (Inr (producer, consumer, occupancy), w) \<Rightarrow>
           if occupancy = 0 then (SG2002_RTOS_RING_EMPTY, Some old, w)
           else (case ring of Some r \<Rightarrow>
             (case (ring_consumer r, ring_slots r) of (Some C, Some S) \<Rightarrow>
               let i = unat (consumer AND (SG2002_RTOS_SHM_SLOT_COUNT - 1));
                   w = sync_for_cpu r (Slot_at S i) (addr_size (Slot_at S i)) w;
                   w = memory_barrier r w;
                   msg = slots_of S (view w) ! i;
                   w = memory_barrier r w;
                   w = w\<lparr>view := store_counter C (consumer + 1) (view w)\<rparr>;
                   w = sync_for_device r (Counter_line C) (addr_size (Counter_line C)) w;
                   w = memory_barrier r w
               in (if slot_length msg > SG2002_RTOS_SHM_PAYLOAD_SIZE
                   then SG2002_RTOS_RING_CORRUPT else SG2002_RTOS_RING_OK, Some msg, w)
             | _ \<Rightarrow> (SG2002_RTOS_RING_INVALID, Some old, w))
           | None \<Rightarrow> (SG2002_RTOS_RING_INVALID, Some old, w))))"

subsection \<open>Abstraction: the messages between the two counters\<close>

definition ring_count :: "counter_ptr \<Rightarrow> counter_ptr \<Rightarrow> shm_region \<Rightarrow> nat" where
  "ring_count P C m = unat (load_counter P m - load_counter C m)"

definition ring_index :: "counter_ptr \<Rightarrow> shm_region \<Rightarrow> nat" where
  "ring_index c m = unat (load_counter c m) mod 64"

definition ring_contents ::
  "counter_ptr \<Rightarrow> counter_ptr \<Rightarrow> slots_ptr \<Rightarrow> shm_region \<Rightarrow> sg2002_rtos_shm_slot list" where
  "ring_contents P C S m =
     map (\<lambda>i. slots_of S m ! ((unat (load_counter C m) + i) mod 64)) [0..<ring_count P C m]"

text \<open>The counters are consistent and every slot has its full payload array.\<close>

definition ring_ok :: "counter_ptr \<Rightarrow> counter_ptr \<Rightarrow> shm_region \<Rightarrow> bool" where
  "ring_ok P C m \<longleftrightarrow> ring_count P C m \<le> 64 \<and> region_wf m"

text \<open>The memory effect of an accepted push and of a pop.\<close>

definition push_effect ::
  "counter_ptr \<Rightarrow> slots_ptr \<Rightarrow> sg2002_rtos_shm_slot \<Rightarrow> shm_region \<Rightarrow> shm_region" where
  "push_effect P S msg m =
     store_counter P (load_counter P m + 1) (store_slot S (ring_index P m) msg m)"

definition pop_effect :: "counter_ptr \<Rightarrow> shm_region \<Rightarrow> shm_region" where
  "pop_effect C m = store_counter C (load_counter C m + 1) m"

definition pop_message :: "counter_ptr \<Rightarrow> slots_ptr \<Rightarrow> shm_region \<Rightarrow> sg2002_rtos_shm_slot" where
  "pop_message C S m = slots_of S m ! ring_index C m"

lemma length_ring_contents [simp]: "length (ring_contents P C S m) = ring_count P C m"
  by (simp add: ring_contents_def)

lemma ring_index_less [simp]: "ring_index c m < 64"
  by (simp add: ring_index_def)

lemma ring_count_word:
  "load_counter P m - load_counter C m > 64 \<longleftrightarrow> ring_count P C m > 64"
  "load_counter P m - load_counter C m < 64 \<longleftrightarrow> ring_count P C m < 64"
  "load_counter P m - load_counter C m = 64 \<longleftrightarrow> ring_count P C m = 64"
  "load_counter P m - load_counter C m = 0 \<longleftrightarrow> ring_count P C m = 0"
  by (auto simp: ring_count_def word_less_nat_alt word_le_nat_alt word_unat_eq_iff
      simp del: right_minus_eq)

lemma load_counter_eq_iff: "load_counter P m = load_counter C m \<longleftrightarrow> ring_count P C m = 0"
  using ring_count_word(4) [of P m C] by simp

text \<open>The two counter positions select the same slot exactly when the ring is empty or full.\<close>

lemma producer_index:
  "(unat (load_counter C m) + ring_count P C m) mod 64 = ring_index P m"
proof -
  have "load_counter C m + of_nat (ring_count P C m) = load_counter P m"
    by (simp add: ring_count_def)
  then show ?thesis
    using unat_add_and_63 [of "load_counter C m" "ring_count P C m"]
      unat_and_63 [of "load_counter P m"]
    by (simp only: ring_index_def)
qed

lemma contents_push:
  assumes "P \<noteq> C" "ring_count P C m < 64" "region_wf m"
  shows "ring_contents P C S (push_effect P S msg m) = ring_contents P C S m @ [msg]"
proof -
  let ?c = "unat (load_counter C m)" and ?n = "ring_count P C m"
  have cnt: "ring_count P C (push_effect P S msg m) = Suc ?n"
    using assms(1,2) by (simp add: ring_count_def push_effect_def unat_succ_diff)
  have len: "length (slots_of S m) = 64"
    using assms(3) by (simp add: region_wf_slots)
  have idx: "ring_index P m \<noteq> (?c + i) mod 64" if "i < ?n" for i
    using mod_64_window_inj [of ?c i ?n] that assms(2) producer_index [where P = P and C = C and m = m]
    by auto
  show ?thesis
    using assms(1) idx len unfolding ring_contents_def cnt
    by (auto simp: push_effect_def producer_index)
qed

lemma ring_contents_cons:
  assumes "0 < ring_count P C m"
  shows "ring_contents P C S m = pop_message C S m # tl (ring_contents P C S m)"
  using assms by (simp add: ring_contents_def pop_message_def ring_index_def upt_conv_Cons)

lemma ring_count_pop:
  assumes "P \<noteq> C" "0 < ring_count P C m"
  shows "ring_count P C (pop_effect C m) = ring_count P C m - 1"
  using assms by (simp add: ring_count_def pop_effect_def unat_diff_succ)

lemma contents_pop:
  assumes "P \<noteq> C" "0 < ring_count P C m"
  shows "ring_contents P C S (pop_effect C m) = tl (ring_contents P C S m)"
proof -
  have "ring_contents P C S (pop_effect C m) =
      map (\<lambda>i. slots_of S m ! ((unat (load_counter C m) + Suc i) mod 64)) [0..<ring_count P C m - 1]"
    unfolding ring_contents_def ring_count_pop [OF assms]
    by (simp add: pop_effect_def unat_succ_mod_64 del: add_Suc_right)
  also have "\<dots> = tl (ring_contents P C S m)"
    by (rule nth_equalityI) (simp_all add: ring_contents_def nth_tl)
  finally show ?thesis .
qed

lemma ring_ok_push:
  assumes "P \<noteq> C" "ring_ok P C m" "ring_count P C m < 64" "slot_wf msg"
  shows "ring_ok P C (push_effect P S msg m)"
proof -
  have "ring_count P C (push_effect P S msg m) = Suc (ring_count P C m)"
    using contents_push [of P C m S msg] assms by (metis length_append_singleton
        length_ring_contents ring_ok_def)
  with assms show ?thesis
    by (simp add: ring_ok_def push_effect_def region_wf_store_slot)
qed

lemma ring_ok_pop:
  assumes "P \<noteq> C" "ring_ok P C m" "0 < ring_count P C m"
  shows "ring_ok P C (pop_effect C m)"
  using assms ring_count_pop [OF assms(1,3)]
  by (auto simp: ring_ok_def) (auto simp: pop_effect_def)

text \<open>A ring whose counters and slots are other objects is not affected.\<close>

lemma other_ring_push_count [simp]:
  "P \<notin> {P', C'} \<Longrightarrow> ring_count P' C' (push_effect P S msg m) = ring_count P' C' m"
  by (auto simp: ring_count_def push_effect_def)

lemma other_ring_push [simp]:
  assumes "P \<notin> {P', C'}" "S \<noteq> S'"
  shows "ring_contents P' C' S' (push_effect P S msg m) = ring_contents P' C' S' m"
  using assms by (auto simp: ring_contents_def ring_count_def push_effect_def)

lemma other_ring_pop [simp]:
  assumes "C \<notin> {P', C'}"
  shows "ring_contents P' C' S' (pop_effect C m) = ring_contents P' C' S' m"
    and "ring_count P' C' (pop_effect C m) = ring_count P' C' m"
  using assms by (auto simp: ring_contents_def ring_count_def pop_effect_def)

lemma region_wf_pop_effect [simp]: "region_wf (pop_effect C m) = region_wf m"
  by (simp add: pop_effect_def)

lemma control_ring_effects [simp]:
  "layout (push_effect P S msg m) = layout m" "layout (pop_effect C m) = layout m"
  "linux_peer (push_effect P S msg m) = linux_peer m" "linux_peer (pop_effect C m) = linux_peer m"
  "rtos_peer (push_effect P S msg m) = rtos_peer m" "rtos_peer (pop_effect C m) = rtos_peer m"
  by (simp_all add: push_effect_def pop_effect_def)

subsection \<open>Closed forms over uncached memory\<close>

definition ring_ptrs ::
  "('c, 'w) sg2002_rtos_ring \<Rightarrow> counter_ptr \<Rightarrow> counter_ptr \<Rightarrow> slots_ptr \<Rightarrow> bool" where
  "ring_ptrs r P C S \<longleftrightarrow> ring_producer r = Some P \<and> ring_consumer r = Some C \<and>
     ring_slots r = Some S \<and> P \<noteq> C"

definition ops_transparent :: "('c, 'w) sg2002_rtos_ring \<Rightarrow> bool" where
  "ops_transparent r \<longleftrightarrow> (\<forall>a n w. sync_for_cpu r a n w = w \<and> sync_for_device r a n w = w) \<and>
     (\<forall>w. memory_barrier r w = w)"

lemma ops_transparent_null: "ring_cache_ops r = None \<Longrightarrow> ops_transparent r"
  by (simp add: ops_transparent_def sync_for_cpu_def sync_for_device_def memory_barrier_def)

lemma read_occupancy_uncached:
  assumes "ring_ptrs r P C S" "ops_transparent r"
  shows "read_occupancy (Some r) w =
    (if ring_count P C (view w) > 64 then (Inl SG2002_RTOS_RING_CORRUPT, w)
     else (Inr (load_counter P (view w), load_counter C (view w),
                load_counter P (view w) - load_counter C (view w)), w))"
  using assms by (simp add: read_occupancy_def ring_ptrs_def ops_transparent_def Let_def
      ring_count_word)

lemma can_push_uncached:
  assumes "ring_ptrs r P C S" "ops_transparent r"
  shows "sg2002_rtos_ring_can_push (Some r) w =
    (if ring_count P C (view w) > 64 then -3 else if ring_count P C (view w) < 64 then 1 else 0, w)"
  using assms by (simp add: sg2002_rtos_ring_can_push_def read_occupancy_uncached ring_count_word)

lemma try_push_uncached:
  assumes "ring_ptrs r P C S" "ops_transparent r"
  shows "sg2002_rtos_ring_try_push (Some r) (Some msg) w =
    (if slot_length msg > SG2002_RTOS_SHM_PAYLOAD_SIZE then (SG2002_RTOS_RING_INVALID, w)
     else if ring_count P C (view w) > 64 then (SG2002_RTOS_RING_CORRUPT, w)
     else if ring_count P C (view w) = 64 then (SG2002_RTOS_RING_FULL, w)
     else (SG2002_RTOS_RING_OK, w\<lparr>view := push_effect P S msg (view w)\<rparr>))"
  using assms by (simp add: sg2002_rtos_ring_try_push_def read_occupancy_uncached ring_count_word)
    (simp add: ring_ptrs_def ops_transparent_def Let_def push_effect_def ring_index_def unat_and_63)

lemma try_pop_uncached:
  assumes "ring_ptrs r P C S" "ops_transparent r"
  shows "sg2002_rtos_ring_try_pop (Some r) (Some old) w =
    (if ring_count P C (view w) > 64 then (SG2002_RTOS_RING_CORRUPT, Some old, w)
     else if ring_count P C (view w) = 0 then (SG2002_RTOS_RING_EMPTY, Some old, w)
     else let msg = pop_message C S (view w) in
       (if slot_length msg > SG2002_RTOS_SHM_PAYLOAD_SIZE
        then SG2002_RTOS_RING_CORRUPT else SG2002_RTOS_RING_OK,
        Some msg, w\<lparr>view := pop_effect C (view w)\<rparr>))"
  using assms by (simp add: sg2002_rtos_ring_try_pop_def read_occupancy_uncached ring_count_word)
    (simp add: ring_ptrs_def ops_transparent_def Let_def pop_effect_def pop_message_def
      ring_index_def unat_and_63 load_counter_eq_iff)

subsection \<open>A ring is a bounded FIFO\<close>

definition message_ok :: "sg2002_rtos_shm_slot \<Rightarrow> bool" where
  "message_ok msg \<longleftrightarrow> slot_wf msg \<and> slot_length msg \<le> SG2002_RTOS_SHM_PAYLOAD_SIZE"

definition ring_contents_ok :: "counter_ptr \<Rightarrow> counter_ptr \<Rightarrow> slots_ptr \<Rightarrow> shm_region \<Rightarrow> bool" where
  "ring_contents_ok P C S m \<longleftrightarrow>
     ring_ok P C m \<and> list_all message_ok (ring_contents P C S m)"

lemma contents_pop_cons:
  assumes "P \<noteq> C" "ring_contents P C S m = msg # msgs"
  shows "pop_message C S m = msg \<and> ring_contents P C S (pop_effect C m) = msgs \<and>
    0 < ring_count P C m"
proof -
  have n: "0 < ring_count P C m"
    using assms(2) length_ring_contents [of P C S m] by (metis length_greater_0_conv list.distinct(1))
  with assms ring_contents_cons [OF n, of S] contents_pop [OF assms(1) n, of S] show ?thesis by simp
qed

lemma contents_nil: "ring_contents P C S m = [] \<longleftrightarrow> ring_count P C m = 0"
  by (metis length_0_conv length_ring_contents)

lemma ring_contents_ok_push:
  assumes "P \<noteq> C" "ring_contents_ok P C S m" "ring_count P C m < 64" "message_ok msg"
  shows "ring_contents_ok P C S (push_effect P S msg m)"
  using assms by (auto simp: ring_contents_ok_def message_ok_def ring_ok_push)
    (simp add: ring_ok_def contents_push message_ok_def)

lemma ring_contents_ok_pop:
  assumes "P \<noteq> C" "ring_contents_ok P C S m" "0 < ring_count P C m"
  shows "ring_contents_ok P C S (pop_effect C m)"
proof -
  have "list_all message_ok (tl (ring_contents P C S m))"
    using assms(2) by (cases "ring_contents P C S m") (auto simp: ring_contents_ok_def)
  with assms show ?thesis
    by (simp add: ring_contents_ok_def ring_ok_pop contents_pop)
qed

text \<open>Whatever memory the counters and slots live in (\<open>reg\<close>), operations with the closed forms
  above satisfy the laws of the interface.\<close>

locale region_ring =
  fixes push :: "sg2002_rtos_shm_slot \<Rightarrow> 's \<Rightarrow> bool \<times> 's"
    and pop :: "'s \<Rightarrow> sg2002_rtos_shm_slot option \<times> 's"
    and reg :: "'s \<Rightarrow> shm_region"
    and good :: "'s \<Rightarrow> bool"
    and P C :: counter_ptr
    and S :: slots_ptr
  assumes distinct_counters: "good s \<Longrightarrow> P \<noteq> C"
    and push_closed: "good s \<Longrightarrow> message_ok m \<Longrightarrow> ring_count P C (reg s) \<le> 64 \<Longrightarrow>
      good (snd (push m s)) \<and>
      (if ring_count P C (reg s) = 64 then \<not> fst (push m s) \<and> reg (snd (push m s)) = reg s
       else fst (push m s) \<and> reg (snd (push m s)) = push_effect P S m (reg s))"
    and pop_closed: "good s \<Longrightarrow> ring_contents_ok P C S (reg s) \<Longrightarrow>
      good (snd (pop s)) \<and>
      (if ring_count P C (reg s) = 0 then fst (pop s) = None \<and> reg (snd (pop s)) = reg s
       else fst (pop s) = Some (pop_message C S (reg s)) \<and>
         reg (snd (pop s)) = pop_effect C (reg s))"

sublocale region_ring \<subseteq> bounded_fifo push pop "\<lambda>s. ring_contents P C S (reg s)" 64
  "\<lambda>s. good s \<and> ring_contents_ok P C S (reg s)" message_ok
proof (unfold_locales, goal_cases)
  case (1 s)
  then show ?case by (simp add: ring_contents_ok_def ring_ok_def)
next
  case (2 s m)
  then show ?case
    using push_closed [of s m] distinct_counters [of s]
    by (simp add: ring_contents_ok_def ring_ok_def contents_push)
next
  case (3 s m)
  then show ?case
    using push_closed [of s m] by (simp add: ring_contents_ok_def ring_ok_def)
next
  case (4 s m)
  then show ?case
    using push_closed [of s m] distinct_counters [of s] ring_contents_ok_push [of P C S "reg s" m]
    by (auto simp: ring_contents_ok_def ring_ok_def split: if_splits)
next
  case (5 s)
  then show ?case
    using pop_closed [of s] by (simp add: contents_nil)
next
  case (6 s m ms)
  then show ?case
    using pop_closed [of s] contents_pop_cons [of P C S "reg s" m ms] distinct_counters [of s]
    by (simp split: if_splits)
next
  case (7 s)
  then show ?case
    using pop_closed [of s] ring_contents_ok_pop [of P C S "reg s"] distinct_counters [of s]
    by (auto split: if_splits)
qed

text \<open>The operations as a client of the interface sees them: a push that returned
  \<open>SG2002_RTOS_RING_OK\<close>, and the message of a pop that returned it.\<close>

definition ring_push ::
  "('c, 'x cpu_mem_scheme) sg2002_rtos_ring \<Rightarrow> sg2002_rtos_shm_slot \<Rightarrow> 'x cpu_mem_scheme \<Rightarrow>
    bool \<times> 'x cpu_mem_scheme" where
  "ring_push r msg w = (case sg2002_rtos_ring_try_push (Some r) (Some msg) w of
     (result, w') \<Rightarrow> (result = SG2002_RTOS_RING_OK, w'))"

definition ring_pop ::
  "('c, 'x cpu_mem_scheme) sg2002_rtos_ring \<Rightarrow> 'x cpu_mem_scheme \<Rightarrow>
    sg2002_rtos_shm_slot option \<times> 'x cpu_mem_scheme" where
  "ring_pop r w = (case sg2002_rtos_ring_try_pop (Some r) (Some zero_slot) w of
     (result, msg, w') \<Rightarrow> (if result = SG2002_RTOS_RING_OK then msg else None, w'))"

lemma pop_message_ok:
  assumes "ring_contents_ok P C S m" "0 < ring_count P C m"
  shows "message_ok (pop_message C S m)"
  using assms ring_contents_cons [of P C m S] by (metis list.pred_inject(2) ring_contents_ok_def)

interpretation uncached: region_ring "ring_push r" "ring_pop r" view
  "\<lambda>_. ring_ptrs r P C S \<and> ops_transparent r" P C S
  for r :: "('c, 'x cpu_mem_scheme) sg2002_rtos_ring" and P C S
proof (unfold_locales, goal_cases)
  case (1 s)
  then show ?case by (simp add: ring_ptrs_def)
next
  case (2 s m)
  then show ?case
    by (auto simp: ring_push_def try_push_uncached message_ok_def leD)
next
  case (3 s)
  then show ?case
    using pop_message_ok [of P C S "view s"]
    by (auto simp: ring_pop_def try_pop_uncached Let_def message_ok_def
        ring_contents_ok_def ring_ok_def leD)
qed

text \<open>A ring over the request structures with no cache callbacks, for concrete evaluations.\<close>

definition plain_ring :: "(unit, 'w) sg2002_rtos_ring" where
  "plain_ring = \<lparr>ring_producer = Some Request_producer, ring_consumer = Some Request_consumer,
     ring_slots = Some Request_slots, ring_cache_ops = None\<rparr>"

lemma plain_ring_ok: "ring_ptrs plain_ring Request_producer Request_consumer Request_slots"
    "ops_transparent plain_ring"
  by (simp_all add: plain_ring_def ring_ptrs_def ops_transparent_null)

text \<open>A region whose request counters both stand at \<open>c\<close>.\<close>

definition empty_at :: "u32 \<Rightarrow> shm_region" where
  "empty_at c = blank_region\<lparr>request_producer := c, request_consumer := c\<rparr>"

lemma empty_at_ok: "ring_contents_ok Request_producer Request_consumer Request_slots (empty_at c)"
    "ring_contents Request_producer Request_consumer Request_slots (empty_at c) = []"
    "region_wf (empty_at c)"
proof -
  show "region_wf (empty_at c)" using region_wf_blank by (simp add: empty_at_def region_wf_def)
  then show "ring_contents_ok Request_producer Request_consumer Request_slots (empty_at c)"
    "ring_contents Request_producer Request_consumer Request_slots (empty_at c) = []"
    by (simp_all add: ring_contents_ok_def ring_ok_def ring_contents_def ring_count_def empty_at_def)
qed

lemma message_ok_zero [simp]: "message_ok zero_slot"
  by (simp add: message_ok_def) (simp add: zero_slot_def)

subsection \<open>Properties\<close>



text \<open>A push on every branch. It is accepted exactly when the message fits a slot and
  the counters in memory are less than 64 apart, and then the message is appended; it answers
  INVALID, CORRUPT or FULL exactly when the message is too long, the counters are inconsistent or
  the ring is full, and then memory is unchanged.\<close>

theorem try_push_branches:
  assumes "ring_ptrs r P C S" "ops_transparent r" "region_wf (view w)"
    and "sg2002_rtos_ring_try_push (Some r) (Some msg) w = (result, w')"
    and "n = ring_count P C (view w)" "fits \<longleftrightarrow> slot_length msg \<le> SG2002_RTOS_SHM_PAYLOAD_SIZE"
  shows "(result = SG2002_RTOS_RING_OK \<longleftrightarrow> fits \<and> n < 64) \<and>
    (result = SG2002_RTOS_RING_INVALID \<longleftrightarrow> \<not> fits) \<and>
    (result = SG2002_RTOS_RING_CORRUPT \<longleftrightarrow> fits \<and> n > 64) \<and>
    (result = SG2002_RTOS_RING_FULL \<longleftrightarrow> fits \<and> n = 64) \<and>
    (if result = SG2002_RTOS_RING_OK
     then ring_contents P C S (view w') = ring_contents P C S (view w) @ [msg] else w' = w)"
  using assms contents_push [of P C "view w" S msg]
  by (auto simp: try_push_uncached ring_ptrs_def split: if_splits)

theorem try_push_branches_witness:
  "fst (sg2002_rtos_ring_try_push (Some plain_ring) (Some zero_slot)
      \<lparr>view = (empty_at 0)\<lparr>request_producer := 64\<rparr>\<rparr>) = SG2002_RTOS_RING_FULL"
proof -
  let ?w = "\<lparr>view = (empty_at 0)\<lparr>request_producer := 64\<rparr>\<rparr>"
  have "region_wf (view ?w)" using empty_at_ok(3) [of 0] by (simp add: region_wf_def empty_at_def)
  then show ?thesis
    using try_push_branches [OF plain_ring_ok, of ?w zero_slot _ _ 64 True, OF _ surjective_pairing]
      message_ok_zero by (simp add: message_ok_def) (simp add: ring_count_def empty_at_def)
qed

text \<open>A pop on every branch. With consistent counters and a message queued, the oldest
  message is delivered and leaves the ring, with the answer CORRUPT in place of OK when it claims
  more bytes than a slot holds; an empty ring answers EMPTY and inconsistent counters CORRUPT, and
  then neither memory nor the destination changes.\<close>

theorem try_pop_branches:
  assumes "ring_ptrs r P C S" "ops_transparent r"
    and "sg2002_rtos_ring_try_pop (Some r) (Some old) w = (result, dest, w')"
    and "n = ring_count P C (view w)"
  shows "if n > 64 then result = SG2002_RTOS_RING_CORRUPT \<and> dest = Some old \<and> w' = w
    else if n = 0 then result = SG2002_RTOS_RING_EMPTY \<and> dest = Some old \<and> w' = w
    else \<exists>msg. ring_contents P C S (view w) = msg # ring_contents P C S (view w') \<and>
      dest = Some msg \<and> result = (if slot_length msg \<le> SG2002_RTOS_SHM_PAYLOAD_SIZE
        then SG2002_RTOS_RING_OK else SG2002_RTOS_RING_CORRUPT)"
proof (cases "0 < n \<and> n \<le> 64")
  case True
  then show ?thesis
    using assms ring_contents_cons [of P C "view w" S] contents_pop [of P C "view w" S]
    by (simp add: try_pop_uncached, intro exI [of _ "pop_message C S (view w)"])
      (auto simp: ring_ptrs_def Let_def)
next
  case False
  then show ?thesis using assms by (auto simp: try_pop_uncached)
qed

theorem try_pop_branches_witness:
  "sg2002_rtos_ring_try_pop (Some plain_ring) (Some zero_slot) \<lparr>view = empty_at 5\<rparr> =
    (SG2002_RTOS_RING_EMPTY, Some zero_slot, \<lparr>view = empty_at 5\<rparr>)"
proof -
  obtain result dest w' where e:
    "sg2002_rtos_ring_try_pop (Some plain_ring) (Some zero_slot) \<lparr>view = empty_at 5\<rparr> = (result, dest, w')"
    by (metis surj_pair)
  from try_pop_branches [OF plain_ring_ok e refl] e show ?thesis
    by (simp add: ring_count_def empty_at_def)
qed

text \<open>A null pointer is never followed. With a null ring, a null counter or slot
  pointer in the ring, or a null message, the operations answer INVALID before they read or write
  memory or call a cache operation, and asking for room answers the negative code.\<close>

theorem ring_null_pointers:
  assumes "ring = None \<or> (\<exists>r. ring = Some r \<and>
      (ring_producer r = None \<or> ring_consumer r = None \<or> ring_slots r = None))"
  shows "sg2002_rtos_ring_try_push ring message w = (SG2002_RTOS_RING_INVALID, w) \<and>
    sg2002_rtos_ring_try_pop ring message w = (SG2002_RTOS_RING_INVALID, message, w) \<and>
    sg2002_rtos_ring_can_push ring w = (-4, w) \<and>
    sg2002_rtos_ring_try_push ring2 None w = (SG2002_RTOS_RING_INVALID, w) \<and>
    sg2002_rtos_ring_try_pop ring2 None w = (SG2002_RTOS_RING_INVALID, None, w)"
proof -
  have "read_occupancy ring w = (Inl SG2002_RTOS_RING_INVALID, w)"
    using assms by (auto simp: read_occupancy_def split: option.splits)
  then show ?thesis
    by (auto simp: sg2002_rtos_ring_try_push_def sg2002_rtos_ring_try_pop_def
        sg2002_rtos_ring_can_push_def split: option.splits)
qed

theorem ring_null_pointers_witness:
  "sg2002_rtos_ring_can_push (Some (plain_ring\<lparr>ring_slots := None\<rparr>)) \<lparr>view = blank_region\<rparr> =
    (-4, \<lparr>view = blank_region\<rparr>)"
  by (rule ring_null_pointers [THEN conjunct2, THEN conjunct2, THEN conjunct1]) simp

end
