(* ===== verification/Ring_Cached.thy ===== *)
theory Ring_Cached
  imports Ring
begin

section \<open>The ring behind the C906L data cache\<close>

text \<open>
  The C906L reaches the region through a write-back data cache that is not coherent with
  Linux, so \<^verbatim>\<open>firmware/transport/sg2002_rtos_shm_transport.c\<close> hands the ring callbacks that
  invalidate and clean cache ranges. The two cache primitives are SDK code: they are
  parameters, and \<open>dcache_ok\<close> states what their documentation promises. The world of the
  C906L has the contents its loads and stores see (\<open>view\<close>) and the shared RAM that Linux
  reads and writes (\<open>ram\<close>).

  The result is that the cache disappears: every operation acts on RAM exactly as the uncached
  ring does, whatever stale contents the cache holds, and the slot reaches RAM before the
  counter that publishes it.
\<close>

subsection \<open>The callbacks of the transport\<close>

record fw_mem = cpu_mem +
  ram :: shm_region

type_synonym 'x dcache_range = "shm_addr \<Rightarrow> nat \<Rightarrow> 'x fw_mem_scheme \<Rightarrow> 'x fw_mem_scheme"

definition shm_sync_for_cpu ::
  "'x dcache_range \<Rightarrow> unit \<Rightarrow> shm_addr \<Rightarrow> nat \<Rightarrow> 'x fw_mem_scheme \<Rightarrow> 'x fw_mem_scheme" where
  "shm_sync_for_cpu inv_dcache_range context address n w = inv_dcache_range address n w"

definition shm_sync_for_device ::
  "'x dcache_range \<Rightarrow> unit \<Rightarrow> shm_addr \<Rightarrow> nat \<Rightarrow> 'x fw_mem_scheme \<Rightarrow> 'x fw_mem_scheme" where
  "shm_sync_for_device clean_dcache_range context address n w = clean_dcache_range address n w"

text \<open>A fence orders accesses and changes no contents.\<close>

definition shm_memory_barrier :: "unit \<Rightarrow> 'w \<Rightarrow> 'w" where
  "shm_memory_barrier context w = w"

definition cache_ops ::
  "'x dcache_range \<Rightarrow> 'x dcache_range \<Rightarrow>
    (unit, 'x fw_mem_scheme) sg2002_rtos_ring_cache_ops" where
  "cache_ops inv_dcache_range clean_dcache_range =
     \<lparr>ops_sync_for_cpu = Some (shm_sync_for_cpu inv_dcache_range),
      ops_sync_for_device = Some (shm_sync_for_device clean_dcache_range),
      ops_memory_barrier = Some shm_memory_barrier, ops_context = ()\<rparr>"

subsection \<open>What the cache primitives do\<close>

fun copy_line :: "shm_addr \<Rightarrow> shm_region \<Rightarrow> shm_region \<Rightarrow> shm_region" where
  "copy_line Layout_line src dst = dst\<lparr>layout := layout src\<rparr>"
| "copy_line Linux_peer_line src dst = dst\<lparr>linux_peer := linux_peer src\<rparr>"
| "copy_line Rtos_peer_line src dst = dst\<lparr>rtos_peer := rtos_peer src\<rparr>"
| "copy_line (Counter_line c) src dst = store_counter c (load_counter c src) dst"
| "copy_line (Slot_at p i) src dst = store_slot p i (slots_of p src ! i) dst"

text \<open>Invalidating a range makes later loads of it read RAM; cleaning a range writes its cached
  contents to RAM. The code only passes whole objects of the region, which occupy whole cache
  lines, so no other object is affected.\<close>

definition dcache_ok :: "'x dcache_range \<Rightarrow> 'x dcache_range \<Rightarrow> bool" where
  "dcache_ok inv_dcache_range clean_dcache_range \<longleftrightarrow>
     (\<forall>a w. addr_in_region a \<longrightarrow>
        inv_dcache_range a (addr_size a) w = w\<lparr>view := copy_line a (ram w) (view w)\<rparr> \<and>
        clean_dcache_range a (addr_size a) w = w\<lparr>ram := copy_line a (view w) (ram w)\<rparr>)"

text \<open>A cache that satisfies the promise, for concrete evaluations.\<close>

definition sim_inv :: "'x dcache_range" where
  "sim_inv a n w = w\<lparr>view := copy_line a (ram w) (view w)\<rparr>"

definition sim_clean :: "'x dcache_range" where
  "sim_clean a n w = w\<lparr>ram := copy_line a (view w) (ram w)\<rparr>"

definition mem_wf :: "'x fw_mem_scheme \<Rightarrow> bool" where
  "mem_wf w \<longleftrightarrow> region_wf (view w) \<and> region_wf (ram w)"

definition ring_cached ::
  "(unit, 'x fw_mem_scheme) sg2002_rtos_ring \<Rightarrow> 'x dcache_range \<Rightarrow> 'x dcache_range \<Rightarrow>
    counter_ptr \<Rightarrow> counter_ptr \<Rightarrow> slots_ptr \<Rightarrow> bool" where
  "ring_cached r inv_dcache_range clean_dcache_range P C S \<longleftrightarrow>
     ring_ptrs r P C S \<and> dcache_ok inv_dcache_range clean_dcache_range \<and>
     ring_cache_ops r = Some (cache_ops inv_dcache_range clean_dcache_range)"

lemma dcache_ok_sim [simp]: "dcache_ok sim_inv sim_clean"
  by (simp add: dcache_ok_def sim_inv_def sim_clean_def)

lemma dcache_inv:
  "dcache_ok inv_dcache_range clean_dcache_range \<Longrightarrow> addr_in_region a \<Longrightarrow> n = addr_size a \<Longrightarrow>
   inv_dcache_range a n w = w\<lparr>view := copy_line a (ram w) (view w)\<rparr>"
  by (simp add: dcache_ok_def)

lemma dcache_clean:
  "dcache_ok inv_dcache_range clean_dcache_range \<Longrightarrow> addr_in_region a \<Longrightarrow> n = addr_size a \<Longrightarrow>
   clean_dcache_range a n w = w\<lparr>ram := copy_line a (view w) (ram w)\<rparr>"
  by (simp add: dcache_ok_def)

lemma addr_in_region_simps [simp]:
  "addr_in_region Layout_line" "addr_in_region Linux_peer_line" "addr_in_region Rtos_peer_line"
  "addr_in_region (Counter_line c)" "addr_in_region (Slot_at p i) \<longleftrightarrow> i < 64"
  by (simp_all add: addr_in_region_def)

lemma cached_sync:
  assumes "ring_cached r iv cl P C S"
  shows "addr_in_region a \<Longrightarrow> sync_for_cpu r a (addr_size a) w = w\<lparr>view := copy_line a (ram w) (view w)\<rparr>"
    and "addr_in_region a \<Longrightarrow>
      sync_for_device r a (addr_size a) w = w\<lparr>ram := copy_line a (view w) (ram w)\<rparr>"
    and "memory_barrier r w = w"
  using assms dcache_inv [of iv cl a] dcache_clean [of iv cl a]
  by (auto simp: ring_cached_def sync_for_cpu_def sync_for_device_def memory_barrier_def
      cache_ops_def shm_sync_for_cpu_def shm_sync_for_device_def shm_memory_barrier_def)

lemma cached_ptrs:
  "ring_cached r iv cl P C S \<Longrightarrow> ring_producer r = Some P \<and> ring_consumer r = Some C \<and>
     ring_slots r = Some S \<and> P \<noteq> C"
  by (simp add: ring_cached_def ring_ptrs_def)

subsection \<open>Closed forms over RAM\<close>

text \<open>The cached contents after both counter lines have been fetched.\<close>

definition fetch_counters :: "counter_ptr \<Rightarrow> counter_ptr \<Rightarrow> 'x fw_mem_scheme \<Rightarrow> shm_region" where
  "fetch_counters P C w = store_counter C (load_counter C (ram w))
     (store_counter P (load_counter P (ram w)) (view w))"

lemma fetch_counters_simps [simp]:
  assumes "P \<noteq> C"
  shows "load_counter P (fetch_counters P C w) = load_counter P (ram w)"
    and "load_counter C (fetch_counters P C w) = load_counter C (ram w)"
    and "slots_of S (fetch_counters P C w) = slots_of S (view w)"
    and "region_wf (fetch_counters P C w) = region_wf (view w)"
  using assms by (simp_all add: fetch_counters_def)

lemma read_occupancy_cached:
  assumes "ring_cached r iv cl P C S"
  shows "read_occupancy (Some r) w =
    (if ring_count P C (ram w) > 64 then Inl SG2002_RTOS_RING_CORRUPT
     else Inr (load_counter P (ram w), load_counter C (ram w),
                load_counter P (ram w) - load_counter C (ram w)),
     w\<lparr>view := fetch_counters P C w\<rparr>)"
  using cached_ptrs [OF assms] ring_count_word [of P "ram w" C] cached_sync [OF assms]
  by (simp add: read_occupancy_def Let_def fetch_counters_def del: addr_size.simps)

lemma can_push_cached:
  assumes "ring_cached r iv cl P C S"
  shows "sg2002_rtos_ring_can_push (Some r) w =
    (if ring_count P C (ram w) > 64 then -3 else if ring_count P C (ram w) < 64 then 1 else 0,
     w\<lparr>view := fetch_counters P C w\<rparr>)"
  using assms by (simp add: sg2002_rtos_ring_can_push_def read_occupancy_cached ring_count_word)

lemma try_push_cached:
  assumes "ring_cached r iv cl P C S" "mem_wf w" "slot_wf msg"
  shows "\<exists>v. region_wf v \<and> sg2002_rtos_ring_try_push (Some r) (Some msg) w =
    (if slot_length msg > SG2002_RTOS_SHM_PAYLOAD_SIZE then (SG2002_RTOS_RING_INVALID, w)
     else if ring_count P C (ram w) > 64 then (SG2002_RTOS_RING_CORRUPT, w\<lparr>view := v\<rparr>)
     else if ring_count P C (ram w) = 64 then (SG2002_RTOS_RING_FULL, w\<lparr>view := v\<rparr>)
     else (SG2002_RTOS_RING_OK, w\<lparr>view := v, ram := push_effect P S msg (ram w)\<rparr>))"
proof -
  note ptrs = cached_ptrs [OF assms(1)]
  let ?f = "fetch_counters P C w" and ?i = "ring_index P (ram w)"
  define v where "v = (if slot_length msg > 1018 \<or> ring_count P C (ram w) \<ge> 64 then ?f
    else store_counter P (load_counter P (ram w) + 1) (store_slot S ?i msg ?f))"
  have "region_wf v"
    using assms(2,3) ptrs by (auto simp: v_def mem_wf_def intro: region_wf_store_slot)
  moreover have "length (slots_of S (view w)) = 64"
    using assms(2) by (simp add: mem_wf_def region_wf_slots)
  then have "sg2002_rtos_ring_try_push (Some r) (Some msg) w =
    (if slot_length msg > SG2002_RTOS_SHM_PAYLOAD_SIZE then (SG2002_RTOS_RING_INVALID, w)
     else if ring_count P C (ram w) > 64 then (SG2002_RTOS_RING_CORRUPT, w\<lparr>view := v\<rparr>)
     else if ring_count P C (ram w) = 64 then (SG2002_RTOS_RING_FULL, w\<lparr>view := v\<rparr>)
     else (SG2002_RTOS_RING_OK, w\<lparr>view := v, ram := push_effect P S msg (ram w)\<rparr>))"
    using ptrs
    by (auto simp: sg2002_rtos_ring_try_push_def read_occupancy_cached [OF assms(1)]
        ring_count_word Let_def unat_and_63 cached_sync [OF assms(1)] push_effect_def v_def
        ring_index_def simp del: addr_size.simps)
  ultimately show ?thesis by blast
qed

lemma try_pop_cached:
  assumes "ring_cached r iv cl P C S" "mem_wf w"
  shows "\<exists>v. region_wf v \<and> sg2002_rtos_ring_try_pop (Some r) (Some old) w =
    (if ring_count P C (ram w) > 64 then (SG2002_RTOS_RING_CORRUPT, Some old, w\<lparr>view := v\<rparr>)
     else if ring_count P C (ram w) = 0 then (SG2002_RTOS_RING_EMPTY, Some old, w\<lparr>view := v\<rparr>)
     else let msg = pop_message C S (ram w) in
       (if slot_length msg > SG2002_RTOS_SHM_PAYLOAD_SIZE
        then SG2002_RTOS_RING_CORRUPT else SG2002_RTOS_RING_OK,
        Some msg, w\<lparr>view := v, ram := pop_effect C (ram w)\<rparr>))"
proof -
  note ptrs = cached_ptrs [OF assms(1)]
  let ?f = "fetch_counters P C w" and ?i = "ring_index C (ram w)"
  define v where "v = (if ring_count P C (ram w) > 64 \<or> ring_count P C (ram w) = 0 then ?f
    else store_counter C (load_counter C (ram w) + 1)
           (store_slot S ?i (pop_message C S (ram w)) ?f))"
  have "slot_wf (pop_message C S (ram w))"
    using assms(2) by (auto simp: pop_message_def mem_wf_def region_wf_slots list_all_length)
  then have "region_wf v"
    using assms(2) ptrs by (auto simp: v_def mem_wf_def intro: region_wf_store_slot)
  moreover have "length (slots_of S (view w)) = 64"
    using assms(2) by (simp add: mem_wf_def region_wf_slots)
  then have "sg2002_rtos_ring_try_pop (Some r) (Some old) w =
    (if ring_count P C (ram w) > 64 then (SG2002_RTOS_RING_CORRUPT, Some old, w\<lparr>view := v\<rparr>)
     else if ring_count P C (ram w) = 0 then (SG2002_RTOS_RING_EMPTY, Some old, w\<lparr>view := v\<rparr>)
     else let msg = pop_message C S (ram w) in
       (if slot_length msg > SG2002_RTOS_SHM_PAYLOAD_SIZE
        then SG2002_RTOS_RING_CORRUPT else SG2002_RTOS_RING_OK,
        Some msg, w\<lparr>view := v, ram := pop_effect C (ram w)\<rparr>))"
    using ptrs
    by (auto simp: sg2002_rtos_ring_try_pop_def read_occupancy_cached [OF assms(1)]
        ring_count_word load_counter_eq_iff Let_def unat_and_63 cached_sync [OF assms(1)]
        pop_effect_def pop_message_def v_def ring_index_def simp del: addr_size.simps)
  ultimately show ?thesis by blast
qed

interpretation cached: region_ring "ring_push r" "ring_pop r" ram
  "\<lambda>w. ring_cached r iv cl P C S \<and> mem_wf w" P C S
  for r :: "(unit, 'x fw_mem_scheme) sg2002_rtos_ring" and iv cl P C S
proof (unfold_locales, goal_cases)
  case (1 s)
  then show ?case using cached_ptrs by blast
next
  case (2 s m)
  then have P: "ring_cached r iv cl P C S" "mem_wf s" "slot_wf m" by (auto simp: message_ok_def)
  have "region_wf (push_effect P S m (ram s))"
    using P by (simp add: push_effect_def mem_wf_def region_wf_store_slot)
  with try_push_cached [OF P] 2 show ?case
    by (auto simp: ring_push_def message_ok_def mem_wf_def leD)
next
  case (3 s)
  then have P: "ring_cached r iv cl P C S" "mem_wf s" by auto
  have "region_wf (pop_effect C (ram s))"
    using P by (simp add: pop_effect_def mem_wf_def)
  with try_pop_cached [OF P, of zero_slot] 3 pop_message_ok [of P C S "ram s"] show ?case
    by (auto simp: ring_pop_def Let_def message_ok_def ring_contents_ok_def
        ring_ok_def mem_wf_def leD)
qed

subsection \<open>Publication order\<close>

text \<open>A C906L world that also records every state RAM goes through: what Linux could observe
  at any moment of an operation.\<close>

record fw_mem_log = fw_mem +
  ram_log :: "shm_region list"

definition log_ram :: "fw_mem_log \<Rightarrow> fw_mem_log" where
  "log_ram w = w\<lparr>ram_log := ram_log w @ [ram w]\<rparr>"

text \<open>The cleaning primitive, observed: the state of RAM it leaves is appended to the log.\<close>

definition observed_clean ::
  "(shm_addr \<Rightarrow> nat \<Rightarrow> fw_mem_log \<Rightarrow> fw_mem_log) \<Rightarrow> shm_addr \<Rightarrow> nat \<Rightarrow> fw_mem_log \<Rightarrow> fw_mem_log" where
  "observed_clean cl a n w = log_ram (cl a n w)"

lemma observed_try_push:
  assumes "ring_ptrs r P C S" "dcache_ok iv cl"
    and "ring_cache_ops r = Some (cache_ops iv (observed_clean cl))"
    and "mem_wf w" "message_ok msg" "ring_count P C (ram w) < 64"
  shows "ram_log (snd (sg2002_rtos_ring_try_push (Some r) (Some msg) w)) =
    ram_log w @ [store_slot S (ring_index P (ram w)) msg (ram w), push_effect P S msg (ram w)]"
proof -
  have ptrs: "ring_producer r = Some P" "ring_consumer r = Some C" "ring_slots r = Some S" "P \<noteq> C"
    using assms(1) by (auto simp: ring_ptrs_def)
  have len: "length (slots_of S (view w)) = 64"
    using assms(4) by (simp add: mem_wf_def region_wf_slots)
  show ?thesis
    using ptrs len assms(3,5,6) ring_count_word [of P "ram w" C]
    by (auto simp: sg2002_rtos_ring_try_push_def read_occupancy_def Let_def sync_for_cpu_def
        sync_for_device_def memory_barrier_def cache_ops_def shm_sync_for_cpu_def
        shm_sync_for_device_def shm_memory_barrier_def observed_clean_def log_ram_def
        dcache_inv [OF assms(2)] dcache_clean [OF assms(2)] unat_and_63 message_ok_def
        push_effect_def ring_index_def)
qed

text \<open>Writing the slot the producer counter points to does not change the queued messages.\<close>

lemma contents_store_free_slot:
  assumes "P \<noteq> C" "ring_count P C m < 64" "region_wf m"
  shows "ring_contents P C S (store_slot S (ring_index P m) msg m) = ring_contents P C S m"
proof -
  have "ring_contents P C S (push_effect P S msg m) = ring_contents P C S m @ [msg]"
    by (rule contents_push [OF assms])
  moreover have "ring_contents P C S (push_effect P S msg m) =
      ring_contents P C S (store_slot S (ring_index P m) msg m) @
        [slots_of S (store_slot S (ring_index P m) msg m) ! ring_index P m]"
    using assms(1,2) producer_index [where P = P and C = C and m = m]
    by (simp add: ring_contents_def ring_count_def push_effect_def unat_succ_diff)
  ultimately show ?thesis by simp
qed

subsection \<open>Properties\<close>

text \<open>Property C6: the cache is invisible. On the C906L every ring operation gives the same result,
  delivers the same message and leaves the same RAM as the operation on uncached memory that holds
  the contents of RAM, whatever stale contents the data cache has.\<close>

theorem ring_cached_refines:
  assumes "ring_cached r iv cl P C S" "mem_wf w" "slot_wf msg"
    and "ring_ptrs r0 P C S" "ops_transparent r0" "w0 = \<lparr>view = ram w\<rparr>"
  shows "fst (sg2002_rtos_ring_can_push (Some r) w) = fst (sg2002_rtos_ring_can_push (Some r0) w0) \<and>
    ram (snd (sg2002_rtos_ring_can_push (Some r) w)) = view (snd (sg2002_rtos_ring_can_push (Some r0) w0)) \<and>
    fst (sg2002_rtos_ring_try_push (Some r) (Some msg) w) =
      fst (sg2002_rtos_ring_try_push (Some r0) (Some msg) w0) \<and>
    ram (snd (sg2002_rtos_ring_try_push (Some r) (Some msg) w)) =
      view (snd (sg2002_rtos_ring_try_push (Some r0) (Some msg) w0)) \<and>
    fst (sg2002_rtos_ring_try_pop (Some r) (Some old) w) =
      fst (sg2002_rtos_ring_try_pop (Some r0) (Some old) w0) \<and>
    fst (snd (sg2002_rtos_ring_try_pop (Some r) (Some old) w)) =
      fst (snd (sg2002_rtos_ring_try_pop (Some r0) (Some old) w0)) \<and>
    ram (snd (snd (sg2002_rtos_ring_try_pop (Some r) (Some old) w))) =
      view (snd (snd (sg2002_rtos_ring_try_pop (Some r0) (Some old) w0)))"
  using try_push_cached [OF assms(1-3)] try_pop_cached [OF assms(1,2), of old] can_push_cached [OF assms(1)]
  by (auto simp: try_push_uncached [OF assms(4,5)] try_pop_uncached [OF assms(4,5)]
      can_push_uncached [OF assms(4,5)] assms(6) Let_def)

text \<open>A cached ring over the request structures, for concrete evaluations.\<close>

definition sim_ring :: "'x dcache_range \<Rightarrow> (unit, 'x fw_mem_scheme) sg2002_rtos_ring" where
  "sim_ring clean = \<lparr>ring_producer = Some Request_producer, ring_consumer = Some Request_consumer,
     ring_slots = Some Request_slots, ring_cache_ops = Some (cache_ops sim_inv clean)\<rparr>"

lemma sim_ring_ok:
  "ring_ptrs (sim_ring clean) Request_producer Request_consumer Request_slots"
  "ring_cached (sim_ring sim_clean) sim_inv sim_clean Request_producer Request_consumer Request_slots"
  by (simp_all add: sim_ring_def ring_ptrs_def ring_cached_def)

theorem ring_cached_refines_witness:
  "fst (sg2002_rtos_ring_try_push (Some (sim_ring sim_clean)) (Some zero_slot)
      \<lparr>view = blank_region, ram = (empty_at 0)\<lparr>request_producer := 64\<rparr>\<rparr>) = SG2002_RTOS_RING_FULL"
proof -
  let ?w = "\<lparr>view = blank_region, ram = (empty_at 0)\<lparr>request_producer := 64\<rparr>\<rparr>"
  have wf: "mem_wf ?w"
    using empty_at_ok(3) [of 0] region_wf_blank by (simp add: mem_wf_def region_wf_def empty_at_def)
  have "fst (sg2002_rtos_ring_try_push (Some plain_ring) (Some zero_slot) \<lparr>view = ram ?w\<rparr>) =
      SG2002_RTOS_RING_FULL"
    using message_ok_zero by (simp add: try_push_uncached [OF plain_ring_ok] message_ok_def)
      (auto simp: ring_count_def empty_at_def leD)
  with ring_cached_refines [OF sim_ring_ok(2) wf slot_wf_zero_slot plain_ring_ok refl] show ?thesis
    by simp
qed

text \<open>Property C9: publication order. Whatever moment Linux looks at RAM while the C906L pushes, it
  sees either the messages queued before or those and the complete new message: the slot is in RAM
  before the counter that publishes it, and writing the slot disturbs no queued message. The last
  state shows the new message.\<close>

theorem push_publishes_atomically:
  assumes "ring_ptrs r P C S" "dcache_ok iv cl"
    and "ring_cache_ops r = Some (cache_ops iv (observed_clean cl))"
    and "mem_wf w" "message_ok msg" "ring_count P C (ram w) < 64"
    and "sg2002_rtos_ring_try_push (Some r) (Some msg) w = (result, w')"
  shows "\<exists>states. ram_log w' = ram_log w @ states \<and> states \<noteq> [] \<and>
    (\<forall>m\<in>set states. ring_contents P C S m = ring_contents P C S (ram w) \<or>
       ring_contents P C S m = ring_contents P C S (ram w) @ [msg]) \<and>
    ring_contents P C S (last states) = ring_contents P C S (ram w) @ [msg]"
proof -
  have "P \<noteq> C" "region_wf (ram w)" using assms(1,4) by (simp_all add: ring_ptrs_def mem_wf_def)
  then show ?thesis
    using observed_try_push [OF assms(1-6)] assms(6,7)
    by (intro exI [of _ "[store_slot S (ring_index P (ram w)) msg (ram w), push_effect P S msg (ram w)]"])
      (simp add: contents_push contents_store_free_slot)
qed

theorem push_publishes_atomically_witness:
  "\<exists>states. ram_log (snd (sg2002_rtos_ring_try_push (Some (sim_ring (observed_clean sim_clean)))
      (Some zero_slot) \<lparr>view = blank_region, ram = empty_at 7, ram_log = []\<rparr>)) = states \<and>
    states \<noteq> [] \<and> ring_contents Request_producer Request_consumer Request_slots (last states) = [zero_slot]"
proof -
  let ?w = "\<lparr>view = blank_region, ram = empty_at 7, ram_log = []\<rparr>"
  have wf: "mem_wf ?w" using empty_at_ok(3) by (simp add: mem_wf_def)
  have ops: "ring_cache_ops (sim_ring (observed_clean sim_clean)) =
      Some (cache_ops sim_inv (observed_clean sim_clean))" by (simp add: sim_ring_def)
  have n: "ring_count Request_producer Request_consumer (ram ?w) < 64"
    by (simp add: ring_count_def empty_at_def)
  show ?thesis
    using push_publishes_atomically [OF sim_ring_ok(1) dcache_ok_sim ops wf message_ok_zero n surjective_pairing]
      empty_at_ok(2) [of 7] by auto
qed

text \<open>The ring behind the cache is a first-in first-out channel over RAM: for any
  sequence of operations the messages in RAM at first and the accepted ones are the received ones
  and those in RAM at the end, and RAM and cache stay well formed.\<close>

theorem ring_fifo_cached:
  assumes "ring_cached r iv cl P C S" "mem_wf w" "ring_contents_ok P C S (ram w)"
    and "list_all (op_ok message_ok) ops"
    and "fifo_run (ring_push r) (ring_pop r) ops w = (acc, rcv, w')"
  shows "ring_contents P C S (ram w) @ acc = rcv @ ring_contents P C S (ram w') \<and>
    mem_wf w' \<and> ring_contents_ok P C S (ram w')"
  using cached.run_conserves [of r iv cl P C S w ops acc rcv w'] assms by simp

theorem ring_fifo_cached_witness:
  "(case fifo_run (ring_push (sim_ring sim_clean)) (ring_pop (sim_ring sim_clean)) [Push zero_slot, Pop, Pop]
      \<lparr>view = blank_region, ram = empty_at 0xffffffff\<rparr> of (acc, rcv, w') \<Rightarrow>
    acc = rcv @ ring_contents Request_producer Request_consumer Request_slots (ram w'))"
  using ring_fifo_cached [OF sim_ring_ok(2), of "\<lparr>view = blank_region, ram = empty_at 0xffffffff\<rparr>"
      "[Push zero_slot, Pop, Pop]"]
    empty_at_ok [of "0xffffffff"] message_ok_zero by (auto simp: mem_wf_def split: prod.splits)

end
