(* ===== verification/Gpio.thy ===== *)
theory Gpio
  imports Prelude
begin

section \<open>The GPIO driver of the firmware\<close>

text \<open>
  \<^verbatim>\<open>ports/duo-sdk/overlay/freertos/cvitek/driver/gpio/src/gpio.c\<close>. A pin number names a bank
  (\<open>0xA\<close> to \<open>0xD\<close>) in its upper byte and a line of the bank in its lower byte. The memory
  mapped accesses are SDK code and a parameter of the driver; \<open>gpio_block_ok\<close> states what the
  code relies on: the output and direction registers hold the value last written to them.
  The lemmas give the exact set of valid pins and show that setting a pin changes one bit of
  one bank's output register and one bit of its direction register, and nothing else.
\<close>

subsection \<open>Definitions\<close>

record 'io mmio_ops =
  mmio_read_32 :: "u32 \<Rightarrow> 'io \<Rightarrow> u32 \<times> 'io"
  mmio_write_32 :: "u32 \<Rightarrow> u32 \<Rightarrow> 'io \<Rightarrow> 'io"

abbreviation CVI_GPIOA_BASE :: u32 where "CVI_GPIOA_BASE \<equiv> 0x03020000"
abbreviation CVI_GPIOB_BASE :: u32 where "CVI_GPIOB_BASE \<equiv> 0x03021000"
abbreviation CVI_GPIOC_BASE :: u32 where "CVI_GPIOC_BASE \<equiv> 0x03022000"
abbreviation CVI_GPIOD_BASE :: u32 where "CVI_GPIOD_BASE \<equiv> 0x03023000"

definition gpio_base_from_pin :: "int \<Rightarrow> u32" where
  "gpio_base_from_pin pin = (let bank = drop_bit 8 pin in
     if bank = 0xA then CVI_GPIOA_BASE
     else if bank = 0xB then CVI_GPIOB_BASE
     else if bank = 0xC then CVI_GPIOC_BASE
     else if bank = 0xD then CVI_GPIOD_BASE
     else 0)"

definition gpio_is_valid :: "int \<Rightarrow> bool" where
  "gpio_is_valid pin \<longleftrightarrow> pin \<ge> 0 \<and> pin AND 0xff < 32 \<and> gpio_base_from_pin pin \<noteq> 0"

definition gpio_get_value :: "'io mmio_ops \<Rightarrow> int \<Rightarrow> 'io \<Rightarrow> int \<times> 'io" where
  "gpio_get_value mm pin io =
     (if \<not> gpio_is_valid pin then (0, io)
      else let gpio_base = gpio_base_from_pin pin;
               pin = pin AND 0xff;
               pin_mask = push_bit (nat pin) 1;
               (v, io) = mmio_read_32 mm (gpio_base + 0x50) io
           in (if v AND pin_mask \<noteq> 0 then 1 else 0, io))"

definition gpio_direction_output :: "'io mmio_ops \<Rightarrow> int \<Rightarrow> int \<Rightarrow> 'io \<Rightarrow> 'io" where
  "gpio_direction_output mm pin val io =
     (if \<not> gpio_is_valid pin then io
      else let gpio_base = gpio_base_from_pin pin;
               pin = pin AND 0xff;
               pin_mask = push_bit (nat pin) 1;
               (output, io) = mmio_read_32 mm gpio_base io;
               output = (if val \<noteq> 0 then output OR pin_mask else output AND NOT pin_mask);
               io = mmio_write_32 mm gpio_base output io;
               (direction, io) = mmio_read_32 mm (gpio_base + 4) io;
               io = mmio_write_32 mm (gpio_base + 4) (direction OR pin_mask) io
           in io)"

subsection \<open>What the register block promises\<close>

definition gpio_banks :: "u32 list" where
  "gpio_banks = [CVI_GPIOA_BASE, CVI_GPIOB_BASE, CVI_GPIOC_BASE, CVI_GPIOD_BASE]"

text \<open>The output and direction registers of the four banks.\<close>

definition gpio_regs :: "u32 set" where
  "gpio_regs = set gpio_banks \<union> (\<lambda>b. b + 4) ` set gpio_banks"

definition gpio_block_ok :: "'io mmio_ops \<Rightarrow> ('io \<Rightarrow> u32 \<Rightarrow> u32) \<Rightarrow> bool" where
  "gpio_block_ok mm reg \<longleftrightarrow>
     (\<forall>a io. a \<in> gpio_regs \<union> (\<lambda>b. b + 0x50) ` set gpio_banks \<longrightarrow>
        mmio_read_32 mm a io = (reg io a, io)) \<and>
     (\<forall>a b v io. a \<in> gpio_regs \<longrightarrow> b \<in> gpio_regs \<longrightarrow>
        reg (mmio_write_32 mm a v io) b = (if b = a then v else reg io b))"

subsection \<open>Lemmas\<close>

lemma int_and_0xff: "(x :: int) AND 0xff = x mod 256"
  using take_bit_eq_mask [of 8 x] by (simp add: mask_numeral take_bit_eq_mod)

lemma int_drop_8: "drop_bit 8 (x :: int) = x div 256"
  by (simp add: drop_bit_eq_div)

lemma gpio_is_valid_alt:
  "gpio_is_valid pin \<longleftrightarrow> pin div 256 \<in> {0xA..0xD} \<and> pin mod 256 < 32"
  by (auto simp: gpio_is_valid_def gpio_base_from_pin_def int_and_0xff int_drop_8 Let_def)

lemma gpio_is_valid_bank_line:
  "gpio_is_valid pin \<longleftrightarrow> (\<exists>bank\<in>{0xA..0xD}. \<exists>n\<in>{0..31}. pin = bank * 256 + n)"
proof
  assume "gpio_is_valid pin"
  then have "pin div 256 \<in> {0xA..0xD}" "pin mod 256 \<in> {0..31}" by (simp_all add: gpio_is_valid_alt)
  then show "\<exists>bank\<in>{0xA..0xD}. \<exists>n\<in>{0..31}. pin = bank * 256 + n"
    by (intro bexI [of _ "pin div 256"] bexI [of _ "pin mod 256"]) simp_all
next
  assume "\<exists>bank\<in>{0xA..0xD}. \<exists>n\<in>{0..31}. pin = bank * 256 + n"
  then obtain bank n where "bank \<in> {0xA..0xD}" "n \<in> {0..31}" "pin = bank * 256 + n" by blast
  moreover from this have "pin div 256 = bank" "pin mod 256 = n" by simp_all
  ultimately show "gpio_is_valid pin" by (simp add: gpio_is_valid_alt)
qed

lemma gpio_bank_cases:
  assumes "gpio_is_valid pin"
  obtains "pin div 256 = 0xA" "gpio_base_from_pin pin = CVI_GPIOA_BASE"
    | "pin div 256 = 0xB" "gpio_base_from_pin pin = CVI_GPIOB_BASE"
    | "pin div 256 = 0xC" "gpio_base_from_pin pin = CVI_GPIOC_BASE"
    | "pin div 256 = 0xD" "gpio_base_from_pin pin = CVI_GPIOD_BASE"
  using assms unfolding gpio_is_valid_def gpio_base_from_pin_def int_drop_8 Let_def
  by (simp split: if_splits)

lemma gpio_base_inj:
  assumes "gpio_is_valid p" "gpio_is_valid q" "gpio_base_from_pin p = gpio_base_from_pin q"
    and "p AND 0xff = q AND 0xff"
  shows "p = q"
proof -
  from assms(1-3) have "p div 256 = q div 256"
    by (cases rule: gpio_bank_cases [OF assms(1)]; cases rule: gpio_bank_cases [OF assms(2)]) simp_all
  moreover have "p mod 256 = q mod 256" using assms(4) by (simp add: int_and_0xff)
  ultimately show ?thesis by (metis div_mult_mod_eq)
qed

lemma gpio_base_valid: "gpio_is_valid pin \<Longrightarrow> gpio_base_from_pin pin \<in> set gpio_banks"
  by (simp add: gpio_is_valid_def gpio_base_from_pin_def gpio_banks_def Let_def split: if_splits)

lemma gpio_regs_base:
  "b \<in> set gpio_banks \<Longrightarrow> b \<in> gpio_regs \<and> b + 4 \<in> gpio_regs \<and> b + 4 \<noteq> b"
  by (auto simp: gpio_regs_def)

text \<open>The registers after a pin has been driven.\<close>

lemma gpio_direction_output_regs:
  assumes "gpio_block_ok mm reg" "gpio_is_valid pin" "a \<in> gpio_regs"
  shows "reg (gpio_direction_output mm pin val io) a =
    (let base = gpio_base_from_pin pin; m = push_bit (nat (pin mod 256)) 1
     in if a = base then (if val \<noteq> 0 then reg io a OR m else reg io a AND NOT m)
        else if a = base + 4 then reg io a OR m else reg io a)"
proof -
  note b = gpio_regs_base [OF gpio_base_valid [OF assms(2)]]
  note rd = assms(1) [unfolded gpio_block_ok_def, THEN conjunct1, rule_format, OF UnI1]
    and wr = assms(1) [unfolded gpio_block_ok_def, THEN conjunct2, rule_format]
  show ?thesis
    using b assms(2,3) by (simp add: gpio_direction_output_def int_and_0xff rd wr Let_def)
qed

lemma pin_mask_test:
  assumes "n < 32"
  shows "(w AND push_bit n (1 :: u32) = 0) \<longleftrightarrow> \<not> bit w n"
proof -
  have "bit (w AND push_bit n (1 :: u32)) k \<longleftrightarrow> k = n \<and> bit w n" for k
    using assms by (auto simp: bit_simps)
  then show ?thesis by (metis bit_0_eq bot_apply bot_bool_def bit_eq_iff)
qed

lemma gpio_get_value_read:
  assumes "gpio_block_ok mm reg" "gpio_is_valid pin"
  shows "gpio_get_value mm pin io =
    (of_bool (bit (reg io (gpio_base_from_pin pin + 0x50)) (nat (pin mod 256))), io)"
proof -
  have "mmio_read_32 mm (gpio_base_from_pin pin + 0x50) io =
      (reg io (gpio_base_from_pin pin + 0x50), io)"
    using assms gpio_base_valid [OF assms(2)] by (simp add: gpio_block_ok_def)
  moreover have "nat (pin mod 256) < 32"
    using assms(2) by (simp add: gpio_is_valid_alt nat_less_iff)
  ultimately show ?thesis
    using assms(2) by (simp add: gpio_get_value_def int_and_0xff Let_def pin_mask_test del: push_bit_of_1)
qed

text \<open>A concrete register file: every register keeps what was written.\<close>

definition plain_mmio :: "(u32 \<Rightarrow> u32) mmio_ops" where
  "plain_mmio = \<lparr>mmio_read_32 = (\<lambda>a f. (f a, f)), mmio_write_32 = (\<lambda>a v f. f(a := v))\<rparr>"

lemma gpio_block_ok_plain: "gpio_block_ok plain_mmio (\<lambda>f. f)"
  by (auto simp: gpio_block_ok_def plain_mmio_def)

subsection \<open>Properties\<close>

text \<open>The driver accepts exactly the 128 pins of the four banks, and two different
  valid pins never share both bank register and bit, so no two pins alias.\<close>

theorem gpio_valid_pins:
  "(\<forall>pin. gpio_is_valid pin \<longleftrightarrow> (\<exists>bank\<in>{0xA..0xD}. \<exists>n\<in>{0..31}. pin = bank * 256 + n)) \<and>
   (\<forall>p q. gpio_is_valid p \<longrightarrow> gpio_is_valid q \<longrightarrow> gpio_base_from_pin p = gpio_base_from_pin q \<longrightarrow>
      p AND 0xff = q AND 0xff \<longrightarrow> p = q)"
  using gpio_is_valid_bank_line gpio_base_inj by blast

theorem gpio_valid_pins_witness:
  "gpio_is_valid 0xA1D \<and> \<not> gpio_is_valid 0xA20 \<and> \<not> gpio_is_valid 0xE00"
  using gpio_valid_pins by (simp add: gpio_is_valid_alt)

text \<open>Driving a pin is local. For a valid pin the bit of the pin in the output register
  of its bank takes the requested value and its direction bit becomes output; every other bit of
  every output and direction register of the four banks keeps its value. For an invalid pin the
  registers are not touched.\<close>

theorem gpio_direction_output_local:
  assumes "gpio_block_ok mm reg" "a \<in> gpio_regs" "n < 32"
  shows "bit (reg (gpio_direction_output mm pin val io) a) n =
    (if gpio_is_valid pin \<and> int n = pin AND 0xff \<and> a = gpio_base_from_pin pin then val \<noteq> 0
     else if gpio_is_valid pin \<and> int n = pin AND 0xff \<and> a = gpio_base_from_pin pin + 4 then True
     else bit (reg io a) n)"
proof (cases "gpio_is_valid pin")
  case True
  then have "int n = pin mod 256 \<longleftrightarrow> n = nat (pin mod 256)"
    by (auto simp: gpio_is_valid_alt)
  then show ?thesis
    using True assms(3)
    by (auto simp: gpio_direction_output_regs [OF assms(1) True assms(2)] int_and_0xff Let_def
        bit_simps)
next
  case False
  then show ?thesis by (simp add: gpio_direction_output_def)
qed

theorem gpio_direction_output_local_witness:
  "bit (gpio_direction_output plain_mmio 0xA1D 1 (\<lambda>_. 0) 0x03020000) 29 \<and>
   \<not> bit (gpio_direction_output plain_mmio 0xA1D 1 (\<lambda>_. 0) 0x03021000) 29"
  using gpio_direction_output_local [OF gpio_block_ok_plain, where a = "0x03020000" and n = 29
      and pin = "0xA1D" and val = 1 and io = "\<lambda>_. 0"]
    gpio_direction_output_local [OF gpio_block_ok_plain, where a = "0x03021000" and n = 29
      and pin = "0xA1D" and val = 1 and io = "\<lambda>_. 0"]
  by (simp add: gpio_is_valid_alt gpio_regs_def gpio_banks_def int_and_0xff
      gpio_base_from_pin_def int_drop_8)

end
