(* ===== verification/App.thy ===== *)
theory App
  imports Protocol Gpio Shm_Abi
begin

section \<open>The firmware application\<close>

text \<open>
  \<^verbatim>\<open>firmware/app/sg2002_rtos_app.c\<close>: the command handler and the message handler that frames
  it. Pointers that may be null are options. The message handler works on byte buffers with
  bounds-checked accesses: its result is \<^const>\<open>None\<close> where the C code would access a buffer out
  of range, so that the lemmas about a \<^const>\<open>Some\<close> result include memory safety. The boot-trace
  calls behind \<^verbatim>\<open>SG2002_RTOS_TRACE_MAILBOX\<close> are a debugging option and are not modelled.
\<close>

subsection \<open>Definitions\<close>

datatype sg2002_rtos_app_result = SG2002_RTOS_APP_UNHANDLED | SG2002_RTOS_APP_HANDLED

definition sg2002_rtos_app_handle ::
  "'io mmio_ops \<Rightarrow> u8 \<Rightarrow> u32 option \<Rightarrow> 'io \<Rightarrow> sg2002_rtos_app_result \<times> u32 option \<times> 'io" where
  "sg2002_rtos_app_handle mm command value_ptr io = (case value_ptr of
       None \<Rightarrow> (SG2002_RTOS_APP_UNHANDLED, None, io)
     | Some v \<Rightarrow>
         if command = SG2002_RTOS_CMD_PING then
           (SG2002_RTOS_APP_HANDLED, Some (v XOR SG2002_RTOS_PING_XOR), io)
         else if command = SG2002_RTOS_CMD_GPIO_SET then
           let pin = SG2002_RTOS_GPIO_PIN v; gpio_value = SG2002_RTOS_GPIO_VALUE v in
           if \<not> gpio_is_valid (uint pin) then
             (SG2002_RTOS_APP_HANDLED, Some SG2002_RTOS_RESPONSE_INVALID_ARGUMENT, io)
           else
             (SG2002_RTOS_APP_HANDLED, Some gpio_value,
              gpio_direction_output mm (uint pin) (if gpio_value \<noteq> 0 then 1 else 0) io)
         else if command = SG2002_RTOS_CMD_GPIO_GET then
           let pin = SG2002_RTOS_GPIO_PIN v in
           if \<not> gpio_is_valid (uint pin) then
             (SG2002_RTOS_APP_HANDLED, Some SG2002_RTOS_RESPONSE_INVALID_ARGUMENT, io)
           else let (level, io) = gpio_get_value mm (uint pin) io in
             (SG2002_RTOS_APP_HANDLED, Some (word_of_int (level AND 0x1)), io)
         else if command = SG2002_RTOS_CMD_GET_INFO then
           (SG2002_RTOS_APP_HANDLED, Some SG2002_RTOS_INFO_VALUE, io)
         else if command = SG2002_RTOS_CMD_ECHO then
           (SG2002_RTOS_APP_HANDLED, Some v, io)
         else if command \<ge> SG2002_RTOS_CMD_FIRST \<and> command \<le> SG2002_RTOS_CMD_LAST then
           (SG2002_RTOS_APP_HANDLED, Some SG2002_RTOS_RESPONSE_UNSUPPORTED, io)
         else (SG2002_RTOS_APP_UNHANDLED, Some v, io))"

text \<open>The buffers and the length cell are returned with their new contents. The two buffers
  are different objects, as \<^verbatim>\<open>memcpy\<close> requires.\<close>

definition sg2002_rtos_app_handle_message ::
  "'io mmio_ops \<Rightarrow> bytes option \<Rightarrow> u16 \<Rightarrow> bytes option \<Rightarrow> u16 option \<Rightarrow> 'io \<Rightarrow>
    (sg2002_rtos_app_result \<times> bytes option \<times> u16 option \<times> 'io) option" where
  "sg2002_rtos_app_handle_message mm request request_length response response_length io =
    (case response_length of
       None \<Rightarrow> Some (SG2002_RTOS_APP_UNHANDLED, response, None, io)
     | Some response_capacity \<Rightarrow> (case (request, response) of
         (Some req, Some resp) \<Rightarrow>
           if request_length = 0 then Some (SG2002_RTOS_APP_UNHANDLED, response, Some 0, io)
           else do {
             command \<leftarrow> read_byte req SG2002_RTOS_VALUE_MESSAGE_COMMAND_OFFSET;
             if command < SG2002_RTOS_CMD_FIRST \<or> command > SG2002_RTOS_CMD_LAST
             then Some (SG2002_RTOS_APP_UNHANDLED, response, Some 0, io)
             else if command = SG2002_RTOS_CMD_ECHO then
               if request_length > response_capacity
               then Some (SG2002_RTOS_APP_UNHANDLED, response, Some 0, io)
               else do {
                 bs \<leftarrow> read_bytes req 0 (unat request_length);
                 resp \<leftarrow> write_bytes resp 0 bs;
                 Some (SG2002_RTOS_APP_HANDLED, Some resp, Some request_length, io)
               }
             else if response_capacity < SG2002_RTOS_VALUE_MESSAGE_SIZE
             then Some (SG2002_RTOS_APP_UNHANDLED, response, Some 0, io)
             else do {
               (result, value_ptr, io) \<leftarrow>
                 (if request_length = SG2002_RTOS_VALUE_MESSAGE_SIZE then do {
                    bs \<leftarrow> read_bytes req SG2002_RTOS_VALUE_MESSAGE_VALUE_OFFSET 4;
                    Some (sg2002_rtos_app_handle mm command (Some (of_le32 bs)) io)
                  } else Some (SG2002_RTOS_APP_HANDLED,
                               Some SG2002_RTOS_RESPONSE_INVALID_ARGUMENT, io));
               if result \<noteq> SG2002_RTOS_APP_HANDLED then Some (result, response, Some 0, io)
               else do {
                 v \<leftarrow> value_ptr;
                 resp \<leftarrow> write_bytes resp SG2002_RTOS_VALUE_MESSAGE_COMMAND_OFFSET [command];
                 resp \<leftarrow> write_bytes resp SG2002_RTOS_VALUE_MESSAGE_VALUE_OFFSET (le32 v);
                 Some (SG2002_RTOS_APP_HANDLED, Some resp,
                       Some SG2002_RTOS_VALUE_MESSAGE_SIZE, io)
               }
             }
           }
       | _ \<Rightarrow> Some (SG2002_RTOS_APP_UNHANDLED, response, Some 0, io)))"

subsection \<open>Specification: the reply to a message\<close>

text \<open>The message format and the reply as byte lists: no buffers, lengths or capacities.
  \<^const>\<open>None\<close> is a message the application does not handle.\<close>

definition value_message :: "u8 \<Rightarrow> u32 \<Rightarrow> bytes" where
  "value_message command v = command # le32 v"

definition command_value :: "'io mmio_ops \<Rightarrow> u8 \<Rightarrow> u32 \<Rightarrow> 'io \<Rightarrow> u32 \<times> 'io" where
  "command_value mm command v io =
     (case sg2002_rtos_app_handle mm command (Some v) io of (_, v', io') \<Rightarrow> (the v', io'))"

definition app_reply :: "'io mmio_ops \<Rightarrow> bytes \<Rightarrow> nat \<Rightarrow> 'io \<Rightarrow> bytes option \<times> 'io" where
  "app_reply mm request capacity io = (case request of
       [] \<Rightarrow> (None, io)
     | command # args \<Rightarrow>
         if command < SG2002_RTOS_CMD_FIRST \<or> command > SG2002_RTOS_CMD_LAST then (None, io)
         else if command = SG2002_RTOS_CMD_ECHO then
           (if length request \<le> capacity then Some request else None, io)
         else if capacity < SG2002_RTOS_VALUE_MESSAGE_SIZE then (None, io)
         else if length args \<noteq> 4 then
           (Some (value_message command SG2002_RTOS_RESPONSE_INVALID_ARGUMENT), io)
         else let (v, io) = command_value mm command (of_le32 args) io
              in (Some (value_message command v), io))"

subsection \<open>Lemmas\<close>

lemma length_value_message [simp]: "length (value_message c v) = 5"
  by (simp add: value_message_def)

text \<open>Within the command range the handler always handles and leaves a value.\<close>

lemma app_handle_in_range:
  assumes "SG2002_RTOS_CMD_FIRST \<le> command" "command \<le> SG2002_RTOS_CMD_LAST"
  shows "sg2002_rtos_app_handle mm command (Some v) io =
    (SG2002_RTOS_APP_HANDLED, Some (fst (command_value mm command v io)),
     snd (command_value mm command v io))"
  using assms
  by (auto simp: sg2002_rtos_app_handle_def command_value_def Let_def split: prod.splits)

lemma read_byte_0: "0 < length bs \<Longrightarrow> read_byte bs 0 = Some (hd bs)"
  by (cases bs) (simp_all add: read_byte_def)

text \<open>The command byte and the value are written by two stores that form the reply.\<close>

lemma write_value_message:
  assumes "5 \<le> length resp"
  shows "write_bytes resp 0 [c] \<bind> (\<lambda>resp. write_bytes resp 1 (le32 v) \<bind> (\<lambda>resp. f resp)) =
    f (value_message c v @ drop 5 resp)"
  using assms by (cases resp) (auto simp: write_bytes_def value_message_def)

lemma app_reply_length:
  "app_reply mm request capacity io = (Some reply, io') \<Longrightarrow> length reply \<le> capacity"
  by (auto simp: app_reply_def Let_def split: list.splits if_splits prod.splits)

text \<open>The handler on buffers computes the reply of the specification in place: within the
  capacity, nothing else of the response buffer written, and no access out of range.\<close>

lemma handle_message_refines:
  assumes "unat n \<le> length req" "unat cap \<le> length resp"
  shows "sg2002_rtos_app_handle_message mm (Some req) n (Some resp) (Some cap) io =
    (case app_reply mm (take (unat n) req) (unat cap) io of
       (None, io') \<Rightarrow> Some (SG2002_RTOS_APP_UNHANDLED, Some resp, Some 0, io')
     | (Some bs, io') \<Rightarrow> Some (SG2002_RTOS_APP_HANDLED, Some (bs @ drop (length bs) resp),
                               Some (of_nat (length bs)), io'))"
proof (cases "n = 0")
  case True
  then show ?thesis by (simp add: sg2002_rtos_app_handle_message_def app_reply_def)
next
  case False
  then have pos: "0 < unat n" by (simp add: unat_gt_0)
  with assms(1) obtain c args where req: "req = c # args" by (cases req) auto
  have tk: "take (unat n) req = c # take (unat n - 1) args"
    using pos req by (cases "unat n") auto
  have len: "length (take (unat n) req) = unat n" using assms(1) by simp
  have five: "n = 5 \<longleftrightarrow> length (take (unat n - 1) args) = 4"
    using len pos by (auto simp: tk word_unat_eq_iff)
  have capw: "cap < n \<longleftrightarrow> unat cap < unat n" "cap < 5 \<longleftrightarrow> unat cap < 5"
    by (simp_all add: word_less_nat_alt)
  have rd: "read_byte req 0 = Some c" by (simp add: req read_byte_def)
  note defs = sg2002_rtos_app_handle_message_def app_reply_def
  consider (range) "c < SG2002_RTOS_CMD_FIRST \<or> c > SG2002_RTOS_CMD_LAST"
    | (echo) "c = SG2002_RTOS_CMD_ECHO"
    | (small) "\<not> (c < SG2002_RTOS_CMD_FIRST \<or> c > SG2002_RTOS_CMD_LAST)"
        "c \<noteq> SG2002_RTOS_CMD_ECHO" "unat cap < 5"
    | (val) "\<not> (c < SG2002_RTOS_CMD_FIRST \<or> c > SG2002_RTOS_CMD_LAST)"
        "c \<noteq> SG2002_RTOS_CMD_ECHO" "\<not> unat cap < 5" by blast
  then show ?thesis
  proof cases
    case range
    then show ?thesis using False by (simp add: defs tk rd)
  next
    case echo
    have "read_bytes req 0 (unat n) = Some (take (unat n) req)"
      using assms(1) by (simp add: read_bytes_def)
    moreover have "unat n \<le> unat cap \<Longrightarrow>
        write_bytes resp 0 (take (unat n) req) = Some (take (unat n) req @ drop (unat n) resp)"
      using assms len by (simp add: write_bytes_def)
    ultimately show ?thesis
      using False echo len
      by (simp add: defs rd capw tk not_less del: take_eq_Nil split: if_splits)
  next
    case small
    then show ?thesis using False by (simp add: defs tk rd capw)
  next
    case val
    have "5 \<le> length resp" using val assms(2) by linarith
    note wr = write_value_message [OF this, of c]
    have arg: "n = 5 \<Longrightarrow> read_bytes req (Suc 0) 4 = Some (take (unat n - 1) args)"
      using assms(1) req by (simp add: read_bytes_def)
    have rng: "SG2002_RTOS_CMD_FIRST \<le> c" "c \<le> SG2002_RTOS_CMD_LAST" using val by auto
    show ?thesis
      using False val five arg
      by (simp add: defs tk rd capw app_handle_in_range [OF rng] wr [simplified] split: prod.splits)
  qed
qed

text \<open>A handled value message, at the level of the buffers.\<close>

lemma handle_value_message:
  assumes "5 \<le> cap" "unat cap \<le> length resp" "SG2002_RTOS_CMD_FIRST \<le> c"
    "c \<le> SG2002_RTOS_CMD_LAST" "c \<noteq> SG2002_RTOS_CMD_ECHO"
  shows "sg2002_rtos_app_handle_message mm (Some (value_message c v @ pad)) 5 (Some resp) (Some cap) io =
    (case command_value mm c v io of (v', io') \<Rightarrow>
       Some (SG2002_RTOS_APP_HANDLED, Some (value_message c v' @ drop 5 resp), Some 5, io'))"
proof -
  have "\<not> unat cap < 5" "\<not> (c < SG2002_RTOS_CMD_FIRST \<or> c > SG2002_RTOS_CMD_LAST)"
    using assms(1,3,4) by (simp_all add: word_le_nat_alt not_less)
  moreover have "take 5 (value_message c v @ pad) = c # le32 v"
    by (simp add: value_message_def)
  ultimately show ?thesis
    using assms(2,5)
    by (simp add: handle_message_refines app_reply_def Let_def split: prod.splits)
qed

lemmas app_handle_eval = command_value_def sg2002_rtos_app_handle_def

lemma uint_gpio_pin: "uint (pin AND 0xffff :: u32) = uint pin mod 65536"
  by (simp only: and_0xffff_take_bit unsigned_take_bit_eq) (simp add: take_bit_eq_mod)

text \<open>A GPIO argument word: the pin in the upper half, the level in bit 0.\<close>

lemma uint_pin_encode:
  assumes "uint pin < 65536"
  shows "uint (SG2002_RTOS_GPIO_PIN (SG2002_RTOS_GPIO_ENCODE pin v)) = uint pin"
  using assms by (simp add: uint_gpio_pin)

text \<open>The value part of the reply, command by command.\<close>

lemma command_values:
  "command_value mm SG2002_RTOS_CMD_PING v io = (v XOR SG2002_RTOS_PING_XOR, io)"
  "command_value mm SG2002_RTOS_CMD_GET_INFO v io = (SG2002_RTOS_INFO_VALUE, io)"
  "SG2002_RTOS_CMD_FIRST \<le> c \<Longrightarrow> c \<le> SG2002_RTOS_CMD_LAST \<Longrightarrow>
     c \<notin> {SG2002_RTOS_CMD_PING, SG2002_RTOS_CMD_GPIO_SET, SG2002_RTOS_CMD_GPIO_GET,
          SG2002_RTOS_CMD_GET_INFO, SG2002_RTOS_CMD_ECHO} \<Longrightarrow>
   command_value mm c v io = (SG2002_RTOS_RESPONSE_UNSUPPORTED, io)"
  by (simp_all add: app_handle_eval)

lemma unsupported_commands:
  "0x65 \<le> c \<Longrightarrow> SG2002_RTOS_CMD_FIRST \<le> c \<and>
     c \<noteq> SG2002_RTOS_CMD_PING \<and> c \<noteq> SG2002_RTOS_CMD_GPIO_SET \<and> c \<noteq> SG2002_RTOS_CMD_GPIO_GET \<and>
     c \<noteq> SG2002_RTOS_CMD_GET_INFO \<and> c \<noteq> SG2002_RTOS_CMD_ECHO"
  by (auto simp: word_le_nat_alt)

lemma gpio_set_value:
  assumes "uint pin < 65536"
  shows "command_value mm SG2002_RTOS_CMD_GPIO_SET (SG2002_RTOS_GPIO_ENCODE pin (of_bool level)) io =
    (if gpio_is_valid (uint pin)
     then (of_bool level, gpio_direction_output mm (uint pin) (of_bool level) io)
     else (SG2002_RTOS_RESPONSE_INVALID_ARGUMENT, io))"
  using uint_pin_encode [OF assms]
  by (cases level) (simp_all add: app_handle_eval del: gpio_pin_encode)

lemma gpio_get_value_reply:
  assumes "uint pin < 65536" "gpio_block_ok mm reg"
  shows "command_value mm SG2002_RTOS_CMD_GPIO_GET (SG2002_RTOS_GPIO_ENCODE pin v) io =
    (if gpio_is_valid (uint pin)
     then of_bool (bit (reg io (gpio_base_from_pin (uint pin) + 0x50)) (nat (uint pin mod 256)))
     else SG2002_RTOS_RESPONSE_INVALID_ARGUMENT, io)"
  using uint_pin_encode [OF assms(1)]
  by (simp add: app_handle_eval gpio_get_value_read [OF assms(2)] del: gpio_pin_encode)

subsection \<open>Properties\<close>

text \<open>Property C11: memory safety and framing of the message handler. For every request and
  response buffer that really have the announced sizes the handler returns without an access out
  of range; the reply fits in the capacity; response bytes behind the reply keep their values; and
  a message that is not handled leaves the response buffer and the device registers untouched and
  reports a reply of length zero.\<close>

theorem app_message_safe:
  assumes "unat n \<le> length req" "unat cap \<le> length resp"
  shows "\<exists>result resp' len' io'.
    sg2002_rtos_app_handle_message mm (Some req) n (Some resp) (Some cap) io =
      Some (result, Some resp', Some len', io') \<and>
    length resp' = length resp \<and> len' \<le> cap \<and>
    drop (unat len') resp' = drop (unat len') resp \<and>
    (result = SG2002_RTOS_APP_UNHANDLED \<longrightarrow> resp' = resp \<and> len' = 0 \<and> io' = io)"
proof (cases "app_reply mm (take (unat n) req) (unat cap) io")
  case (Pair r io')
  show ?thesis
  proof (cases r)
    case None
    then have "io' = io"
      using Pair by (auto simp: app_reply_def Let_def split: list.splits if_splits prod.splits)
    with None Pair show ?thesis by (simp add: handle_message_refines [OF assms])
  next
    case (Some bs)
    with Pair have len: "length bs \<le> unat cap" by (metis app_reply_length)
    moreover have "unat (of_nat (length bs) :: u16) = length bs"
      using len unat_u16_less [of cap] by (simp only: unat_of_nat_u16)
    ultimately show ?thesis
      using Some Pair assms(2)
      by (simp add: handle_message_refines [OF assms] word_le_nat_alt)
  qed
qed

theorem app_message_safe_witness:
  "\<exists>result resp' len' io'. sg2002_rtos_app_handle_message plain_mmio (Some [0x64, 1, 2]) 3
      (Some [9, 9, 9, 9]) (Some 3) (\<lambda>_. 0) = Some (result, Some resp', Some len', io') \<and>
    length resp' = 4 \<and> len' \<le> 3"
  using app_message_safe [of 3 "[0x64, 1, 2]" 3 "[9, 9, 9, 9]" plain_mmio "\<lambda>_. 0"] by auto

text \<open>A message with a null pointer is refused: the handler reads and writes no
  buffer, and where the length cell exists it is set to zero.\<close>

theorem app_message_null:
  "sg2002_rtos_app_handle_message mm request n response None io =
     Some (SG2002_RTOS_APP_UNHANDLED, response, None, io) \<and>
   sg2002_rtos_app_handle_message mm None n response (Some cap) io =
     Some (SG2002_RTOS_APP_UNHANDLED, response, Some 0, io) \<and>
   sg2002_rtos_app_handle_message mm request n None (Some cap) io =
     Some (SG2002_RTOS_APP_UNHANDLED, None, Some 0, io) \<and>
   sg2002_rtos_app_handle_message mm request 0 response (Some cap) io =
     Some (SG2002_RTOS_APP_UNHANDLED, response, Some 0, io)"
  by (simp add: sg2002_rtos_app_handle_message_def split: option.splits)

text \<open>Replies to value messages, byte for byte. PING answers the argument with the
  PING mask flipped, GET_INFO the information word whatever the argument, a command of the range
  without a handler the value UNSUPPORTED; the reply repeats the command byte, has five bytes and
  no device register changes.\<close>

theorem app_value_replies:
  assumes "5 \<le> cap" "unat cap \<le> length resp" "0x65 \<le> c" "c \<le> SG2002_RTOS_CMD_LAST"
  shows "sg2002_rtos_app_handle_message mm (Some (value_message SG2002_RTOS_CMD_PING v @ pad)) 5
      (Some resp) (Some cap) io =
    Some (SG2002_RTOS_APP_HANDLED,
      Some (value_message SG2002_RTOS_CMD_PING (v XOR SG2002_RTOS_PING_XOR) @ drop 5 resp), Some 5, io) \<and>
    sg2002_rtos_app_handle_message mm (Some (value_message SG2002_RTOS_CMD_GET_INFO v @ pad)) 5
      (Some resp) (Some cap) io =
    Some (SG2002_RTOS_APP_HANDLED,
      Some (value_message SG2002_RTOS_CMD_GET_INFO SG2002_RTOS_INFO_VALUE @ drop 5 resp), Some 5, io) \<and>
    sg2002_rtos_app_handle_message mm (Some (value_message c v @ pad)) 5
      (Some resp) (Some cap) io =
    Some (SG2002_RTOS_APP_HANDLED,
      Some (value_message c SG2002_RTOS_RESPONSE_UNSUPPORTED @ drop 5 resp), Some 5, io)"
  using assms unsupported_commands [OF assms(3)]
  by (simp add: handle_value_message command_values)

theorem app_value_replies_witness:
  "sg2002_rtos_app_handle_message plain_mmio (Some (value_message SG2002_RTOS_CMD_PING 7)) 5
      (Some (replicate 8 0)) (Some 8) (\<lambda>_. 0) =
    Some (SG2002_RTOS_APP_HANDLED,
      Some (value_message SG2002_RTOS_CMD_PING 0xa5a55a5d @ replicate 3 0), Some 5, \<lambda>_. 0)"
  using app_value_replies [of 8 "replicate 8 0" "0x70" plain_mmio 7 "[]" "\<lambda>_. 0"] by simp

text \<open>GPIO replies. For a valid pin GPIO_SET drives exactly that pin to the requested
  level and answers the level, GPIO_GET answers the level of the pin in the port register of its
  bank and changes no register; for a pin no bank has, both answer INVALID_ARGUMENT and touch no
  register.\<close>

theorem app_gpio_replies:
  assumes "5 \<le> cap" "unat cap \<le> length resp" "uint pin < 65536" "gpio_block_ok mm reg"
  shows "sg2002_rtos_app_handle_message mm
      (Some (value_message SG2002_RTOS_CMD_GPIO_SET (SG2002_RTOS_GPIO_ENCODE pin (of_bool level)) @ pad)) 5
      (Some resp) (Some cap) io =
    Some (if gpio_is_valid (uint pin)
      then (SG2002_RTOS_APP_HANDLED,
        Some (value_message SG2002_RTOS_CMD_GPIO_SET (of_bool level) @ drop 5 resp), Some 5,
        gpio_direction_output mm (uint pin) (of_bool level) io)
      else (SG2002_RTOS_APP_HANDLED, Some (value_message SG2002_RTOS_CMD_GPIO_SET
        SG2002_RTOS_RESPONSE_INVALID_ARGUMENT @ drop 5 resp), Some 5, io)) \<and>
    sg2002_rtos_app_handle_message mm
      (Some (value_message SG2002_RTOS_CMD_GPIO_GET (SG2002_RTOS_GPIO_ENCODE pin v) @ pad)) 5
      (Some resp) (Some cap) io =
    Some (SG2002_RTOS_APP_HANDLED,
      Some (value_message SG2002_RTOS_CMD_GPIO_GET (if gpio_is_valid (uint pin)
        then of_bool (bit (reg io (gpio_base_from_pin (uint pin) + 0x50)) (nat (uint pin mod 256)))
        else SG2002_RTOS_RESPONSE_INVALID_ARGUMENT) @ drop 5 resp), Some 5, io)"
  using assms
  by (simp add: handle_value_message gpio_set_value gpio_get_value_reply)

theorem app_gpio_replies_witness:
  "sg2002_rtos_app_handle_message plain_mmio
      (Some (value_message SG2002_RTOS_CMD_GPIO_GET (SG2002_RTOS_GPIO_ENCODE 0xA1D 0))) 5
      (Some (replicate 5 0)) (Some 5) (\<lambda>a. if a = 0x03020050 then 0x20000000 else 0) =
    Some (SG2002_RTOS_APP_HANDLED, Some (value_message SG2002_RTOS_CMD_GPIO_GET 1), Some 5,
      \<lambda>a. if a = 0x03020050 then 0x20000000 else 0)"
  using app_gpio_replies [OF _ _ _ gpio_block_ok_plain, of 5 "replicate 5 0" "0xA1D" True "[]"
      "\<lambda>a. if a = 0x03020050 then 0x20000000 else 0" 0]
  by (simp add: gpio_is_valid_alt gpio_base_from_pin_def int_drop_8)

text \<open>Framing errors and echo. A message whose first byte is outside the command
  range is not handled; an ECHO message of any length that fits is returned byte for byte; every
  other command whose message is not five bytes long is answered with INVALID_ARGUMENT and never
  reaches the command handler, so it cannot change a device register.\<close>

theorem app_framing:
  assumes "unat n \<le> length (c # args)" "0 < n" "unat cap \<le> length resp"
  shows "sg2002_rtos_app_handle_message mm (Some (c # args)) n (Some resp) (Some cap) io =
    (if c < SG2002_RTOS_CMD_FIRST \<or> c > SG2002_RTOS_CMD_LAST \<or>
        (c = SG2002_RTOS_CMD_ECHO \<and> n > cap) \<or> (c \<noteq> SG2002_RTOS_CMD_ECHO \<and> cap < 5)
     then Some (SG2002_RTOS_APP_UNHANDLED, Some resp, Some 0, io)
     else if c = SG2002_RTOS_CMD_ECHO
     then Some (SG2002_RTOS_APP_HANDLED, Some (take (unat n) (c # args) @ drop (unat n) resp), Some n, io)
     else if n \<noteq> 5
     then Some (SG2002_RTOS_APP_HANDLED,
       Some (value_message c SG2002_RTOS_RESPONSE_INVALID_ARGUMENT @ drop 5 resp), Some 5, io)
     else sg2002_rtos_app_handle_message mm (Some (c # args)) 5 (Some resp) (Some cap) io)"
proof -
  obtain k where k: "unat n = Suc k" using assms(2) by (metis gr0_conv_Suc unat_gt_0 word_neq_0_conv)
  have len: "length (take k args) = k" using assms(1) k by simp
  have n5: "n = 5 \<longleftrightarrow> k = 4" using k by (simp add: word_unat_eq_iff)
  have "of_nat (unat n) = n" by simp
  then have w: "cap < n \<longleftrightarrow> unat cap < Suc k" "cap < 5 \<longleftrightarrow> unat cap < 5" "n = of_nat (Suc k)"
    by (simp_all only: k word_less_nat_alt) simp_all
  show ?thesis
  proof (cases "n = 5 \<and> \<not> (c < SG2002_RTOS_CMD_FIRST \<or> c > SG2002_RTOS_CMD_LAST) \<and>
      c \<noteq> SG2002_RTOS_CMD_ECHO \<and> \<not> cap < 5")
    case False
    then show ?thesis
      using assms(3) len n5
      by (simp add: handle_message_refines [OF assms(1,3)] app_reply_def k w(1,2)) (auto simp: w(3))
  qed simp
qed

theorem app_framing_witness:
  "sg2002_rtos_app_handle_message plain_mmio (Some [0x61, 1]) 2 (Some (replicate 6 0)) (Some 6) (\<lambda>_. 0) =
    Some (SG2002_RTOS_APP_HANDLED,
      Some (value_message 0x61 SG2002_RTOS_RESPONSE_INVALID_ARGUMENT @ [0]), Some 5, \<lambda>_. 0)"
  using app_framing [of 2 "0x61" "[1]" 6 "replicate 6 0" plain_mmio "\<lambda>_. 0"] by simp

text \<open>The error values are not reserved for PING. A PING whose argument is the
  complement of the PING mask is answered, as a success, with the value UNSUPPORTED, and one with
  the lowest bit of that argument flipped with the value INVALID_ARGUMENT.\<close>

theorem ping_reaches_reserved_values:
  "fst (command_value mm SG2002_RTOS_CMD_PING 0x5a5aa5a5 io) = SG2002_RTOS_RESPONSE_UNSUPPORTED \<and>
   fst (command_value mm SG2002_RTOS_CMD_PING 0x5a5aa5a4 io) = SG2002_RTOS_RESPONSE_INVALID_ARGUMENT \<and>
   sg2002_rtos_app_handle mm SG2002_RTOS_CMD_PING (Some 0x5a5aa5a5) io =
     (SG2002_RTOS_APP_HANDLED, Some SG2002_RTOS_RESPONSE_UNSUPPORTED, io)"
  by (simp add: app_handle_eval)

end
