(* ===== verification/Shm_Transport.thy ===== *)
theory Shm_Transport
  imports Ring_Cached App
begin

section \<open>The shared-memory transport of the firmware\<close>

text \<open>
  \<^verbatim>\<open>firmware/transport/sg2002_rtos_shm_transport.c\<close>: attaching to the generation Linux has
  published, and the loop that pops requests, hands them to the application and pushes the
  responses. The static variables of the file are the record \<open>transport\<close>; the memory of the
  C906L is \<open>fw_mem\<close> with the cached view and the shared RAM; device registers are \<open>'io\<close>.
  The cache primitives and the register accesses are parameters.

  The result is stated over RAM, the part Linux sees: one call answers as many requests as the
  response ring has room for, in order, each response carrying the sequence of its request.
\<close>

subsection \<open>State and operations\<close>

datatype sg2002_rtos_shm_process_result =
    SG2002_RTOS_SHM_PROCESS_OK
  | SG2002_RTOS_SHM_PROCESS_NOT_READY
  | SG2002_RTOS_SHM_PROCESS_CORRUPT

record 'w transport =
  request_ring :: "(unit, 'w) sg2002_rtos_ring"
  response_ring :: "(unit, 'w) sg2002_rtos_ring"
  request_message :: sg2002_rtos_shm_slot
  response_message :: sg2002_rtos_shm_slot
  active_generation :: u32

definition sync_control_for_cpu ::
  "'x dcache_range \<Rightarrow> shm_addr \<Rightarrow> nat \<Rightarrow> 'x fw_mem_scheme \<Rightarrow> 'x fw_mem_scheme" where
  "sync_control_for_cpu inv_dcache_range address n w =
     shm_memory_barrier () (inv_dcache_range address n w)"

definition publish_rtos_state ::
  "'x dcache_range \<Rightarrow> u32 \<Rightarrow> u32 \<Rightarrow> 'x fw_mem_scheme \<Rightarrow> 'x fw_mem_scheme" where
  "publish_rtos_state clean_dcache_range state generation w =
     (let w = w\<lparr>view := (view w)\<lparr>rtos_peer := (rtos_peer (view w))\<lparr>peer_generation := generation\<rparr>\<rparr>\<rparr>;
          w = w\<lparr>view := (view w)\<lparr>rtos_peer := (rtos_peer (view w))\<lparr>peer_state := state\<rparr>\<rparr>\<rparr>;
          w = shm_memory_barrier () w;
          w = clean_dcache_range Rtos_peer_line (addr_size Rtos_peer_line) w
      in shm_memory_barrier () w)"

definition layout_is_valid :: "u32 \<Rightarrow> 'x cpu_mem_scheme \<Rightarrow> bool" where
  "layout_is_valid generation w \<longleftrightarrow> (let l = layout (view w) in
     magic l = SG2002_RTOS_SHM_MAGIC \<and>
     abi_version l = SG2002_RTOS_SHM_ABI_VERSION \<and>
     control_size l = SG2002_RTOS_SHM_CONTROL_SIZE \<and>
     region_size l = SG2002_RTOS_SHM_REGION_SIZE \<and>
     slot_size l = SG2002_RTOS_SHM_SLOT_SIZE \<and>
     slot_count l = SG2002_RTOS_SHM_SLOT_COUNT \<and>
     request_offset l = SG2002_RTOS_SHM_REQUEST_OFFSET \<and>
     response_offset l = SG2002_RTOS_SHM_RESPONSE_OFFSET \<and>
     layout_generation l = generation \<and>
     features l AND SG2002_RTOS_SHM_FEATURES = SG2002_RTOS_SHM_FEATURES)"

definition attach ::
  "'x dcache_range \<Rightarrow> 'x dcache_range \<Rightarrow> 'x fw_mem_scheme transport \<Rightarrow> 'x fw_mem_scheme \<Rightarrow>
    bool \<times> 'x fw_mem_scheme transport \<times> 'x fw_mem_scheme" where
  "attach inv_dcache_range clean_dcache_range t w =
     (let w = sync_control_for_cpu inv_dcache_range Layout_line (addr_size Layout_line) w;
          w = sync_control_for_cpu inv_dcache_range Linux_peer_line (addr_size Linux_peer_line) w;
          generation = layout_generation (layout (view w))
      in if generation = 0 \<or> \<not> layout_is_valid generation w \<or>
            peer_state (linux_peer (view w)) \<noteq> SG2002_RTOS_SHM_STATE_READY \<or>
            peer_generation (linux_peer (view w)) \<noteq> generation
         then (False, t, w)
         else if active_generation t = generation then (True, t, w)
         else let ops = Some (cache_ops inv_dcache_range clean_dcache_range);
                  t = (case sg2002_rtos_ring_init (Some (request_ring t)) (Some Request_producer)
                         (Some Request_consumer) (Some Request_slots) ops of
                         Some r \<Rightarrow> t\<lparr>request_ring := r\<rparr> | None \<Rightarrow> t);
                  t = (case sg2002_rtos_ring_init (Some (response_ring t)) (Some Response_producer)
                         (Some Response_consumer) (Some Response_slots) ops of
                         Some r \<Rightarrow> t\<lparr>response_ring := r\<rparr> | None \<Rightarrow> t);
                  t = t\<lparr>active_generation := generation\<rparr>;
                  w = publish_rtos_state clean_dcache_range SG2002_RTOS_SHM_STATE_READY generation w
              in (True, t, w))"

definition mark_corrupt ::
  "'x dcache_range \<Rightarrow> 'x fw_mem_scheme transport \<Rightarrow> 'x fw_mem_scheme \<Rightarrow>
    sg2002_rtos_shm_process_result \<times> 'x fw_mem_scheme" where
  "mark_corrupt clean_dcache_range t w =
     (SG2002_RTOS_SHM_PROCESS_CORRUPT,
      publish_rtos_state clean_dcache_range SG2002_RTOS_SHM_STATE_ERROR (active_generation t) w)"

definition sg2002_rtos_shm_transport_init :: "'w transport \<Rightarrow> 'w transport" where
  "sg2002_rtos_shm_transport_init t = t\<lparr>active_generation := 0\<rparr>"

definition sg2002_rtos_shm_generation :: "'w transport \<Rightarrow> u32" where
  "sg2002_rtos_shm_generation t = active_generation t"

text \<open>The body of the loop for a popped request: clear the response, copy the sequence, let the
  application fill the payload and set the length; \<^const>\<open>None\<close> is an access out of range.\<close>

definition build_response ::
  "'io mmio_ops \<Rightarrow> 'w transport \<Rightarrow> 'io \<Rightarrow> ('w transport \<times> 'io) option" where
  "build_response mm t io = (let
       q = request_message t;
       r = zero_slot\<lparr>sequence := sequence q\<rparr>
     in do {
       (app_result, buf, len, io) \<leftarrow> sg2002_rtos_app_handle_message mm (Some (payload q))
          (slot_length q) (Some (payload r)) (Some SG2002_RTOS_SHM_PAYLOAD_SIZE) io;
       buf \<leftarrow> buf;
       len \<leftarrow> len;
       Some (t\<lparr>response_message := r\<lparr>payload := buf, slot_length :=
                 (if app_result \<noteq> SG2002_RTOS_APP_HANDLED then 0 else len)\<rparr>\<rparr>, io)
     })"

function process_loop ::
  "'x dcache_range \<Rightarrow> 'io mmio_ops \<Rightarrow> nat \<Rightarrow> 'x fw_mem_scheme transport \<Rightarrow> 'x fw_mem_scheme \<Rightarrow> 'io \<Rightarrow>
    (sg2002_rtos_shm_process_result \<times> nat \<times> 'x fw_mem_scheme transport \<times> 'x fw_mem_scheme \<times> 'io) option"
  where
  "process_loop clean_dcache_range mm count t w io =
     (if \<not> count < SG2002_RTOS_SHM_SLOT_COUNT then Some (SG2002_RTOS_SHM_PROCESS_OK, count, t, w, io)
      else let (can_push, w) = sg2002_rtos_ring_can_push (Some (response_ring t)) w in
        if can_push < 0 then
          (let (result, w) = mark_corrupt clean_dcache_range t w in Some (result, count, t, w, io))
        else if can_push = 0 then Some (SG2002_RTOS_SHM_PROCESS_OK, count, t, w, io)
        else let (ring_result, message, w) =
                   sg2002_rtos_ring_try_pop (Some (request_ring t)) (Some (request_message t)) w;
                 t = (case message of Some m \<Rightarrow> t\<lparr>request_message := m\<rparr> | None \<Rightarrow> t)
          in if ring_result = SG2002_RTOS_RING_EMPTY then
               Some (SG2002_RTOS_SHM_PROCESS_OK, count, t, w, io)
             else if ring_result \<noteq> SG2002_RTOS_RING_OK then
               (let (result, w) = mark_corrupt clean_dcache_range t w in Some (result, count, t, w, io))
             else (case build_response mm t io of
                 None \<Rightarrow> None
               | Some (t, io) \<Rightarrow>
                   (let (ring_result, w) = sg2002_rtos_ring_try_push (Some (response_ring t))
                          (Some (response_message t)) w
                    in if ring_result \<noteq> SG2002_RTOS_RING_OK then
                         (let (result, w) = mark_corrupt clean_dcache_range t w
                          in Some (result, count, t, w, io))
                       else process_loop clean_dcache_range mm (count + 1) t w io)))"
  by pat_completeness auto

termination
  by (relation "measure (\<lambda>(_, _, count, _). SG2002_RTOS_SHM_SLOT_COUNT - count)") auto

declare process_loop.simps [simp del]

definition sg2002_rtos_shm_process ::
  "'x dcache_range \<Rightarrow> 'x dcache_range \<Rightarrow> 'io mmio_ops \<Rightarrow> u32 option \<Rightarrow> 'x fw_mem_scheme transport \<Rightarrow>
    'x fw_mem_scheme \<Rightarrow> 'io \<Rightarrow>
    (sg2002_rtos_shm_process_result \<times> u32 option \<times> 'x fw_mem_scheme transport \<times>
      'x fw_mem_scheme \<times> 'io) option" where
  "sg2002_rtos_shm_process inv_dcache_range clean_dcache_range mm processed t w io =
     (let processed = map_option (\<lambda>_. 0) processed;
          (attached, t, w) = attach inv_dcache_range clean_dcache_range t w
      in if \<not> attached then Some (SG2002_RTOS_SHM_PROCESS_NOT_READY, processed, t, w, io)
         else do {
           (result, count, t, w, io) \<leftarrow> process_loop clean_dcache_range mm 0 t w io;
           Some (result,
             (if result = SG2002_RTOS_SHM_PROCESS_OK
              then map_option (\<lambda>_. of_nat count) processed else processed), t, w, io)
         })"

subsection \<open>Specification: a server of message lists\<close>

abbreviation requests :: "shm_region \<Rightarrow> sg2002_rtos_shm_slot list" where
  "requests \<equiv> ring_contents Request_producer Request_consumer Request_slots"

abbreviation responses :: "shm_region \<Rightarrow> sg2002_rtos_shm_slot list" where
  "responses \<equiv> ring_contents Response_producer Response_consumer Response_slots"

definition rings_ok :: "shm_region \<Rightarrow> bool" where
  "rings_ok m \<longleftrightarrow> ring_contents_ok Request_producer Request_consumer Request_slots m \<and>
     ring_contents_ok Response_producer Response_consumer Response_slots m"

text \<open>The payload of a slot is its first \<open>slot_length\<close> bytes.\<close>

definition slot_bytes :: "sg2002_rtos_shm_slot \<Rightarrow> bytes" where
  "slot_bytes s = take (unat (slot_length s)) (payload s)"

definition slot_of_bytes :: "u32 \<Rightarrow> bytes \<Rightarrow> sg2002_rtos_shm_slot" where
  "slot_of_bytes seq bs = \<lparr>sequence = seq, slot_length = of_nat (length bs),
     payload = bs @ replicate (SG2002_RTOS_SHM_PAYLOAD_SIZE - length bs) 0\<rparr>"

text \<open>The response to one request: its sequence, and the reply of the application or, for a
  message the application does not handle, no bytes.\<close>

definition response_to ::
  "'io mmio_ops \<Rightarrow> sg2002_rtos_shm_slot \<Rightarrow> 'io \<Rightarrow> sg2002_rtos_shm_slot \<times> 'io" where
  "response_to mm q io =
     (case app_reply mm (slot_bytes q) SG2002_RTOS_SHM_PAYLOAD_SIZE io of (reply, io') \<Rightarrow>
        (slot_of_bytes (sequence q) (case reply of None \<Rightarrow> [] | Some bs \<Rightarrow> bs), io'))"

fun serve_all ::
  "'io mmio_ops \<Rightarrow> sg2002_rtos_shm_slot list \<Rightarrow> 'io \<Rightarrow> sg2002_rtos_shm_slot list \<times> 'io" where
  "serve_all mm [] io = ([], io)"
| "serve_all mm (q # qs) io =
     (let (r, io) = response_to mm q io; (rs, io) = serve_all mm qs io in (r # rs, io))"

text \<open>How many requests one call can answer.\<close>

definition batch_size :: "shm_region \<Rightarrow> nat" where
  "batch_size m = min (length (requests m)) (64 - length (responses m))"

text \<open>Linux has published a generation the firmware accepts.\<close>

definition linux_ready :: "u32 \<Rightarrow> shm_region \<Rightarrow> bool" where
  "linux_ready g m \<longleftrightarrow> g \<noteq> 0 \<and> layout_generation (layout m) = g \<and>
     layout_is_valid g \<lparr>view = m\<rparr> \<and> linux_peer m = \<lparr>peer_state = SG2002_RTOS_SHM_STATE_READY,
       peer_generation = g\<rparr>"

text \<open>The rings of an attached transport.\<close>

definition transport_rings ::
  "'x dcache_range \<Rightarrow> 'x dcache_range \<Rightarrow> 'x fw_mem_scheme transport \<Rightarrow> bool" where
  "transport_rings iv cl t \<longleftrightarrow>
     ring_cached (request_ring t) iv cl Request_producer Request_consumer Request_slots \<and>
     ring_cached (response_ring t) iv cl Response_producer Response_consumer Response_slots"

text \<open>The invariant of the static variables: with a non-zero active generation the rings are
  initialised.\<close>

definition transport_ok ::
  "'x dcache_range \<Rightarrow> 'x dcache_range \<Rightarrow> 'x fw_mem_scheme transport \<Rightarrow> bool" where
  "transport_ok iv cl t \<longleftrightarrow> dcache_ok iv cl \<and> (active_generation t \<noteq> 0 \<longrightarrow> transport_rings iv cl t)"

text \<open>A region Linux has just initialised for generation 1, with one request; for concrete
  evaluations.\<close>

definition demo_region :: "sg2002_rtos_shm_slot \<Rightarrow> shm_region" where
  "demo_region q = blank_region\<lparr>layout := \<lparr>magic = SG2002_RTOS_SHM_MAGIC, abi_version = 2,
       control_size = 0x1000, region_size = 0x21000, slot_size = 1024, slot_count = 64,
       request_offset = 0x1000, response_offset = 0x11000, layout_generation = 1, features = 1\<rparr>,
     linux_peer := \<lparr>peer_state = SG2002_RTOS_SHM_STATE_READY, peer_generation = 1\<rparr>,
     request_producer := 1, request_slots := (request_slots blank_region)[0 := q]\<rparr>"

definition demo_transport :: "fw_mem transport" where
  "demo_transport = (let r = \<lparr>ring_producer = None, ring_consumer = None, ring_slots = None,
       ring_cache_ops = None\<rparr>
     in \<lparr>request_ring = r, response_ring = r, request_message = zero_slot,
       response_message = zero_slot, active_generation = 0\<rparr>)"

subsection \<open>Lemmas\<close>

lemma layout_is_valid_cong: "layout (view w) = layout m \<Longrightarrow> layout_is_valid g w = layout_is_valid g \<lparr>view = m\<rparr>"
  by (simp add: layout_is_valid_def)

lemma publish_rtos_state_ram:
  assumes "dcache_ok iv cl"
  shows "publish_rtos_state cl st g w =
    w\<lparr>view := (view w)\<lparr>rtos_peer := \<lparr>peer_state = st, peer_generation = g\<rparr>\<rparr>,
      ram := (ram w)\<lparr>rtos_peer := \<lparr>peer_state = st, peer_generation = g\<rparr>\<rparr>\<rparr>"
  using dcache_clean [OF assms, of Rtos_peer_line]
  by (simp add: publish_rtos_state_def shm_memory_barrier_def Let_def del: addr_size.simps)

lemma sync_control_ram:
  assumes "dcache_ok iv cl" "addr_in_region a"
  shows "sync_control_for_cpu iv a (addr_size a) w = w\<lparr>view := copy_line a (ram w) (view w)\<rparr>"
  using dcache_inv [OF assms refl] by (simp add: sync_control_for_cpu_def shm_memory_barrier_def)

lemma region_wf_control [simp]:
  "region_wf (m\<lparr>layout := l\<rparr>) = region_wf m" "region_wf (m\<lparr>linux_peer := p\<rparr>) = region_wf m"
  "region_wf (m\<lparr>rtos_peer := p\<rparr>) = region_wf m"
  by (simp_all add: region_wf_def)

lemma load_counter_control [simp]: "load_counter c (m\<lparr>rtos_peer := p\<rparr>) = load_counter c m"
  by (cases c) simp_all

lemma slots_of_control [simp]: "slots_of S (m\<lparr>rtos_peer := p\<rparr>) = slots_of S m"
  by (cases S) simp_all

lemma ring_contents_control [simp]:
  "ring_contents P C S (m\<lparr>rtos_peer := p\<rparr>) = ring_contents P C S m"
  "ring_count P C (m\<lparr>rtos_peer := p\<rparr>) = ring_count P C m"
  by (simp_all add: ring_contents_def ring_count_def)

lemma rings_ok_control [simp]: "rings_ok (m\<lparr>rtos_peer := p\<rparr>) = rings_ok m"
  by (simp add: rings_ok_def ring_contents_ok_def ring_ok_def)

text \<open>Attaching, over RAM: only the firmware's own peer line changes, and only when the
  generation is new.\<close>

lemma attach_not_ready:
  assumes "dcache_ok iv cl" "mem_wf w" "\<forall>g. \<not> linux_ready g (ram w)"
  shows "\<exists>v. region_wf v \<and> attach iv cl t w = (False, t, w\<lparr>view := v\<rparr>)"
proof -
  let ?v = "(view w)\<lparr>layout := layout (ram w), linux_peer := linux_peer (ram w)\<rparr>"
  have "attach iv cl t w = (False, t, w\<lparr>view := ?v\<rparr>)"
    using assms(3) layout_is_valid_cong [of "w\<lparr>view := ?v\<rparr>" "ram w"]
    by (auto simp: attach_def sync_control_ram [OF assms(1)] linux_ready_def Let_def
        simp del: addr_size.simps)
  moreover have "region_wf ?v" using assms(2) by (simp add: mem_wf_def)
  ultimately show ?thesis by blast
qed

lemma attach_ready:
  assumes "transport_ok iv cl t" "mem_wf w" "linux_ready g (ram w)"
  shows "\<exists>t' w'. attach iv cl t w = (True, t', w') \<and> transport_rings iv cl t' \<and>
    active_generation t' = g \<and> mem_wf w' \<and>
    ram w' = (if active_generation t = g then ram w
      else (ram w)\<lparr>rtos_peer := \<lparr>peer_state = SG2002_RTOS_SHM_STATE_READY, peer_generation = g\<rparr>\<rparr>)"
proof -
  have dc: "dcache_ok iv cl" using assms(1) by (simp add: transport_ok_def)
  let ?v = "(view w)\<lparr>layout := layout (ram w), linux_peer := linux_peer (ram w)\<rparr>"
  have valid: "layout_is_valid g (w\<lparr>view := ?v\<rparr>)"
    using assms(3) layout_is_valid_cong [of "w\<lparr>view := ?v\<rparr>" "ram w"] by (simp add: linux_ready_def)
  show ?thesis
    using assms valid
    by (auto simp: attach_def sync_control_ram [OF dc] publish_rtos_state_ram [OF dc]
        linux_ready_def Let_def sg2002_rtos_ring_init_def transport_rings_def ring_cached_def
        ring_ptrs_def transport_ok_def mem_wf_def simp del: addr_size.simps)
qed

text \<open>The response the loop builds is the one of the specification.\<close>

lemma unat_le_1018: "(n :: u16) \<le> 1018 \<longleftrightarrow> unat n \<le> 1018"
  by (simp add: word_le_nat_alt)

lemma build_response_spec:
  assumes "message_ok (request_message t)"
  shows "build_response mm t io =
    Some (t\<lparr>response_message := fst (response_to mm (request_message t) io)\<rparr>,
          snd (response_to mm (request_message t) io))"
proof -
  have "unat (slot_length (request_message t)) \<le> length (payload (request_message t))"
    using assms by (simp add: message_ok_def slot_wf_def unat_le_1018)
  then show ?thesis
    by (auto simp: build_response_def handle_message_refines response_to_def slot_bytes_def
        slot_of_bytes_def zero_slot_def Let_def split: prod.splits option.splits)
qed

lemma response_to_ok: "message_ok (fst (response_to mm q io))"
proof -
  obtain r io' where r: "app_reply mm (slot_bytes q) 1018 io = (r, io')" by fastforce
  have "message_ok (slot_of_bytes (sequence q) bs)" if "length bs \<le> 1018" for bs
    using that by (simp add: message_ok_def slot_wf_def slot_of_bytes_def unat_le_1018 unat_of_nat_u16)
  with r show ?thesis by (auto simp: response_to_def app_reply_length split: option.splits)
qed

lemma rings_ok_step:
  assumes "rings_ok m" "requests m = q # qs" "length (responses m) < 64" "message_ok r"
  defines "m' \<equiv> push_effect Response_producer Response_slots r (pop_effect Request_consumer m)"
  shows "rings_ok m' \<and> requests m' = qs \<and> responses m' = responses m @ [r] \<and>
    layout m' = layout m \<and> linux_peer m' = linux_peer m \<and> rtos_peer m' = rtos_peer m"
proof -
  let ?m1 = "pop_effect Request_consumer m"
  have c: "0 < ring_count Request_producer Request_consumer m" "pop_message Request_consumer Request_slots m = q"
      "requests ?m1 = qs"
    using contents_pop_cons [of Request_producer Request_consumer Request_slots m q qs] assms(2) by auto
  have "ring_contents_ok Request_producer Request_consumer Request_slots ?m1"
    using assms(1) c ring_contents_ok_pop [of Request_producer Request_consumer Request_slots m]
    by (simp add: rings_ok_def)
  moreover have resp: "ring_contents_ok Response_producer Response_consumer Response_slots ?m1"
    using assms(1) calculation by (simp add: rings_ok_def ring_contents_ok_def ring_ok_def)
  moreover have n: "ring_count Response_producer Response_consumer ?m1 < 64"
    using assms(3) by simp
  moreover have "ring_contents_ok Response_producer Response_consumer Response_slots m'"
    using ring_contents_ok_push [OF _ resp n assms(4)] by (simp add: m'_def)
  moreover have "region_wf m'"
    using calculation(4) by (simp add: ring_contents_ok_def ring_ok_def)
  moreover have "responses m' = responses m @ [r]"
    using contents_push [of Response_producer Response_consumer ?m1 Response_slots r] n resp
    by (simp add: m'_def ring_contents_ok_def ring_ok_def)
  moreover have "ring_contents_ok Request_producer Request_consumer Request_slots m'"
    using calculation(1,5) by (simp add: m'_def ring_contents_ok_def ring_ok_def)
  ultimately show ?thesis
    using c(3) by (simp add: rings_ok_def) (simp add: m'_def)
qed

text \<open>The first half of an iteration, when both rings have consistent counters: ask for room and
  pop; the cached view after it is arbitrary but well formed.\<close>

lemma can_push_response:
  assumes "transport_rings iv cl t" "mem_wf w"
  shows "\<exists>v. region_wf v \<and> sg2002_rtos_ring_can_push (Some (response_ring t)) w =
    (let n = ring_count Response_producer Response_consumer (ram w)
     in if n > 64 then -3 else if n < 64 then 1 else 0, w\<lparr>view := v\<rparr>)"
proof -
  have "region_wf (fetch_counters Response_producer Response_consumer w)"
    using assms(2) by (simp add: mem_wf_def)
  moreover have "ring_cached (response_ring t) iv cl Response_producer Response_consumer Response_slots"
    using assms(1) by (simp add: transport_rings_def)
  ultimately show ?thesis
    by (intro exI [of _ "fetch_counters Response_producer Response_consumer w"])
      (simp add: can_push_cached Let_def)
qed

lemma pop_request:
  assumes "transport_rings iv cl t" "mem_wf w"
  shows "\<exists>v. region_wf v \<and> sg2002_rtos_ring_try_pop (Some (request_ring t)) (Some old) w =
    (if ring_count Request_producer Request_consumer (ram w) > 64
     then (SG2002_RTOS_RING_CORRUPT, Some old, w\<lparr>view := v\<rparr>)
     else if ring_count Request_producer Request_consumer (ram w) = 0
     then (SG2002_RTOS_RING_EMPTY, Some old, w\<lparr>view := v\<rparr>)
     else let msg = pop_message Request_consumer Request_slots (ram w) in
       (if slot_length msg > SG2002_RTOS_SHM_PAYLOAD_SIZE
        then SG2002_RTOS_RING_CORRUPT else SG2002_RTOS_RING_OK,
        Some msg, w\<lparr>view := v, ram := pop_effect Request_consumer (ram w)\<rparr>))"
  using try_pop_cached assms unfolding transport_rings_def by blast

lemma process_loop_step:
  fixes mm :: "'io mmio_ops" and io :: 'io
  assumes "transport_rings iv cl t" "mem_wf w" "rings_ok (ram w)" "count < 64"
    and "requests (ram w) = q # qs" "length (responses (ram w)) < 64"
  defines "m' \<equiv> push_effect Response_producer Response_slots (fst (response_to mm q io))
    (pop_effect Request_consumer (ram w))"
  shows "\<exists>v. region_wf v \<and> process_loop cl mm count t w io =
    process_loop cl mm (count + 1)
      (t\<lparr>request_message := q, response_message := fst (response_to mm q io)\<rparr>)
      (w\<lparr>view := v, ram := m'\<rparr>) (snd (response_to mm q io))"
proof -
  obtain v1 where v1: "region_wf v1"
    "sg2002_rtos_ring_can_push (Some (response_ring t)) w = (1, w\<lparr>view := v1\<rparr>)"
    using can_push_response [OF assms(1,2)] assms(6) by (auto simp: Let_def)
  have q: "pop_message Request_consumer Request_slots (ram w) = q"
    "0 < ring_count Request_producer Request_consumer (ram w)"
    using contents_pop_cons [OF _ assms(5)] by simp_all
  have ok: "message_ok q" and cnt: "ring_count Request_producer Request_consumer (ram w) \<le> 64"
    using assms(3,5) by (simp_all add: rings_ok_def ring_contents_ok_def ring_ok_def)
  have wf1: "mem_wf (w\<lparr>view := v1\<rparr>)" using v1(1) assms(2) by (simp add: mem_wf_def)
  obtain v2 where v2: "region_wf v2"
    "sg2002_rtos_ring_try_pop (Some (request_ring t)) (Some (request_message t)) (w\<lparr>view := v1\<rparr>) =
      (SG2002_RTOS_RING_OK, Some q, w\<lparr>view := v2, ram := pop_effect Request_consumer (ram w)\<rparr>)"
    using pop_request [OF assms(1) wf1, of "request_message t"] q cnt ok
    by (auto simp: Let_def message_ok_def leD)
  let ?t = "t\<lparr>request_message := q, response_message := fst (response_to mm q io)\<rparr>"
  let ?w = "w\<lparr>view := v2, ram := pop_effect Request_consumer (ram w)\<rparr>"
  have wf2: "mem_wf ?w" using v2(1) assms(2) by (simp add: mem_wf_def)
  have r: "message_ok (fst (response_to mm q io))" by (rule response_to_ok)
  obtain v3 where v3: "region_wf v3"
    "sg2002_rtos_ring_try_push (Some (response_ring t)) (Some (fst (response_to mm q io))) ?w =
      (SG2002_RTOS_RING_OK, w\<lparr>view := v3, ram := m'\<rparr>)"
    using try_push_cached [of "response_ring t" iv cl Response_producer Response_consumer
        Response_slots ?w "fst (response_to mm q io)"] assms(1,6) wf2 r
    by (auto simp: transport_rings_def message_ok_def leD m'_def)
  have br: "build_response mm (t\<lparr>request_message := q\<rparr>) io = Some (?t, snd (response_to mm q io))"
    using build_response_spec [of "t\<lparr>request_message := q\<rparr>" mm io] ok by simp
  show ?thesis
    using v1(2) v2(2) v3 br assms(4) by (subst process_loop.simps) (auto simp: Let_def)
qed

text \<open>The loop stops without further effect when it has run 64 times, the response ring is full
  or the request ring is empty.\<close>

lemma process_loop_stop:
  assumes "transport_rings iv cl t" "mem_wf w" "rings_ok (ram w)"
    and "64 \<le> count \<or> length (responses (ram w)) = 64 \<or> requests (ram w) = []"
  shows "\<exists>v. region_wf v \<and> process_loop cl mm count t w io =
    Some (SG2002_RTOS_SHM_PROCESS_OK, count, t, w\<lparr>view := v\<rparr>, io)"
proof (cases "64 \<le> count")
  case True
  then show ?thesis
    using assms(2) by (intro exI [of _ "view w"]) (simp add: mem_wf_def process_loop.simps)
next
  case count: False
  obtain v1 where v1: "region_wf v1"
    "sg2002_rtos_ring_can_push (Some (response_ring t)) w =
      (if length (responses (ram w)) < 64 then 1 else 0, w\<lparr>view := v1\<rparr>)"
    using can_push_response [OF assms(1,2)] assms(3)
    by (auto simp: Let_def rings_ok_def ring_contents_ok_def ring_ok_def)
  show ?thesis
  proof (cases "length (responses (ram w)) = 64")
    case True
    then show ?thesis using v1 count by (intro exI [of _ v1]) (simp add: process_loop.simps)
  next
    case False
    then have room: "length (responses (ram w)) < 64"
      using assms(3) by (simp add: rings_ok_def ring_contents_ok_def ring_ok_def)
    have empty: "ring_count Request_producer Request_consumer (ram w) = 0"
      using False count assms(4) by (simp add: contents_nil)
    have "mem_wf (w\<lparr>view := v1\<rparr>)" using v1(1) assms(2) by (simp add: mem_wf_def)
    from pop_request [OF assms(1) this, of "request_message t"] empty
    obtain v2 where "region_wf v2"
      "sg2002_rtos_ring_try_pop (Some (request_ring t)) (Some (request_message t)) (w\<lparr>view := v1\<rparr>) =
        (SG2002_RTOS_RING_EMPTY, Some (request_message t), w\<lparr>view := v2\<rparr>)" by auto
    then show ?thesis
      using v1 count room by (intro exI [of _ v2]) (simp add: process_loop.simps)
  qed
qed

lemma process_loop_serves:
  assumes "transport_rings iv cl t" "mem_wf w" "rings_ok (ram w)"
    and "k = batch_size (ram w)" "count + k \<le> 64"
  shows "\<exists>t' w'. process_loop cl mm count t w io =
      Some (SG2002_RTOS_SHM_PROCESS_OK, count + k, t', w', snd (serve_all mm (take k (requests (ram w))) io)) \<and>
    transport_rings iv cl t' \<and> active_generation t' = active_generation t \<and> mem_wf w' \<and> rings_ok (ram w') \<and>
    requests (ram w') = drop k (requests (ram w)) \<and>
    responses (ram w') = responses (ram w) @ fst (serve_all mm (take k (requests (ram w))) io) \<and>
    layout (ram w') = layout (ram w) \<and> linux_peer (ram w') = linux_peer (ram w) \<and>
    rtos_peer (ram w') = rtos_peer (ram w)"
  using assms
proof (induction k arbitrary: count t w io)
  case 0
  then have "length (responses (ram w)) = 64 \<or> requests (ram w) = []"
    by (auto simp: batch_size_def rings_ok_def ring_contents_ok_def ring_ok_def contents_nil
        min_def split: if_splits)
  with 0 obtain v where "region_wf v" "process_loop cl mm count t w io =
      Some (SG2002_RTOS_SHM_PROCESS_OK, count, t, w\<lparr>view := v\<rparr>, io)"
    using process_loop_stop [of iv cl t w count mm io] by blast
  with 0 show ?case by (simp add: mem_wf_def)
next
  case (Suc k)
  then obtain q qs where q: "requests (ram w) = q # qs"
    by (cases "requests (ram w)") (auto simp: batch_size_def)
  have room: "length (responses (ram w)) < 64" using Suc.prems(4) by (simp add: batch_size_def)
  let ?r = "fst (response_to mm q io)" and ?io = "snd (response_to mm q io)"
  let ?m = "push_effect Response_producer Response_slots ?r (pop_effect Request_consumer (ram w))"
  let ?t = "t\<lparr>request_message := q, response_message := ?r\<rparr>"
  obtain v where v: "region_wf v" "process_loop cl mm count t w io =
      process_loop cl mm (count + 1) ?t (w\<lparr>view := v, ram := ?m\<rparr>) ?io"
    using process_loop_step [OF Suc.prems(1-3) _ q room, of count mm io] Suc.prems(5) by auto
  note m = rings_ok_step [OF Suc.prems(3) q room response_to_ok, of mm q io]
  have wf: "mem_wf (w\<lparr>view := v, ram := ?m\<rparr>)" "transport_rings iv cl ?t"
    using v(1) m Suc.prems(1) by (auto simp: mem_wf_def rings_ok_def ring_contents_ok_def ring_ok_def
        transport_rings_def)
  have k: "k = batch_size ?m"
    using m Suc.prems(4) q by (simp add: batch_size_def del: length_ring_contents)
  have "count + 1 + k \<le> 64" using Suc.prems(5) by simp
  from Suc.IH [OF wf(2,1) _ _ this, of ?io] k m show ?case
    by (auto simp: v(2) q split_def Let_def)
qed

lemma sequence_slot_of_bytes [simp]: "sequence (slot_of_bytes n bs) = n"
  by (simp add: slot_of_bytes_def)

lemma app_reply_ping:
  "5 \<le> cap \<Longrightarrow> app_reply mm (value_message SG2002_RTOS_CMD_PING v) cap io =
    (Some (value_message SG2002_RTOS_CMD_PING (v XOR SG2002_RTOS_PING_XOR)), io)"
  by (simp add: app_reply_def value_message_def command_values)

lemma serve_all_sequences: "map sequence (fst (serve_all mm qs io)) = map sequence qs"
  by (induction qs arbitrary: io)
    (simp_all add: response_to_def slot_of_bytes_def Let_def split_def)

lemma length_serve_all [simp]: "length (fst (serve_all mm qs io)) = length qs"
  using serve_all_sequences [of mm qs io] by (metis length_map)

lemma demo_region_ok:
  assumes "message_ok q"
  shows "rings_ok (demo_region q)" "region_wf (demo_region q)" "linux_ready 1 (demo_region q)"
    "requests (demo_region q) = [q]" "responses (demo_region q) = []"
proof -
  have wf: "region_wf (demo_region q)"
    using assms by (auto simp: demo_region_def blank_region_def region_wf_def list_all_iff
        message_ok_def set_update_subset_insert [THEN subsetD] dest!: set_update_subset_insert [THEN subsetD])
  have c: "ring_count Request_producer Request_consumer (demo_region q) = 1"
    "ring_count Response_producer Response_consumer (demo_region q) = 0"
    by (simp_all add: ring_count_def demo_region_def blank_region_def)
  then show req: "requests (demo_region q) = [q]" "responses (demo_region q) = []"
    by (simp_all add: ring_contents_def) (simp add: demo_region_def blank_region_def)
  show "region_wf (demo_region q)" by (rule wf)
  show "rings_ok (demo_region q)"
    using wf c req assms by (simp add: rings_ok_def ring_contents_ok_def ring_ok_def)
  show "linux_ready 1 (demo_region q)"
    by (simp add: linux_ready_def layout_is_valid_def demo_region_def)
qed

text \<open>Counters more than 64 apart or a slot longer than a payload.\<close>

definition rings_corrupt :: "shm_region \<Rightarrow> bool" where
  "rings_corrupt m \<longleftrightarrow> ring_count Response_producer Response_consumer m > 64 \<or>
     ring_count Response_producer Response_consumer m < 64 \<and>
     (ring_count Request_producer Request_consumer m > 64 \<or>
      0 < ring_count Request_producer Request_consumer m \<and>
      slot_length (pop_message Request_consumer Request_slots m) > SG2002_RTOS_SHM_PAYLOAD_SIZE)"

lemma process_loop_corrupt:
  assumes "transport_rings iv cl t" "mem_wf w" "rings_corrupt (ram w)" "count < 64"
  shows "\<exists>t' w'. process_loop cl mm count t w io = Some (SG2002_RTOS_SHM_PROCESS_CORRUPT, count, t', w', io) \<and>
    transport_rings iv cl t' \<and> active_generation t' = active_generation t \<and> mem_wf w' \<and>
    rtos_peer (ram w') = \<lparr>peer_state = SG2002_RTOS_SHM_STATE_ERROR, peer_generation = active_generation t\<rparr> \<and>
    response_producer (ram w') = response_producer (ram w) \<and> response_slots (ram w') = response_slots (ram w)"
proof -
  have dc: "dcache_ok iv cl" using assms(1) by (simp add: transport_rings_def ring_cached_def)
  let ?n = "ring_count Response_producer Response_consumer (ram w)"
  obtain v1 where v1: "region_wf v1"
    "sg2002_rtos_ring_can_push (Some (response_ring t)) w =
      (if ?n > 64 then -3 else if ?n < 64 then 1 else 0, w\<lparr>view := v1\<rparr>)"
    using can_push_response [OF assms(1,2)] by (auto simp: Let_def)
  show ?thesis
  proof (cases "?n > 64")
    case True
    then show ?thesis
      using v1 assms(1,2,4)
      by (simp add: process_loop.simps mark_corrupt_def publish_rtos_state_ram [OF dc] mem_wf_def)
  next
    case False
    with assms(3) have bad: "?n < 64" "ring_count Request_producer Request_consumer (ram w) > 64 \<or>
      0 < ring_count Request_producer Request_consumer (ram w) \<and>
      slot_length (pop_message Request_consumer Request_slots (ram w)) > SG2002_RTOS_SHM_PAYLOAD_SIZE"
      by (auto simp: rings_corrupt_def)
    have wf1: "mem_wf (w\<lparr>view := v1\<rparr>)" using v1(1) assms(2) by (simp add: mem_wf_def)
    note pop = pop_request [OF assms(1) wf1, of "request_message t"]
    have fin: ?thesis if "region_wf v2" "region_wf m2" "response_producer m2 = response_producer (ram w)"
      "response_slots m2 = response_slots (ram w)"
      "sg2002_rtos_ring_try_pop (Some (request_ring t)) (Some (request_message t)) (w\<lparr>view := v1\<rparr>) =
        (SG2002_RTOS_RING_CORRUPT, Some q, w\<lparr>view := v2, ram := m2\<rparr>)" for q v2 m2
      using v1 that assms(1,2,4) bad(1)
      by (simp add: process_loop.simps mark_corrupt_def publish_rtos_state_ram [OF dc] mem_wf_def
          transport_rings_def)
    show ?thesis
    proof (cases "ring_count Request_producer Request_consumer (ram w) > 64")
      case True
      then obtain v2 where "region_wf v2" "sg2002_rtos_ring_try_pop (Some (request_ring t))
          (Some (request_message t)) (w\<lparr>view := v1\<rparr>) =
        (SG2002_RTOS_RING_CORRUPT, Some (request_message t), w\<lparr>view := v2\<rparr>)"
        using pop by auto
      then show ?thesis
        using fin [of v2 "ram w" "request_message t"] assms(2) by (simp add: mem_wf_def)
    next
      case False
      then obtain v2 where "region_wf v2" "sg2002_rtos_ring_try_pop (Some (request_ring t))
          (Some (request_message t)) (w\<lparr>view := v1\<rparr>) =
        (SG2002_RTOS_RING_CORRUPT, Some (pop_message Request_consumer Request_slots (ram w)),
         w\<lparr>view := v2, ram := pop_effect Request_consumer (ram w)\<rparr>)"
        using pop bad(2) by (auto simp: Let_def)
      then show ?thesis
        using fin [of v2 "pop_effect Request_consumer (ram w)"] assms(2)
        by (simp add: mem_wf_def) (simp add: pop_effect_def)
    qed
  qed
qed

text \<open>A call that serves, with or without a place for the number of requests.\<close>

lemma process_serves_any:
  assumes "transport_ok iv cl t" "mem_wf w" "linux_ready g (ram w)" "rings_ok (ram w)"
    and "k = batch_size (ram w)" "served = serve_all mm (take k (requests (ram w))) io"
  shows "\<exists>t' w'. sg2002_rtos_shm_process iv cl mm processed t w io =
      Some (SG2002_RTOS_SHM_PROCESS_OK, map_option (\<lambda>_. of_nat k) processed, t', w', snd served) \<and>
    requests (ram w') = drop k (requests (ram w)) \<and>
    responses (ram w') = responses (ram w) @ fst served \<and>
    map sequence (fst served) = map sequence (take k (requests (ram w))) \<and>
    rtos_peer (ram w') = (if active_generation t = g then rtos_peer (ram w)
      else \<lparr>peer_state = SG2002_RTOS_SHM_STATE_READY, peer_generation = g\<rparr>) \<and>
    sg2002_rtos_shm_generation t' = g \<and>
    transport_ok iv cl t' \<and> mem_wf w' \<and> linux_ready g (ram w') \<and> rings_ok (ram w')"
proof -
  obtain t1 w1 where a: "attach iv cl t w = (True, t1, w1)" "transport_rings iv cl t1"
    "active_generation t1 = g" "mem_wf w1"
    and m1: "ram w1 = (if active_generation t = g then ram w
      else (ram w)\<lparr>rtos_peer := \<lparr>peer_state = SG2002_RTOS_SHM_STATE_READY, peer_generation = g\<rparr>\<rparr>)"
    using attach_ready [OF assms(1-3)] by blast
  have r1: "requests (ram w1) = requests (ram w)" "responses (ram w1) = responses (ram w)"
    "rings_ok (ram w1)" "layout (ram w1) = layout (ram w)" "linux_peer (ram w1) = linux_peer (ram w)"
    using assms(4) by (simp_all add: m1)
  have "k = batch_size (ram w1)" "0 + k \<le> 64"
    using assms(5) r1(1,2) by (simp_all add: batch_size_def del: length_ring_contents)
  from process_loop_serves [OF a(2,4) r1(3) this, of mm io]
  obtain t2 w2 where "process_loop cl mm 0 t1 w1 io =
      Some (SG2002_RTOS_SHM_PROCESS_OK, k, t2, w2, snd served)"
    "transport_rings iv cl t2" "active_generation t2 = g" "mem_wf w2" "rings_ok (ram w2)"
    "requests (ram w2) = drop k (requests (ram w))" "responses (ram w2) = responses (ram w) @ fst served"
    "layout (ram w2) = layout (ram w)" "linux_peer (ram w2) = linux_peer (ram w)"
    "rtos_peer (ram w2) = rtos_peer (ram w1)"
    using a(3) r1 assms(6) by auto
  moreover from this have "linux_ready g (ram w2)"
    using assms(3) by (simp add: linux_ready_def layout_is_valid_def)
  ultimately show ?thesis
    using a(1) m1 assms(1,6)
    by (simp add: option.map_comp comp_def sg2002_rtos_shm_process_def sg2002_rtos_shm_generation_def serve_all_sequences
        transport_ok_def)
qed

subsection \<open>Properties\<close>

text \<open>Property C2: the firmware serves requests correctly and makes progress. When Linux has
  published a generation and both rings are consistent, one call of the transport returns OK having
  answered exactly as many requests as are queued and the response ring has room for: the answered
  requests leave the request ring, their responses are appended to the response ring in the same
  order and with the same sequences, each response is the reply of the application, the count is
  reported, and the call re-establishes its own preconditions. The firmware's peer line becomes
  READY for a generation it was not attached to and is otherwise left alone, so an ERROR state
  stays until Linux starts a new generation. All of it is about RAM, whatever the cache holds.\<close>

theorem process_serves:
  assumes "transport_ok iv cl t" "mem_wf w" "linux_ready g (ram w)" "rings_ok (ram w)"
    and "k = batch_size (ram w)" "served = serve_all mm (take k (requests (ram w))) io"
  shows "\<exists>t' w'. sg2002_rtos_shm_process iv cl mm (Some p) t w io =
      Some (SG2002_RTOS_SHM_PROCESS_OK, Some (of_nat k), t', w', snd served) \<and>
    requests (ram w') = drop k (requests (ram w)) \<and>
    responses (ram w') = responses (ram w) @ fst served \<and>
    map sequence (fst served) = map sequence (take k (requests (ram w))) \<and>
    rtos_peer (ram w') = (if active_generation t = g then rtos_peer (ram w)
      else \<lparr>peer_state = SG2002_RTOS_SHM_STATE_READY, peer_generation = g\<rparr>) \<and>
    sg2002_rtos_shm_generation t' = g \<and>
    transport_ok iv cl t' \<and> mem_wf w' \<and> linux_ready g (ram w') \<and> rings_ok (ram w')"
  using process_serves_any [OF assms(1-4), of k served mm io "Some p"] assms(5,6) by simp

theorem process_serves_witness:
  "\<exists>t' w'. sg2002_rtos_shm_process sim_inv sim_clean plain_mmio (Some 0) demo_transport
      \<lparr>view = blank_region, ram = demo_region (slot_of_bytes 42 (value_message SG2002_RTOS_CMD_PING 7))\<rparr>
      (\<lambda>_. 0) = Some (SG2002_RTOS_SHM_PROCESS_OK, Some 1, t', w', \<lambda>_. 0) \<and>
    responses (ram w') = [slot_of_bytes 42 (value_message SG2002_RTOS_CMD_PING 0xa5a55a5d)]"
proof -
  let ?q = "slot_of_bytes 42 (value_message SG2002_RTOS_CMD_PING 7)"
  have q: "message_ok ?q" by (simp add: message_ok_def slot_wf_def slot_of_bytes_def)
  let ?w = "\<lparr>view = blank_region, ram = demo_region ?q\<rparr>"
  note d = demo_region_ok [OF q]
  have t: "transport_ok sim_inv sim_clean demo_transport"
    by (simp add: transport_ok_def demo_transport_def Let_def)
  have w: "mem_wf ?w" "linux_ready 1 (ram ?w)" "rings_ok (ram ?w)" "1 = batch_size (ram ?w)"
    using d by (simp_all add: mem_wf_def batch_size_def del: length_ring_contents)
  have "slot_bytes ?q = value_message SG2002_RTOS_CMD_PING 7"
    by (simp add: slot_bytes_def slot_of_bytes_def)
  then have s: "([slot_of_bytes 42 (value_message SG2002_RTOS_CMD_PING 0xa5a55a5d)], \<lambda>_. 0) =
      serve_all plain_mmio (take 1 (requests (ram ?w))) (\<lambda>_. 0)"
    by (simp add: d response_to_def app_reply_ping)
  show ?thesis
    using process_serves [OF t w s, of 0] d by auto
qed

text \<open>The firmware touches nothing before Linux is ready. As long as the layout line,
  the features, the state or one of the two generations in RAM is not what Linux publishes, a call
  returns NOT_READY, reports zero requests and leaves RAM, its own variables and the device
  registers as they are.\<close>

theorem process_not_ready:
  assumes "dcache_ok iv cl" "mem_wf w" "\<forall>g. \<not> linux_ready g (ram w)"
  shows "\<exists>v. sg2002_rtos_shm_process iv cl mm (Some p) t w io =
    Some (SG2002_RTOS_SHM_PROCESS_NOT_READY, Some 0, t, w\<lparr>view := v\<rparr>, io)"
  using attach_not_ready [OF assms, of t] by (auto simp: sg2002_rtos_shm_process_def)

theorem process_not_ready_witness:
  "\<exists>v. sg2002_rtos_shm_process sim_inv sim_clean plain_mmio (Some 3) demo_transport
      \<lparr>view = blank_region, ram = blank_region\<rparr> (\<lambda>_. 0) =
    Some (SG2002_RTOS_SHM_PROCESS_NOT_READY, Some 0, demo_transport,
      \<lparr>view = v, ram = blank_region\<rparr>, \<lambda>_. 0)"
proof -
  have "\<forall>g. \<not> linux_ready g (ram \<lparr>view = blank_region, ram = blank_region\<rparr>)"
    by (simp add: linux_ready_def blank_region_def)
  then show ?thesis
    using process_not_ready [of sim_inv sim_clean "\<lparr>view = blank_region, ram = blank_region\<rparr>"
        plain_mmio 3 demo_transport "\<lambda>_. 0"] by (auto simp: mem_wf_def)
qed



end
