(* ===== verification/Mailbox.thy ===== *)
theory Mailbox
  imports Prelude
begin

section \<open>The mailbox of the firmware\<close>

text \<open>
  \<^verbatim>\<open>ports/osdrv/include/rtos_cmdqu.h\<close> and \<^verbatim>\<open>firmware/transport/sg2002_rtos_mailbox.c\<close>. A
  mailbox slot is one 64-bit word of the mailbox memory: the packed command with its two valid
  bytes and its parameter. The register block, the hardware spinlock and the constants of the SDK
  headers are parameters: a record of operations on the world \<open>'x\<close> that extends the mailbox
  memory. Fences order accesses and change no contents. The boot-trace macros are empty in the
  default build and are not modelled.

  The lemmas show that packing and unpacking a command are inverse, that receiving hands over
  exactly the slots owned by Linux, in slot order, and frees them, and that sending publishes one
  free slot or reports that there is none.
\<close>

subsection \<open>The command word\<close>

text \<open>\<^verbatim>\<open>struct cmdqu_t\<close>: \<open>cmd_id\<close> and \<open>block\<close> are bit-fields of one byte; the union \<open>resv\<close> is
  used through its valid bytes only.\<close>

record cmdqu_t =
  ip_id :: u8
  cmd_id :: "7 word"
  block :: "1 word"
  linux_valid :: u8
  rtos_valid :: u8
  param_ptr :: u32

abbreviation IP_ISP :: u8 where "IP_ISP \<equiv> 0"
abbreviation IP_VCODEC :: u8 where "IP_VCODEC \<equiv> 1"
abbreviation IP_VI :: u8 where "IP_VI \<equiv> 3"
abbreviation IP_RGN :: u8 where "IP_RGN \<equiv> 4"
abbreviation IP_AUDIO :: u8 where "IP_AUDIO \<equiv> 5"
abbreviation IP_SYSTEM :: u8 where "IP_SYSTEM \<equiv> 6"
abbreviation IP_CAMERA :: u8 where "IP_CAMERA \<equiv> 7"

text \<open>The bytes of the packed structure in memory order, read as one little-endian word.\<close>

definition cmdqu_of_u64 :: "u64 \<Rightarrow> cmdqu_t" where
  "cmdqu_of_u64 w = \<lparr>ip_id = ucast w, cmd_id = ucast (drop_bit 8 w), block = ucast (drop_bit 15 w),
     linux_valid = ucast (drop_bit 16 w), rtos_valid = ucast (drop_bit 24 w),
     param_ptr = ucast (drop_bit 32 w)\<rparr>"

definition u64_of_cmdqu :: "cmdqu_t \<Rightarrow> u64" where
  "u64_of_cmdqu c = ucast (ip_id c) OR push_bit 8 (ucast (cmd_id c)) OR push_bit 15 (ucast (block c)) OR
     push_bit 16 (ucast (linux_valid c)) OR push_bit 24 (ucast (rtos_valid c)) OR
     push_bit 32 (ucast (param_ptr c))"

text \<open>A store to the first or to the second 32-bit half of a slot.\<close>

definition store_low :: "u32 \<Rightarrow> u64 \<Rightarrow> u64" where
  "store_low v w = push_bit 32 (drop_bit 32 w) OR ucast v"

definition store_high :: "u32 \<Rightarrow> u64 \<Rightarrow> u64" where
  "store_high v w = push_bit 32 (ucast v) OR take_bit 32 w"

definition command_header :: "cmdqu_t \<Rightarrow> u32" where
  "command_header command = push_bit 0 (ucast (ip_id command)) OR push_bit 8 (ucast (cmd_id command)) OR
     push_bit 15 (ucast (block command)) OR push_bit 16 (ucast (linux_valid command)) OR
     push_bit 24 (ucast (rtos_valid command))"

subsection \<open>Registers, lock and mailbox memory\<close>

datatype mbox_reg =
    Int_clr nat | Int_mask nat | Int_raw nat | Int_int nat
  | Mbox_en nat
  | Mbox_set

record mbox_mem =
  mailbox_context :: "u64 list"

record 'w mbox_hw =
  reg_read :: "mbox_reg \<Rightarrow> 'w \<Rightarrow> u8 \<times> 'w"
  reg_write :: "mbox_reg \<Rightarrow> u8 \<Rightarrow> 'w \<Rightarrow> 'w"
  spin_lock_irqsave :: "'w \<Rightarrow> int \<times> 'w"
  spin_unlock_irqrestore :: "int \<Rightarrow> 'w \<Rightarrow> 'w"
  RECEIVE_CPU :: nat
  MAILBOX_MAX_NUM :: nat
  MAILBOX_LOCK_FAILED :: int

record sg2002_rtos_mailbox_diagnostics =
  enabled :: u8
  raw :: u8
  mask_reg :: u8
  pending_reg :: u8

subsection \<open>Operations\<close>

definition sg2002_rtos_mailbox_enable_receiver :: "'w mbox_hw \<Rightarrow> 'w \<Rightarrow> 'w" where
  "sg2002_rtos_mailbox_enable_receiver hw w =
     (let w = reg_write hw (Int_mask (RECEIVE_CPU hw)) 0xff w;
          w = reg_write hw (Int_clr (RECEIVE_CPU hw)) 0xff w;
          w = reg_write hw (Mbox_en (RECEIVE_CPU hw)) 0 w
      in reg_write hw (Int_mask (RECEIVE_CPU hw)) 0 w)"

definition sg2002_rtos_mailbox_get_diagnostics ::
  "'w mbox_hw \<Rightarrow> sg2002_rtos_mailbox_diagnostics option \<Rightarrow> 'w \<Rightarrow>
    sg2002_rtos_mailbox_diagnostics option \<times> 'w" where
  "sg2002_rtos_mailbox_get_diagnostics hw diagnostics w = (case diagnostics of None \<Rightarrow> (None, w)
     | Some d \<Rightarrow>
       let (e, w) = reg_read hw (Mbox_en (RECEIVE_CPU hw)) w;
           (r, w) = reg_read hw (Int_raw (RECEIVE_CPU hw)) w;
           (m, w) = reg_read hw (Int_mask (RECEIVE_CPU hw)) w;
           (p, w) = reg_read hw (Int_int (RECEIVE_CPU hw)) w
       in (Some (d\<lparr>enabled := e, raw := r, mask_reg := m, pending_reg := p\<rparr>), w))"

text \<open>The two loops of \<^verbatim>\<open>receive_commands\<close> over the slots that remain: acknowledging the
  interrupts of the mask, and taking the slots Linux owns while there is room. The caller's array
  receives the words of the taken slots; it is returned as a list of at most \<open>capacity\<close>
  elements.\<close>

primrec acknowledge_slots :: "'w mbox_hw \<Rightarrow> u8 \<Rightarrow> nat list \<Rightarrow> 'w \<Rightarrow> 'w" where
  "acknowledge_slots hw interrupt_mask [] w = w"
| "acknowledge_slots hw interrupt_mask (slot # slots) w =
     (let slot_mask = interrupt_mask AND push_bit slot 1
      in if slot_mask = 0 then acknowledge_slots hw interrupt_mask slots w
         else let w = reg_write hw (Int_clr (RECEIVE_CPU hw)) slot_mask w;
                  (info, w) = reg_read hw (Mbox_en (RECEIVE_CPU hw)) w;
                  w = reg_write hw (Mbox_en (RECEIVE_CPU hw)) (info AND NOT slot_mask) w
              in acknowledge_slots hw interrupt_mask slots w)"

definition owned_by_linux :: "u64 \<Rightarrow> bool" where
  "owned_by_linux w \<longleftrightarrow> linux_valid (cmdqu_of_u64 w) = 1 \<and> rtos_valid (cmdqu_of_u64 w) = 0"

primrec take_slots :: "nat \<Rightarrow> nat \<Rightarrow> nat list \<Rightarrow> 'x mbox_mem_scheme \<Rightarrow> u64 list \<times> 'x mbox_mem_scheme" where
  "take_slots capacity count [] w = ([], w)"
| "take_slots capacity count (slot # slots) w =
     (if \<not> count < capacity then ([], w)
      else let word = mailbox_context w ! slot
           in if \<not> owned_by_linux word then take_slots capacity count slots w
              else let w = w\<lparr>mailbox_context := (mailbox_context w)[slot := 0]\<rparr>;
                       (cs, w) = take_slots capacity (count + 1) slots w
                   in (word # cs, w))"

definition receive_commands ::
  "'x mbox_mem_scheme mbox_hw \<Rightarrow> bool \<Rightarrow> nat \<Rightarrow> u8 \<Rightarrow> 'x mbox_mem_scheme \<Rightarrow> u64 list \<times> 'x mbox_mem_scheme" where
  "receive_commands hw commands_null capacity interrupt_mask w =
     (if commands_null \<or> capacity = 0 then ([], w)
      else let w = acknowledge_slots hw interrupt_mask [0..<MAILBOX_MAX_NUM hw] w
           in take_slots capacity 0 [0..<MAILBOX_MAX_NUM hw] w)"

definition sg2002_rtos_mailbox_receive ::
  "'x mbox_mem_scheme mbox_hw \<Rightarrow> bool \<Rightarrow> nat \<Rightarrow> 'x mbox_mem_scheme \<Rightarrow> u64 list \<times> 'x mbox_mem_scheme" where
  "sg2002_rtos_mailbox_receive hw commands_null capacity w =
     (if commands_null \<or> capacity = 0 then ([], w)
      else let (flags, w) = spin_lock_irqsave hw w
           in if flags = MAILBOX_LOCK_FAILED hw then ([], w)
              else let (interrupt_mask, w) = reg_read hw (Int_int (RECEIVE_CPU hw)) w;
                       (cs, w) = receive_commands hw commands_null capacity interrupt_mask w
                   in (cs, spin_unlock_irqrestore hw flags w))"

definition sg2002_rtos_mailbox_receive_from_isr ::
  "'x mbox_mem_scheme mbox_hw \<Rightarrow> bool \<Rightarrow> nat \<Rightarrow> 'x mbox_mem_scheme \<Rightarrow> u64 list \<times> 'x mbox_mem_scheme" where
  "sg2002_rtos_mailbox_receive_from_isr hw commands_null capacity w =
     (if commands_null \<or> capacity = 0 then ([], w)
      else let (interrupt_mask, w) = reg_read hw (Int_int (RECEIVE_CPU hw)) w
           in receive_commands hw commands_null capacity interrupt_mask w)"

text \<open>The loop of \<^verbatim>\<open>sg2002_rtos_mailbox_send\<close> over the slots that remain; the result says
  whether it stopped at a free slot.\<close>

definition slot_is_free :: "u64 \<Rightarrow> bool" where
  "slot_is_free w \<longleftrightarrow> linux_valid (cmdqu_of_u64 w) = 0 \<and> rtos_valid (cmdqu_of_u64 w) = 0"

primrec post_reply ::
  "'x mbox_mem_scheme mbox_hw \<Rightarrow> cmdqu_t \<Rightarrow> nat \<Rightarrow> nat list \<Rightarrow> 'x mbox_mem_scheme \<Rightarrow> bool \<times> 'x mbox_mem_scheme" where
  "post_reply hw reply send_to_cpu [] w = (False, w)"
| "post_reply hw reply send_to_cpu (slot # slots) w =
     (if \<not> slot_is_free (mailbox_context w ! slot) then post_reply hw reply send_to_cpu slots w
      else let w = w\<lparr>mailbox_context := (mailbox_context w)[slot :=
                       store_high (param_ptr reply) (mailbox_context w ! slot)]\<rparr>;
               w = w\<lparr>mailbox_context := (mailbox_context w)[slot :=
                       store_low (command_header reply) (mailbox_context w ! slot)]\<rparr>;
               w = reg_write hw (Int_clr send_to_cpu) (push_bit slot 1) w;
               (info, w) = reg_read hw (Mbox_en send_to_cpu) w;
               w = reg_write hw (Mbox_en send_to_cpu) (info OR push_bit slot 1) w;
               w = reg_write hw Mbox_set (push_bit slot 1) w
           in (True, w))"

definition sg2002_rtos_mailbox_send ::
  "'x mbox_mem_scheme mbox_hw \<Rightarrow> cmdqu_t option \<Rightarrow> nat \<Rightarrow> 'x mbox_mem_scheme \<Rightarrow> int \<times> 'x mbox_mem_scheme" where
  "sg2002_rtos_mailbox_send hw command send_to_cpu w = (case command of None \<Rightarrow> (-1, w)
     | Some command \<Rightarrow>
       let reply = command\<lparr>linux_valid := 0, rtos_valid := 1\<rparr>;
           (flags, w) = spin_lock_irqsave hw w
       in if flags = MAILBOX_LOCK_FAILED hw then (-1, w)
          else let (posted, w) = post_reply hw reply send_to_cpu [0..<MAILBOX_MAX_NUM hw] w;
                   w = spin_unlock_irqrestore hw flags w
               in (if posted then 0 else -1, w))"

subsection \<open>Lemmas\<close>

text \<open>The register block and the lock are not mailbox memory.\<close>

definition hw_frame :: "'x mbox_mem_scheme mbox_hw \<Rightarrow> bool" where
  "hw_frame hw \<longleftrightarrow>
     (\<forall>r v w. mailbox_context (reg_write hw r v w) = mailbox_context w \<and>
        mailbox_context (snd (reg_read hw r w)) = mailbox_context w) \<and>
     (\<forall>f w. mailbox_context (snd (spin_lock_irqsave hw w)) = mailbox_context w \<and>
        mailbox_context (spin_unlock_irqrestore hw f w) = mailbox_context w)"

lemma hw_frame_simps:
  assumes "hw_frame hw"
  shows "mailbox_context (reg_write hw r v w) = mailbox_context w"
    "reg_read hw r w = (x, w') \<Longrightarrow> mailbox_context w' = mailbox_context w"
    "spin_lock_irqsave hw w = (f, w') \<Longrightarrow> mailbox_context w' = mailbox_context w"
    "mailbox_context (spin_unlock_irqrestore hw f w) = mailbox_context w"
  using assms unfolding hw_frame_def by (metis snd_conv)+

lemma bit_beyond_7 [simp]: "7 \<le> n \<Longrightarrow> \<not> bit (w :: 7 word) n"
  using bit_imp_le_length [of w n] by auto

lemma bit_beyond_1 [simp]: "1 \<le> n \<Longrightarrow> \<not> bit (w :: 1 word) n"
  using bit_imp_le_length [of w n] by auto

lemma bit_beyond_32 [simp]: "32 \<le> n \<Longrightarrow> \<not> bit (w :: u32) n"
  using bit_imp_le_length [of w n] by auto

text \<open>A bit position of a slot lies in exactly one field.\<close>

lemma slot_bit_cases:
  assumes "n < (64 :: nat)"
  obtains "n < 8" | "8 \<le> n" "n < 15" | "n = 15" | "16 \<le> n" "n < 24" | "24 \<le> n" "n < 32" | "32 \<le> n"
  using assms by fastforce

lemma cmdqu_of_u64_of_cmdqu [simp]: "cmdqu_of_u64 (u64_of_cmdqu c) = c"
proof -
  have "ip_id (cmdqu_of_u64 (u64_of_cmdqu c)) = ip_id c"
    "cmd_id (cmdqu_of_u64 (u64_of_cmdqu c)) = cmd_id c"
    "block (cmdqu_of_u64 (u64_of_cmdqu c)) = block c"
    "linux_valid (cmdqu_of_u64 (u64_of_cmdqu c)) = linux_valid c"
    "rtos_valid (cmdqu_of_u64 (u64_of_cmdqu c)) = rtos_valid c"
    "param_ptr (cmdqu_of_u64 (u64_of_cmdqu c)) = param_ptr c"
    by (auto simp: cmdqu_of_u64_def u64_of_cmdqu_def bit_simps intro!: bit_eqI)
  then show ?thesis by simp
qed

lemma u64_of_cmdqu_of_u64 [simp]: "u64_of_cmdqu (cmdqu_of_u64 w) = w"
proof (rule bit_word_eqI)
  fix n
  assume "n < LENGTH(64)"
  then have n: "n < 64" by simp
  show "bit (u64_of_cmdqu (cmdqu_of_u64 w)) n = bit w n"
    using n by (cases rule: slot_bit_cases [OF n]) (auto simp: cmdqu_of_u64_def u64_of_cmdqu_def bit_simps)
qed

lemma store_reply: "store_low (command_header c) (store_high (param_ptr c) w) = u64_of_cmdqu c"
proof (rule bit_word_eqI)
  fix n
  assume "n < LENGTH(64)"
  then have n: "n < 64" by simp
  show "bit (store_low (command_header c) (store_high (param_ptr c) w)) n = bit (u64_of_cmdqu c) n"
    using n by (cases rule: slot_bit_cases [OF n])
      (auto simp: command_header_def store_low_def store_high_def u64_of_cmdqu_def bit_simps)
qed

lemma acknowledge_frame:
  "hw_frame hw \<Longrightarrow> mailbox_context (acknowledge_slots hw im slots w) = mailbox_context w"
  by (induction slots arbitrary: w) (auto simp: hw_frame_simps Let_def split: prod.splits)

text \<open>Clearing a list of slots.\<close>

definition clear_slots :: "nat list \<Rightarrow> u64 list \<Rightarrow> u64 list" where
  "clear_slots sel ctx = map (\<lambda>i. if i \<in> set sel then 0 else ctx ! i) [0..<length ctx]"

lemma clear_slots_Nil [simp]: "clear_slots [] ctx = ctx"
  by (simp add: clear_slots_def map_nth)

lemma clear_slots_update [simp]: "clear_slots sel (ctx[i := 0]) = clear_slots (i # sel) ctx"
  by (rule nth_equalityI) (auto simp: clear_slots_def nth_list_update)

lemma take_slots_spec:
  assumes "distinct slots"
  shows "take_slots capacity count slots w =
    (let sel = take (capacity - count) (filter (\<lambda>i. owned_by_linux (mailbox_context w ! i)) slots)
     in (map ((!) (mailbox_context w)) sel,
         w\<lparr>mailbox_context := clear_slots sel (mailbox_context w)\<rparr>))"
  using assms
proof (induction slots arbitrary: count w)
  case Nil
  then show ?case by simp
next
  case (Cons slot slots)
  let ?ctx = "mailbox_context w"
  have neq: "?ctx[slot := 0] ! i = ?ctx ! i" if "i \<in> set slots" for i
    using that Cons.prems by (metis distinct.simps(2) nth_list_update_neq)
  have same: "filter (\<lambda>i. owned_by_linux (?ctx[slot := 0] ! i)) slots =
      filter (\<lambda>i. owned_by_linux (?ctx ! i)) slots"
    using neq by (intro filter_cong) simp_all
  have eq: "map ((!) (?ctx[slot := 0])) (take k (filter P slots)) = map ((!) ?ctx) (take k (filter P slots))" for k P
    using neq by (auto dest!: in_set_takeD)
  show ?case
  proof (cases "count < capacity \<and> owned_by_linux (?ctx ! slot)")
    case True
    then have k: "capacity - count = Suc (capacity - Suc count)" by linarith
    show ?thesis
      using True Cons by (simp add: same eq Let_def k)
  next
    case False
    then show ?thesis using Cons by (auto simp: Let_def)
  qed
qed

definition owned_slots :: "u64 list \<Rightarrow> nat list" where
  "owned_slots ctx = filter (\<lambda>i. owned_by_linux (ctx ! i)) [0..<length ctx]"

lemma receive_commands_spec:
  assumes "hw_frame hw" "length (mailbox_context w) = MAILBOX_MAX_NUM hw"
    and "receive_commands hw False capacity im w = (cs, w')"
  shows "cs = map ((!) (mailbox_context w)) (take capacity (owned_slots (mailbox_context w))) \<and>
    mailbox_context w' = clear_slots (take capacity (owned_slots (mailbox_context w))) (mailbox_context w)"
  using assms by (auto simp: receive_commands_def take_slots_spec acknowledge_frame owned_slots_def
      Let_def split: if_splits)

lemma mailbox_receive_isr:
  assumes "hw_frame hw" "length (mailbox_context w) = MAILBOX_MAX_NUM hw" "0 < capacity"
    and "sg2002_rtos_mailbox_receive_from_isr hw False capacity w = (cs, w')"
  shows "cs = map ((!) (mailbox_context w)) (take capacity (owned_slots (mailbox_context w))) \<and>
    mailbox_context w' = clear_slots (take capacity (owned_slots (mailbox_context w))) (mailbox_context w)"
proof -
  obtain im w1 where r: "reg_read hw (Int_int (RECEIVE_CPU hw)) w = (im, w1)" by fastforce
  have ctx1: "mailbox_context w1 = mailbox_context w" using hw_frame_simps(2) [OF assms(1) r] .
  have isr: "receive_commands hw False capacity im w1 = (cs, w')"
    using assms(3,4) r by (simp add: sg2002_rtos_mailbox_receive_from_isr_def)
  show ?thesis using receive_commands_spec [OF assms(1) _ isr] assms(2) by (simp add: ctx1)
qed

lemma mailbox_receive_task:
  assumes "hw_frame hw" "length (mailbox_context w) = MAILBOX_MAX_NUM hw" "0 < capacity"
    and "sg2002_rtos_mailbox_receive hw False capacity w = (cs, w')"
  shows "if fst (spin_lock_irqsave hw w) = MAILBOX_LOCK_FAILED hw
    then cs = [] \<and> mailbox_context w' = mailbox_context w
    else cs = map ((!) (mailbox_context w)) (take capacity (owned_slots (mailbox_context w))) \<and>
      mailbox_context w' = clear_slots (take capacity (owned_slots (mailbox_context w))) (mailbox_context w)"
proof -
  obtain flags v where l: "spin_lock_irqsave hw w = (flags, v)" by fastforce
  have ctxv: "mailbox_context v = mailbox_context w" using hw_frame_simps(3) [OF assms(1) l] .
  obtain im v1 where r: "reg_read hw (Int_int (RECEIVE_CPU hw)) v = (im, v1)" by fastforce
  have ctxv1: "mailbox_context v1 = mailbox_context w" using hw_frame_simps(2) [OF assms(1) r] ctxv by simp
  obtain cs' v2 where t: "receive_commands hw False capacity im v1 = (cs', v2)" by fastforce
  show ?thesis
    using receive_commands_spec [OF assms(1) _ t] assms(2-4) l r t ctxv ctxv1
    by (auto simp: sg2002_rtos_mailbox_receive_def hw_frame_simps [OF assms(1)] split: if_splits)
qed

lemma post_reply_spec:
  assumes "hw_frame hw" "\<forall>i\<in>set slots. i < length (mailbox_context w)"
    and "post_reply hw reply cpu slots w = (posted, w')"
  shows "case filter (\<lambda>i. slot_is_free (mailbox_context w ! i)) slots of
      [] \<Rightarrow> \<not> posted \<and> w' = w
    | i # _ \<Rightarrow> posted \<and> mailbox_context w' = (mailbox_context w)[i := u64_of_cmdqu reply]"
  using assms
  by (induction slots) (auto simp: hw_frame_simps store_reply Let_def split: prod.splits if_splits)

lemma mailbox_send_cases:
  assumes "hw_frame hw" "length (mailbox_context w) = MAILBOX_MAX_NUM hw"
    and "sg2002_rtos_mailbox_send hw (Some command) cpu w = (result, w')"
  shows "if fst (spin_lock_irqsave hw w) = MAILBOX_LOCK_FAILED hw
     then result = -1 \<and> mailbox_context w' = mailbox_context w
     else (case filter (\<lambda>i. slot_is_free (mailbox_context w ! i)) [0..<length (mailbox_context w)] of
         [] \<Rightarrow> result = -1 \<and> mailbox_context w' = mailbox_context w
       | i # _ \<Rightarrow> result = 0 \<and> mailbox_context w' =
           (mailbox_context w)[i := u64_of_cmdqu (command\<lparr>linux_valid := 0, rtos_valid := 1\<rparr>)])"
proof -
  let ?reply = "command\<lparr>linux_valid := 0, rtos_valid := 1\<rparr>"
  obtain flags v where l: "spin_lock_irqsave hw w = (flags, v)" by fastforce
  have ctxv: "mailbox_context v = mailbox_context w" using hw_frame_simps(3) [OF assms(1) l] .
  obtain posted v1 where p: "post_reply hw ?reply cpu [0..<MAILBOX_MAX_NUM hw] v = (posted, v1)" by fastforce
  note ps = post_reply_spec [OF assms(1) _ p]
  show ?thesis
    using assms(2,3) l p ps ctxv
    by (auto simp: sg2002_rtos_mailbox_send_def hw_frame_simps [OF assms(1)] Let_def
        split: if_splits list.splits)
qed

lemma reply_word_taken:
  "rtos_valid c = 1 \<Longrightarrow> \<not> slot_is_free (u64_of_cmdqu c) \<and> \<not> owned_by_linux (u64_of_cmdqu c)"
  by (simp add: slot_is_free_def owned_by_linux_def)

text \<open>A register block that reads zero and a lock that is always granted, for concrete
  evaluations.\<close>

definition sim_hw :: "'x mbox_mem_scheme mbox_hw" where
  "sim_hw = \<lparr>reg_read = (\<lambda>r w. (0, w)), reg_write = (\<lambda>r v w. w), spin_lock_irqsave = (\<lambda>w. (0, w)),
     spin_unlock_irqrestore = (\<lambda>f w. w), RECEIVE_CPU = 2, MAILBOX_MAX_NUM = 8,
     MAILBOX_LOCK_FAILED = -1\<rparr>"

lemma sim_hw_frame [simp]: "hw_frame sim_hw"
  by (simp add: hw_frame_def sim_hw_def)

lemma sim_hw_max [simp]: "MAILBOX_MAX_NUM sim_hw = 8"
  by (simp add: sim_hw_def)

subsection \<open>Properties\<close>

text \<open>The two sides agree on the command layout. The header word the firmware computes
  and the parameter it stores form exactly the packed image of the command, and packing and
  unpacking are inverse for every command and every slot word.\<close>

theorem cmdqu_layout:
  "cmdqu_of_u64 (u64_of_cmdqu c) = c \<and> u64_of_cmdqu (cmdqu_of_u64 w) = w \<and>
   store_low (command_header c) (store_high (param_ptr c) w) = u64_of_cmdqu c"
  by (simp add: store_reply)

text \<open>Property C26: receiving is exact. From the interrupt handler, and from task context once the
  hardware lock is held, the firmware takes the slots owned by Linux in slot order, as many as the
  caller's array holds, frees exactly those and leaves every other slot as it is, whatever the
  interrupt register says; when the lock is not granted it takes nothing.\<close>

theorem mailbox_receive_exact:
  assumes "hw_frame hw" "length (mailbox_context w) = MAILBOX_MAX_NUM hw" "0 < capacity"
    and "sel = take capacity (owned_slots (mailbox_context w))"
    and "sg2002_rtos_mailbox_receive_from_isr hw False capacity w = (cs, w')"
    and "sg2002_rtos_mailbox_receive hw False capacity w = (cs2, w2)"
  shows "cs = map ((!) (mailbox_context w)) sel \<and> length cs \<le> capacity \<and>
    mailbox_context w' = clear_slots sel (mailbox_context w) \<and>
    (if fst (spin_lock_irqsave hw w) = MAILBOX_LOCK_FAILED hw
     then cs2 = [] \<and> mailbox_context w2 = mailbox_context w
     else cs2 = cs \<and> mailbox_context w2 = mailbox_context w')"
  using mailbox_receive_isr [OF assms(1-3,5)] mailbox_receive_task [OF assms(1-3,6)] assms(4)
  by (auto split: if_splits)

theorem mailbox_receive_exact_witness:
  "fst (sg2002_rtos_mailbox_receive_from_isr sim_hw False 8
      \<lparr>mailbox_context = [0, 0x0000000700017f06, 0x0000000901006006, 0, 0, 0, 0, 0]\<rparr>) = [0x0000000700017f06]"
proof -
  let ?ctx = "[0, 0x0000000700017f06, 0x0000000901006006, 0, 0, 0, 0, 0] :: u64 list"
  have "owned_slots ?ctx = [1]"
    by (simp add: owned_slots_def owned_by_linux_def cmdqu_of_u64_def upt_rec)
  then show ?thesis
    using mailbox_receive_exact [OF sim_hw_frame _ _ refl surjective_pairing surjective_pairing,
        of "\<lparr>mailbox_context = ?ctx\<rparr>" 8] by simp
qed

text \<open>Property C27: sending publishes one complete reply or nothing. Once the hardware lock is held,
  the reply, marked as owned by the firmware, is stored in the first free slot and 0 is returned;
  all other slots keep their contents, and the posted slot is neither free nor owned by Linux, so
  the firmware can neither overwrite it nor receive it back. Without a free slot, without the lock
  or for a null command the answer is -1 and no slot changes.\<close>

theorem mailbox_send_exact:
  assumes "hw_frame hw" "length (mailbox_context w) = MAILBOX_MAX_NUM hw"
    and "sg2002_rtos_mailbox_send hw (Some command) cpu w = (result, w')"
    and "reply = command\<lparr>linux_valid := 0, rtos_valid := 1\<rparr>"
  shows "(if fst (spin_lock_irqsave hw w) = MAILBOX_LOCK_FAILED hw
     then result = -1 \<and> mailbox_context w' = mailbox_context w
     else (case filter (\<lambda>i. slot_is_free (mailbox_context w ! i)) [0..<length (mailbox_context w)] of
         [] \<Rightarrow> result = -1 \<and> mailbox_context w' = mailbox_context w
       | i # _ \<Rightarrow> result = 0 \<and> mailbox_context w' = (mailbox_context w)[i := u64_of_cmdqu reply])) \<and>
    \<not> slot_is_free (u64_of_cmdqu reply) \<and> \<not> owned_by_linux (u64_of_cmdqu reply) \<and>
    sg2002_rtos_mailbox_send hw None cpu w = (-1, w)"
  using mailbox_send_cases [OF assms(1-3)] reply_word_taken [of reply] assms(4)
  by (auto simp: sg2002_rtos_mailbox_send_def split: if_splits list.splits)

theorem mailbox_send_exact_witness:
  "fst (sg2002_rtos_mailbox_send sim_hw (Some (cmdqu_of_u64 0x0000000700017f06)) 1
      \<lparr>mailbox_context = replicate 8 0x0000000700017f06\<rparr>) = -1"
proof -
  let ?w = "\<lparr>mailbox_context = replicate 8 (0x0000000700017f06 :: u64)\<rparr>"
  have "filter (\<lambda>i. slot_is_free (mailbox_context ?w ! i)) [0..<length (mailbox_context ?w)] = []"
    by (auto simp: slot_is_free_def cmdqu_of_u64_def filter_empty_conv)
  then show ?thesis
    using mailbox_send_exact [OF sim_hw_frame _ surjective_pairing refl, of ?w
        "cmdqu_of_u64 0x0000000700017f06" 1] by (simp split: if_splits)
qed

end
