(* ===== verification/Linux_Client.thy ===== *)
theory Linux_Client
  imports Protocol Shm_Abi Mailbox Fifo_Spec
begin

section \<open>The Linux client library: handle, retained responses and time\<close>

text \<open>
  The first part of \<^verbatim>\<open>linux/src/sg2002_rtos.c\<close>: opening and closing a handle, the responses a
  synchronous call retains for later receivers, copying a message to the caller, and the deadline
  arithmetic. System calls, mutexes and the allocator are parameters, a record of operations on
  the world \<open>'w\<close>; the private data of the handle is part of the world, because operations that
  let other threads run may change it. An error result is \<open>Inl errno\<close>. A loop that may run forever
  is a partial function: \<^const>\<open>None\<close> is not returning.
\<close>

subsection \<open>Data\<close>

abbreviation ENOENT :: int where "ENOENT \<equiv> 2"
abbreviation EINTR :: int where "EINTR \<equiv> 4"
abbreviation EIO :: int where "EIO \<equiv> 5"
abbreviation EBADF :: int where "EBADF \<equiv> 9"
abbreviation EAGAIN :: int where "EAGAIN \<equiv> 11"
abbreviation ENOMEM :: int where "ENOMEM \<equiv> 12"
abbreviation ENODEV :: int where "ENODEV \<equiv> 19"
abbreviation EINVAL :: int where "EINVAL \<equiv> 22"
abbreviation ENOTTY :: int where "ENOTTY \<equiv> 25"
abbreviation EPROTO :: int where "EPROTO \<equiv> 71"
abbreviation EMSGSIZE :: int where "EMSGSIZE \<equiv> 90"
abbreviation EOPNOTSUPP :: int where "EOPNOTSUPP \<equiv> 95"
abbreviation ENOBUFS :: int where "ENOBUFS \<equiv> 105"
abbreviation ENOTCONN :: int where "ENOTCONN \<equiv> 107"
abbreviation ETIMEDOUT :: int where "ETIMEDOUT \<equiv> 110"
abbreviation EALREADY :: int where "EALREADY \<equiv> 114"

abbreviation UINT32_MAX :: "'a :: numeral" where "UINT32_MAX \<equiv> 0xffffffff"

abbreviation SG2002_RTOS_BATCH_UNKNOWN :: int where "SG2002_RTOS_BATCH_UNKNOWN \<equiv> 0"
abbreviation SG2002_RTOS_BATCH_SUPPORTED :: int where "SG2002_RTOS_BATCH_SUPPORTED \<equiv> 1"
abbreviation SG2002_RTOS_BATCH_UNSUPPORTED :: int where "SG2002_RTOS_BATCH_UNSUPPORTED \<equiv> -1"

datatype rtos_lock = Tx_lock | Rx_lock

text \<open>The handle the caller owns; \<open>private_data\<close> tells whether the pointer is set. The array of
  retained responses and its count are the list of the first \<open>pending_count\<close> elements.\<close>

record sg2002_rtos =
  fd :: int
  private_data :: bool

record sg2002_rtos_private =
  pending_fd :: int
  shared_memory_enabled :: bool
  submit_batch_supported :: int
  reap_batch_supported :: int
  private_generation :: u32
  pending :: "sg2002_rtos_shm_slot list"

record client_world =
  priv :: sg2002_rtos_private

record sg2002_rtos_shm_info =
  info_abi_version :: u32
  info_region_size :: u32
  info_control_size :: u32
  info_slot_size :: u32
  info_slot_count :: u32
  info_payload_size :: u32
  info_generation :: u32
  info_features :: u32

record sg2002_rtos_shm_transfer =
  transfer_timeout_ms :: u32
  message :: sg2002_rtos_shm_slot

record sg2002_rtos_shm_batch =
  batch_timeout_ms :: u32
  batch_generation :: u32
  batch_count :: u16
  batch_completed :: u16

record 'w linux_env =
  sys_open :: "'w \<Rightarrow> (int + int) \<times> 'w"
  sys_close :: "int \<Rightarrow> 'w \<Rightarrow> 'w"
  ioctl_acquire :: "int \<Rightarrow> 'w \<Rightarrow> (int + sg2002_rtos_shm_info) \<times> 'w"
  ioctl_send :: "int \<Rightarrow> sg2002_rtos_shm_transfer \<Rightarrow> 'w \<Rightarrow> (int + sg2002_rtos_shm_transfer) \<times> 'w"
  ioctl_receive :: "int \<Rightarrow> sg2002_rtos_shm_transfer \<Rightarrow> 'w \<Rightarrow> (int + sg2002_rtos_shm_transfer) \<times> 'w"
  ioctl_submit_batch :: "int \<Rightarrow> sg2002_rtos_shm_batch \<Rightarrow> sg2002_rtos_shm_slot list \<Rightarrow> 'w \<Rightarrow>
    (int + sg2002_rtos_shm_batch) \<times> sg2002_rtos_shm_slot list \<times> 'w"
  ioctl_reap_batch :: "int \<Rightarrow> sg2002_rtos_shm_batch \<Rightarrow> sg2002_rtos_shm_slot list \<Rightarrow> 'w \<Rightarrow>
    (int + sg2002_rtos_shm_batch) \<times> sg2002_rtos_shm_slot list \<times> 'w"
  ioctl_send_wait :: "int \<Rightarrow> cmdqu_t \<Rightarrow> 'w \<Rightarrow> (int + cmdqu_t) \<times> 'w"
  sys_poll :: "(int \<times> 16 word) list \<Rightarrow> int \<Rightarrow> 'w \<Rightarrow> (int + int \<times> 16 word list) \<times> 'w"
  event_write :: "int \<Rightarrow> u64 \<Rightarrow> 'w \<Rightarrow> (int + nat) \<times> 'w"
  event_read :: "int \<Rightarrow> 'w \<Rightarrow> (int + nat \<times> u64) \<times> 'w"
  clock_gettime :: "'w \<Rightarrow> (u64 \<times> u64) option \<times> 'w"
  calloc_private :: "'w \<Rightarrow> bool \<times> 'w"
  free_private :: "'w \<Rightarrow> 'w"
  mutex_init :: "rtos_lock \<Rightarrow> 'w \<Rightarrow> int \<times> 'w"
  mutex_destroy :: "rtos_lock \<Rightarrow> 'w \<Rightarrow> 'w"
  mutex_lock :: "rtos_lock \<Rightarrow> 'w \<Rightarrow> int \<times> 'w"
  mutex_unlock :: "rtos_lock \<Rightarrow> 'w \<Rightarrow> 'w"
  eventfd_create :: "'w \<Rightarrow> (int + int) \<times> 'w"

subsection \<open>Opening and closing\<close>

definition info_is_valid :: "sg2002_rtos_shm_info \<Rightarrow> bool" where
  "info_is_valid info \<longleftrightarrow>
     info_abi_version info = SG2002_RTOS_SHM_ABI_VERSION \<and>
     info_region_size info = SG2002_RTOS_SHM_REGION_SIZE \<and>
     info_control_size info = SG2002_RTOS_SHM_CONTROL_SIZE \<and>
     info_slot_size info = SG2002_RTOS_SHM_SLOT_SIZE \<and>
     info_slot_count info = SG2002_RTOS_SHM_SLOT_COUNT \<and>
     info_payload_size info = SG2002_RTOS_SHM_PAYLOAD_SIZE \<and>
     info_generation info \<noteq> 0 \<and>
     info_features info AND SG2002_RTOS_SHM_FEATURES = SG2002_RTOS_SHM_FEATURES"

text \<open>The part of \<^verbatim>\<open>sg2002_rtos_open\<close> that sets up the private data once the driver has answered;
  every failure releases what was acquired before. The handle is returned with its new contents.\<close>

definition open_private ::
  "'x client_world_scheme linux_env \<Rightarrow> int \<Rightarrow> u32 \<Rightarrow> sg2002_rtos \<Rightarrow> 'x client_world_scheme \<Rightarrow>
    int \<times> sg2002_rtos option \<times> 'x client_world_scheme" where
  "open_private env f generation r w =
     (case calloc_private env w of (allocated, w) \<Rightarrow>
      if \<not> allocated then (- ENOMEM, Some r, sys_close env f w) else
     (case mutex_init env Tx_lock w of (e, w) \<Rightarrow>
      if e \<noteq> 0 then (- e, Some r, sys_close env f (free_private env w)) else
     (case mutex_init env Rx_lock w of (e, w) \<Rightarrow>
      if e \<noteq> 0 then
        (- e, Some r, sys_close env f (free_private env (mutex_destroy env Tx_lock w))) else
     (case eventfd_create env w of (res, w) \<Rightarrow>
      (case res of
         Inl e \<Rightarrow> (- e, Some r, sys_close env f (free_private env
                    (mutex_destroy env Tx_lock (mutex_destroy env Rx_lock w))))
       | Inr ev \<Rightarrow>
           (0, Some (r\<lparr>fd := f, private_data := True\<rparr>),
            w\<lparr>priv := \<lparr>pending_fd = ev, shared_memory_enabled = True, submit_batch_supported = 0,
                reap_batch_supported = 0, private_generation = generation, pending = []\<rparr>\<rparr>))))))"

text \<open>The device path only selects the argument of \<^verbatim>\<open>open\<close> and is not a parameter.\<close>

definition sg2002_rtos_open ::
  "'x client_world_scheme linux_env \<Rightarrow> sg2002_rtos option \<Rightarrow> 'x client_world_scheme \<Rightarrow>
    int \<times> sg2002_rtos option \<times> 'x client_world_scheme" where
  "sg2002_rtos_open env rtos w = (case rtos of None \<Rightarrow> (- EINVAL, None, w)
     | Some r \<Rightarrow> if fd r \<ge> 0 then (- EALREADY, Some r, w) else
     (case sys_open env w of (res, w) \<Rightarrow>
     (case res of Inl e \<Rightarrow> (- e, Some r, w)
      | Inr f \<Rightarrow>
     (case ioctl_acquire env f w of (res, w) \<Rightarrow>
     (case res of
        Inl e \<Rightarrow>
          if e \<noteq> ENOTTY \<and> e \<noteq> ENODEV \<and> e \<noteq> EOPNOTSUPP \<and> e \<noteq> ETIMEDOUT
          then (- e, Some r, sys_close env f w)
          else (0, Some (r\<lparr>fd := f, private_data := False\<rparr>), w)
      | Inr info \<Rightarrow>
          if \<not> info_is_valid info then (- EPROTO, Some r, sys_close env f w)
          else open_private env f (info_generation info) r w)))))"

definition sg2002_rtos_close ::
  "'x client_world_scheme linux_env \<Rightarrow> sg2002_rtos option \<Rightarrow> 'x client_world_scheme \<Rightarrow>
    sg2002_rtos option \<times> 'x client_world_scheme" where
  "sg2002_rtos_close env rtos w = (case rtos of None \<Rightarrow> (None, w)
     | Some r \<Rightarrow> if fd r < 0 then (Some r, w) else
       let w = sys_close env (fd r) w;
           w = (if private_data r then
                  free_private env (mutex_destroy env Tx_lock (mutex_destroy env Rx_lock
                    (sys_close env (pending_fd (priv w)) w)))
                else w)
       in (Some (r\<lparr>fd := -1, private_data := False\<rparr>), w))"

definition sg2002_rtos_shared_memory_available ::
  "sg2002_rtos option \<Rightarrow> 'x client_world_scheme \<Rightarrow> bool" where
  "sg2002_rtos_shared_memory_available rtos w = (case rtos of None \<Rightarrow> False
     | Some r \<Rightarrow> if fd r < 0 then False else private_data r \<and> shared_memory_enabled (priv w))"

definition sg2002_rtos_poll_fd :: "sg2002_rtos option \<Rightarrow> 'x client_world_scheme \<Rightarrow> int" where
  "sg2002_rtos_poll_fd rtos w = (case rtos of None \<Rightarrow> - EINVAL
     | Some r \<Rightarrow> if fd r < 0 then - EBADF
       else if \<not> sg2002_rtos_shared_memory_available rtos w then - EOPNOTSUPP else fd r)"

subsection \<open>Retained responses\<close>

partial_function (option) pending_event_signal ::
  "'x client_world_scheme linux_env \<Rightarrow> 'x client_world_scheme \<Rightarrow> (int \<times> 'x client_world_scheme) option" where
  "pending_event_signal env w =
     (case event_write env (pending_fd (priv w)) 1 w of (r, w) \<Rightarrow>
       (case r of
          Inl e \<Rightarrow> if e = EINTR then pending_event_signal env w else Some (- e, w)
        | Inr written \<Rightarrow> Some (if written = 8 then 0 else - EIO, w)))"

partial_function (option) pending_event_consume ::
  "'x client_world_scheme linux_env \<Rightarrow> 'x client_world_scheme \<Rightarrow> (int \<times> 'x client_world_scheme) option" where
  "pending_event_consume env w =
     (case event_read env (pending_fd (priv w)) w of (r, w) \<Rightarrow>
       (case r of
          Inl e \<Rightarrow> if e = EINTR then pending_event_consume env w else Some (- e, w)
        | Inr (received, v) \<Rightarrow> Some (if received = 8 \<and> v = 1 then 0 else - EIO, w)))"

definition set_pending ::
  "sg2002_rtos_shm_slot list \<Rightarrow> 'x client_world_scheme \<Rightarrow> 'x client_world_scheme" where
  "set_pending ms w = w\<lparr>priv := (priv w)\<lparr>pending := ms\<rparr>\<rparr>"

definition retain_pending ::
  "'x client_world_scheme linux_env \<Rightarrow> sg2002_rtos_shm_slot \<Rightarrow> 'x client_world_scheme \<Rightarrow>
    (int \<times> 'x client_world_scheme) option" where
  "retain_pending env msg w =
     (if length (pending (priv w)) \<ge> SG2002_RTOS_SHM_SLOT_COUNT then Some (- ENOBUFS, w)
      else do {
        (ret, w) \<leftarrow> pending_event_signal env (set_pending (pending (priv w) @ [msg]) w);
        if ret \<noteq> 0 then Some (ret, set_pending (butlast (pending (priv w))) w) else Some (0, w)
      })"

definition remove_pending ::
  "'x client_world_scheme linux_env \<Rightarrow> nat \<Rightarrow> 'x client_world_scheme \<Rightarrow>
    (int \<times> 'x client_world_scheme) option" where
  "remove_pending env index w =
     (if index \<ge> length (pending (priv w)) then Some (- ENOENT, w)
      else do {
        let ms = pending (priv w);
        (ret, w) \<leftarrow> pending_event_consume env (set_pending (take index ms @ drop (index + 1) ms) w);
        Some (if ret = - EAGAIN then - EPROTO else ret, w)
      })"

text \<open>The message the caller passes is returned with its new contents.\<close>

definition take_pending_oldest ::
  "'x client_world_scheme linux_env \<Rightarrow> sg2002_rtos_shm_slot \<Rightarrow> 'x client_world_scheme \<Rightarrow>
    (int \<times> sg2002_rtos_shm_slot \<times> 'x client_world_scheme) option" where
  "take_pending_oldest env msg w = (case pending (priv w) of [] \<Rightarrow> Some (0, msg, w)
     | m # ms \<Rightarrow> do {
         (ret, w) \<leftarrow> remove_pending env 0 w;
         if ret \<noteq> 0 then Some (ret, m, w) else Some (1, m, w)
       })"

definition take_pending_sequence ::
  "'x client_world_scheme linux_env \<Rightarrow> u32 \<Rightarrow> sg2002_rtos_shm_slot \<Rightarrow> 'x client_world_scheme \<Rightarrow>
    (int \<times> sg2002_rtos_shm_slot \<times> 'x client_world_scheme) option" where
  "take_pending_sequence env seq msg w =
     (let ms = pending (priv w) in
      case find (\<lambda>index. sequence (ms ! index) = seq) [0..<length ms] of
        None \<Rightarrow> Some (0, msg, w)
      | Some index \<Rightarrow> do {
          (ret, w) \<leftarrow> remove_pending env index w;
          if ret \<noteq> 0 then Some (- EPROTO, ms ! index, w) else Some (1, ms ! index, w)
        })"

subsection \<open>Delivering a message to the caller\<close>

text \<open>The outer \<^const>\<open>None\<close> is an access out of range. The caller's buffer, length and sequence
  cells are returned with their new contents; a null sequence pointer is \<^const>\<open>None\<close>.\<close>

definition copy_message ::
  "sg2002_rtos_shm_slot \<Rightarrow> bytes option \<Rightarrow> u16 \<Rightarrow> u32 option \<Rightarrow>
    (int \<times> bytes option \<times> u16 \<times> u32 option) option" where
  "copy_message msg response response_capacity seq =
     (let response_length = slot_length msg;
          seq = map_option (\<lambda>_. sequence msg) seq
      in if slot_length msg > response_capacity then Some (- EMSGSIZE, response, response_length, seq)
         else if slot_length msg > 0 then
           (case response of None \<Rightarrow> Some (- EINVAL, response, response_length, seq)
            | Some buf \<Rightarrow> do {
                bs \<leftarrow> read_bytes (payload msg) 0 (unat (slot_length msg));
                buf \<leftarrow> write_bytes buf 0 bs;
                Some (0, Some buf, response_length, seq)
              })
         else Some (0, response, response_length, seq))"

subsection \<open>Deadlines\<close>

definition monotonic_milliseconds :: "'w linux_env \<Rightarrow> 'w \<Rightarrow> u64 \<times> 'w" where
  "monotonic_milliseconds env w = (case clock_gettime env w of
       (None, w) \<Rightarrow> (0, w)
     | (Some (tv_sec, tv_nsec), w) \<Rightarrow> (tv_sec * 1000 + tv_nsec div 1000000, w))"

definition timeout_deadline :: "'w linux_env \<Rightarrow> u32 \<Rightarrow> 'w \<Rightarrow> u64 \<times> 'w" where
  "timeout_deadline env timeout_ms w =
     (if timeout_ms = 0 \<or> timeout_ms = UINT32_MAX then (0, w)
      else let (now, w) = monotonic_milliseconds env w in (now + ucast timeout_ms, w))"

definition remaining_of :: "u64 \<Rightarrow> u32" where
  "remaining_of difference =
     (if difference \<ge> UINT32_MAX then UINT32_MAX - 1 else ucast difference)"

definition update_remaining ::
  "'w linux_env \<Rightarrow> u32 \<Rightarrow> u64 \<Rightarrow> u32 \<Rightarrow> 'w \<Rightarrow> int \<times> u32 \<times> 'w" where
  "update_remaining env timeout_ms deadline remaining w =
     (if timeout_ms = UINT32_MAX then (0, UINT32_MAX, w)
      else let (now, w) = monotonic_milliseconds env w
           in if now \<ge> deadline then (- ETIMEDOUT, remaining, w)
              else (0, remaining_of (deadline - now), w))"

text \<open>The timeout argument of \<^verbatim>\<open>poll\<close>.\<close>

definition poll_timeout :: "u32 \<Rightarrow> int" where
  "poll_timeout remaining = (if remaining = UINT32_MAX then -1
     else if remaining > 0x7fffffff then 0x7fffffff else uint remaining)"

subsection \<open>What the event descriptor promises\<close>

text \<open>An \<^verbatim>\<open>eventfd\<close> in semaphore mode: a write adds one to its counter, a read takes one and fails
  with \<open>EAGAIN\<close> when there is none; \<open>evc\<close> is the counter. Neither touches the memory of the process,
  and storing to that memory does not touch the counter.\<close>

definition eventfd_ok :: "'x client_world_scheme linux_env \<Rightarrow> ('x client_world_scheme \<Rightarrow> nat) \<Rightarrow> bool" where
  "eventfd_ok env evc \<longleftrightarrow>
     (\<forall>w p. evc (w\<lparr>priv := p\<rparr>) = evc w) \<and>
     (\<forall>f w. \<exists>w'. event_write env f 1 w = (Inr 8, w') \<and> evc w' = evc w + 1 \<and> priv w' = priv w) \<and>
     (\<forall>f w. if evc w = 0 then event_read env f w = (Inl EAGAIN, w)
        else \<exists>w'. event_read env f w = (Inr (8, 1), w') \<and> evc w' = evc w - 1 \<and> priv w' = priv w)"

text \<open>The invariant of the receive side: at most 64 retained responses, and the event counter that
  wakes waiting receivers counts them.\<close>

definition pending_inv :: "('x client_world_scheme \<Rightarrow> nat) \<Rightarrow> 'x client_world_scheme \<Rightarrow> bool" where
  "pending_inv evc w \<longleftrightarrow> evc w = length (pending (priv w)) \<and> length (pending (priv w)) \<le> SG2002_RTOS_SHM_SLOT_COUNT"

subsection \<open>Lemmas\<close>

lemma priv_set_pending [simp]:
  "pending (priv (set_pending ms w)) = ms" "pending_fd (priv (set_pending ms w)) = pending_fd (priv w)"
  by (simp_all add: set_pending_def)

lemma eventfd_rules:
  assumes "eventfd_ok env evc"
  shows "\<exists>w'. event_write env f 1 w = (Inr 8, w') \<and> evc w' = evc w + 1 \<and> priv w' = priv w"
    "0 < evc w \<Longrightarrow> \<exists>w'. event_read env f w = (Inr (8, 1), w') \<and> evc w' = evc w - 1 \<and> priv w' = priv w"
proof -
  show "\<exists>w'. event_write env f 1 w = (Inr 8, w') \<and> evc w' = evc w + 1 \<and> priv w' = priv w"
    using assms by (simp add: eventfd_ok_def)
  have "if evc w = 0 then event_read env f w = (Inl EAGAIN, w)
    else \<exists>w'. event_read env f w = (Inr (8, 1), w') \<and> evc w' = evc w - 1 \<and> priv w' = priv w"
    using assms unfolding eventfd_ok_def by (elim conjE) (erule allE, erule allE, assumption)
  then show "0 < evc w \<Longrightarrow> \<exists>w'. event_read env f w = (Inr (8, 1), w') \<and> evc w' = evc w - 1 \<and> priv w' = priv w"
    by simp
qed

lemma signal_ok:
  assumes "eventfd_ok env evc"
  shows "\<exists>w'. pending_event_signal env w = Some (0, w') \<and> evc w' = evc w + 1 \<and> priv w' = priv w"
proof -
  obtain w' where "event_write env (pending_fd (priv w)) 1 w = (Inr 8, w')" "evc w' = evc w + 1" "priv w' = priv w"
    using eventfd_rules(1) [OF assms] by blast
  then show ?thesis by (subst pending_event_signal.simps) simp
qed

lemma consume_ok:
  assumes "eventfd_ok env evc" "0 < evc w"
  shows "\<exists>w'. pending_event_consume env w = Some (0, w') \<and> evc w' = evc w - 1 \<and> priv w' = priv w"
proof -
  obtain w' where "event_read env (pending_fd (priv w)) w = (Inr (8, 1), w')" "evc w' = evc w - 1" "priv w' = priv w"
    using eventfd_rules(2) [OF assms] by blast
  then show ?thesis by (subst pending_event_consume.simps) simp
qed

lemma evc_set_pending: "eventfd_ok env evc \<Longrightarrow> evc (set_pending ms w) = evc w"
  by (simp add: eventfd_ok_def set_pending_def)

lemma retain_pending_room:
  assumes "eventfd_ok env evc" "pending_inv evc w" "length (pending (priv w)) < 64"
  shows "\<exists>w'. retain_pending env msg w = Some (0, w') \<and> pending (priv w') = pending (priv w) @ [msg] \<and>
    pending_inv evc w'"
proof -
  obtain w' where "pending_event_signal env (set_pending (pending (priv w) @ [msg]) w) = Some (0, w')"
    "evc w' = evc w + 1" "priv w' = priv (set_pending (pending (priv w) @ [msg]) w)"
    using signal_ok [OF assms(1)] evc_set_pending [OF assms(1)] by metis
  then show ?thesis using assms(2,3) by (simp add: retain_pending_def pending_inv_def)
qed

lemma retain_pending_full:
  "64 \<le> length (pending (priv w)) \<Longrightarrow> retain_pending env msg w = Some (- ENOBUFS, w)"
  by (simp add: retain_pending_def)

lemma remove_pending_ok:
  assumes "eventfd_ok env evc" "pending_inv evc w" "i < length (pending (priv w))"
  shows "\<exists>w'. remove_pending env i w = Some (0, w') \<and>
    pending (priv w') = take i (pending (priv w)) @ drop (i + 1) (pending (priv w)) \<and> pending_inv evc w'"
proof -
  let ?ms = "take i (pending (priv w)) @ drop (i + 1) (pending (priv w))"
  have "0 < evc (set_pending ?ms w)"
    using assms by (auto simp: pending_inv_def evc_set_pending [OF assms(1)])
  then obtain w' where "pending_event_consume env (set_pending ?ms w) = Some (0, w')"
    "evc w' = evc w - 1" "priv w' = priv (set_pending ?ms w)"
    using consume_ok [OF assms(1)] evc_set_pending [OF assms(1)] by metis
  then show ?thesis
    using assms(2,3) by (auto simp: remove_pending_def pending_inv_def Let_def)
qed

lemma take_pending_oldest_ok:
  assumes "eventfd_ok env evc" "pending_inv evc w" "pending (priv w) = m # ms"
  shows "\<exists>w'. take_pending_oldest env msg w = Some (1, m, w') \<and> pending (priv w') = ms \<and> pending_inv evc w'"
  using remove_pending_ok [OF assms(1,2), of 0] assms(3) by (auto simp: take_pending_oldest_def)

lemma find_index_Some:
  "find (\<lambda>i. P (xs ! i)) [0..<length xs] = Some i \<longleftrightarrow>
   i < length xs \<and> P (xs ! i) \<and> (\<forall>j<i. \<not> P (xs ! j))"
  by (auto simp: find_Some_iff)

lemma find_index_None:
  "find (\<lambda>i. P (xs ! i)) [0..<length xs] = None \<longleftrightarrow> (\<forall>x\<in>set xs. \<not> P x)"
  by (auto simp: find_None_iff Ball_def) (metis in_set_conv_nth nth_mem)+

text \<open>The response queue of the handle is a bounded channel: retaining pushes, taking the oldest
  pops.\<close>

definition retain_push ::
  "'x client_world_scheme linux_env \<Rightarrow> sg2002_rtos_shm_slot \<Rightarrow> 'x client_world_scheme \<Rightarrow>
    bool \<times> 'x client_world_scheme" where
  "retain_push env msg w = (case retain_pending env msg w of
     Some (ret, w') \<Rightarrow> (ret = 0, w') | None \<Rightarrow> (False, w))"

definition oldest_pop ::
  "'x client_world_scheme linux_env \<Rightarrow> 'x client_world_scheme \<Rightarrow>
    sg2002_rtos_shm_slot option \<times> 'x client_world_scheme" where
  "oldest_pop env w = (case take_pending_oldest env zero_slot w of
     Some (ret, msg, w') \<Rightarrow> (if ret = 1 then Some msg else None, w') | None \<Rightarrow> (None, w))"

interpretation retained: bounded_fifo "retain_push env" "oldest_pop env" "\<lambda>w. pending (priv w)" 64
  "\<lambda>w. eventfd_ok env evc \<and> pending_inv evc w" "\<lambda>_. True"
  for env :: "'x client_world_scheme linux_env" and evc
proof (unfold_locales, goal_cases)
  case (1 s)
  then show ?case by (simp add: pending_inv_def)
next
  case (2 s m)
  then show ?case using retain_pending_room [of env evc s m] by (auto simp: retain_push_def)
next
  case (3 s m)
  then show ?case using retain_pending_full [of s env m] by (auto simp: retain_push_def)
next
  case (4 s m)
  then show ?case
    using retain_pending_room [of env evc s m] retain_pending_full [of s env m]
    by (cases "length (pending (priv s)) < 64") (auto simp: retain_push_def)
next
  case (5 s)
  then show ?case by (auto simp: oldest_pop_def take_pending_oldest_def)
next
  case (6 s m ms)
  then show ?case using take_pending_oldest_ok [of env evc s m ms zero_slot] by (auto simp: oldest_pop_def)
next
  case (7 s)
  then show ?case
    using take_pending_oldest_ok [of env evc s _ _ zero_slot]
    by (cases "pending (priv s)") (fastforce simp: oldest_pop_def take_pending_oldest_def)+
qed

lemma remaining_of_bounds:
  assumes "0 < d"
  shows "0 < unat (remaining_of d)" "unat (remaining_of d) < 4294967295" "unat (remaining_of d) \<le> unat d"
proof -
  have "0 < unat (remaining_of d) \<and> unat (remaining_of d) < 4294967295 \<and> unat (remaining_of d) \<le> unat d"
  proof (cases "UINT32_MAX \<le> d")
    case True
    then have "4294967295 \<le> unat d" by (simp add: word_le_nat_alt)
    with True show ?thesis by (simp add: remaining_of_def)
  next
    case False
    then have lt: "unat d < 4294967295" by (simp add: word_le_nat_alt)
    then have "unat (ucast d :: u32) = unat d"
      by (simp add: unsigned_ucast_eq take_bit_nat_eq_self)
    moreover have "0 < unat d" using assms by (simp add: word_less_nat_alt)
    ultimately show ?thesis using False lt by (simp add: remaining_of_def)
  qed
  then show "0 < unat (remaining_of d)" "unat (remaining_of d) < 4294967295" "unat (remaining_of d) \<le> unat d"
    by blast+
qed

lemma poll_timeout_bounds:
  assumes "0 < unat r" "unat r < 4294967295"
  shows "0 < poll_timeout r" "poll_timeout r \<le> 0x7fffffff"
proof -
  have ne: "r \<noteq> UINT32_MAX" using assms(2) by auto
  have u: "uint r = int (unat r)" by simp
  with assms(1) have "0 < uint r" by linarith
  with ne show "0 < poll_timeout r" by (simp add: poll_timeout_def)
  have "uint r \<le> 0x7fffffff" if "\<not> r > 0x7fffffff"
  proof -
    have "unat r \<le> 2147483647" using that by (simp add: word_less_nat_alt)
    with u show ?thesis by linarith
  qed
  with ne show "poll_timeout r \<le> 0x7fffffff" by (simp add: poll_timeout_def)
qed
subsection \<open>What the resource calls promise\<close>

datatype resource = Res_fd int | Res_private | Res_lock rtos_lock

text \<open>\<open>held\<close> is the set of resources the process holds for the handle: acquiring calls add a fresh
  resource when they succeed and none when they fail, releasing calls remove it, and neither the
  acquire request to the driver nor a store to memory changes the set.\<close>

definition resources_ok ::
  "'x client_world_scheme linux_env \<Rightarrow> ('x client_world_scheme \<Rightarrow> resource set) \<Rightarrow> bool" where
  "resources_ok env held \<longleftrightarrow>
     (\<forall>w p. held (w\<lparr>priv := p\<rparr>) = held w) \<and>
     (\<forall>w r w'. sys_open env w = (r, w') \<longrightarrow> (case r of Inl _ \<Rightarrow> held w' = held w
        | Inr f \<Rightarrow> f \<ge> 0 \<and> Res_fd f \<notin> held w \<and> held w' = insert (Res_fd f) (held w))) \<and>
     (\<forall>w r w'. eventfd_create env w = (r, w') \<longrightarrow> (case r of Inl _ \<Rightarrow> held w' = held w
        | Inr f \<Rightarrow> f \<ge> 0 \<and> Res_fd f \<notin> held w \<and> held w' = insert (Res_fd f) (held w))) \<and>
     (\<forall>w f r w'. ioctl_acquire env f w = (r, w') \<longrightarrow> held w' = held w) \<and>
     (\<forall>w b w'. calloc_private env w = (b, w') \<longrightarrow> held w' = (if b then insert Res_private (held w) else held w)) \<and>
     (\<forall>w l e w'. mutex_init env l w = (e, w') \<longrightarrow> held w' = (if e = 0 then insert (Res_lock l) (held w) else held w)) \<and>
     (\<forall>w f. held (sys_close env f w) = held w - {Res_fd f} \<and> priv (sys_close env f w) = priv w) \<and>
     (\<forall>w. held (free_private env w) = held w - {Res_private}) \<and>
     (\<forall>w l. held (mutex_destroy env l w) = held w - {Res_lock l} \<and> priv (mutex_destroy env l w) = priv w)"

lemma resources_rules:
  assumes "resources_ok env held"
  shows "held (w\<lparr>priv := p\<rparr>) = held w"
    "sys_open env w = (Inl e, w') \<Longrightarrow> held w' = held w"
    "sys_open env w = (Inr f, w') \<Longrightarrow> f \<ge> 0 \<and> Res_fd f \<notin> held w \<and> held w' = insert (Res_fd f) (held w)"
    "eventfd_create env w = (Inl e, w') \<Longrightarrow> held w' = held w"
    "eventfd_create env w = (Inr f, w') \<Longrightarrow> f \<ge> 0 \<and> Res_fd f \<notin> held w \<and> held w' = insert (Res_fd f) (held w)"
    "ioctl_acquire env f w = (r, w') \<Longrightarrow> held w' = held w"
    "calloc_private env w = (True, w') \<Longrightarrow> held w' = insert Res_private (held w)"
    "calloc_private env w = (False, w') \<Longrightarrow> held w' = held w"
    "mutex_init env l w = (0, w') \<Longrightarrow> held w' = insert (Res_lock l) (held w)"
    "mutex_init env l w = (i, w') \<Longrightarrow> i \<noteq> 0 \<Longrightarrow> held w' = held w"
    "held (sys_close env f w) = held w - {Res_fd f}" "priv (sys_close env f w) = priv w"
    "held (free_private env w) = held w - {Res_private}"
    "held (mutex_destroy env l w) = held w - {Res_lock l}" "priv (mutex_destroy env l w) = priv w"
  using assms unfolding resources_ok_def by fastforce+

text \<open>Closing gives back everything a successful open has acquired.\<close>

lemma close_releases:
  assumes "resources_ok env held" "fd s \<ge> 0"
    and "held w' = (if private_data s then {Res_fd (pending_fd (priv w')), Res_lock Rx_lock,
      Res_lock Tx_lock, Res_private} else {}) \<union> insert (Res_fd (fd s)) old"
    and "Res_fd (fd s) \<notin> old" "private_data s \<Longrightarrow> old \<inter> {Res_fd (pending_fd (priv w')), Res_private,
      Res_lock Tx_lock, Res_lock Rx_lock} = {}"
  shows "held (snd (sg2002_rtos_close env (Some s) w')) = old \<and>
    fst (sg2002_rtos_close env (Some s) w') = Some \<lparr>fd = -1, private_data = False\<rparr>"
  using assms(2-5)
  by (cases s) (auto simp: sg2002_rtos_close_def Let_def resources_rules(11-15) [OF assms(1)])

lemma open_private_resources:
  assumes "resources_ok env held" "held w = insert (Res_fd f) old" "Res_fd f \<notin> old" "f \<ge> 0"
    and "old \<inter> {Res_private, Res_lock Tx_lock, Res_lock Rx_lock} = {}"
    and "open_private env f g r w = (ret, r', w')"
  shows "r' = Some r \<and> held w' = old \<or>
    (\<exists>s. ret = 0 \<and> r' = Some s \<and> fd s \<ge> 0 \<and> held (snd (sg2002_rtos_close env (Some s) w')) = old \<and>
      fst (sg2002_rtos_close env (Some s) w') = Some \<lparr>fd = -1, private_data = False\<rparr>)"
proof -
  note rules = resources_rules [OF assms(1)]
  obtain b w1 where 1: "calloc_private env w = (b, w1)" by fastforce
  obtain e2 w2 where 2: "mutex_init env Tx_lock w1 = (e2, w2)" by fastforce
  obtain e3 w3 where 3: "mutex_init env Rx_lock w2 = (e3, w3)" by fastforce
  obtain r4 w4 where 4: "eventfd_create env w3 = (r4, w4)" by fastforce
  consider "\<not> b" | "b" "e2 \<noteq> 0" | "b" "e2 = 0" "e3 \<noteq> 0" | e where "b" "e2 = 0" "e3 = 0" "r4 = Inl e"
    | ev where "b" "e2 = 0" "e3 = 0" "r4 = Inr ev"
    by (cases r4) auto
  then show ?thesis
  proof cases
    case c: 1
    have "r' = Some r \<and> w' = sys_close env f w1"
      using assms(6) 1 c by (simp add: open_private_def)
    then show ?thesis using rules(8) [of w w1] 1 c assms(2,3) by (simp add: rules(11))
  next
    case c: 2
    have "r' = Some r \<and> w' = sys_close env f (free_private env w2)"
      using assms(6) 1 2 c by (simp add: open_private_def)
    moreover have "held w2 = insert Res_private (held w)"
      using 1 2 c rules(7) [of w w1] rules(10) [of Tx_lock w1 e2 w2] by simp
    ultimately show ?thesis using assms(2,3,5) by (simp add: rules(11,13))
  next
    case c: 3
    have "r' = Some r \<and> w' = sys_close env f (free_private env (mutex_destroy env Tx_lock w3))"
      using assms(6) 1 2 3 c by (simp add: open_private_def)
    moreover have "held w3 = insert (Res_lock Tx_lock) (insert Res_private (held w))"
      using 1 2 3 c rules(7) [of w w1] rules(9) [of Tx_lock w1 w2] rules(10) [of Rx_lock w2 e3 w3] by simp
    ultimately show ?thesis using assms(2,3,5) by (auto simp: rules(11,13,14))
  next
    case c: (4 e)
    have "r' = Some r \<and> w' = sys_close env f (free_private env
        (mutex_destroy env Tx_lock (mutex_destroy env Rx_lock w4)))"
      using assms(6) 1 2 3 4 c by (simp add: open_private_def)
    moreover have "held w4 = insert (Res_lock Rx_lock) (insert (Res_lock Tx_lock) (insert Res_private (held w)))"
      using 1 2 3 4 c rules(7) [of w w1] rules(9) [of Tx_lock w1 w2] rules(9) [of Rx_lock w2 w3]
        rules(4) [of w3 e w4] by simp
    ultimately show ?thesis using assms(2,3,5) by (auto simp: rules(11,13,14))
  next
    case c: (5 ev)
    let ?s = "r\<lparr>fd := f, private_data := True\<rparr>"
    have r': "r' = Some ?s" "ret = 0" "pending_fd (priv w') = ev" "held w' = held w4"
      using assms(6) 1 2 3 4 c by (auto simp: open_private_def rules(1))
    have h: "held w3 = insert (Res_lock Rx_lock) (insert (Res_lock Tx_lock) (insert Res_private (held w)))"
      using 1 2 3 c rules(7) [of w w1] rules(9) [of Tx_lock w1 w2] rules(9) [of Rx_lock w2 w3] by simp
    have ev: "Res_fd ev \<notin> held w3" "held w4 = insert (Res_fd ev) (held w3)"
      using rules(5) [of w3 ev w4] 4 c by auto
    have "held w' = {Res_fd ev, Res_lock Rx_lock, Res_lock Tx_lock, Res_private} \<union> insert (Res_fd f) old"
      using r'(4) ev(2) h assms(2) by auto
    moreover have "old \<inter> {Res_fd ev, Res_private, Res_lock Tx_lock, Res_lock Rx_lock} = {}"
      using ev(1) h assms(2,5) by auto
    ultimately show ?thesis
      using close_releases [OF assms(1), of ?s w' old] r' assms(3,4) by simp
  qed
qed

subsection \<open>A simulated system\<close>

text \<open>A world with an event counter and a queue of responses in the kernel, for concrete
  evaluations: locks are granted, the clock stands still, a sent request gets sequence 7.\<close>

record sim_world = client_world +
  sim_events :: nat
  sim_kernel :: "sg2002_rtos_shm_slot list"

definition valid_response :: "sg2002_rtos_shm_slot \<Rightarrow> bool" where
  "valid_response m \<longleftrightarrow> sequence m \<noteq> 0 \<and> slot_length m \<le> SG2002_RTOS_SHM_PAYLOAD_SIZE"

definition sim_env :: "sim_world linux_env" where
  "sim_env = \<lparr>sys_open = (\<lambda>w. (Inr 3, w)), sys_close = (\<lambda>f w. w),
     ioctl_acquire = (\<lambda>f w. (Inl EOPNOTSUPP, w)),
     ioctl_send = (\<lambda>f t w. (Inr (t\<lparr>message := (message t)\<lparr>sequence := 7\<rparr>\<rparr>), w)),
     ioctl_receive = (\<lambda>f t w. case filter valid_response (sim_kernel w) of [] \<Rightarrow> (Inl EAGAIN, w)
        | m # ms \<Rightarrow> (Inr (t\<lparr>message := m\<rparr>), w\<lparr>sim_kernel := ms\<rparr>)),
     ioctl_submit_batch = (\<lambda>f b ms w. (Inl ENOTTY, ms, w)),
     ioctl_reap_batch = (\<lambda>f b ms w. (Inl ENOTTY, ms, w)),
     ioctl_send_wait = (\<lambda>f c w. (Inl ETIMEDOUT, w)),
     sys_poll = (\<lambda>ds t w. (Inr (1, [1]), w)),
     event_write = (\<lambda>f v w. (Inr 8, w\<lparr>sim_events := sim_events w + 1\<rparr>)),
     event_read = (\<lambda>f w. if sim_events w = 0 then (Inl EAGAIN, w)
        else (Inr (8, 1), w\<lparr>sim_events := sim_events w - 1\<rparr>)),
     clock_gettime = (\<lambda>w. (Some (0, 0), w)),
     calloc_private = (\<lambda>w. (True, w)), free_private = (\<lambda>w. w),
     mutex_init = (\<lambda>l w. (0, w)), mutex_destroy = (\<lambda>l w. w),
     mutex_lock = (\<lambda>l w. (0, w)), mutex_unlock = (\<lambda>l w. w),
     eventfd_create = (\<lambda>w. (Inr 4, w))\<rparr>"

definition sim_start :: "sg2002_rtos_shm_slot list \<Rightarrow> sg2002_rtos_shm_slot list \<Rightarrow> sim_world" where
  "sim_start ms ks = \<lparr>priv = \<lparr>pending_fd = 4, shared_memory_enabled = True,
     submit_batch_supported = 0, reap_batch_supported = 0, private_generation = 1, pending = ms\<rparr>,
     sim_events = length ms, sim_kernel = ks\<rparr>"

text \<open>A world that counts resources, with one descriptor number for the device and one for the
  event, and a driver that offers shared memory.\<close>

record res_world = client_world +
  res_held :: "resource set"

definition valid_info :: sg2002_rtos_shm_info where
  "valid_info = \<lparr>info_abi_version = 2, info_region_size = 0x21000, info_control_size = 0x1000,
     info_slot_size = 1024, info_slot_count = 64, info_payload_size = 1018, info_generation = 1,
     info_features = 1\<rparr>"

definition res_acquire :: "int \<Rightarrow> res_world \<Rightarrow> (int + int) \<times> res_world" where
  "res_acquire f w = (if Res_fd f \<in> res_held w then (Inl 24, w)
     else (Inr f, w\<lparr>res_held := insert (Res_fd f) (res_held w)\<rparr>))"

definition res_env :: "res_world linux_env" where
  "res_env = \<lparr>sys_open = res_acquire 3,
     sys_close = (\<lambda>f w. w\<lparr>res_held := res_held w - {Res_fd f}\<rparr>),
     ioctl_acquire = (\<lambda>f w. (Inr valid_info, w)),
     ioctl_send = (\<lambda>f t w. (Inl EAGAIN, w)), ioctl_receive = (\<lambda>f t w. (Inl EAGAIN, w)),
     ioctl_submit_batch = (\<lambda>f b ms w. (Inl ENOTTY, ms, w)),
     ioctl_reap_batch = (\<lambda>f b ms w. (Inl ENOTTY, ms, w)),
     ioctl_send_wait = (\<lambda>f c w. (Inl ETIMEDOUT, w)), sys_poll = (\<lambda>ds t w. (Inr (1, [1]), w)),
     event_write = (\<lambda>f v w. (Inr 8, w)), event_read = (\<lambda>f w. (Inl EAGAIN, w)),
     clock_gettime = (\<lambda>w. (Some (0, 0), w)),
     calloc_private = (\<lambda>w. (True, w\<lparr>res_held := insert Res_private (res_held w)\<rparr>)),
     free_private = (\<lambda>w. w\<lparr>res_held := res_held w - {Res_private}\<rparr>),
     mutex_init = (\<lambda>l w. if l = Rx_lock then (EAGAIN, w)
        else (0, w\<lparr>res_held := insert (Res_lock l) (res_held w)\<rparr>)),
     mutex_destroy = (\<lambda>l w. w\<lparr>res_held := res_held w - {Res_lock l}\<rparr>),
     mutex_lock = (\<lambda>l w. (0, w)), mutex_unlock = (\<lambda>l w. w), eventfd_create = res_acquire 4\<rparr>"

lemma res_env_ok: "resources_ok res_env res_held"
  by (auto simp: resources_ok_def res_env_def res_acquire_def split: sum.splits if_splits)

lemma sim_env_eventfd: "eventfd_ok sim_env sim_events"
  by (simp add: eventfd_ok_def sim_env_def)

lemma sim_start_inv: "length ms \<le> 64 \<Longrightarrow> pending_inv sim_events (sim_start ms ks)"
  by (simp add: pending_inv_def sim_start_def)

subsection \<open>Properties\<close>

text \<open>Retained responses are a bounded first-in first-out queue. For any sequence of
  retaining and taking, the responses retained at first and those accepted are the ones taken and
  those still retained, in order; there are never more than 64, and the event counter that wakes
  receivers always equals their number.\<close>

theorem retained_fifo:
  assumes "eventfd_ok env evc" "pending_inv evc w"
    and "fifo_run (retain_push env) (oldest_pop env) ops w = (acc, taken, w')"
  shows "pending (priv w) @ acc = taken @ pending (priv w') \<and> pending_inv evc w'"
proof -
  have "op_ok (\<lambda>_. True) x" for x :: "sg2002_rtos_shm_slot fifo_op" by (cases x) simp_all
  then have "list_all (op_ok (\<lambda>_. True)) ops" by (simp add: list_all_iff)
  with retained.run_conserves [of env evc w ops acc taken w'] assms show ?thesis by simp
qed

theorem retained_fifo_witness:
  "(case fifo_run (retain_push sim_env) (oldest_pop sim_env) [Push zero_slot, Pop] (sim_start [] []) of
     (acc, taken, w') \<Rightarrow> acc = taken @ pending (priv w'))"
  using retained_fifo [OF sim_env_eventfd sim_start_inv [of "[]" "[]"], where ops = "[Push zero_slot, Pop]"]
  by (auto simp: sim_start_def split: prod.splits)

text \<open>Taking a response by sequence removes exactly the oldest retained response with
  that sequence and keeps all others in order; when no retained response has it, nothing
  changes.\<close>

theorem take_by_sequence:
  assumes "eventfd_ok env evc" "pending_inv evc w"
  shows "if \<exists>m\<in>set (pending (priv w)). sequence m = seq
    then \<exists>before m after w'. take_pending_sequence env seq msg w = Some (1, m, w') \<and>
      sequence m = seq \<and> pending (priv w) = before @ m # after \<and> (\<forall>b\<in>set before. sequence b \<noteq> seq) \<and>
      pending (priv w') = before @ after \<and> pending_inv evc w'
    else take_pending_sequence env seq msg w = Some (0, msg, w)"
proof (cases "find (\<lambda>i. sequence (pending (priv w) ! i) = seq) [0..<length (pending (priv w))]")
  case None
  then show ?thesis
    using find_index_None [of "\<lambda>m. sequence m = seq" "pending (priv w)"]
    by (auto simp: take_pending_sequence_def)
next
  case (Some i)
  let ?ms = "pending (priv w)"
  have i: "i < length ?ms" "sequence (?ms ! i) = seq" "\<forall>j<i. sequence (?ms ! j) \<noteq> seq"
    using Some find_index_Some [of "\<lambda>m. sequence m = seq" ?ms i] by auto
  obtain w' where "remove_pending env i w = Some (0, w')"
    "pending (priv w') = take i ?ms @ drop (i + 1) ?ms" "pending_inv evc w'"
    using remove_pending_ok [OF assms i(1)] by blast
  moreover have "?ms = take i ?ms @ ?ms ! i # drop (i + 1) ?ms" using i(1) by (simp add: id_take_nth_drop)
  moreover have "\<forall>b\<in>set (take i ?ms). sequence b \<noteq> seq" using i by (auto simp: in_set_conv_nth)
  ultimately have "take_pending_sequence env seq msg w = Some (1, ?ms ! i, w') \<and>
      sequence (?ms ! i) = seq \<and> ?ms = take i ?ms @ ?ms ! i # drop (i + 1) ?ms \<and>
      (\<forall>b\<in>set (take i ?ms). sequence b \<noteq> seq) \<and>
      pending (priv w') = take i ?ms @ drop (i + 1) ?ms \<and> pending_inv evc w'"
    using Some i(2) by (simp add: take_pending_sequence_def Let_def)
  moreover have "\<exists>m\<in>set ?ms. sequence m = seq" using i by (metis nth_mem)
  ultimately show ?thesis by (simp only: if_True) blast
qed

theorem take_by_sequence_witness:
  "take_pending_sequence sim_env 9 zero_slot (sim_start [zero_slot] []) = Some (0, zero_slot, sim_start [zero_slot] [])"
  using take_by_sequence [OF sim_env_eventfd sim_start_inv [of "[zero_slot]" "[]"],
      where seq = 9 and msg = zero_slot]
  by (simp add: sim_start_def zero_slot_def)

text \<open>Delivering a message respects the caller's buffer. A message that fits is copied
  byte for byte and nothing behind it is written; one that does not fit leaves the buffer as it is,
  with the error EMSGSIZE; in both cases length and sequence are reported. No access is out of
  range.\<close>

theorem copy_message_exact:
  assumes "slot_wf msg" "slot_length msg \<le> SG2002_RTOS_SHM_PAYLOAD_SIZE" "unat capacity \<le> length buf"
  shows "copy_message msg (Some buf) capacity seq =
    Some (if slot_length msg \<le> capacity
      then (0, Some (take (unat (slot_length msg)) (payload msg) @ drop (unat (slot_length msg)) buf),
            slot_length msg, map_option (\<lambda>_. sequence msg) seq)
      else (- EMSGSIZE, Some buf, slot_length msg, map_option (\<lambda>_. sequence msg) seq))"
proof -
  have n: "unat (slot_length msg) \<le> length (payload msg)"
    using assms(1,2) by (simp add: slot_wf_def word_le_nat_alt)
  moreover have "slot_length msg \<le> capacity \<Longrightarrow> unat (slot_length msg) \<le> length buf"
    using assms(3) by (simp add: word_le_nat_alt)
  moreover have "\<not> slot_length msg > 0 \<Longrightarrow> unat (slot_length msg) = 0"
    by (simp add: word_less_nat_alt)
  ultimately show ?thesis
    by (auto simp: copy_message_def Let_def read_bytes_def write_bytes_def not_less)
qed

theorem copy_message_exact_witness:
  "copy_message (zero_slot\<lparr>slot_length := 4\<rparr>) (Some [1, 2, 3]) 3 None = Some (- EMSGSIZE, Some [1, 2, 3], 4, None)"
  using copy_message_exact [of "zero_slot\<lparr>slot_length := 4\<rparr>" 3 "[1, 2, 3]" None]
  by (simp add: slot_wf_def zero_slot_def)

text \<open>A finite timeout stays finite. When time remains before the deadline, the
  remaining time is positive, is not the value that means waiting forever, and does not exceed the
  distance to the deadline; the argument handed to \<^verbatim>\<open>poll\<close> is then positive and fits its type.\<close>

theorem remaining_time_bounds:
  assumes "timeout_ms \<noteq> UINT32_MAX" "monotonic_milliseconds env w = (now, w1)"
    and "update_remaining env timeout_ms deadline remaining w = (0, remaining', w')"
  shows "now < deadline \<and> 0 < remaining' \<and> remaining' \<noteq> UINT32_MAX \<and>
    unat remaining' \<le> unat deadline - unat now \<and>
    0 < poll_timeout remaining' \<and> poll_timeout remaining' \<le> 0x7fffffff"
proof -
  have lt: "now < deadline" and r: "remaining' = remaining_of (deadline - now)"
    using assms by (auto simp: update_remaining_def split: if_splits)
  have d: "unat (deadline - now) = unat deadline - unat now"
    using lt by (intro unat_sub) simp
  have "unat now < unat deadline" using lt by (simp add: word_less_nat_alt)
  then have "0 < unat (deadline - now)" using d by linarith
  then have "0 < deadline - now" by (simp add: word_less_nat_alt)
  note b = remaining_of_bounds [OF this] and p = poll_timeout_bounds [OF remaining_of_bounds(1,2) [OF this]]
  have "remaining' \<noteq> UINT32_MAX" using b(2) by (auto simp: r)
  moreover have "0 < remaining'" using b(1) by (simp only: r word_less_nat_alt unat_0)
  ultimately show ?thesis using lt b(3) p by (simp only: r d) simp
qed

theorem remaining_time_bounds_witness:
  "fst (snd (update_remaining sim_env 50 5000000000 0 (sim_start [] []))) \<noteq> UINT32_MAX"
proof -
  have "monotonic_milliseconds sim_env (sim_start [] []) = (0, sim_start [] [])"
    by (simp add: monotonic_milliseconds_def sim_env_def)
  moreover from this have "update_remaining sim_env 50 5000000000 0 (sim_start [] []) =
      (0, 0xfffffffe, sim_start [] [])"
    by (simp add: update_remaining_def remaining_of_def)
  ultimately show ?thesis
    using remaining_time_bounds [of 50 sim_env "sim_start [] []" 0 _ 5000000000 0 "0xfffffffe"] by simp
qed

text \<open>Property C37: opening a handle leaks nothing. Whatever call fails while a handle is opened, the
  handle is left as it was and every descriptor, allocation and mutex acquired on the way has been
  released; after a successful open, in the shared-memory mode and in the compatibility mode,
  closing the handle releases everything and marks it closed.\<close>

theorem open_close_resources:
  assumes "resources_ok env held"
    and "held w \<inter> {Res_private, Res_lock Tx_lock, Res_lock Rx_lock} = {}"
    and "sg2002_rtos_open env (Some r) w = (ret, r', w')"
  shows "r' = Some r \<and> held w' = held w \<or>
    (\<exists>s. ret = 0 \<and> r' = Some s \<and> fd s \<ge> 0 \<and> held (snd (sg2002_rtos_close env (Some s) w')) = held w \<and>
      fst (sg2002_rtos_close env (Some s) w') = Some \<lparr>fd = -1, private_data = False\<rparr>)"
proof (cases "fd r \<ge> 0")
  case True
  then show ?thesis using assms(3) by (simp add: sg2002_rtos_open_def)
next
  case closed: False
  note rules = resources_rules [OF assms(1)]
  obtain res w1 where o: "sys_open env w = (res, w1)" by fastforce
  show ?thesis
  proof (cases res)
    case (Inl e)
    then show ?thesis using assms(3) closed o rules(2) [of w e w1] by (simp add: sg2002_rtos_open_def)
  next
    case (Inr f)
    note f = rules(3) [OF o [unfolded Inr]]
    obtain acq w2 where a: "ioctl_acquire env f w1 = (acq, w2)" by fastforce
    have h2: "held w2 = insert (Res_fd f) (held w)" using rules(6) [OF a] f by simp
    show ?thesis
    proof (cases "\<exists>info. acq = Inr info \<and> info_is_valid info")
      case False
      then show ?thesis
        using assms(3) closed o Inr a f h2
          close_releases [OF assms(1), of "r\<lparr>fd := f, private_data := False\<rparr>" w2 "held w"]
        by (cases acq) (auto simp: sg2002_rtos_open_def rules(11) split: if_splits)
    next
      case True
      then obtain info where "acq = Inr info" "info_is_valid info" by blast
      then have "open_private env f (info_generation info) r w2 = (ret, r', w')"
        using assms(3) closed o Inr a by (simp add: sg2002_rtos_open_def)
      then show ?thesis using open_private_resources [OF assms(1) h2] f assms(2) by blast
    qed
  qed
qed

theorem open_close_resources_witness:
  "(case sg2002_rtos_open res_env (Some \<lparr>fd = -1, private_data = False\<rparr>)
      \<lparr>priv = priv (sim_start [] []), res_held = {}\<rparr> of (ret, r', w') \<Rightarrow> ret = - EAGAIN \<and> res_held w' = {})"
proof -
  let ?r = "\<lparr>fd = -1, private_data = False\<rparr>" and ?w = "\<lparr>priv = priv (sim_start [] []), res_held = {}\<rparr> :: res_world"
  obtain ret r' w' where o: "sg2002_rtos_open res_env (Some ?r) ?w = (ret, r', w')" by (metis surj_pair)
  then have "ret = - EAGAIN" "r' = Some ?r"
    by (simp_all add: sg2002_rtos_open_def res_env_def res_acquire_def open_private_def valid_info_def info_is_valid_def)
  with open_close_resources [OF res_env_ok _ o] show ?thesis by (simp add: o)
qed

end
