(* ===== verification/Linux_Messages.thy ===== *)
theory Linux_Messages
  imports Linux_Client
begin

section \<open>The Linux client library: messages and calls\<close>

text \<open>
  The second part of \<^verbatim>\<open>linux/src/sg2002_rtos.c\<close>: waiting for readiness, sending and receiving one
  message, batches with the fallback for kernels without the batch calls, synchronous calls that
  match the sequence of their request, and the typed wrappers. The result \<^const>\<open>None\<close> means that
  the call does not return or would access a caller's buffer out of range; the cells a caller
  passes by address are returned with their new contents.
\<close>

subsection \<open>Waiting\<close>

abbreviation POLLIN :: "16 word" where "POLLIN \<equiv> 1"
abbreviation POLLOUT :: "16 word" where "POLLOUT \<equiv> 4"
abbreviation POLLERR :: "16 word" where "POLLERR \<equiv> 8"
abbreviation POLLHUP :: "16 word" where "POLLHUP \<equiv> 0x10"
abbreviation POLLNVAL :: "16 word" where "POLLNVAL \<equiv> 0x20"

definition revents_at :: "16 word list \<Rightarrow> nat \<Rightarrow> 16 word" where
  "revents_at rs i = (if i < length rs then rs ! i else 0)"

partial_function (option) wait_loop ::
  "'w linux_env \<Rightarrow> (int \<times> 16 word) list \<Rightarrow> u32 \<Rightarrow> u64 \<Rightarrow> u32 \<Rightarrow> 'w \<Rightarrow>
    ((int + int \<times> 16 word list) \<times> 'w) option" where
  "wait_loop env descriptors timeout_ms deadline remaining w =
     (case sys_poll env descriptors (poll_timeout remaining) w of (r, w) \<Rightarrow>
       (case r of
          Inl e \<Rightarrow> Some (Inl e, w)
        | Inr (ret, rs) \<Rightarrow>
            if ret \<noteq> 0 \<or> timeout_ms = UINT32_MAX then Some (Inr (ret, rs), w)
            else (case monotonic_milliseconds env w of (now, w) \<Rightarrow>
              if now \<ge> deadline then Some (Inr (ret, rs), w)
              else wait_loop env descriptors timeout_ms deadline (remaining_of (deadline - now)) w)))"

definition sg2002_rtos_wait ::
  "'x client_world_scheme linux_env \<Rightarrow> sg2002_rtos option \<Rightarrow> 16 word \<Rightarrow> 16 word option \<Rightarrow> u32 \<Rightarrow>
    'x client_world_scheme \<Rightarrow> (int \<times> 16 word option \<times> 'x client_world_scheme) option" where
  "sg2002_rtos_wait env rtos events revents timeout_ms w =
     (let revents = map_option (\<lambda>_. 0) revents in
      case rtos of
        None \<Rightarrow> Some (- EOPNOTSUPP, revents, w)
      | Some r \<Rightarrow>
        if \<not> sg2002_rtos_shared_memory_available rtos w then Some (- EOPNOTSUPP, revents, w)
        else if revents = None \<or> events = 0 \<or> events AND NOT (POLLIN OR POLLOUT) \<noteq> 0
        then Some (- EINVAL, revents, w)
        else
          let descriptors = (fd r, events) #
                (if events AND POLLIN \<noteq> 0 then [(pending_fd (priv w), POLLIN)] else []);
              (deadline, w) = (if timeout_ms \<noteq> UINT32_MAX
                then (let (now, w) = monotonic_milliseconds env w in (now + ucast timeout_ms, w))
                else (0, w))
          in do {
            (res, w) \<leftarrow> wait_loop env descriptors timeout_ms deadline timeout_ms w;
            (case res of
               Inl e \<Rightarrow> Some (- e, revents, w)
             | Inr (ret, rs) \<Rightarrow>
                 if ret = 0 then Some (0, revents, w)
                 else let rev = revents_at rs 0;
                          rev = (if length descriptors = 2 \<and> revents_at rs 1 AND POLLIN \<noteq> 0
                                 then rev OR POLLIN else rev);
                          rev = (if length descriptors = 2 \<and>
                                    revents_at rs 1 AND (POLLERR OR POLLHUP OR POLLNVAL) \<noteq> 0
                                 then rev OR POLLERR else rev)
                      in Some (if rev \<noteq> 0 then 1 else 0, Some rev, w))
          })"

definition wait_for_events ::
  "'x client_world_scheme linux_env \<Rightarrow> sg2002_rtos option \<Rightarrow> 16 word \<Rightarrow> u32 \<Rightarrow> u64 \<Rightarrow> u32 \<Rightarrow>
    'x client_world_scheme \<Rightarrow> (int \<times> u32 \<times> 'x client_world_scheme) option" where
  "wait_for_events env rtos events timeout_ms deadline remaining w =
     (if timeout_ms = 0 then Some (- EAGAIN, remaining, w)
      else let (ret, remaining, w) = update_remaining env timeout_ms deadline remaining w
           in if ret \<noteq> 0 then Some (ret, remaining, w)
              else do {
                (ret, _, w) \<leftarrow> sg2002_rtos_wait env rtos events (Some 0) remaining w;
                Some (if ret < 0 then ret else if ret = 0 then - ETIMEDOUT else 0, remaining, w)
              })"

partial_function (option) wait_for_kernel_loop ::
  "'w linux_env \<Rightarrow> int \<Rightarrow> 16 word \<Rightarrow> u32 \<Rightarrow> u64 \<Rightarrow> u32 \<Rightarrow> 'w \<Rightarrow> (int \<times> u32 \<times> 'w) option" where
  "wait_for_kernel_loop env f events timeout_ms deadline remaining w =
     (case update_remaining env timeout_ms deadline remaining w of (ret, remaining, w) \<Rightarrow>
       if ret \<noteq> 0 then Some (ret, remaining, w)
       else (case sys_poll env [(f, events)] (poll_timeout remaining) w of (r, w) \<Rightarrow>
         (case r of
            Inl e \<Rightarrow> Some (- e, remaining, w)
          | Inr (ret, rs) \<Rightarrow>
              if ret > 0 then Some (0, remaining, w)
              else wait_for_kernel_loop env f events timeout_ms deadline remaining w)))"

definition wait_for_kernel_events ::
  "'w linux_env \<Rightarrow> sg2002_rtos \<Rightarrow> 16 word \<Rightarrow> u32 \<Rightarrow> u64 \<Rightarrow> u32 \<Rightarrow> 'w \<Rightarrow> (int \<times> u32 \<times> 'w) option" where
  "wait_for_kernel_events env r events timeout_ms deadline remaining w =
     (if timeout_ms = 0 then Some (- EAGAIN, remaining, w)
      else wait_for_kernel_loop env (fd r) events timeout_ms deadline remaining w)"

subsection \<open>One message\<close>

definition message_send_locked ::
  "'w linux_env \<Rightarrow> sg2002_rtos \<Rightarrow> bytes option \<Rightarrow> u16 \<Rightarrow> u32 \<Rightarrow> u32 option \<Rightarrow> 'w \<Rightarrow>
    (int \<times> u32 option \<times> 'w) option" where
  "message_send_locked env r request request_length timeout_ms seq w =
     (if request_length > SG2002_RTOS_SHM_PAYLOAD_SIZE \<or> (request_length > 0 \<and> request = None) \<or>
         seq = None
      then Some (- EINVAL, seq, w)
      else do {
        let buf = replicate SG2002_RTOS_SHM_PAYLOAD_SIZE 0;
        buf \<leftarrow> (if request_length > 0 then do {
                   req \<leftarrow> request;
                   bs \<leftarrow> read_bytes req 0 (unat request_length);
                   write_bytes buf 0 bs
                 } else Some buf);
        let transfer = \<lparr>transfer_timeout_ms = timeout_ms,
              message = \<lparr>sequence = 0, slot_length = request_length, payload = buf\<rparr>\<rparr>;
        (case ioctl_send env (fd r) transfer w of
           (Inl e, w) \<Rightarrow> Some (- e, seq, w)
         | (Inr transfer, w) \<Rightarrow>
             if sequence (message transfer) = 0 then Some (- EPROTO, seq, w)
             else Some (0, Some (sequence (message transfer)), w))
      })"

definition receive_from_kernel_locked ::
  "'w linux_env \<Rightarrow> sg2002_rtos \<Rightarrow> sg2002_rtos_shm_slot \<Rightarrow> u32 \<Rightarrow> 'w \<Rightarrow>
    int \<times> sg2002_rtos_shm_slot \<times> 'w" where
  "receive_from_kernel_locked env r msg timeout_ms w =
     (case ioctl_receive env (fd r) \<lparr>transfer_timeout_ms = timeout_ms, message = zero_slot\<rparr> w of
        (Inl e, w) \<Rightarrow> (- e, msg, w)
      | (Inr transfer, w) \<Rightarrow>
          if sequence (message transfer) = 0 \<or>
             slot_length (message transfer) > SG2002_RTOS_SHM_PAYLOAD_SIZE
          then (- EPROTO, msg, w) else (0, message transfer, w))"

abbreviation retryable :: "int \<Rightarrow> bool" where
  "retryable ret \<equiv> ret = - EAGAIN \<or> ret = - ETIMEDOUT"

partial_function (option) message_send_loop ::
  "'x client_world_scheme linux_env \<Rightarrow> sg2002_rtos \<Rightarrow> bytes option \<Rightarrow> u16 \<Rightarrow> u32 \<Rightarrow> u64 \<Rightarrow> u32 \<Rightarrow>
    u32 option \<Rightarrow> 'x client_world_scheme \<Rightarrow> (int \<times> u32 option \<times> 'x client_world_scheme) option" where
  "message_send_loop env r request request_length timeout_ms deadline remaining seq w =
     (case mutex_lock env Tx_lock w of (ret, w) \<Rightarrow>
       if ret \<noteq> 0 then Some (- ret, seq, w)
       else do {
         (ret, seq, w) \<leftarrow> message_send_locked env r request request_length 0 seq w;
         let w = mutex_unlock env Tx_lock w;
         if \<not> retryable ret then Some (ret, seq, w)
         else do {
           (ret, remaining, w) \<leftarrow> wait_for_events env (Some r) POLLOUT timeout_ms deadline remaining w;
           if ret \<noteq> 0 then Some (ret, seq, w)
           else message_send_loop env r request request_length timeout_ms deadline remaining seq w
         }
       })"

definition sg2002_rtos_message_send ::
  "'x client_world_scheme linux_env \<Rightarrow> sg2002_rtos option \<Rightarrow> bytes option \<Rightarrow> u16 \<Rightarrow> u32 \<Rightarrow>
    u32 option \<Rightarrow> 'x client_world_scheme \<Rightarrow> (int \<times> u32 option \<times> 'x client_world_scheme) option" where
  "sg2002_rtos_message_send env rtos request request_length timeout_ms seq w =
     (let (deadline, w) = timeout_deadline env timeout_ms w in
      case rtos of None \<Rightarrow> Some (- EOPNOTSUPP, seq, w)
      | Some r \<Rightarrow> if \<not> sg2002_rtos_shared_memory_available rtos w then Some (- EOPNOTSUPP, seq, w)
          else message_send_loop env r request request_length timeout_ms deadline timeout_ms seq w)"

text \<open>The caller's cells of a receiving call: buffer, length and sequence.\<close>

record receive_cells =
  cell_response :: "bytes option"
  cell_length :: u16
  cell_sequence :: "u32 option"

definition copy_to_cells ::
  "sg2002_rtos_shm_slot \<Rightarrow> u16 \<Rightarrow> receive_cells \<Rightarrow> (int \<times> receive_cells) option" where
  "copy_to_cells msg response_capacity cells = do {
     (ret, response, len, seq) \<leftarrow>
       copy_message msg (cell_response cells) response_capacity (cell_sequence cells);
     Some (ret, \<lparr>cell_response = response, cell_length = len, cell_sequence = seq\<rparr>)
   }"

text \<open>The section of \<^verbatim>\<open>sg2002_rtos_message_receive\<close> between taking and releasing the lock.\<close>

definition receive_section ::
  "'x client_world_scheme linux_env \<Rightarrow> sg2002_rtos \<Rightarrow> u16 \<Rightarrow> receive_cells \<Rightarrow> sg2002_rtos_shm_slot \<Rightarrow>
    'x client_world_scheme \<Rightarrow>
    (int \<times> receive_cells \<times> sg2002_rtos_shm_slot \<times> 'x client_world_scheme) option" where
  "receive_section env r response_capacity cells msg w =
     (let from_pending = (pending (priv w) \<noteq> []);
          (ret, msg, w) = (if from_pending then (0, hd (pending (priv w)), w)
                           else receive_from_kernel_locked env r msg 0 w)
      in if ret \<noteq> 0 then Some (ret, cells, msg, w)
         else do {
           (ret, cells) \<leftarrow> copy_to_cells msg response_capacity cells;
           if from_pending \<and> ret \<noteq> - EMSGSIZE then do {
             (remove_result, w) \<leftarrow> remove_pending env 0 w;
             Some (if remove_result \<noteq> 0 then remove_result else ret, cells, msg, w)
           } else if \<not> from_pending \<and> ret = - EMSGSIZE then do {
             (retain_result, w) \<leftarrow> retain_pending env msg w;
             Some (if retain_result \<noteq> 0 then retain_result else ret, cells, msg, w)
           } else Some (ret, cells, msg, w)
         })"

partial_function (option) message_receive_loop ::
  "'x client_world_scheme linux_env \<Rightarrow> sg2002_rtos \<Rightarrow> u16 \<Rightarrow> u32 \<Rightarrow> u64 \<Rightarrow> u32 \<Rightarrow> receive_cells \<Rightarrow>
    sg2002_rtos_shm_slot \<Rightarrow> 'x client_world_scheme \<Rightarrow>
    (int \<times> receive_cells \<times> 'x client_world_scheme) option" where
  "message_receive_loop env r response_capacity timeout_ms deadline remaining cells msg w =
     (case mutex_lock env Rx_lock w of (ret, w) \<Rightarrow>
       if ret \<noteq> 0 then Some (- ret, cells, w)
       else do {
         (ret, cells, msg, w) \<leftarrow> receive_section env r response_capacity cells msg w;
         let w = mutex_unlock env Rx_lock w;
         if \<not> retryable ret then Some (ret, cells, w)
         else do {
           (ret, remaining, w) \<leftarrow> wait_for_events env (Some r) POLLIN timeout_ms deadline remaining w;
           if ret \<noteq> 0 then Some (ret, cells, w)
           else message_receive_loop env r response_capacity timeout_ms deadline remaining cells msg w
         }
       })"

text \<open>The length pointer may be null; the other cells are passed as they are.\<close>

definition sg2002_rtos_message_receive ::
  "'x client_world_scheme linux_env \<Rightarrow> sg2002_rtos option \<Rightarrow> bytes option \<Rightarrow> u16 \<Rightarrow> u16 option \<Rightarrow>
    u32 option \<Rightarrow> u32 \<Rightarrow> 'x client_world_scheme \<Rightarrow>
    (int \<times> receive_cells option \<times> 'x client_world_scheme) option" where
  "sg2002_rtos_message_receive env rtos response response_capacity response_length seq timeout_ms w =
     (let (deadline, w) = timeout_deadline env timeout_ms w in
      case rtos of None \<Rightarrow> Some (- EOPNOTSUPP, None, w)
      | Some r \<Rightarrow> if \<not> sg2002_rtos_shared_memory_available rtos w then Some (- EOPNOTSUPP, None, w)
          else (case response_length of None \<Rightarrow> Some (- EINVAL, None, w)
          | Some len \<Rightarrow> if response_capacity > 0 \<and> response = None then Some (- EINVAL, None, w)
              else do {
                (ret, cells, w) \<leftarrow> message_receive_loop env r response_capacity timeout_ms deadline
                   timeout_ms \<lparr>cell_response = response, cell_length = len, cell_sequence = seq\<rparr> zero_slot w;
                Some (ret, Some cells, w)
              }))"

subsection \<open>Batches\<close>

text \<open>The caller's array is the list \<open>messages\<close>; \<open>completed\<close> is the caller's counter cell. The
  fallback loops send and receive message by message: \<open>index\<close> messages are done and \<open>n\<close> remain.\<close>

fun submit_single ::
  "'w linux_env \<Rightarrow> sg2002_rtos \<Rightarrow> u32 \<Rightarrow> nat \<Rightarrow> nat \<Rightarrow> sg2002_rtos_shm_slot list \<Rightarrow> 'w \<Rightarrow>
    (int \<times> nat \<times> sg2002_rtos_shm_slot list \<times> 'w) option" where
  "submit_single env r timeout_ms index 0 messages w =
     Some (if index > 0 then 0 else - EAGAIN, index, messages, w)"
| "submit_single env r timeout_ms index (Suc n) messages w = do {
     let m = messages ! index;
     (ret, seq, w) \<leftarrow> message_send_locked env r (Some (payload m)) (slot_length m)
        (if index = 0 then timeout_ms else 0) (Some 0) w;
     if ret \<noteq> 0 then
       if index > 0 \<and> retryable ret then Some (0, index, messages, w)
       else Some (ret, index, messages, w)
     else do {
       sequence' \<leftarrow> seq;
       submit_single env r timeout_ms (index + 1) n
         (messages[index := m\<lparr>sequence := sequence'\<rparr>]) w
     }
   }"

definition batch_request :: "u32 \<Rightarrow> u16 \<Rightarrow> 'x client_world_scheme \<Rightarrow> sg2002_rtos_shm_batch" where
  "batch_request timeout_ms count w = \<lparr>batch_timeout_ms = timeout_ms,
     batch_generation = private_generation (priv w), batch_count = count, batch_completed = 0\<rparr>"

definition submit_fallback ::
  "'w linux_env \<Rightarrow> sg2002_rtos \<Rightarrow> sg2002_rtos_shm_slot list \<Rightarrow> u16 \<Rightarrow> u32 \<Rightarrow> 'w \<Rightarrow>
    (int \<times> u16 \<times> sg2002_rtos_shm_slot list \<times> 'w) option" where
  "submit_fallback env r messages count timeout_ms w = do {
     (ret, index, messages, w) \<leftarrow> submit_single env r timeout_ms 0 (unat count) messages w;
     Some (ret, of_nat index, messages, w)
   }"

definition submit_batch_locked ::
  "'x client_world_scheme linux_env \<Rightarrow> sg2002_rtos \<Rightarrow> sg2002_rtos_shm_slot list \<Rightarrow> u16 \<Rightarrow> u16 \<Rightarrow> u32 \<Rightarrow>
    'x client_world_scheme \<Rightarrow>
    (int \<times> u16 \<times> sg2002_rtos_shm_slot list \<times> 'x client_world_scheme) option" where
  "submit_batch_locked env r messages count completed timeout_ms w =
     (if submit_batch_supported (priv w) \<noteq> SG2002_RTOS_BATCH_UNSUPPORTED then
       (case ioctl_submit_batch env (fd r) (batch_request timeout_ms count w) messages w of
          (Inr batch, messages, w) \<Rightarrow>
            if batch_completed batch = 0 \<or> batch_completed batch > count
            then Some (- EPROTO, completed, messages, w)
            else if \<exists>m\<in>set (take (unat (batch_completed batch)) messages). sequence m = 0
            then Some (- EPROTO, completed, messages, w)
            else Some (0, batch_completed batch, messages,
              w\<lparr>priv := (priv w)\<lparr>submit_batch_supported := SG2002_RTOS_BATCH_SUPPORTED\<rparr>\<rparr>)
        | (Inl e, messages, w) \<Rightarrow>
            if e \<noteq> ENOTTY then Some (- e, completed, messages,
              w\<lparr>priv := (priv w)\<lparr>submit_batch_supported := SG2002_RTOS_BATCH_SUPPORTED\<rparr>\<rparr>)
            else submit_fallback env r messages count timeout_ms
              (w\<lparr>priv := (priv w)\<lparr>submit_batch_supported := SG2002_RTOS_BATCH_UNSUPPORTED\<rparr>\<rparr>))
      else submit_fallback env r messages count timeout_ms w)"

partial_function (option) submit_batch_loop ::
  "'x client_world_scheme linux_env \<Rightarrow> sg2002_rtos \<Rightarrow> sg2002_rtos_shm_slot list \<Rightarrow> u16 \<Rightarrow> u16 \<Rightarrow> u32 \<Rightarrow> u64 \<Rightarrow>
    u32 \<Rightarrow> 'x client_world_scheme \<Rightarrow>
    (int \<times> u16 \<times> sg2002_rtos_shm_slot list \<times> 'x client_world_scheme) option" where
  "submit_batch_loop env r messages count completed timeout_ms deadline remaining w =
     (case mutex_lock env Tx_lock w of (ret, w) \<Rightarrow>
       if ret \<noteq> 0 then Some (- ret, completed, messages, w)
       else do {
         (ret, completed, messages, w) \<leftarrow> submit_batch_locked env r messages count 0 0 w;
         let w = mutex_unlock env Tx_lock w;
         if \<not> retryable ret then Some (ret, completed, messages, w)
         else do {
           (ret, remaining, w) \<leftarrow> wait_for_events env (Some r) POLLOUT timeout_ms deadline remaining w;
           if ret \<noteq> 0 then Some (ret, completed, messages, w)
           else submit_batch_loop env r messages count completed timeout_ms deadline remaining w
         }
       })"

definition sg2002_rtos_message_submit_batch ::
  "'x client_world_scheme linux_env \<Rightarrow> sg2002_rtos option \<Rightarrow> sg2002_rtos_shm_slot list option \<Rightarrow> u16 \<Rightarrow>
    u16 option \<Rightarrow> u32 \<Rightarrow> 'x client_world_scheme \<Rightarrow>
    (int \<times> u16 option \<times> sg2002_rtos_shm_slot list option \<times> 'x client_world_scheme) option" where
  "sg2002_rtos_message_submit_batch env rtos messages count completed timeout_ms w =
     (let (deadline, w) = timeout_deadline env timeout_ms w;
          completed = map_option (\<lambda>_. 0) completed
      in case rtos of None \<Rightarrow> Some (- EOPNOTSUPP, completed, messages, w)
      | Some r \<Rightarrow>
        if \<not> sg2002_rtos_shared_memory_available rtos w
        then Some (- EOPNOTSUPP, completed, messages, w)
        else (case (messages, completed) of
            (Some ms, Some c) \<Rightarrow>
              if count = 0 \<or> count > SG2002_RTOS_SHM_SLOT_COUNT
              then Some (- EINVAL, completed, messages, w)
              else if \<exists>m\<in>set (take (unat count) ms). slot_length m > SG2002_RTOS_SHM_PAYLOAD_SIZE
              then Some (- EMSGSIZE, completed, messages, w)
              else do {
                (ret, c, ms, w) \<leftarrow> submit_batch_loop env r ms count c timeout_ms deadline timeout_ms w;
                Some (ret, Some c, Some ms, w)
              }
          | _ \<Rightarrow> Some (- EINVAL, completed, messages, w)))"

fun reap_single ::
  "'w linux_env \<Rightarrow> sg2002_rtos \<Rightarrow> u32 \<Rightarrow> nat \<Rightarrow> nat \<Rightarrow> sg2002_rtos_shm_slot list \<Rightarrow> 'w \<Rightarrow>
    int \<times> nat \<times> sg2002_rtos_shm_slot list \<times> 'w" where
  "reap_single env r timeout_ms index 0 messages w =
     (if index > 0 then 0 else - EAGAIN, index, messages, w)"
| "reap_single env r timeout_ms index (Suc n) messages w =
     (case receive_from_kernel_locked env r (messages ! index) (if index = 0 then timeout_ms else 0) w of
        (ret, m, w) \<Rightarrow>
          let messages = messages[index := m]
          in if ret \<noteq> 0 then
               if index > 0 \<and> retryable ret then (0, index, messages, w) else (ret, index, messages, w)
             else reap_single env r timeout_ms (index + 1) n messages w)"

text \<open>The loop that hands over retained responses first.\<close>

fun reap_pending ::
  "'x client_world_scheme linux_env \<Rightarrow> nat \<Rightarrow> nat \<Rightarrow> sg2002_rtos_shm_slot list \<Rightarrow> 'x client_world_scheme \<Rightarrow>
    (int \<times> nat \<times> sg2002_rtos_shm_slot list \<times> 'x client_world_scheme) option" where
  "reap_pending env index 0 messages w = Some (0, index, messages, w)"
| "reap_pending env index (Suc n) messages w = do {
     (ret, m, w) \<leftarrow> take_pending_oldest env (messages ! index) w;
     let messages = messages[index := m];
     if ret < 0 then Some (ret, index, messages, w)
     else if ret = 0 then Some (0, index, messages, w)
     else reap_pending env (index + 1) n messages w
   }"

definition reap_batch_locked ::
  "'x client_world_scheme linux_env \<Rightarrow> sg2002_rtos \<Rightarrow> sg2002_rtos_shm_slot list \<Rightarrow> u16 \<Rightarrow> u16 \<Rightarrow> u32 \<Rightarrow>
    'x client_world_scheme \<Rightarrow>
    (int \<times> u16 \<times> sg2002_rtos_shm_slot list \<times> 'x client_world_scheme) option" where
  "reap_batch_locked env r messages count completed timeout_ms w = do {
     (ret, index, messages, w) \<leftarrow> reap_pending env 0 (unat count) messages w;
     let fallback = (\<lambda>messages w. case reap_single env r timeout_ms 0 (unat count) messages w of
            (ret, index, messages, w) \<Rightarrow> Some (ret, of_nat index, messages, w));
     if ret < 0 then Some (ret, completed, messages, w)
     else if index > 0 then Some (0, of_nat index, messages, w)
     else if reap_batch_supported (priv w) \<noteq> SG2002_RTOS_BATCH_UNSUPPORTED then
       (case ioctl_reap_batch env (fd r) (batch_request timeout_ms count w) messages w of
          (Inr batch, messages, w) \<Rightarrow>
            if batch_completed batch = 0 \<or> batch_completed batch > count
            then Some (- EPROTO, completed, messages, w)
            else if \<exists>m\<in>set (take (unat (batch_completed batch)) messages).
                      sequence m = 0 \<or> slot_length m > SG2002_RTOS_SHM_PAYLOAD_SIZE
            then Some (- EPROTO, completed, messages, w)
            else Some (0, batch_completed batch, messages,
              w\<lparr>priv := (priv w)\<lparr>reap_batch_supported := SG2002_RTOS_BATCH_SUPPORTED\<rparr>\<rparr>)
        | (Inl e, messages, w) \<Rightarrow>
            if e \<noteq> ENOTTY then Some (- e, completed, messages,
              w\<lparr>priv := (priv w)\<lparr>reap_batch_supported := SG2002_RTOS_BATCH_SUPPORTED\<rparr>\<rparr>)
            else fallback messages
              (w\<lparr>priv := (priv w)\<lparr>reap_batch_supported := SG2002_RTOS_BATCH_UNSUPPORTED\<rparr>\<rparr>))
     else fallback messages w
   }"

partial_function (option) reap_batch_loop ::
  "'x client_world_scheme linux_env \<Rightarrow> sg2002_rtos \<Rightarrow> sg2002_rtos_shm_slot list \<Rightarrow> u16 \<Rightarrow> u16 \<Rightarrow> u32 \<Rightarrow> u64 \<Rightarrow>
    u32 \<Rightarrow> 'x client_world_scheme \<Rightarrow>
    (int \<times> u16 \<times> sg2002_rtos_shm_slot list \<times> 'x client_world_scheme) option" where
  "reap_batch_loop env r messages count completed timeout_ms deadline remaining w =
     (case mutex_lock env Rx_lock w of (ret, w) \<Rightarrow>
       if ret \<noteq> 0 then Some (- ret, completed, messages, w)
       else do {
         (ret, completed, messages, w) \<leftarrow> reap_batch_locked env r messages count 0 0 w;
         let w = mutex_unlock env Rx_lock w;
         if \<not> retryable ret then Some (ret, completed, messages, w)
         else do {
           (ret, remaining, w) \<leftarrow> wait_for_events env (Some r) POLLIN timeout_ms deadline remaining w;
           if ret \<noteq> 0 then Some (ret, completed, messages, w)
           else reap_batch_loop env r messages count completed timeout_ms deadline remaining w
         }
       })"

definition sg2002_rtos_message_reap_batch ::
  "'x client_world_scheme linux_env \<Rightarrow> sg2002_rtos option \<Rightarrow> sg2002_rtos_shm_slot list option \<Rightarrow> u16 \<Rightarrow>
    u16 option \<Rightarrow> u32 \<Rightarrow> 'x client_world_scheme \<Rightarrow>
    (int \<times> u16 option \<times> sg2002_rtos_shm_slot list option \<times> 'x client_world_scheme) option" where
  "sg2002_rtos_message_reap_batch env rtos messages count completed timeout_ms w =
     (let (deadline, w) = timeout_deadline env timeout_ms w;
          completed = map_option (\<lambda>_. 0) completed
      in case rtos of None \<Rightarrow> Some (- EOPNOTSUPP, completed, messages, w)
      | Some r \<Rightarrow>
        if \<not> sg2002_rtos_shared_memory_available rtos w
        then Some (- EOPNOTSUPP, completed, messages, w)
        else (case (messages, completed) of
            (Some ms, Some c) \<Rightarrow>
              if count = 0 \<or> count > SG2002_RTOS_SHM_SLOT_COUNT
              then Some (- EINVAL, completed, messages, w)
              else do {
                (ret, c, ms, w) \<leftarrow> reap_batch_loop env r ms count c timeout_ms deadline timeout_ms w;
                Some (ret, Some c, Some ms, w)
              }
          | _ \<Rightarrow> Some (- EINVAL, completed, messages, w)))"

definition sg2002_rtos_native_batch_available ::
  "'x client_world_scheme linux_env \<Rightarrow> sg2002_rtos option \<Rightarrow> 'x client_world_scheme \<Rightarrow>
    int \<times> 'x client_world_scheme" where
  "sg2002_rtos_native_batch_available env rtos w =
     (if \<not> sg2002_rtos_shared_memory_available rtos w then (- EOPNOTSUPP, w)
      else let (ret, w) = mutex_lock env Rx_lock w
      in if ret \<noteq> 0 then (- ret, w)
      else let reap_status = reap_batch_supported (priv w);
               w = mutex_unlock env Rx_lock w;
               (ret, w) = mutex_lock env Tx_lock w
      in if ret \<noteq> 0 then (- ret, w)
      else let submit_status = submit_batch_supported (priv w);
               w = mutex_unlock env Tx_lock w
      in if submit_status = SG2002_RTOS_BATCH_UNSUPPORTED \<or> reap_status = SG2002_RTOS_BATCH_UNSUPPORTED
         then (0, w)
         else if submit_status = SG2002_RTOS_BATCH_SUPPORTED \<and> reap_status = SG2002_RTOS_BATCH_SUPPORTED
         then (1, w)
         else (- EAGAIN, w))"

subsection \<open>Synchronous calls\<close>

text \<open>The loop that submits the request. \<open>Inl ret\<close> is a return of the call with the lock released,
  \<open>Inr sequence\<close> leaves the loop with the receive lock held.\<close>

partial_function (option) call_submit_loop ::
  "'x client_world_scheme linux_env \<Rightarrow> sg2002_rtos \<Rightarrow> bytes option \<Rightarrow> u16 \<Rightarrow> u32 \<Rightarrow> u64 \<Rightarrow> u32 \<Rightarrow> u32 \<Rightarrow>
    'x client_world_scheme \<Rightarrow> ((int + u32 \<times> u32) \<times> 'x client_world_scheme) option" where
  "call_submit_loop env r request request_length timeout_ms deadline remaining seq w =
     (case mutex_lock env Rx_lock w of (ret, w) \<Rightarrow>
       if ret \<noteq> 0 then Some (Inl (- ret), w)
       else (case mutex_lock env Tx_lock w of (ret, w) \<Rightarrow>
         if ret \<noteq> 0 then Some (Inl (- ret), mutex_unlock env Rx_lock w)
         else do {
           (ret, cell, w) \<leftarrow> message_send_locked env r request request_length 0 (Some seq) w;
           seq \<leftarrow> cell;
           let w = mutex_unlock env Tx_lock w;
           if ret = 0 then Some (Inr (seq, remaining), w)
           else if \<not> retryable ret then Some (Inl ret, mutex_unlock env Rx_lock w)
           else (case receive_from_kernel_locked env r zero_slot 0 w of (ret, msg, w) \<Rightarrow>
             if ret = 0 then do {
               (ret, w) \<leftarrow> retain_pending env msg w;
               let w = mutex_unlock env Rx_lock w;
               if ret \<noteq> 0 then Some (Inl ret, w)
               else call_submit_loop env r request request_length timeout_ms deadline remaining seq w
             }
             else if \<not> retryable ret then Some (Inl ret, mutex_unlock env Rx_lock w)
             else do {
               (ret, remaining, w) \<leftarrow> wait_for_kernel_events env r (POLLIN OR POLLOUT) timeout_ms
                  deadline remaining (mutex_unlock env Rx_lock w);
               if ret \<noteq> 0 then Some (Inl ret, w)
               else call_submit_loop env r request request_length timeout_ms deadline remaining seq w
             })
         }))"

text \<open>The loop that waits for the response with the sequence of the request, with the receive lock
  held: \<open>Inl ret\<close> jumps to \<^verbatim>\<open>out_unlock\<close>, \<open>Inr message\<close> is the response.\<close>

partial_function (option) call_match_loop ::
  "'x client_world_scheme linux_env \<Rightarrow> sg2002_rtos \<Rightarrow> u32 \<Rightarrow> u64 \<Rightarrow> u32 \<Rightarrow> u32 \<Rightarrow>
    'x client_world_scheme \<Rightarrow> ((int + sg2002_rtos_shm_slot) \<times> 'x client_world_scheme) option" where
  "call_match_loop env r timeout_ms deadline remaining seq w = do {
     (pending_result, msg, w) \<leftarrow> take_pending_sequence env seq zero_slot w;
     if pending_result < 0 then Some (Inl pending_result, w)
     else if pending_result > 0 then Some (Inr msg, w)
     else (case receive_from_kernel_locked env r msg 0 w of (ret, msg, w) \<Rightarrow>
       if retryable ret then do {
         (ret, remaining, w) \<leftarrow> wait_for_kernel_events env r POLLIN timeout_ms deadline remaining w;
         if ret \<noteq> 0 then Some (Inl ret, w)
         else call_match_loop env r timeout_ms deadline remaining seq w
       }
       else if ret \<noteq> 0 then Some (Inl ret, w)
       else if sequence msg = seq then Some (Inr msg, w)
       else do {
         (ret, w) \<leftarrow> retain_pending env msg w;
         if ret \<noteq> 0 then Some (Inl ret, w)
         else if deadline \<noteq> 0 then
           (case monotonic_milliseconds env w of (now, w) \<Rightarrow>
             if now \<ge> deadline then Some (Inl (- ETIMEDOUT), w)
             else call_match_loop env r timeout_ms deadline (ucast (deadline - now)) seq w)
         else call_match_loop env r timeout_ms deadline remaining seq w
       })
   }"

definition sg2002_rtos_message_call ::
  "'x client_world_scheme linux_env \<Rightarrow> sg2002_rtos option \<Rightarrow> bytes option \<Rightarrow> u16 \<Rightarrow> bytes option \<Rightarrow> u16 \<Rightarrow>
    u16 option \<Rightarrow> u32 \<Rightarrow> 'x client_world_scheme \<Rightarrow>
    (int \<times> bytes option \<times> u16 option \<times> 'x client_world_scheme) option" where
  "sg2002_rtos_message_call env rtos request request_length response response_capacity
      response_length timeout_ms w =
     (case rtos of None \<Rightarrow> Some (- EOPNOTSUPP, response, response_length, w)
      | Some r \<Rightarrow>
        if \<not> sg2002_rtos_shared_memory_available rtos w
        then Some (- EOPNOTSUPP, response, response_length, w)
        else if response_length = None \<or> (response_capacity > 0 \<and> response = None)
        then Some (- EINVAL, response, response_length, w)
        else let (deadline, w) = timeout_deadline env timeout_ms w in do {
          (sent, w) \<leftarrow> call_submit_loop env r request request_length timeout_ms deadline timeout_ms 0 w;
          (case sent of
             Inl ret \<Rightarrow> Some (ret, response, response_length, w)
           | Inr (seq, remaining) \<Rightarrow> do {
               (answer, w) \<leftarrow> call_match_loop env r timeout_ms deadline remaining seq w;
               (case answer of
                  Inl ret \<Rightarrow> Some (ret, response, response_length, mutex_unlock env Rx_lock w)
                | Inr msg \<Rightarrow> do {
                    (ret, response, len, _) \<leftarrow> copy_message msg response response_capacity None;
                    Some (ret, response, Some len, mutex_unlock env Rx_lock w)
                  })
             })
        })"

abbreviation SG2002_RTOS_DEFAULT_TIMEOUT_MS :: u16 where "SG2002_RTOS_DEFAULT_TIMEOUT_MS \<equiv> 3000"

text \<open>The union \<open>resv\<close> carries the timeout in the bytes of the two valid fields. The local response
  array is only read after a call has filled it.\<close>

definition sg2002_rtos_call ::
  "'x client_world_scheme linux_env \<Rightarrow> sg2002_rtos option \<Rightarrow> u8 \<Rightarrow> u32 \<Rightarrow> u16 \<Rightarrow> u32 option \<Rightarrow>
    'x client_world_scheme \<Rightarrow> (int \<times> u32 option \<times> 'x client_world_scheme) option" where
  "sg2002_rtos_call env rtos command request timeout_ms response w =
     (case rtos of None \<Rightarrow> Some (- EINVAL, response, w)
      | Some r \<Rightarrow>
        if fd r < 0 \<or> response = None \<or> timeout_ms = 0 then Some (- EINVAL, response, w)
        else if command < SG2002_RTOS_CMD_FIRST \<or> command > SG2002_RTOS_CMD_LAST
        then Some (- EINVAL, response, w)
        else if private_data r \<and> shared_memory_enabled (priv w) then do {
          let request_message = command # le32 request;
          (ret, response_message, response_length, w) \<leftarrow> sg2002_rtos_message_call env rtos
             (Some request_message) SG2002_RTOS_VALUE_MESSAGE_SIZE
             (Some (replicate SG2002_RTOS_VALUE_MESSAGE_SIZE 0)) SG2002_RTOS_VALUE_MESSAGE_SIZE
             (Some 0) (ucast timeout_ms) w;
          if ret \<noteq> 0 then Some (ret, response, w)
          else do {
            buf \<leftarrow> response_message;
            c \<leftarrow> read_byte buf SG2002_RTOS_VALUE_MESSAGE_COMMAND_OFFSET;
            if response_length \<noteq> Some SG2002_RTOS_VALUE_MESSAGE_SIZE \<or> c \<noteq> command
            then Some (- EPROTO, response, w)
            else do {
              bs \<leftarrow> read_bytes buf SG2002_RTOS_VALUE_MESSAGE_VALUE_OFFSET 4;
              Some (0, Some (of_le32 bs), w)
            }
          }
        }
        else
          let cmdq = \<lparr>ip_id = IP_SYSTEM, cmd_id = ucast command, block = 1,
                linux_valid = ucast timeout_ms, rtos_valid = ucast (drop_bit 8 timeout_ms),
                param_ptr = request\<rparr>
          in (case ioctl_send_wait env (fd r) cmdq w of
                (Inl e, w) \<Rightarrow> Some (- e, response, w)
              | (Inr cmdq, w) \<Rightarrow>
                  if ip_id cmdq \<noteq> IP_SYSTEM \<or> ucast (cmd_id cmdq) \<noteq> command \<or>
                     linux_valid cmdq \<noteq> 0 \<or> rtos_valid cmdq \<noteq> 1
                  then Some (- EPROTO, response, w)
                  else Some (0, Some (param_ptr cmdq), w)))"

definition sg2002_rtos_get_info ::
  "'x client_world_scheme linux_env \<Rightarrow> sg2002_rtos option \<Rightarrow> u32 option \<Rightarrow>
    'x client_world_scheme \<Rightarrow> (int \<times> u32 option \<times> 'x client_world_scheme) option" where
  "sg2002_rtos_get_info env rtos info w = (case info of None \<Rightarrow> Some (- EINVAL, None, w)
     | Some _ \<Rightarrow> do {
         (ret, cell, w) \<leftarrow> sg2002_rtos_call env rtos SG2002_RTOS_CMD_GET_INFO 0
            SG2002_RTOS_DEFAULT_TIMEOUT_MS (Some 0) w;
         response \<leftarrow> cell;
         Some (if ret \<noteq> 0 then (ret, info, w)
               else if \<not> SG2002_RTOS_INFO_IS_VALID response then (- EPROTO, info, w)
               else (0, Some response, w))
       })"

definition sg2002_rtos_ping ::
  "'x client_world_scheme linux_env \<Rightarrow> sg2002_rtos option \<Rightarrow> u32 \<Rightarrow> u32 option \<Rightarrow>
    'x client_world_scheme \<Rightarrow> (int \<times> u32 option \<times> 'x client_world_scheme) option" where
  "sg2002_rtos_ping env rtos input result w = (case result of None \<Rightarrow> Some (- EINVAL, None, w)
     | Some _ \<Rightarrow> sg2002_rtos_call env rtos SG2002_RTOS_CMD_PING input
         SG2002_RTOS_DEFAULT_TIMEOUT_MS result w)"

definition sg2002_rtos_gpio_set ::
  "'x client_world_scheme linux_env \<Rightarrow> sg2002_rtos option \<Rightarrow> u16 \<Rightarrow> int \<Rightarrow>
    'x client_world_scheme \<Rightarrow> (int \<times> 'x client_world_scheme) option" where
  "sg2002_rtos_gpio_set env rtos pin v w =
     (if v \<noteq> 0 \<and> v \<noteq> 1 then Some (- EINVAL, w)
      else do {
        (ret, cell, w) \<leftarrow> sg2002_rtos_call env rtos SG2002_RTOS_CMD_GPIO_SET
           (SG2002_RTOS_GPIO_ENCODE (ucast pin) (word_of_int v)) SG2002_RTOS_DEFAULT_TIMEOUT_MS (Some 0) w;
        response \<leftarrow> cell;
        Some (if ret \<noteq> 0 then ret
              else if response = SG2002_RTOS_RESPONSE_INVALID_ARGUMENT then - EINVAL
              else if response = word_of_int v then 0 else - EPROTO, w)
      })"

definition sg2002_rtos_gpio_get ::
  "'x client_world_scheme linux_env \<Rightarrow> sg2002_rtos option \<Rightarrow> u16 \<Rightarrow> int option \<Rightarrow>
    'x client_world_scheme \<Rightarrow> (int \<times> int option \<times> 'x client_world_scheme) option" where
  "sg2002_rtos_gpio_get env rtos pin cell w = (case cell of None \<Rightarrow> Some (- EINVAL, None, w)
     | Some _ \<Rightarrow> do {
         (ret, response, w) \<leftarrow> sg2002_rtos_call env rtos SG2002_RTOS_CMD_GPIO_GET
            (SG2002_RTOS_GPIO_ENCODE (ucast pin) 0) SG2002_RTOS_DEFAULT_TIMEOUT_MS (Some 0) w;
         response \<leftarrow> response;
         Some (if ret \<noteq> 0 then (ret, cell, w)
               else if response = SG2002_RTOS_RESPONSE_INVALID_ARGUMENT then (- EINVAL, cell, w)
               else if response > 1 then (- EPROTO, cell, w)
               else (0, Some (uint response), w))
       })"

subsection \<open>Lemmas\<close>

definition slot_ok :: "sg2002_rtos_shm_slot \<Rightarrow> bool" where
  "slot_ok m \<longleftrightarrow> slot_wf m \<and> slot_length m \<le> SG2002_RTOS_SHM_PAYLOAD_SIZE"

text \<open>Copying to the caller's cells: the cells afterwards.\<close>

definition filled_cells :: "sg2002_rtos_shm_slot \<Rightarrow> u16 \<Rightarrow> receive_cells \<Rightarrow> receive_cells" where
  "filled_cells m capacity cells = \<lparr>cell_response = (if slot_length m \<le> capacity
       then map_option (\<lambda>buf. take (unat (slot_length m)) (payload m) @ drop (unat (slot_length m)) buf)
              (cell_response cells)
       else cell_response cells),
     cell_length = slot_length m, cell_sequence = map_option (\<lambda>_. sequence m) (cell_sequence cells)\<rparr>"

lemma copy_to_cells_exact:
  assumes "slot_ok m" "cell_response cells = Some buf" "unat capacity \<le> length buf"
  shows "copy_to_cells m capacity cells =
    Some (if slot_length m \<le> capacity then 0 else - EMSGSIZE, filled_cells m capacity cells)"
proof -
  have n: "unat (slot_length m) \<le> length (payload m)"
    using assms(1) by (simp add: slot_ok_def slot_wf_def word_le_nat_alt)
  moreover have "slot_length m \<le> capacity \<Longrightarrow> unat (slot_length m) \<le> length buf"
    using assms(3) by (simp add: word_le_nat_alt)
  moreover have "\<not> slot_length m > 0 \<Longrightarrow> unat (slot_length m) = 0"
    by (simp add: word_less_nat_alt)
  ultimately show ?thesis using assms(2)
    by (auto simp: copy_to_cells_def copy_message_def filled_cells_def Let_def read_bytes_def
        write_bytes_def not_less)
qed

subsection \<open>Properties\<close>

text \<open>Receiving delivers the oldest response and never loses one. The response is the
  oldest retained one, or else the next of the kernel. When it fits the caller's buffer it is
  delivered and gone; when it does not, the caller gets EMSGSIZE with the required length and the
  response stays, or becomes, the oldest retained one, so that a second call with a larger buffer
  receives it. Without any response nothing changes.\<close>

theorem receive_never_loses:
  assumes "eventfd_ok env evc" "pending_inv evc w"
    and "receive_from_kernel_locked env r msg0 0 w = (kret, km, w1)" "priv w1 = priv w" "evc w1 = evc w"
    and "oldest = (if pending (priv w) \<noteq> [] then Some (hd (pending (priv w)))
      else if kret = 0 then Some km else None)"
    and "cell_response cells = Some buf" "unat capacity \<le> length buf"
    and "\<forall>m. oldest = Some m \<longrightarrow> slot_ok m"
  shows "case oldest of
      None \<Rightarrow> receive_section env r capacity cells msg0 w = Some (kret, cells, km, w1)
    | Some m \<Rightarrow> \<exists>w'. receive_section env r capacity cells msg0 w =
          Some (if slot_length m \<le> capacity then 0 else - EMSGSIZE, filled_cells m capacity cells, m, w') \<and>
        pending (priv w') = (if slot_length m \<le> capacity then [] else [m]) @ tl (pending (priv w)) \<and>
        pending_inv evc w'"
proof (cases "pending (priv w)")
  case Nil
  show ?thesis
  proof (cases "kret = 0")
    case True
    then have ok: "slot_ok km" "oldest = Some km" using assms(6,9) Nil by auto
    have "pending_inv evc w1" "pending (priv w1) = []"
      using assms(2,4,5) Nil by (simp_all add: pending_inv_def)
    moreover from this obtain w2 where "retain_pending env km w1 = Some (0, w2)"
      "pending (priv w2) = [km]" "pending_inv evc w2"
      using retain_pending_room [OF assms(1), of w1 km] by auto
    ultimately show ?thesis
      using Nil True ok assms(3) copy_to_cells_exact [OF ok(1) assms(7,8)]
      by (auto simp: receive_section_def Let_def)
  next
    case False
    then show ?thesis using assms(3,6) Nil by (simp add: receive_section_def)
  qed
next
  case (Cons m ms)
  then have ok: "slot_ok m" "oldest = Some m" using assms(6,9) by auto
  obtain w2 where "remove_pending env 0 w = Some (0, w2)" "pending (priv w2) = ms" "pending_inv evc w2"
    using remove_pending_ok [OF assms(1,2), of 0] Cons by auto
  then show ?thesis
    using Cons ok assms(2) copy_to_cells_exact [OF ok(1) assms(7,8)]
    by (auto simp: receive_section_def Let_def)
qed

theorem receive_never_loses_witness:
  "\<exists>w'. receive_section sim_env \<lparr>fd = 3, private_data = True\<rparr> 2
      \<lparr>cell_response = Some [0, 0], cell_length = 0, cell_sequence = None\<rparr> zero_slot
      (sim_start [] [zero_slot\<lparr>sequence := 9, slot_length := 5\<rparr>]) =
    Some (- EMSGSIZE, \<lparr>cell_response = Some [0, 0], cell_length = 5, cell_sequence = None\<rparr>,
      zero_slot\<lparr>sequence := 9, slot_length := 5\<rparr>, w') \<and>
    pending (priv w') = [zero_slot\<lparr>sequence := 9, slot_length := 5\<rparr>]"
proof -
  let ?m = "zero_slot\<lparr>sequence := 9, slot_length := 5\<rparr>"
  let ?w = "sim_start [] [?m]"
  have k: "receive_from_kernel_locked sim_env \<lparr>fd = 3, private_data = True\<rparr> zero_slot 0 ?w =
      (0, ?m, ?w\<lparr>sim_kernel := []\<rparr>)"
    by (simp add: receive_from_kernel_locked_def sim_env_def sim_start_def valid_response_def)
  have ok: "slot_ok ?m" by (simp add: slot_ok_def slot_wf_def zero_slot_def)
  have p: "pending (priv ?w) = []" "priv (?w\<lparr>sim_kernel := []\<rparr>) = priv ?w"
    "sim_events (?w\<lparr>sim_kernel := []\<rparr>) = sim_events ?w" by (simp_all add: sim_start_def)
  show ?thesis
    using receive_never_loses [OF sim_env_eventfd sim_start_inv [of "[]"] k p(2,3) refl, of
        "\<lparr>cell_response = Some [0, 0], cell_length = 0, cell_sequence = None\<rparr>" "[0, 0]" 2] p(1) ok
    by (auto simp: filled_cells_def)
qed

end
