(* ===== verification/Linux_Calls.thy ===== *)
theory Linux_Calls
  imports Linux_Messages "HOL-Library.Multiset"
begin

section \<open>Synchronous calls: matching and conservation of responses\<close>

text \<open>
  What a synchronous call does with the responses that arrive while it waits for its own. The
  driver is described by the queue of responses it holds. A call that succeeds returns the response
  with the sequence of its request, and no other response is lost; the one exception is a full
  queue of retained responses, where the response just taken from the kernel is dropped.
\<close>

subsection \<open>The driver and the process\<close>

text \<open>The driver as a queue of responses: \<open>kq\<close> lists the responses of the kernel. A receive takes the
  oldest or fails with \<open>EAGAIN\<close>; while the process waits or reads the clock more responses may
  arrive. Only valid responses are in the queue. None of these calls touches the memory of the
  process or its event descriptor.\<close>

definition arrivals ::
  "('x client_world_scheme \<Rightarrow> nat) \<Rightarrow> ('x client_world_scheme \<Rightarrow> sg2002_rtos_shm_slot list) \<Rightarrow>
    'x client_world_scheme \<Rightarrow> 'x client_world_scheme \<Rightarrow> bool" where
  "arrivals evc kq w w' \<longleftrightarrow> priv w' = priv w \<and> evc w' = evc w \<and> (\<exists>new. kq w' = kq w @ new)"

definition kernel_ok ::
  "'x client_world_scheme linux_env \<Rightarrow> ('x client_world_scheme \<Rightarrow> nat) \<Rightarrow>
    ('x client_world_scheme \<Rightarrow> sg2002_rtos_shm_slot list) \<Rightarrow> bool" where
  "kernel_ok env evc kq \<longleftrightarrow>
     (\<forall>w p. kq (w\<lparr>priv := p\<rparr>) = kq w) \<and>
     (\<forall>w. \<forall>m\<in>set (kq w). sequence m \<noteq> 0 \<and> slot_length m \<le> SG2002_RTOS_SHM_PAYLOAD_SIZE) \<and>
     (\<forall>f t w. case kq w of
         [] \<Rightarrow> \<exists>w'. ioctl_receive env f t w = (Inl EAGAIN, w') \<and> arrivals evc kq w w'
       | m # ms \<Rightarrow> \<exists>w'. ioctl_receive env f t w = (Inr (t\<lparr>message := m\<rparr>), w') \<and>
           priv w' = priv w \<and> evc w' = evc w \<and> kq w' = ms) \<and>
     (\<forall>ds t w r w'. sys_poll env ds t w = (r, w') \<longrightarrow> arrivals evc kq w w') \<and>
     (\<forall>w r w'. clock_gettime env w = (r, w') \<longrightarrow> arrivals evc kq w w') \<and>
     (\<forall>f v w. kq (snd (event_write env f v w)) = kq w \<and> kq (snd (event_read env f w)) = kq w)"

lemma kernel_rules:
  assumes "kernel_ok env evc kq"
  shows "kq (w\<lparr>priv := p\<rparr>) = kq w"
    "m \<in> set (kq w) \<Longrightarrow> sequence m \<noteq> 0 \<and> slot_length m \<le> SG2002_RTOS_SHM_PAYLOAD_SIZE"
    "kq w = [] \<Longrightarrow> \<exists>w'. ioctl_receive env f t w = (Inl EAGAIN, w') \<and> arrivals evc kq w w'"
    "kq w = m # ms \<Longrightarrow> \<exists>w'. ioctl_receive env f t w = (Inr (t\<lparr>message := m\<rparr>), w') \<and>
       priv w' = priv w \<and> evc w' = evc w \<and> kq w' = ms"
    "event_write env i v w = (x, w') \<Longrightarrow> kq w' = kq w"
    "event_read env i w = (y, w') \<Longrightarrow> kq w' = kq w"
proof -
  show "kq (w\<lparr>priv := p\<rparr>) = kq w" using assms by (simp add: kernel_ok_def)
  show "m \<in> set (kq w) \<Longrightarrow> sequence m \<noteq> 0 \<and> slot_length m \<le> SG2002_RTOS_SHM_PAYLOAD_SIZE"
    using assms by (simp add: kernel_ok_def)
  have r: "case kq w of
         [] \<Rightarrow> \<exists>w'. ioctl_receive env f t w = (Inl EAGAIN, w') \<and> arrivals evc kq w w'
       | m # ms \<Rightarrow> \<exists>w'. ioctl_receive env f t w = (Inr (t\<lparr>message := m\<rparr>), w') \<and>
           priv w' = priv w \<and> evc w' = evc w \<and> kq w' = ms"
    using assms by (simp add: kernel_ok_def)
  then show "kq w = [] \<Longrightarrow> \<exists>w'. ioctl_receive env f t w = (Inl EAGAIN, w') \<and> arrivals evc kq w w'" by simp
  from r show "kq w = m # ms \<Longrightarrow> \<exists>w'. ioctl_receive env f t w = (Inr (t\<lparr>message := m\<rparr>), w') \<and>
       priv w' = priv w \<and> evc w' = evc w \<and> kq w' = ms" by simp
  have "kq (snd (event_write env i v w)) = kq w" "kq (snd (event_read env i w)) = kq w"
    using assms by (simp_all add: kernel_ok_def)
  then show "event_write env i v w = (x, w') \<Longrightarrow> kq w' = kq w"
    "event_read env i w = (y, w') \<Longrightarrow> kq w' = kq w" by auto
qed

lemma arrivals_trans: "arrivals evc kq w w1 \<Longrightarrow> arrivals evc kq w1 w2 \<Longrightarrow> arrivals evc kq w w2"
  by (auto simp: arrivals_def)

lemma arrivals_refl [simp]: "arrivals evc kq w w"
  by (simp add: arrivals_def)

lemma monotonic_arrivals:
  assumes "kernel_ok env evc kq" "monotonic_milliseconds env w = (now, w')"
  shows "arrivals evc kq w w'"
  using assms by (auto simp: kernel_ok_def monotonic_milliseconds_def split: prod.splits option.splits)

lemma update_remaining_arrivals:
  assumes "kernel_ok env evc kq" "update_remaining env t d rem w = (ret, rem', w')"
  shows "arrivals evc kq w w'"
  using assms(2) monotonic_arrivals [OF assms(1), of w]
  by (auto simp: update_remaining_def split: if_splits prod.splits)

lemma wait_for_kernel_loop_arrivals:
  assumes "kernel_ok env evc kq" "wait_for_kernel_loop env f ev t d rem w = Some (ret, rem', w')"
  shows "arrivals evc kq w w'"
proof -
  have poll: "sys_poll env ds tm v = (r, v') \<Longrightarrow> arrivals evc kq v v'" for ds tm v r v'
    using assms(1) by (simp add: kernel_ok_def)
  let ?P = "\<lambda>e f ev t d rem w y. e = env \<longrightarrow> arrivals evc kq w (snd (snd y))"
  have "?P env f ev t d rem w (ret, rem', w')"
  proof (rule wait_for_kernel_loop.raw_induct [where P = ?P, OF _ assms(2)], intro impI)
    fix loop e f ev t d rem w y
    assume IH: "\<And>e f ev t d rem w y. loop e f ev t d rem w = Some y \<Longrightarrow> ?P e f ev t d rem w y"
      and run: "(case update_remaining e t d rem w of (ret, rem, w) \<Rightarrow>
         if ret \<noteq> 0 then Some (ret, rem, w)
         else case sys_poll e [(f, ev)] (poll_timeout rem) w of (r, w) \<Rightarrow>
           (case r of Inl e \<Rightarrow> Some (- e, rem, w)
            | Inr (ret, rs) \<Rightarrow> if ret > 0 then Some (0, rem, w) else loop e f ev t d rem w)) = Some y"
      and e: "e = env"
    obtain ret1 rem1 w1 where u: "update_remaining env t d rem w = (ret1, rem1, w1)" by (metis surj_pair)
    note a1 = update_remaining_arrivals [OF assms(1) u]
    obtain r w2 where p: "sys_poll env [(f, ev)] (poll_timeout rem1) w1 = (r, w2)" by fastforce
    note a2 = arrivals_trans [OF a1 poll [OF p]]
    show "arrivals evc kq w (snd (snd y))"
    proof (cases "ret1 = 0")
      case False
      then show ?thesis using run u e a1 by auto
    next
      case True
      show ?thesis
      proof (cases "\<exists>rs k. r = Inr (k, rs) \<and> \<not> k > 0")
        case True
        then have "loop env f ev t d rem1 w2 = Some y" using run u e p \<open>ret1 = 0\<close> by auto
        then show ?thesis using IH arrivals_trans [OF a2] by blast
      next
        case False
        then show ?thesis using run u e p \<open>ret1 = 0\<close> a2 by (auto split: sum.splits)
      qed
    qed
  qed
  then show ?thesis by simp
qed

text \<open>The responses that have been sent to the process and not been delivered yet.\<close>

definition outstanding ::
  "('x client_world_scheme \<Rightarrow> sg2002_rtos_shm_slot list) \<Rightarrow> 'x client_world_scheme \<Rightarrow>
    sg2002_rtos_shm_slot multiset" where
  "outstanding kq w = mset (pending (priv w)) + mset (kq w)"

lemma outstanding_arrivals: "arrivals evc kq w w' \<Longrightarrow> outstanding kq w \<subseteq># outstanding kq w'"
  by (auto simp: arrivals_def outstanding_def)

lemma pending_inv_arrivals: "arrivals evc kq w w' \<Longrightarrow> pending_inv evc w \<Longrightarrow> pending_inv evc w'"
  by (simp add: arrivals_def pending_inv_def)

lemma receive_kernel_cases:
  assumes "kernel_ok env evc kq" "receive_from_kernel_locked env r msg0 t w = (ret, m, w1)"
  obtains (empty) "ret = - EAGAIN" "arrivals evc kq w w1"
    | (got) "ret = 0" "kq w = m # kq w1" "priv w1 = priv w" "evc w1 = evc w"
proof (cases "kq w")
  case Nil
  let ?t = "\<lparr>transfer_timeout_ms = t, message = zero_slot\<rparr>"
  obtain w' where "ioctl_receive env (fd r) ?t w = (Inl EAGAIN, w')" "arrivals evc kq w w'"
    using kernel_rules(3) [OF assms(1) Nil] by blast
  then show ?thesis using empty assms(2) by (simp add: receive_from_kernel_locked_def)
next
  case (Cons x xs)
  let ?t = "\<lparr>transfer_timeout_ms = t, message = zero_slot\<rparr>"
  obtain w' where "ioctl_receive env (fd r) ?t w = (Inr (?t\<lparr>message := x\<rparr>), w')"
    "priv w' = priv w" "evc w' = evc w" "kq w' = xs"
    using kernel_rules(4) [OF assms(1) Cons] by blast
  moreover have "sequence x \<noteq> 0" "slot_length x \<le> SG2002_RTOS_SHM_PAYLOAD_SIZE"
    using kernel_rules(2) [OF assms(1), of x w] Cons by simp_all
  ultimately show ?thesis using got assms(2) Cons by (simp add: receive_from_kernel_locked_def leD)
qed

lemma kq_set_pending: "kernel_ok env evc kq \<Longrightarrow> kq (set_pending ms w) = kq w"
  by (simp add: kernel_ok_def set_pending_def)

lemma retain_kq:
  assumes "eventfd_ok env evc" "kernel_ok env evc kq" "retain_pending env m w = Some (ret, w')"
    "length (pending (priv w)) < 64"
  shows "kq w' = kq w"
proof -
  let ?v = "set_pending (pending (priv w) @ [m]) w"
  obtain v' where v: "event_write env (pending_fd (priv ?v)) 1 ?v = (Inr 8, v')"
    using eventfd_rules(1) [OF assms(1)] by blast
  then have "pending_event_signal env ?v = Some (0, v')" by (subst pending_event_signal.simps) simp
  moreover have "kq v' = kq w"
    using kernel_rules(5) [OF assms(2) v] kq_set_pending [OF assms(2)] by simp
  ultimately show ?thesis using assms(3,4) by (simp add: retain_pending_def)
qed

lemma remove_kq:
  assumes "eventfd_ok env evc" "kernel_ok env evc kq" "pending_inv evc w" "i < length (pending (priv w))"
    "remove_pending env i w = Some (ret, w')"
  shows "kq w' = kq w"
proof -
  let ?v = "set_pending (take i (pending (priv w)) @ drop (i + 1) (pending (priv w))) w"
  have "0 < evc ?v" using assms(3,4) by (auto simp: pending_inv_def evc_set_pending [OF assms(1)])
  obtain v' where v: "event_read env (pending_fd (priv ?v)) ?v = (Inr (8, 1), v')"
    using eventfd_rules(2) [OF assms(1) \<open>0 < evc ?v\<close>] by blast
  then have "pending_event_consume env ?v = Some (0, v')" by (subst pending_event_consume.simps) simp
  moreover have "kq v' = kq w"
    using kernel_rules(6) [OF assms(2) v] kq_set_pending [OF assms(2)] by simp
  ultimately show ?thesis using assms(4,5) by (simp add: remove_pending_def Let_def)
qed

text \<open>How a call may end, seen from a world \<open>w\<close> on the way.\<close>

definition call_outcome ::
  "('x client_world_scheme \<Rightarrow> sg2002_rtos_shm_slot list) \<Rightarrow> u32 \<Rightarrow> 'x client_world_scheme \<Rightarrow>
    (int + sg2002_rtos_shm_slot) \<times> 'x client_world_scheme \<Rightarrow> bool" where
  "call_outcome kq seq w y \<longleftrightarrow> (case y of
       (Inr m, w') \<Rightarrow> sequence m = seq \<and> outstanding kq w \<subseteq># add_mset m (outstanding kq w')
     | (Inl e, w') \<Rightarrow> e = - ENOBUFS \<or> outstanding kq w \<subseteq># outstanding kq w')"

lemma call_outcome_trans:
  assumes "outstanding kq w \<subseteq># outstanding kq w1" "call_outcome kq seq w1 y"
  shows "call_outcome kq seq w y"
  using assms by (auto simp: call_outcome_def split: prod.splits sum.splits intro: subset_mset.trans)

lemma take_sequence_outcome:
  assumes "eventfd_ok env evc" "kernel_ok env evc kq" "pending_inv evc w"
    and "take_pending_sequence env seq msg w = Some (res, m, w')"
  shows "(res = 0 \<and> w' = w) \<or> (res = 1 \<and> pending_inv evc w' \<and> sequence m = seq \<and>
    outstanding kq w \<subseteq># add_mset m (outstanding kq w'))"
proof (cases "find (\<lambda>i. sequence (pending (priv w) ! i) = seq) [0..<length (pending (priv w))]")
  case None
  then show ?thesis using assms(4) by (simp add: take_pending_sequence_def)
next
  case (Some i)
  let ?ms = "pending (priv w)"
  have i: "i < length ?ms" "sequence (?ms ! i) = seq"
    using Some find_index_Some [of "\<lambda>m. sequence m = seq" ?ms i] by auto
  obtain w1 where r: "remove_pending env i w = Some (0, w1)"
    "pending (priv w1) = take i ?ms @ drop (i + 1) ?ms" "pending_inv evc w1"
    using remove_pending_ok [OF assms(1,3) i(1)] by blast
  have k: "kq w1 = kq w" using remove_kq [OF assms(1-3) i(1) r(1)] .
  have "?ms = take i ?ms @ ?ms ! i # drop (i + 1) ?ms" using i(1) by (simp add: id_take_nth_drop)
  then have "mset ?ms = add_mset (?ms ! i) (mset (take i ?ms @ drop (i + 1) ?ms))"
    by (metis mset.simps(2) mset_append union_mset_add_mset_right)
  then have "outstanding kq w = add_mset (?ms ! i) (outstanding kq w1)"
    by (simp add: outstanding_def r(2) k)
  then show ?thesis
    using assms(4) Some i r by (simp add: take_pending_sequence_def Let_def)
qed

lemma retain_outcome:
  assumes "eventfd_ok env evc" "kernel_ok env evc kq" "pending_inv evc w"
    and "retain_pending env m w = Some (ret, w')"
  shows "pending_inv evc w' \<and> (ret = 0 \<and> outstanding kq w' = add_mset m (outstanding kq w) \<or> ret = - ENOBUFS)"
proof (cases "length (pending (priv w)) < 64")
  case True
  obtain w1 where "retain_pending env m w = Some (0, w1)" "pending (priv w1) = pending (priv w) @ [m]"
    "pending_inv evc w1"
    using retain_pending_room [OF assms(1,3) True] by blast
  with assms(4) retain_kq [OF assms(1,2,4) True] show ?thesis by (simp add: outstanding_def)
next
  case False
  then show ?thesis using retain_pending_full [of w env m] assms(3,4) by simp
qed

lemma wait_for_kernel_arrivals:
  assumes "kernel_ok env evc kq" "wait_for_kernel_events env r ev t d rem w = Some (ret, rem', w')"
  shows "arrivals evc kq w w'"
  using assms wait_for_kernel_loop_arrivals [OF assms(1)]
  by (auto simp: wait_for_kernel_events_def split: if_splits)

text \<open>One turn of the loop that waits for the response, for any function \<open>loop\<close> with the property that
  is claimed of the loop.\<close>

lemma call_match_step:
  assumes ev: "eventfd_ok env evc" and k: "kernel_ok env evc kq" and inv: "pending_inv evc w"
    and IH: "\<And>rem w y. loop env r t d rem seq w = Some y \<Longrightarrow> pending_inv evc w \<Longrightarrow>
      pending_inv evc (snd y) \<and> call_outcome kq seq w y"
    and turn: "do {
     (pending_result, msg, w) \<leftarrow> take_pending_sequence env seq zero_slot w;
     if pending_result < 0 then Some (Inl pending_result, w)
     else if pending_result > 0 then Some (Inr msg, w)
     else (case receive_from_kernel_locked env r msg 0 w of (ret, msg, w) \<Rightarrow>
       if retryable ret then do {
         (ret, remaining, w) \<leftarrow> wait_for_kernel_events env r POLLIN t d rem w;
         if ret \<noteq> 0 then Some (Inl ret, w) else loop env r t d remaining seq w
       }
       else if ret \<noteq> 0 then Some (Inl ret, w)
       else if sequence msg = seq then Some (Inr msg, w)
       else do {
         (ret, w) \<leftarrow> retain_pending env msg w;
         if ret \<noteq> 0 then Some (Inl ret, w)
         else if d \<noteq> 0 then
           (case monotonic_milliseconds env w of (now, w) \<Rightarrow>
             if now \<ge> d then Some (Inl (- ETIMEDOUT), w)
             else loop env r t d (ucast (d - now)) seq w)
         else loop env r t d rem seq w
       })
   } = Some y"
  shows "pending_inv evc (snd y) \<and> call_outcome kq seq w y"
proof -
  obtain res m1 w1 where tk: "take_pending_sequence env seq zero_slot w = Some (res, m1, w1)"
    using turn by (cases "take_pending_sequence env seq zero_slot w") auto
  note t1 = turn [unfolded tk, simplified]
  from take_sequence_outcome [OF ev k inv tk] show ?thesis
  proof (elim disjE conjE)
    assume a: "res = 1" "pending_inv evc w1" "sequence m1 = seq"
      "outstanding kq w \<subseteq># add_mset m1 (outstanding kq w1)"
    then have "y = (Inr m1, w1)" using t1 by simp
    with a show ?thesis by (simp add: call_outcome_def)
  next
    assume a: "res = 0" "w1 = w"
    obtain ret m w2 where rc: "receive_from_kernel_locked env r m1 0 w = (ret, m, w2)" by (metis surj_pair)
    note t2 = t1 [unfolded a rc, simplified]
    from k rc show ?thesis
    proof (cases rule: receive_kernel_cases)
      case empty
      note i2 = pending_inv_arrivals [OF empty(2) inv] and o2 = outstanding_arrivals [OF empty(2)]
      note t3 = t2 [unfolded empty(1), simplified]
      obtain ret3 rem3 w3 where wt: "wait_for_kernel_events env r POLLIN t d rem w2 = Some (ret3, rem3, w3)"
        using t3 by (cases "wait_for_kernel_events env r POLLIN t d rem w2") auto
      note a3 = wait_for_kernel_arrivals [OF k wt]
      note i3 = pending_inv_arrivals [OF a3 i2]
        and o3 = subset_mset.trans [OF o2 outstanding_arrivals [OF a3]]
      note t4 = t3 [unfolded wt, simplified]
      show ?thesis
      proof (cases "ret3 = 0")
        case True
        then have "loop env r t d rem3 seq w3 = Some y" using t4 by simp
        then show ?thesis using IH i3 call_outcome_trans [OF o3] by blast
      next
        case False
        then have "y = (Inl ret3, w3)" using t4 by simp
        then show ?thesis using i3 o3 by (simp add: call_outcome_def)
      qed
    next
      case got
      have i2: "pending_inv evc w2" using got inv by (simp add: pending_inv_def)
      have o2: "outstanding kq w = add_mset m (outstanding kq w2)" using got by (simp add: outstanding_def)
      note t3 = t2 [unfolded got(1), simplified]
      show ?thesis
      proof (cases "sequence m = seq")
        case True
        then have "y = (Inr m, w2)" using t3 by simp
        then show ?thesis using i2 o2 True by (simp add: call_outcome_def)
      next
        case False
        obtain ret3 w3 where rt: "retain_pending env m w2 = Some (ret3, w3)"
          using t3 False by (cases "retain_pending env m w2") auto
        obtain now w4 where mm: "monotonic_milliseconds env w3 = (now, w4)" by fastforce
        note t4 = t3 [unfolded rt, simplified]
        from retain_outcome [OF ev k i2 rt] show ?thesis
        proof (elim conjE disjE)
          assume i3: "pending_inv evc w3" and r3: "ret3 = 0"
            and "outstanding kq w3 = add_mset m (outstanding kq w2)"
          then have o3: "outstanding kq w \<subseteq># outstanding kq w3" using o2 by simp
          note a4 = monotonic_arrivals [OF k mm]
          note i4 = pending_inv_arrivals [OF a4 i3]
            and o4 = subset_mset.trans [OF o3 outstanding_arrivals [OF a4]]
          have t5: "d = 0 \<Longrightarrow> loop env r t d rem seq w3 = Some y" using t4 False r3 by simp
          have t6: "d \<noteq> 0 \<Longrightarrow> (if now \<ge> d then Some (Inl (- ETIMEDOUT), w4)
              else loop env r t d (ucast (d - now)) seq w4) = Some y"
            using t4 False r3 by (simp add: mm)
          consider "loop env r t d rem seq w3 = Some y" | "y = (Inl (- ETIMEDOUT), w4)"
            | "loop env r t d (ucast (d - now)) seq w4 = Some y"
            using t5 t6 by (cases "d = 0"; cases "now \<ge> d") simp_all
          then show ?thesis
          proof cases
            case 1
            then show ?thesis using IH i3 call_outcome_trans [OF o3] by blast
          next
            case 2
            then show ?thesis using i4 o4 by (simp add: call_outcome_def)
          next
            case 3
            then show ?thesis using IH i4 call_outcome_trans [OF o4] by blast
          qed
        next
          assume "pending_inv evc w3" "ret3 = - ENOBUFS"
          moreover from this have "y = (Inl ret3, w3)" using t4 False by simp
          ultimately show ?thesis by (simp add: call_outcome_def)
        qed
      qed
    qed
  qed
qed

lemma call_match_loop_outcome:
  assumes "eventfd_ok env evc" "kernel_ok env evc kq" "pending_inv evc w"
    and "call_match_loop env r t d rem seq w = Some y"
  shows "pending_inv evc (snd y) \<and> call_outcome kq seq w y"
proof -
  let ?P = "\<lambda>e r t d rem seq w y. e = env \<longrightarrow> pending_inv evc w \<longrightarrow>
    pending_inv evc (snd y) \<and> call_outcome kq seq w y"
  have "?P env r t d rem seq w y"
  proof (rule call_match_loop.raw_induct [where P = ?P, OF _ assms(4)], intro impI, goal_cases)
    case (1 loop e r t d rem seq w y)
    then show ?case using call_match_step [OF assms(1,2), where w = w and loop = loop and r = r and t = t and d = d
        and seq = seq and y = y and rem = rem] by blast
  qed
  with assms(3) show ?thesis by blast
qed

text \<open>The simulated system as a driver: its queue holds the valid responses.\<close>

lemma sim_kernel_ok: "kernel_ok sim_env sim_events (\<lambda>w. filter valid_response (sim_kernel w))"
proof -
  have f: "filter valid_response ms = ms" if "filter valid_response xs = m # ms" for m ms xs
  proof -
    have "set (m # ms) \<subseteq> {x. valid_response x}" unfolding that [symmetric] by auto
    then show ?thesis by (intro filter_True) auto
  qed
  have v: "valid_response m \<Longrightarrow> sequence m \<noteq> 0 \<and> slot_length m \<le> SG2002_RTOS_SHM_PAYLOAD_SIZE" for m
    by (simp add: valid_response_def)
  show ?thesis
    unfolding kernel_ok_def
    by (intro conjI allI ballI impI)
      (auto simp: sim_env_def arrivals_def v f split: list.splits)
qed

subsection \<open>Properties\<close>



text \<open>Property C38: with 64 retained responses a call drops the next response of the kernel that is
  not its own. The response has left the kernel queue, the call fails with ENOBUFS, and the response
  is not among the retained ones, although the library promises to retain it.\<close>

theorem call_drops_response_when_full:
  assumes "length (pending (priv w)) = 64" "\<forall>m\<in>set (pending (priv w)). sequence m \<noteq> seq"
    and "receive_from_kernel_locked env r zero_slot 0 w = (0, m, w1)" "priv w1 = priv w"
    and "sequence m \<noteq> seq"
  shows "call_match_loop env r timeout_ms deadline remaining seq w = Some (Inl (- ENOBUFS), w1) \<and>
    pending (priv w1) = pending (priv w)"
proof -
  have "take_pending_sequence env seq zero_slot w = Some (0, zero_slot, w)"
    using assms(2) find_index_None [of "\<lambda>m. sequence m = seq" "pending (priv w)"]
    by (simp add: take_pending_sequence_def)
  moreover have "retain_pending env m w1 = Some (- ENOBUFS, w1)"
    using assms(1,4) by (intro retain_pending_full) simp
  ultimately show ?thesis
    using assms(3-5) by (subst call_match_loop.simps) simp
qed

theorem call_drops_response_when_full_witness:
  "\<exists>w'. call_match_loop sim_env \<lparr>fd = 3, private_data = True\<rparr> 5 9 5 7
      (sim_start (replicate 64 (zero_slot\<lparr>sequence := 5\<rparr>)) [zero_slot\<lparr>sequence := 6\<rparr>]) =
    Some (Inl (- ENOBUFS), w') \<and> sim_kernel w' = [] \<and>
    pending (priv w') = replicate 64 (zero_slot\<lparr>sequence := 5\<rparr>)"
proof -
  let ?m = "zero_slot\<lparr>sequence := 6\<rparr>"
  let ?w = "sim_start (replicate 64 (zero_slot\<lparr>sequence := 5\<rparr>)) [?m]"
  have "receive_from_kernel_locked sim_env \<lparr>fd = 3, private_data = True\<rparr> zero_slot 0 ?w =
      (0, ?m, ?w\<lparr>sim_kernel := []\<rparr>)"
    by (simp add: receive_from_kernel_locked_def sim_env_def sim_start_def valid_response_def zero_slot_def)
  from call_drops_response_when_full [OF _ _ this, of 7 5 9 5] show ?thesis
    by (simp add: sim_start_def)
qed

end
