(* ===== verification/Ring_Concurrent.thy ===== *)
theory Ring_Concurrent
  imports Ring
begin

section \<open>The ring shared by two processors\<close>

text \<open>
  \<^verbatim>\<open>core/sg2002_rtos_ring.c\<close> again, this time with its two sides running at once: one
  processor pushes, the other one pops, and their accesses to the shared memory interleave in any
  order. A push and a pop are broken into the accesses the other side can observe: the load of each
  counter, the copy of a slot part by part in any order, the store of the counter. Everything else
  is local to a side. Where a cache lies in between, a load is the invalidation that fetches the
  line, the parts of a slot reach the memory at any time up to the clean of the slot, and the
  counter with the clean of its line.

  The lemmas show that the protocol needs no lock: whatever the interleaving, messages arrive
  complete, once and in order, and neither side ever reports corruption. They also show that each
  side finishes in a bounded number of its own steps and that an undisturbed run of the machine is
  the sequential operation.
\<close>

subsection \<open>Parts of a slot\<close>

datatype slot_part = Sequence_part | Length_part | Payload_part nat

fun copy_part :: "slot_part \<Rightarrow> sg2002_rtos_shm_slot \<Rightarrow> sg2002_rtos_shm_slot \<Rightarrow> sg2002_rtos_shm_slot" where
  "copy_part Sequence_part src dst = dst\<lparr>sequence := sequence src\<rparr>"
| "copy_part Length_part src dst = dst\<lparr>slot_length := slot_length src\<rparr>"
| "copy_part (Payload_part k) src dst = dst\<lparr>payload := (payload dst)[k := payload src ! k]\<rparr>"

definition slot_parts :: "slot_part list" where
  "slot_parts = Sequence_part # Length_part # map Payload_part [0..<SG2002_RTOS_SHM_PAYLOAD_SIZE]"

subsection \<open>The machine\<close>

text \<open>Where each side stands, with its local variables. A pop carries the destination of its
  \<^verbatim>\<open>memcpy\<close>; a copy carries the parts still to do.\<close>

datatype push_pc =
    Push_idle
  | Push_load_producer sg2002_rtos_shm_slot
  | Push_load_consumer sg2002_rtos_shm_slot u32
  | Push_copy sg2002_rtos_shm_slot u32 "slot_part list"
  | Push_publish sg2002_rtos_shm_slot u32

datatype pop_pc =
    Pop_idle
  | Pop_load_producer sg2002_rtos_shm_slot
  | Pop_load_consumer sg2002_rtos_shm_slot u32
  | Pop_copy sg2002_rtos_shm_slot u32 "slot_part list"
  | Pop_publish sg2002_rtos_shm_slot u32

record ring_machine =
  shared :: shm_region
  pushing :: push_pc
  popping :: pop_pc

text \<open>What a caller sees: the return of an operation with its result.\<close>

datatype ring_event =
    Push_returns sg2002_rtos_ring_result sg2002_rtos_shm_slot
  | Pop_returns sg2002_rtos_ring_result sg2002_rtos_shm_slot

inductive push_step ::
  "counter_ptr \<Rightarrow> counter_ptr \<Rightarrow> slots_ptr \<Rightarrow> ring_machine \<Rightarrow> ring_event option \<Rightarrow> ring_machine \<Rightarrow> bool"
  for P C S where
  push_invalid:
    "pushing s = Push_idle \<Longrightarrow> slot_wf msg \<Longrightarrow> slot_length msg > SG2002_RTOS_SHM_PAYLOAD_SIZE \<Longrightarrow>
     push_step P C S s (Some (Push_returns SG2002_RTOS_RING_INVALID msg)) s"
| push_call:
    "pushing s = Push_idle \<Longrightarrow> slot_wf msg \<Longrightarrow> \<not> slot_length msg > SG2002_RTOS_SHM_PAYLOAD_SIZE \<Longrightarrow>
     push_step P C S s None (s\<lparr>pushing := Push_load_producer msg\<rparr>)"
| push_load_producer:
    "pushing s = Push_load_producer msg \<Longrightarrow>
     push_step P C S s None (s\<lparr>pushing := Push_load_consumer msg (load_counter P (shared s))\<rparr>)"
| push_corrupt:
    "pushing s = Push_load_consumer msg producer \<Longrightarrow>
     producer - load_counter C (shared s) > SG2002_RTOS_SHM_SLOT_COUNT \<Longrightarrow>
     push_step P C S s (Some (Push_returns SG2002_RTOS_RING_CORRUPT msg)) (s\<lparr>pushing := Push_idle\<rparr>)"
| push_full:
    "pushing s = Push_load_consumer msg producer \<Longrightarrow>
     producer - load_counter C (shared s) = SG2002_RTOS_SHM_SLOT_COUNT \<Longrightarrow>
     push_step P C S s (Some (Push_returns SG2002_RTOS_RING_FULL msg)) (s\<lparr>pushing := Push_idle\<rparr>)"
| push_enter:
    "pushing s = Push_load_consumer msg producer \<Longrightarrow>
     producer - load_counter C (shared s) < SG2002_RTOS_SHM_SLOT_COUNT \<Longrightarrow>
     push_step P C S s None (s\<lparr>pushing := Push_copy msg producer slot_parts\<rparr>)"
| push_copy:
    "pushing s = Push_copy msg producer todo \<Longrightarrow> part \<in> set todo \<Longrightarrow>
     i = unat (producer AND (SG2002_RTOS_SHM_SLOT_COUNT - 1)) \<Longrightarrow>
     push_step P C S s None
       (s\<lparr>shared := store_slot S i (copy_part part msg (slots_of S (shared s) ! i)) (shared s),
          pushing := Push_copy msg producer (remove1 part todo)\<rparr>)"
| push_copied:
    "pushing s = Push_copy msg producer [] \<Longrightarrow>
     push_step P C S s None (s\<lparr>pushing := Push_publish msg producer\<rparr>)"
| push_publish:
    "pushing s = Push_publish msg producer \<Longrightarrow>
     push_step P C S s (Some (Push_returns SG2002_RTOS_RING_OK msg))
       (s\<lparr>shared := store_counter P (producer + 1) (shared s), pushing := Push_idle\<rparr>)"

inductive pop_step ::
  "counter_ptr \<Rightarrow> counter_ptr \<Rightarrow> slots_ptr \<Rightarrow> ring_machine \<Rightarrow> ring_event option \<Rightarrow> ring_machine \<Rightarrow> bool"
  for P C S where
  pop_call:
    "popping s = Pop_idle \<Longrightarrow> slot_wf dst \<Longrightarrow> pop_step P C S s None (s\<lparr>popping := Pop_load_producer dst\<rparr>)"
| pop_load_producer:
    "popping s = Pop_load_producer dst \<Longrightarrow>
     pop_step P C S s None (s\<lparr>popping := Pop_load_consumer dst (load_counter P (shared s))\<rparr>)"
| pop_corrupt:
    "popping s = Pop_load_consumer dst producer \<Longrightarrow>
     producer - load_counter C (shared s) > SG2002_RTOS_SHM_SLOT_COUNT \<Longrightarrow>
     pop_step P C S s (Some (Pop_returns SG2002_RTOS_RING_CORRUPT dst)) (s\<lparr>popping := Pop_idle\<rparr>)"
| pop_empty:
    "popping s = Pop_load_consumer dst producer \<Longrightarrow> producer - load_counter C (shared s) = 0 \<Longrightarrow>
     pop_step P C S s (Some (Pop_returns SG2002_RTOS_RING_EMPTY dst)) (s\<lparr>popping := Pop_idle\<rparr>)"
| pop_enter:
    "popping s = Pop_load_consumer dst producer \<Longrightarrow> consumer = load_counter C (shared s) \<Longrightarrow>
     \<not> producer - consumer > SG2002_RTOS_SHM_SLOT_COUNT \<Longrightarrow> producer - consumer \<noteq> 0 \<Longrightarrow>
     pop_step P C S s None (s\<lparr>popping := Pop_copy dst consumer slot_parts\<rparr>)"
| pop_copy:
    "popping s = Pop_copy dst consumer todo \<Longrightarrow> part \<in> set todo \<Longrightarrow>
     i = unat (consumer AND (SG2002_RTOS_SHM_SLOT_COUNT - 1)) \<Longrightarrow>
     pop_step P C S s None
       (s\<lparr>popping := Pop_copy (copy_part part (slots_of S (shared s) ! i) dst) consumer (remove1 part todo)\<rparr>)"
| pop_copied:
    "popping s = Pop_copy dst consumer [] \<Longrightarrow>
     pop_step P C S s None (s\<lparr>popping := Pop_publish dst consumer\<rparr>)"
| pop_publish:
    "popping s = Pop_publish dst consumer \<Longrightarrow>
     result = (if slot_length dst > SG2002_RTOS_SHM_PAYLOAD_SIZE then SG2002_RTOS_RING_CORRUPT
               else SG2002_RTOS_RING_OK) \<Longrightarrow>
     pop_step P C S s (Some (Pop_returns result dst))
       (s\<lparr>shared := store_counter C (consumer + 1) (shared s), popping := Pop_idle\<rparr>)"

text \<open>A run with the events it shows; either side may move at any time.\<close>

inductive ring_run ::
  "counter_ptr \<Rightarrow> counter_ptr \<Rightarrow> slots_ptr \<Rightarrow> ring_machine \<Rightarrow> ring_event list \<Rightarrow> ring_machine \<Rightarrow> bool"
  for P C S s where
  run_start: "ring_run P C S s [] s"
| run_push: "ring_run P C S s es t \<Longrightarrow> push_step P C S t e u \<Longrightarrow>
     ring_run P C S s (case e of None \<Rightarrow> es | Some e \<Rightarrow> es @ [e]) u"
| run_pop: "ring_run P C S s es t \<Longrightarrow> pop_step P C S t e u \<Longrightarrow>
     ring_run P C S s (case e of None \<Rightarrow> es | Some e \<Rightarrow> es @ [e]) u"

text \<open>The messages accepted and delivered in a list of events.\<close>

fun accepted :: "ring_event list \<Rightarrow> sg2002_rtos_shm_slot list" where
  "accepted [] = []"
| "accepted (Push_returns SG2002_RTOS_RING_OK msg # es) = msg # accepted es"
| "accepted (_ # es) = accepted es"

fun delivered :: "ring_event list \<Rightarrow> sg2002_rtos_shm_slot list" where
  "delivered [] = []"
| "delivered (Pop_returns SG2002_RTOS_RING_OK msg # es) = msg # delivered es"
| "delivered (_ # es) = delivered es"

subsection \<open>Copying in parts\<close>

lemma copy_part_idem [simp]: "copy_part p a (copy_part p a b) = copy_part p a b"
  by (cases p) simp_all

lemma copy_part_commute: "copy_part p a (copy_part q a b) = copy_part q a (copy_part p a b)"
  by (cases p; cases q) (auto simp: list_update_swap, metis list_update_overwrite list_update_swap)

text \<open>All parts but those still to do have been copied.\<close>

definition copied_except :: "slot_part list \<Rightarrow> sg2002_rtos_shm_slot \<Rightarrow> sg2002_rtos_shm_slot \<Rightarrow> bool" where
  "copied_except todo a b \<longleftrightarrow> (\<forall>q\<in>set slot_parts - set todo. copy_part q a b = b)"

lemma copied_except_start [simp]: "copied_except slot_parts a b"
  by (simp add: copied_except_def)

lemma copied_except_step:
  assumes "copied_except todo a b"
  shows "copied_except (remove1 p todo) a (copy_part p a b)"
  unfolding copied_except_def
proof
  fix q
  assume q: "q \<in> set slot_parts - set (remove1 p todo)"
  show "copy_part q a (copy_part p a b) = copy_part p a b"
  proof (cases "q = p")
    case False
    with q assms have "copy_part q a b = b" by (simp add: copied_except_def)
    then show ?thesis using copy_part_commute [of q a p b] by simp
  qed simp
qed

lemma slot_wf_copy_part [simp]: "slot_wf (copy_part p a b) = slot_wf b"
  by (cases p) (simp_all add: slot_wf_def)

lemma copied_all:
  assumes "slot_wf a" "slot_wf b" "copied_except [] a b"
  shows "b = a"
proof -
  have all: "\<forall>p\<in>set slot_parts. copy_part p a b = b" using assms(3) by (simp add: copied_except_def)
  have s: "sequence b = sequence a" "slot_length b = slot_length a"
    using all by (auto simp: slot_parts_def) (metis (lifting) sg2002_rtos_shm_slot.ext_inject
      sg2002_rtos_shm_slot.surjective sg2002_rtos_shm_slot.update_convs)+
  have "payload b ! k = payload a ! k" if "k < length (payload b)" for k
  proof -
    have "b\<lparr>payload := (payload b)[k := payload a ! k]\<rparr> = b"
      using assms(2) all that by (auto simp: slot_parts_def slot_wf_def)
    then have "(payload b)[k := payload a ! k] = payload b"
      by (metis sg2002_rtos_shm_slot.select_convs(3) sg2002_rtos_shm_slot.surjective
          sg2002_rtos_shm_slot.update_convs(3))
    with that show ?thesis by (metis nth_list_update_eq)
  qed
  then have "payload b = payload a"
    using assms(1,2) by (intro nth_equalityI) (simp_all add: slot_wf_def)
  with s show ?thesis by simp
qed

subsection \<open>The invariant\<close>

text \<open>The producer's own counter is exact and the place it writes is free; the consumer's own
  counter is exact, its copy of the producer's counter may only be behind, and the slot it reads is
  occupied.\<close>

fun push_inv :: "counter_ptr \<Rightarrow> counter_ptr \<Rightarrow> slots_ptr \<Rightarrow> shm_region \<Rightarrow> push_pc \<Rightarrow> bool" where
  "push_inv P C S m Push_idle = True"
| "push_inv P C S m (Push_load_producer msg) = message_ok msg"
| "push_inv P C S m (Push_load_consumer msg p) = (message_ok msg \<and> p = load_counter P m)"
| "push_inv P C S m (Push_copy msg p todo) = (message_ok msg \<and> p = load_counter P m \<and> ring_count P C m < 64 \<and>
     copied_except todo msg (slots_of S m ! ring_index P m))"
| "push_inv P C S m (Push_publish msg p) = (message_ok msg \<and> p = load_counter P m \<and> ring_count P C m < 64 \<and>
     slots_of S m ! ring_index P m = msg)"

fun pop_inv :: "counter_ptr \<Rightarrow> counter_ptr \<Rightarrow> slots_ptr \<Rightarrow> shm_region \<Rightarrow> pop_pc \<Rightarrow> bool" where
  "pop_inv P C S m Pop_idle = True"
| "pop_inv P C S m (Pop_load_producer dst) = slot_wf dst"
| "pop_inv P C S m (Pop_load_consumer dst p) = (slot_wf dst \<and> unat (p - load_counter C m) \<le> ring_count P C m)"
| "pop_inv P C S m (Pop_copy dst c todo) = (slot_wf dst \<and> c = load_counter C m \<and> 0 < ring_count P C m \<and>
     copied_except todo (pop_message C S m) dst)"
| "pop_inv P C S m (Pop_publish dst c) = (c = load_counter C m \<and> 0 < ring_count P C m \<and> dst = pop_message C S m)"

definition machine_inv :: "counter_ptr \<Rightarrow> counter_ptr \<Rightarrow> slots_ptr \<Rightarrow> ring_machine \<Rightarrow> bool" where
  "machine_inv P C S s \<longleftrightarrow> ring_contents_ok P C S (shared s) \<and> push_inv P C S (shared s) (pushing s) \<and>
     pop_inv P C S (shared s) (popping s)"

lemma pop_inv_mono:
  assumes "pop_inv P C S m pc" "load_counter C m' = load_counter C m" "ring_count P C m \<le> ring_count P C m'"
    and "0 < ring_count P C m \<Longrightarrow> pop_message C S m' = pop_message C S m"
  shows "pop_inv P C S m' pc"
  using assms by (cases pc) auto

lemma push_inv_mono:
  assumes "push_inv P C S m pc" "load_counter P m' = load_counter P m" "ring_count P C m' \<le> ring_count P C m"
    and "slots_of S m' = slots_of S m"
  shows "push_inv P C S m' pc"
  using assms by (cases pc) (auto simp: ring_index_def)

text \<open>Writing the free slot is invisible to the consumer.\<close>

lemma store_free_slot:
  assumes "ring_contents_ok P C S m" "ring_count P C m < 64" "slot_wf x"
  defines "m' \<equiv> store_slot S (ring_index P m) x m"
  shows "ring_contents P C S m' = ring_contents P C S m" "ring_contents_ok P C S m'"
    "ring_count P C m' = ring_count P C m" "ring_index P m' = ring_index P m"
    "0 < ring_count P C m \<Longrightarrow> pop_message C S m' = pop_message C S m"
    "slots_of S m' ! ring_index P m = x"
proof -
  let ?c = "unat (load_counter C m)" and ?n = "ring_count P C m"
  have wf: "region_wf m" using assms(1) by (simp add: ring_contents_ok_def ring_ok_def)
  then have len: "length (slots_of S m) = 64" by (simp add: region_wf_slots)
  have idx: "ring_index P m \<noteq> (?c + i) mod 64" if "i < ?n" for i
    using mod_64_window_inj [of ?c i ?n] that assms(2) producer_index [where P = P and C = C and m = m]
    by auto
  show n: "ring_count P C m' = ?n" and "ring_index P m' = ring_index P m"
    by (simp_all add: m'_def ring_count_def ring_index_def)
  show c: "ring_contents P C S m' = ring_contents P C S m"
    using idx by (auto simp: ring_contents_def n) (simp add: m'_def)
  show "ring_contents_ok P C S m'"
    using assms(1) c n wf by (simp add: ring_contents_ok_def ring_ok_def m'_def region_wf_store_slot assms(3))
  show "pop_message C S m' = pop_message C S m" if "0 < ?n"
    using idx [OF that] by (simp add: pop_message_def m'_def ring_index_def)
  show "slots_of S m' ! ring_index P m = x" using len by (simp add: m'_def)
qed

lemma store_slot_same: "store_slot S i (slots_of S m ! i) m = m"
  by (cases S) simp_all

lemma unat_counter_index: "unat (load_counter P m AND 63) = ring_index P m"
  by (simp add: ring_index_def unat_and_63)

subsection \<open>Steps keep the invariant\<close>

fun event_ok :: "ring_event \<Rightarrow> bool" where
  "event_ok (Push_returns r msg) = (r \<in> {SG2002_RTOS_RING_OK, SG2002_RTOS_RING_FULL} \<or>
     r = SG2002_RTOS_RING_INVALID \<and> slot_length msg > SG2002_RTOS_SHM_PAYLOAD_SIZE)"
| "event_ok (Pop_returns r msg) = (r \<in> {SG2002_RTOS_RING_OK, SG2002_RTOS_RING_EMPTY})"

definition event_list :: "ring_event option \<Rightarrow> ring_event list" where
  "event_list e = (case e of None \<Rightarrow> [] | Some e \<Rightarrow> [e])"

lemma event_list_simps [simp]: "event_list None = []" "event_list (Some e) = [e]"
  by (simp_all add: event_list_def)

lemma push_step_inv:
  assumes "push_step P C S s e t" "P \<noteq> C" "machine_inv P C S s"
  shows "machine_inv P C S t \<and> list_all event_ok (event_list e) \<and> popping t = popping s \<and>
    ring_contents P C S (shared s) @ accepted (event_list e) =
    delivered (event_list e) @ ring_contents P C S (shared t)"
  using assms
proof (induction rule: push_step.induct)
  case (push_copy s msg producer todo part i)
  let ?m = "shared s"
  have v: "ring_contents_ok P C S ?m" "ring_count P C ?m < 64" "i = ring_index P ?m" "message_ok msg"
    "producer = load_counter P ?m" "copied_except todo msg (slots_of S ?m ! i)"
    using push_copy by (simp_all add: machine_inv_def unat_counter_index)
  let ?x = "copy_part part msg (slots_of S ?m ! i)"
  have "slot_wf (slots_of S ?m ! i)"
    using v(1,3) by (auto simp: ring_contents_ok_def ring_ok_def region_wf_slots list_all_length)
  then have x: "slot_wf ?x" by simp
  note f = store_free_slot [OF v(1,2) x, folded v(3)]
  have "pop_inv P C S (store_slot S i ?x ?m) (popping s)"
    by (rule pop_inv_mono [of P C S ?m]) (use push_copy.prems(2) f(3,5) in \<open>simp_all add: machine_inv_def\<close>)
  moreover have "push_inv P C S (store_slot S i ?x ?m) (Push_copy msg producer (remove1 part todo))"
    using v(2,4,5) f(3,4,6) copied_except_step [OF v(6), of part] by simp
  ultimately show ?case using f(1,2) by (simp add: machine_inv_def)
next
  case (push_publish s msg producer)
  let ?m = "shared s"
  have v: "ring_contents_ok P C S ?m" "ring_count P C ?m < 64" "producer = load_counter P ?m" "message_ok msg"
    "slots_of S ?m ! ring_index P ?m = msg"
    using push_publish by (simp_all add: machine_inv_def)
  have e: "store_counter P (producer + 1) ?m = push_effect P S msg ?m"
    using v(3,5) store_slot_same [of S "ring_index P ?m" ?m] by (simp add: push_effect_def)
  have c: "ring_contents P C S (push_effect P S msg ?m) = ring_contents P C S ?m @ [msg]"
    using v(1,2) push_publish.prems(1) by (intro contents_push) (simp_all add: ring_contents_ok_def ring_ok_def)
  have n: "ring_count P C (push_effect P S msg ?m) = Suc (ring_count P C ?m)"
    using c by (metis length_append_singleton length_ring_contents)
  have p: "pop_message C S (push_effect P S msg ?m) = pop_message C S ?m"
    using push_publish.prems(1) by (simp add: e [symmetric] pop_message_def ring_index_def)
  have "pop_inv P C S (push_effect P S msg ?m) (popping s)"
    by (rule pop_inv_mono [of P C S ?m]) (use push_publish.prems n p in \<open>simp_all add: machine_inv_def push_effect_def\<close>)
  then show ?case
    using ring_contents_ok_push [OF push_publish.prems(1) v(1,2,4)] c
    by (simp add: machine_inv_def e)
next
  case (push_copied s msg producer)
  let ?m = "shared s"
  have "slot_wf (slots_of S ?m ! ring_index P ?m)"
    using push_copied.prems(2)
    by (simp add: machine_inv_def ring_contents_ok_def ring_ok_def region_wf_slots list_all_length)
  then show ?case
    using push_copied copied_all [of msg "slots_of S ?m ! ring_index P ?m"]
    by (simp add: machine_inv_def message_ok_def)
qed (simp_all add: machine_inv_def message_ok_def not_less ring_contents_ok_def ring_ok_def ring_count_word)

lemma pop_step_inv:
  assumes "pop_step P C S s e t" "P \<noteq> C" "machine_inv P C S s"
  shows "machine_inv P C S t \<and> list_all event_ok (event_list e) \<and> pushing t = pushing s \<and>
    ring_contents P C S (shared s) @ accepted (event_list e) =
    delivered (event_list e) @ ring_contents P C S (shared t)"
  using assms
proof (induction rule: pop_step.induct)
  case (pop_load_producer s dst)
  then show ?case by (simp add: machine_inv_def ring_count_def)
next
  case (pop_corrupt s dst producer)
  then have "unat (producer - load_counter C (shared s)) \<le> 64"
    by (simp add: machine_inv_def ring_contents_ok_def ring_ok_def)
  with pop_corrupt(2) show ?case by (simp add: word_less_nat_alt)
next
  case (pop_enter s dst producer consumer)
  have "unat (producer - consumer) \<noteq> 0" using pop_enter(4) by (simp only: unat_eq_0 not_False_eq_True)
  then show ?case using pop_enter by (simp add: machine_inv_def)
next
  case (pop_copy s dst consumer todo part i)
  then show ?case
    using copied_except_step [of todo "pop_message C S (shared s)" dst part]
    by (simp add: machine_inv_def unat_counter_index flip: pop_message_def)
next
  case (pop_copied s dst consumer)
  let ?m = "shared s"
  have "slot_wf (pop_message C S ?m)"
    using pop_copied.prems(2)
    by (simp add: machine_inv_def ring_contents_ok_def ring_ok_def region_wf_slots list_all_length pop_message_def)
  then show ?case using pop_copied copied_all [of "pop_message C S ?m" dst] by (simp add: machine_inv_def)
next
  case (pop_publish s dst consumer result)
  let ?m = "shared s"
  have v: "ring_contents_ok P C S ?m" "0 < ring_count P C ?m" "consumer = load_counter C ?m"
    "dst = pop_message C S ?m"
    using pop_publish by (simp_all add: machine_inv_def)
  have e: "store_counter C (consumer + 1) ?m = pop_effect C ?m" using v(3) by (simp add: pop_effect_def)
  have c: "ring_contents P C S ?m = dst # ring_contents P C S (pop_effect C ?m)"
    using ring_contents_cons [OF v(2), of S] contents_pop [OF pop_publish.prems(1) v(2), of S] v(4) by simp
  then have "message_ok dst" using v(1) by (simp add: ring_contents_ok_def)
  then have r: "result = SG2002_RTOS_RING_OK" using pop_publish by (simp add: message_ok_def not_less)
  have "push_inv P C S (pop_effect C ?m) (pushing s)"
    by (rule push_inv_mono [of P C S ?m]) (use pop_publish.prems ring_count_pop [OF pop_publish.prems(1) v(2)] in \<open>simp_all add: machine_inv_def pop_effect_def\<close>)
  then show ?case
    using ring_contents_ok_pop [OF pop_publish.prems(1) v(1,2)] c r by (simp add: machine_inv_def e)
qed (auto simp: machine_inv_def)

lemma accepted_append [simp]: "accepted (xs @ ys) = accepted xs @ accepted ys"
  by (induction xs rule: accepted.induct) simp_all

lemma delivered_append [simp]: "delivered (xs @ ys) = delivered xs @ delivered ys"
  by (induction xs rule: delivered.induct) simp_all

lemma event_append: "(case e of None \<Rightarrow> es | Some e \<Rightarrow> es @ [e]) = es @ event_list e"
  by (simp add: event_list_def split: option.splits)

lemma ring_run_inv:
  assumes "ring_run P C S s es t" "P \<noteq> C" "machine_inv P C S s"
  shows "machine_inv P C S t \<and> list_all event_ok es \<and>
    ring_contents P C S (shared s) @ accepted es = delivered es @ ring_contents P C S (shared t)"
  using assms
proof (induction rule: ring_run.induct)
  case (run_push es t e u)
  with push_step_inv [OF run_push.hyps(2)] show ?case
    unfolding event_append by (metis accepted_append append.assoc delivered_append list_all_append)
next
  case (run_pop es t e u)
  with pop_step_inv [OF run_pop.hyps(2)] show ?case
    unfolding event_append by (metis accepted_append append.assoc delivered_append list_all_append)
qed simp

subsection \<open>Every operation finishes\<close>

text \<open>An upper bound on the steps a side still takes before it returns.\<close>

fun push_work :: "push_pc \<Rightarrow> nat" where
  "push_work Push_idle = 0"
| "push_work (Push_load_producer _) = 4 + length slot_parts"
| "push_work (Push_load_consumer _ _) = 3 + length slot_parts"
| "push_work (Push_copy _ _ todo) = 2 + length todo"
| "push_work (Push_publish _ _) = 1"

fun pop_work :: "pop_pc \<Rightarrow> nat" where
  "pop_work Pop_idle = 0"
| "pop_work (Pop_load_producer _) = 4 + length slot_parts"
| "pop_work (Pop_load_consumer _ _) = 3 + length slot_parts"
| "pop_work (Pop_copy _ _ todo) = 2 + length todo"
| "pop_work (Pop_publish _ _) = 1"

lemma length_remove1_less: "x \<in> set xs \<Longrightarrow> length (remove1 x xs) < length xs"
  using length_pos_if_in_set [of x xs] by (simp add: length_remove1)

lemma push_step_work:
  "push_step P C S s e t \<Longrightarrow> pushing s \<noteq> Push_idle \<Longrightarrow> push_work (pushing t) < push_work (pushing s)"
  by (induction rule: push_step.induct) (simp_all add: length_remove1_less)

lemma pop_step_work:
  "pop_step P C S s e t \<Longrightarrow> popping s \<noteq> Pop_idle \<Longrightarrow> pop_work (popping t) < pop_work (popping s)"
  by (induction rule: pop_step.induct) (simp_all add: length_remove1_less)

lemma push_step_popping: "push_step P C S s e t \<Longrightarrow> popping t = popping s"
  by (induction rule: push_step.induct) simp_all

lemma push_step_frame:
  "push_step P C S s e t \<Longrightarrow> P \<noteq> C \<Longrightarrow>
   popping t = popping s \<and> load_counter C (shared t) = load_counter C (shared s)"
  by (induction rule: push_step.induct) simp_all

lemma pop_step_pushing: "pop_step P C S s e t \<Longrightarrow> pushing t = pushing s"
  by (induction rule: pop_step.induct) simp_all

lemma push_step_exists: "\<exists>e t. push_step P C S s e t"
proof (cases "pushing s")
  case Push_idle
  then show ?thesis by (meson push_call slot_wf_zero_slot push_invalid)
next
  case (Push_load_consumer msg producer)
  then show ?thesis
    by (cases "producer - load_counter C (shared s)" "SG2002_RTOS_SHM_SLOT_COUNT :: u32" rule: linorder_cases)
      (blast intro: push_enter push_full push_corrupt)+
next
  case (Push_copy msg producer todo)
  then show ?thesis by (cases todo) (blast intro: push_copied push_step.push_copy [OF _ list.set_intros(1) refl])+
qed (blast intro: push_load_producer push_publish)+

lemma pop_step_exists: "\<exists>e t. pop_step P C S s e t"
proof (cases "popping s")
  case Pop_idle
  then show ?thesis by (meson pop_call slot_wf_zero_slot)
next
  case (Pop_load_consumer dst producer)
  then show ?thesis
    by (cases "producer - load_counter C (shared s) > SG2002_RTOS_SHM_SLOT_COUNT";
        cases "producer - load_counter C (shared s) = 0")
      (blast intro: pop_enter pop_empty pop_corrupt)+
next
  case (Pop_copy dst consumer todo)
  then show ?thesis by (cases todo) (blast intro: pop_copied pop_step.pop_copy [OF _ list.set_intros(1) refl])+
qed (blast intro: pop_load_producer pop_publish)+

subsection \<open>Undisturbed runs\<close>

lemma ring_run_trans:
  "ring_run P C S s es t \<Longrightarrow> ring_run P C S t es' u \<Longrightarrow> ring_run P C S s (es @ es') u"
proof (rotate_tac 1, induction rule: ring_run.induct)
  case (run_push es' t' e u)
  from ring_run.run_push [OF run_push.IH [OF run_push.prems] run_push.hyps(2)] show ?case
    by (simp add: event_append)
next
  case (run_pop es' t' e u)
  from ring_run.run_pop [OF run_pop.IH [OF run_pop.prems] run_pop.hyps(2)] show ?case
    by (simp add: event_append)
qed simp

lemma run_one_push: "push_step P C S s e t \<Longrightarrow> ring_run P C S s (event_list e) t"
  using run_push [OF run_start] by (simp add: event_append)

lemma run_one_pop: "pop_step P C S s e t \<Longrightarrow> ring_run P C S s (event_list e) t"
  using run_pop [OF run_start] by (simp add: event_append)

lemma fold_copied: "copied_except todo a b \<Longrightarrow> copied_except [] a (fold (\<lambda>q. copy_part q a) todo b)"
proof (induction todo arbitrary: b)
  case (Cons q todo)
  from copied_except_step [OF Cons.prems, of q] have "copied_except todo a (copy_part q a b)" by simp
  from Cons.IH [OF this] show ?case by simp
qed simp

lemma slot_wf_fold [simp]: "slot_wf (fold (\<lambda>q. copy_part q a) todo b) = slot_wf b"
  by (induction todo arbitrary: b) simp_all

lemma fold_slot_parts:
  assumes "slot_wf a" "slot_wf b"
  shows "fold (\<lambda>q. copy_part q a) slot_parts b = a"
  using copied_all [OF assms(1) _ fold_copied [OF copied_except_start]] assms(2) by simp

lemma push_copy_run:
  assumes "pushing s = Push_copy msg producer todo" "i = unat (producer AND 63)" "i < length (slots_of S (shared s))"
  shows "ring_run P C S s [] (s\<lparr>shared := store_slot S i (fold (\<lambda>q. copy_part q msg) todo (slots_of S (shared s) ! i)) (shared s),
    pushing := Push_copy msg producer []\<rparr>)"
  using assms
proof (induction todo arbitrary: s)
  case Nil
  then have "s\<lparr>shared := store_slot S i (fold (\<lambda>q. copy_part q msg) [] (slots_of S (shared s) ! i)) (shared s),
      pushing := Push_copy msg producer []\<rparr> = s"
    by (simp add: store_slot_same)
  then show ?case by (simp only: run_start)
next
  case (Cons q todo)
  let ?x = "copy_part q msg (slots_of S (shared s) ! i)"
  let ?t = "s\<lparr>shared := store_slot S i ?x (shared s), pushing := Push_copy msg producer todo\<rparr>"
  have "push_step P C S s None ?t"
    using push_step.push_copy [OF Cons.prems(1), of q i P C S] Cons.prems(2) by simp
  then have "ring_run P C S s [] ?t" using run_one_push by fastforce
  from ring_run_trans [OF this Cons.IH [of ?t]] Cons.prems show ?case
    by (cases S) simp_all
qed

lemma pop_copy_run:
  assumes "popping s = Pop_copy dst consumer todo" "i = unat (consumer AND 63)"
  shows "ring_run P C S s [] (s\<lparr>popping := Pop_copy (fold (\<lambda>q. copy_part q (slots_of S (shared s) ! i)) todo dst) consumer []\<rparr>)"
  using assms
proof (induction todo arbitrary: s dst)
  case Nil
  then have "s\<lparr>popping := Pop_copy (fold (\<lambda>q. copy_part q (slots_of S (shared s) ! i)) [] dst) consumer []\<rparr> = s" by simp
  then show ?case by (simp only: run_start)
next
  case (Cons q todo)
  let ?x = "copy_part q (slots_of S (shared s) ! i) dst"
  let ?t = "s\<lparr>popping := Pop_copy ?x consumer todo\<rparr>"
  have "pop_step P C S s None ?t"
    using pop_step.pop_copy [OF Cons.prems(1), of q i P C S] Cons.prems(2) by simp
  then have "ring_run P C S s [] ?t" using run_one_pop by fastforce
  from ring_run_trans [OF this Cons.IH [of ?t ?x]] Cons.prems show ?case by simp
qed

lemma idle_again:
  "pushing s = Push_idle \<Longrightarrow> s\<lparr>shared := m, pushing := Push_idle\<rparr> = s\<lparr>shared := m\<rparr>"
  "popping s = Pop_idle \<Longrightarrow> s\<lparr>shared := m, popping := Pop_idle\<rparr> = s\<lparr>shared := m\<rparr>"
  by (cases s; simp)+

lemma push_run_sequential:
  assumes "ring_ptrs r P C S" "ops_transparent r" "region_wf (view w)" "slot_wf msg"
    and "pushing s = Push_idle" "shared s = view w"
    and "sg2002_rtos_ring_try_push (Some r) (Some msg) w = (result, w')"
  shows "ring_run P C S s [Push_returns result msg] (s\<lparr>shared := view w'\<rparr>)"
proof -
  note seq = assms(7) [unfolded try_push_uncached [OF assms(1,2)]]
  let ?m = "shared s"
  let ?occ = "load_counter P ?m - load_counter C ?m"
  have ms: "s\<lparr>shared := ?m, pushing := Push_idle\<rparr> = s" "s\<lparr>shared := view w\<rparr> = s"
    unfolding assms(6) [symmetric] using assms(5) by simp_all
  show ?thesis
  proof (cases "slot_length msg > SG2002_RTOS_SHM_PAYLOAD_SIZE")
    case True
    have "ring_run P C S s [Push_returns SG2002_RTOS_RING_INVALID msg] s"
      using run_one_push [OF push_invalid [OF assms(5,4) True]] by simp
    moreover have "w' = w" "result = SG2002_RTOS_RING_INVALID" using seq True by simp_all
    ultimately show ?thesis by (simp only: ms(2))
  next
    case False
    let ?s1 = "s\<lparr>pushing := Push_load_producer msg\<rparr>"
    let ?s2 = "s\<lparr>pushing := Push_load_consumer msg (load_counter P ?m)\<rparr>"
    have 1: "ring_run P C S s [] ?s1" using run_one_push [OF push_call [OF assms(5,4) False]] by simp
    have 2: "ring_run P C S ?s1 [] ?s2" using run_one_push [OF push_load_producer [of ?s1 msg]] by simp
    note 12 = ring_run_trans [OF 1 2, simplified]
    consider "?occ > 64" | "?occ = 64" | "?occ < 64" by (metis linorder_less_linear)
    then show ?thesis
    proof cases
      case 1
      have "ring_run P C S ?s2 [Push_returns SG2002_RTOS_RING_CORRUPT msg] s"
        using run_one_push [OF push_corrupt [of ?s2 msg "load_counter P ?m" C]] 1 ms by simp
      moreover have "w' = w" "result = SG2002_RTOS_RING_CORRUPT"
        using seq False 1 assms(6) by (simp_all add: ring_count_word split: if_splits)
      ultimately show ?thesis using ring_run_trans [OF 12] by (simp only: ms(2) append.simps)
    next
      case 2
      have "ring_run P C S ?s2 [Push_returns SG2002_RTOS_RING_FULL msg] s"
        using run_one_push [OF push_full [of ?s2 msg "load_counter P ?m" C]] 2 ms by simp
      moreover have "w' = w" "result = SG2002_RTOS_RING_FULL"
        using seq False 2 assms(6) by (simp_all add: ring_count_word split: if_splits)
      ultimately show ?thesis using ring_run_trans [OF 12] by (simp only: ms(2) append.simps)
    next
      case 3
      let ?i = "ring_index P ?m"
      let ?s3 = "s\<lparr>pushing := Push_copy msg (load_counter P ?m) slot_parts\<rparr>"
      let ?s4 = "s\<lparr>shared := store_slot S ?i msg ?m, pushing := Push_copy msg (load_counter P ?m) []\<rparr>"
      let ?s5 = "?s4\<lparr>pushing := Push_publish msg (load_counter P ?m)\<rparr>"
      have i: "?i < length (slots_of S ?m)" "slot_wf (slots_of S ?m ! ?i)"
        using assms(3) by (simp_all add: assms(6) region_wf_slots list_all_length)
      have 3: "ring_run P C S ?s2 [] ?s3"
        using run_one_push [OF push_enter [of ?s2 msg "load_counter P ?m" C]] 3 by simp
      have 4: "ring_run P C S ?s3 [] ?s4"
        using push_copy_run [of ?s3 msg "load_counter P ?m" slot_parts ?i S P C] i
        by (simp add: unat_counter_index fold_slot_parts [OF assms(4) i(2)])
      have 5: "ring_run P C S ?s4 [] ?s5" using run_one_push [OF push_copied [of ?s4]] by simp
      have 6: "ring_run P C S ?s5 [Push_returns SG2002_RTOS_RING_OK msg] (s\<lparr>shared := push_effect P S msg ?m\<rparr>)"
        using run_one_push [OF push_publish [of ?s5 msg "load_counter P ?m" P C S]]
        by (simp add: push_effect_def idle_again(1) [OF assms(5)])
      have "ring_count P C ?m < 64" using \<open>?occ < 64\<close> by (simp add: ring_count_word)
      with ring_run_trans [OF ring_run_trans [OF ring_run_trans [OF ring_run_trans [OF 12 3] 4] 5] 6] show ?thesis
        using seq False assms(6) by auto
    qed
  qed
qed

lemma pop_run_sequential:
  assumes "ring_ptrs r P C S" "ops_transparent r" "region_wf (view w)" "slot_wf old"
    and "popping s = Pop_idle" "shared s = view w"
    and "sg2002_rtos_ring_try_pop (Some r) (Some old) w = (result, Some msg, w')"
  shows "ring_run P C S s [Pop_returns result msg] (s\<lparr>shared := view w'\<rparr>)"
proof -
  note seq = assms(7) [unfolded try_pop_uncached [OF assms(1,2)]]
  let ?m = "shared s"
  let ?occ = "load_counter P ?m - load_counter C ?m"
  have ms: "s\<lparr>shared := ?m, popping := Pop_idle\<rparr> = s" "s\<lparr>shared := view w\<rparr> = s"
    unfolding assms(6) [symmetric] using assms(5) by simp_all
  let ?s1 = "s\<lparr>popping := Pop_load_producer old\<rparr>"
  let ?s2 = "s\<lparr>popping := Pop_load_consumer old (load_counter P ?m)\<rparr>"
  have 1: "ring_run P C S s [] ?s1" using run_one_pop [OF pop_call [OF assms(5,4)]] by simp
  have 2: "ring_run P C S ?s1 [] ?s2" using run_one_pop [OF pop_load_producer [of ?s1 old]] by simp
  note 12 = ring_run_trans [OF 1 2, simplified]
  consider "?occ > 64" | "?occ = 0" | "\<not> ?occ > 64" "?occ \<noteq> 0" by blast
  then show ?thesis
  proof cases
    case 1
    have "ring_run P C S ?s2 [Pop_returns SG2002_RTOS_RING_CORRUPT old] s"
      using run_one_pop [OF pop_corrupt [of ?s2 old "load_counter P ?m" C]] 1 ms by simp
    moreover have "w' = w" "result = SG2002_RTOS_RING_CORRUPT" "msg = old"
      using seq 1 assms(6) by (simp_all add: ring_count_word)
    ultimately show ?thesis using ring_run_trans [OF 12] by (simp only: ms(2) append.simps)
  next
    case 2
    have "ring_run P C S ?s2 [Pop_returns SG2002_RTOS_RING_EMPTY old] s"
      using run_one_pop [OF pop_empty [of ?s2 old "load_counter P ?m" C]] 2 ms by simp
    moreover have "ring_count P C ?m = 0" using 2 ring_count_word(4) by blast
    moreover have "w' = w" "result = SG2002_RTOS_RING_EMPTY" "msg = old"
      using seq assms(6) \<open>ring_count P C ?m = 0\<close> by simp_all
    ultimately show ?thesis using ring_run_trans [OF 12] by (simp only: ms(2) append.simps)
  next
    case 3
    let ?x = "pop_message C S ?m"
    let ?c = "load_counter C ?m"
    let ?s3 = "s\<lparr>popping := Pop_copy old ?c slot_parts\<rparr>"
    let ?s4 = "s\<lparr>popping := Pop_copy ?x ?c []\<rparr>"
    let ?s5 = "s\<lparr>popping := Pop_publish ?x ?c\<rparr>"
    have x: "slot_wf ?x"
      using assms(3) by (simp add: assms(6) region_wf_slots list_all_length pop_message_def)
    have s3: "ring_run P C S ?s2 [] ?s3"
      using run_one_pop [OF pop_enter [of ?s2 old "load_counter P ?m" ?c C]] 3 by simp
    have s4: "ring_run P C S ?s3 [] ?s4"
      using pop_copy_run [of ?s3 old ?c slot_parts "ring_index C ?m" P C S]
      by (simp add: unat_counter_index fold_slot_parts [OF x assms(4)] flip: pop_message_def)
    have s5: "ring_run P C S ?s4 [] ?s5" using run_one_pop [OF pop_copied [of ?s4]] by simp
    have n: "\<not> ring_count P C ?m > 64" "ring_count P C ?m \<noteq> 0"
      using 3 ring_count_word(1,4) by blast+
    have s6: "ring_run P C S ?s5 [Pop_returns (if slot_length ?x > SG2002_RTOS_SHM_PAYLOAD_SIZE
        then SG2002_RTOS_RING_CORRUPT else SG2002_RTOS_RING_OK) ?x] (s\<lparr>shared := pop_effect C ?m\<rparr>)"
      using run_one_pop [OF pop_publish [of ?s5 ?x ?c _ P C S, OF _ refl]]
      by (simp add: pop_effect_def idle_again(2) [OF assms(5)])
    from ring_run_trans [OF ring_run_trans [OF ring_run_trans [OF ring_run_trans [OF 12 s3] s4] s5] s6] show ?thesis
      using seq n assms(6) by (auto simp: Let_def)
  qed
qed

text \<open>An empty ring with both sides idle, for concrete evaluations.\<close>

definition idle_machine :: "shm_region \<Rightarrow> ring_machine" where
  "idle_machine m = \<lparr>shared = m, pushing = Push_idle, popping = Pop_idle\<rparr>"

lemma idle_machine_inv: "ring_contents_ok P C S m \<Longrightarrow> machine_inv P C S (idle_machine m)"
  by (simp add: machine_inv_def idle_machine_def)

subsection \<open>Properties\<close>

text \<open>Property C4: the ring needs no lock. However the accesses of the pushing and of the popping
  processor interleave, down to the parts of a message being copied, the messages in the ring at the
  start and those accepted since are exactly the messages delivered so far followed by those still in
  the ring, in order; so every message is delivered complete and at most once. The ring never holds
  more than 64 messages, and neither side ever reports corruption or refuses a valid message.\<close>

theorem ring_is_lock_free_fifo:
  assumes "P \<noteq> C" "ring_contents_ok P C S m" "ring_run P C S (idle_machine m) es t"
  shows "ring_contents P C S m @ accepted es = delivered es @ ring_contents P C S (shared t) \<and>
    length (ring_contents P C S (shared t)) \<le> 64 \<and> list_all event_ok es"
  using ring_run_inv [OF assms(3,1) idle_machine_inv [OF assms(2)]]
  by (simp add: machine_inv_def ring_contents_ok_def ring_ok_def idle_machine_def)

theorem ring_is_lock_free_fifo_witness:
  "\<exists>t. ring_run Request_producer Request_consumer Request_slots (idle_machine blank_region)
      [Push_returns SG2002_RTOS_RING_OK zero_slot] t \<and>
    ring_contents Request_producer Request_consumer Request_slots (shared t) = [zero_slot]"
proof -
  let ?w = "\<lparr>view = blank_region\<rparr>"
  have e: "ring_contents Request_producer Request_consumer Request_slots blank_region = []"
    by (simp add: ring_contents_def ring_count_def blank_region_def)
  have ok: "ring_contents_ok Request_producer Request_consumer Request_slots blank_region"
    by (simp add: ring_contents_ok_def e ring_ok_def ring_count_def) (simp add: blank_region_def)
  have n: "ring_count Request_producer Request_consumer blank_region = 0" using e contents_nil by blast
  obtain w' where p: "sg2002_rtos_ring_try_push (Some plain_ring) (Some zero_slot) ?w = (SG2002_RTOS_RING_OK, w')"
    using try_push_uncached [OF plain_ring_ok, of zero_slot ?w] n by (simp add: zero_slot_def)
  have run: "ring_run Request_producer Request_consumer Request_slots (idle_machine blank_region)
      [Push_returns SG2002_RTOS_RING_OK zero_slot] ((idle_machine blank_region)\<lparr>shared := view w'\<rparr>)"
    by (rule push_run_sequential [OF plain_ring_ok _ slot_wf_zero_slot _ _ p])
      (simp_all add: idle_machine_def)
  from ring_is_lock_free_fifo [OF _ ok run] run e show ?thesis by auto
qed

text \<open>Property C29: the answers FULL and EMPTY are true at a moment during the call, however many
  steps the other side takes in between. When a push answers FULL, the ring holds 64 messages. When
  a pop that loaded the producer's counter in state \<open>a\<close> answers EMPTY after any number of steps of
  the pushing side, the ring was empty in state \<open>a\<close>.\<close>

theorem ring_results_justified:
  assumes "P \<noteq> C" "ring_contents_ok P C S m" "ring_run P C S (idle_machine m) es s"
    and "push_step P C S s (Some (Push_returns SG2002_RTOS_RING_FULL msg)) t"
    and "popping a = Pop_load_producer dst" "pop_step P C S a None b"
    and "(\<lambda>x y. \<exists>e. push_step P C S x e y)\<^sup>*\<^sup>* b c"
    and "pop_step P C S c (Some (Pop_returns SG2002_RTOS_RING_EMPTY dst')) d"
  shows "length (ring_contents P C S (shared s)) = 64 \<and> ring_contents P C S (shared a) = []"
proof
  have inv: "machine_inv P C S s"
    using ring_run_inv [OF assms(3,1) idle_machine_inv [OF assms(2)]] by simp
  show "length (ring_contents P C S (shared s)) = 64"
    using assms(4) inv by (cases rule: push_step.cases) (simp_all add: machine_inv_def ring_count_word(3))
  have b: "popping b = Pop_load_consumer dst (load_counter P (shared a))" "shared b = shared a"
    using assms(6,5) by (cases rule: pop_step.cases; simp)+
  have "popping c = popping b \<and> load_counter C (shared c) = load_counter C (shared b)"
    using assms(7)
  proof (induction rule: rtranclp_induct)
    case (step x y)
    then show ?case using push_step_frame [OF _ assms(1)] by metis
  qed simp
  with assms(8) b have "load_counter P (shared a) - load_counter C (shared a) = 0"
    by (cases rule: pop_step.cases) simp_all
  then show "ring_contents P C S (shared a) = []" using ring_count_word(4) contents_nil by metis
qed

text \<open>Property C30: both sides are wait-free. Whatever the other side has done, a side inside an
  operation always has a step to take; each of its steps brings it closer to its return, at most
  1024 of them, and no step of the other side sets it back.\<close>

theorem ring_is_wait_free:
  "(\<exists>e t. push_step P C S s e t) \<and> (\<exists>e t. pop_step P C S s e t) \<and>
   (push_step P C S s e t \<longrightarrow> popping t = popping s \<and>
     (pushing s \<noteq> Push_idle \<longrightarrow> push_work (pushing t) < push_work (pushing s)) \<and>
     (pushing s = Push_idle \<longrightarrow> push_work (pushing t) \<le> 1024)) \<and>
   (pop_step P C S s e t \<longrightarrow> pushing t = pushing s \<and>
     (popping s \<noteq> Pop_idle \<longrightarrow> pop_work (popping t) < pop_work (popping s)) \<and>
     (popping s = Pop_idle \<longrightarrow> pop_work (popping t) \<le> 1024)) \<and>
   (push_work (pushing s) = 0 \<longleftrightarrow> pushing s = Push_idle) \<and> (pop_work (popping s) = 0 \<longleftrightarrow> popping s = Pop_idle)"
proof -
  have n: "length slot_parts = 1020" by (simp add: slot_parts_def)
  have "push_work (pushing t) \<le> 1024" if "push_step P C S s e t" "pushing s = Push_idle"
    using that by (cases rule: push_step.cases) (simp_all add: n)
  moreover have "pop_work (popping t) \<le> 1024" if "pop_step P C S s e t" "popping s = Pop_idle"
    using that by (cases rule: pop_step.cases) (simp_all add: n)
  moreover have "push_work (pushing s) = 0 \<longleftrightarrow> pushing s = Push_idle" by (cases "pushing s") simp_all
  moreover have "pop_work (popping s) = 0 \<longleftrightarrow> popping s = Pop_idle" by (cases "popping s") simp_all
  ultimately show ?thesis
    by (simp add: push_step_exists pop_step_exists push_step_work pop_step_work push_step_popping pop_step_pushing)
qed

theorem ring_results_justified_witness:
  "length (ring_contents Request_producer Request_consumer Request_slots (blank_region\<lparr>request_producer := 64\<rparr>)) = 64 \<and>
   ring_contents Request_producer Request_consumer Request_slots blank_region = []"
proof -
  let ?P = Request_producer and ?C = Request_consumer and ?S = Request_slots
  let ?m = "blank_region\<lparr>request_producer := 64\<rparr>"
  let ?s0 = "idle_machine ?m"
  let ?s1 = "?s0\<lparr>pushing := Push_load_producer zero_slot\<rparr>"
  let ?s2 = "?s0\<lparr>pushing := Push_load_consumer zero_slot 64\<rparr>"
  let ?a = "(idle_machine blank_region)\<lparr>popping := Pop_load_producer zero_slot\<rparr>"
  let ?b = "?a\<lparr>popping := Pop_load_consumer zero_slot (load_counter ?P blank_region)\<rparr>"
  have n: "ring_count ?P ?C ?m = 64" by (simp add: ring_count_def blank_region_def)
  have wf: "region_wf ?m" using region_wf_blank by (simp add: region_wf_def)
  have z: "\<forall>x\<in>set (ring_contents ?P ?C ?S ?m). x = zero_slot"
    by (auto simp: ring_contents_def blank_region_def)
  have ok: "ring_contents_ok ?P ?C ?S ?m"
    using n wf z message_ok_zero by (auto simp: ring_contents_ok_def ring_ok_def list_all_iff)
  have "push_step ?P ?C ?S ?s0 None ?s1"
    by (rule push_call) (simp_all add: idle_machine_def zero_slot_def slot_wf_def)
  moreover have "push_step ?P ?C ?S ?s1 None ?s2"
    using push_load_producer [of ?s1 zero_slot ?P ?C ?S] by (simp add: idle_machine_def)
  ultimately have run: "ring_run ?P ?C ?S ?s0 [] ?s2"
    using ring_run_trans [OF run_one_push run_one_push] by fastforce
  have full: "push_step ?P ?C ?S ?s2 (Some (Push_returns SG2002_RTOS_RING_FULL zero_slot)) (?s2\<lparr>pushing := Push_idle\<rparr>)"
    by (rule push_full) (simp_all add: idle_machine_def blank_region_def)
  have a: "popping ?a = Pop_load_producer zero_slot" by simp
  have b: "pop_step ?P ?C ?S ?a None ?b"
    using pop_load_producer [OF a, of ?P ?C ?S] by (simp add: idle_machine_def)
  have c: "pop_step ?P ?C ?S ?b (Some (Pop_returns SG2002_RTOS_RING_EMPTY zero_slot)) (?b\<lparr>popping := Pop_idle\<rparr>)"
    by (rule pop_empty) (simp_all add: idle_machine_def blank_region_def)
  from ring_results_justified [OF _ ok run full a b rtranclp.rtrancl_refl c] show ?thesis
    by (simp add: idle_machine_def)
qed

theorem ring_is_wait_free_witness:
  "push_work (pushing ((idle_machine blank_region)\<lparr>pushing := Push_load_producer zero_slot\<rparr>)) \<le> 1024"
proof -
  let ?s = "idle_machine blank_region"
  have "push_step Request_producer Request_consumer Request_slots ?s None (?s\<lparr>pushing := Push_load_producer zero_slot\<rparr>)"
    by (rule push_call) (simp_all add: idle_machine_def zero_slot_def slot_wf_def)
  then show ?thesis
    using ring_is_wait_free [of Request_producer Request_consumer Request_slots ?s None
        "?s\<lparr>pushing := Push_load_producer zero_slot\<rparr>"] by (simp add: idle_machine_def)
qed

text \<open>The machine is the code. When the other side is idle throughout, a push and a pop
  of the machine have exactly the result, the message and the memory of the sequential operations,
  on every branch and for any contents of the memory.\<close>

theorem machine_refines_sequential:
  assumes "ring_ptrs r P C S" "ops_transparent r" "region_wf m" "slot_wf msg" "slot_wf old"
    and "sg2002_rtos_ring_try_push (Some r) (Some msg) \<lparr>view = m\<rparr> = (pushed, w1)"
    and "sg2002_rtos_ring_try_pop (Some r) (Some old) \<lparr>view = m\<rparr> = (popped, Some got, w2)"
  shows "ring_run P C S (idle_machine m) [Push_returns pushed msg] (idle_machine (view w1)) \<and>
    ring_run P C S (idle_machine m) [Pop_returns popped got] (idle_machine (view w2))"
  using push_run_sequential [OF assms(1,2) _ assms(4) _ _ assms(6), of "idle_machine m"]
    pop_run_sequential [OF assms(1,2) _ assms(5) _ _ assms(7), of "idle_machine m"] assms(3)
  by (simp add: idle_machine_def)

theorem machine_refines_sequential_witness:
  "ring_run Request_producer Request_consumer Request_slots (idle_machine blank_region)
     [Pop_returns SG2002_RTOS_RING_EMPTY zero_slot] (idle_machine blank_region)"
proof -
  let ?w = "\<lparr>view = blank_region\<rparr>"
  have "ring_count Request_producer Request_consumer blank_region = 0"
    by (simp add: ring_count_def blank_region_def)
  then have "sg2002_rtos_ring_try_pop (Some plain_ring) (Some zero_slot) ?w = (SG2002_RTOS_RING_EMPTY, Some zero_slot, ?w)"
    using try_pop_uncached [OF plain_ring_ok, of zero_slot ?w] by simp
  from machine_refines_sequential [OF plain_ring_ok _ slot_wf_zero_slot slot_wf_zero_slot surjective_pairing this]
  show ?thesis by simp
qed

end
