(* ===== verification/Kernel_Driver.thy ===== *)
theory Kernel_Driver
  imports Shm_Transport Linux_Client
begin

section \<open>The kernel driver of the shared region\<close>

text \<open>
  \<^verbatim>\<open>interdrv/rtos_cmdqu/sg2002_rtos_shm_linux.c\<close>, which
  \<^verbatim>\<open>ports/osdrv/patches/0002-add-shared-memory-transport.patch\<close> adds to the kernel: acquiring the
  channel, sending and receiving single messages and batches, the doorbell, notifications, release,
  shutdown and polling. The region is mapped uncached, so the driver works on RAM itself. Locks, the
  copies from and to user memory, the doorbell of the command queue and
  \<^verbatim>\<open>wait_event_interruptible_timeout\<close> are parameters that act on the world; whatever other tasks
  and the firmware do while the driver sleeps is part of what a wait does to the world. A wait that
  may go round for ever is a partial function. User memory is passed in and returned by value.
  Allocation and mapping in \<^verbatim>\<open>sg2002_rtos_shm_linux_create\<close>, freeing, and the rate-limited error
  message are not modelled.
\<close>

subsection \<open>State and parameters\<close>

abbreviation EPERM :: int where "EPERM \<equiv> 1"
abbreviation EFAULT :: int where "EFAULT \<equiv> 14"
abbreviation EBUSY :: int where "EBUSY \<equiv> 16"
abbreviation ESTALE :: int where "ESTALE \<equiv> 116"

abbreviation SG2002_RTOS_SHM_KICK_MAX_ATTEMPTS :: int where "SG2002_RTOS_SHM_KICK_MAX_ATTEMPTS \<equiv> 100"

text \<open>A \<^verbatim>\<open>struct file *\<close> is known by its identity only.\<close>

type_synonym file_ptr = nat

datatype kernel_lock = Shutdown_lock | Owner_lock | Transmit_lock | Receive_lock

record kernel_world =
  shm_base :: shm_region
  shm_size :: u32
  kick_attempts :: int
  kick_work_scheduled :: bool
  notifications :: u32
  file_owner :: "file_ptr option"
  generation :: u32
  next_sequence :: u32
  shutting_down :: bool
  shutdown_complete :: bool
  tx_batch :: "sg2002_rtos_shm_slot list"
  rx_batch :: "sg2002_rtos_shm_slot list"

record 'w kernel_env =
  kick :: "u32 \<Rightarrow> 'w \<Rightarrow> int \<times> 'w"
  wait_event :: "('w \<Rightarrow> bool) \<Rightarrow> int \<Rightarrow> 'w \<Rightarrow> int \<times> 'w"
  wake_up :: "'w \<Rightarrow> 'w"
  lock_interruptible :: "kernel_lock \<Rightarrow> 'w \<Rightarrow> int \<times> 'w"
  lock_mutex :: "kernel_lock \<Rightarrow> 'w \<Rightarrow> 'w"
  unlock_mutex :: "kernel_lock \<Rightarrow> 'w \<Rightarrow> 'w"
  copy_from_user :: "'w \<Rightarrow> bool \<times> 'w"
  copy_to_user :: "'w \<Rightarrow> bool \<times> 'w"
  cancel_kick_work :: "'w \<Rightarrow> 'w"
  msecs_to_jiffies :: "u32 \<Rightarrow> int"
  MAX_SCHEDULE_TIMEOUT :: int

text \<open>The two copies answer whether they succeeded.\<close>

record user_batch = sg2002_rtos_shm_batch +
  batch_slots_ptr :: u64
  batch_flags :: u32
  batch_reserved :: "u32 \<times> u32"

subsection \<open>The region as the driver sees it\<close>

definition layout_valid :: "'x kernel_world_scheme \<Rightarrow> bool" where
  "layout_valid w \<longleftrightarrow> shm_size w = SG2002_RTOS_SHM_REGION_SIZE \<and>
     (let l = layout (shm_base w) in
       magic l = SG2002_RTOS_SHM_MAGIC \<and>
       abi_version l = SG2002_RTOS_SHM_ABI_VERSION \<and>
       control_size l = SG2002_RTOS_SHM_CONTROL_SIZE \<and>
       region_size l = SG2002_RTOS_SHM_REGION_SIZE \<and>
       slot_size l = SG2002_RTOS_SHM_SLOT_SIZE \<and>
       slot_count l = SG2002_RTOS_SHM_SLOT_COUNT \<and>
       request_offset l = SG2002_RTOS_SHM_REQUEST_OFFSET \<and>
       response_offset l = SG2002_RTOS_SHM_RESPONSE_OFFSET)"

definition rtos_ready :: "'x kernel_world_scheme \<Rightarrow> bool" where
  "rtos_ready w \<longleftrightarrow> \<not> shutting_down w \<and> layout_valid w \<and> generation w \<noteq> 0 \<and>
     layout_generation (layout (shm_base w)) = generation w \<and>
     peer_state (linux_peer (shm_base w)) = SG2002_RTOS_SHM_STATE_READY \<and>
     peer_generation (linux_peer (shm_base w)) = generation w \<and>
     peer_state (rtos_peer (shm_base w)) = SG2002_RTOS_SHM_STATE_READY \<and>
     peer_generation (rtos_peer (shm_base w)) = generation w"

text \<open>The two counters and their distance, or the error.\<close>

definition ring_occupancy :: "counter_ptr \<Rightarrow> counter_ptr \<Rightarrow> 'x kernel_world_scheme \<Rightarrow> int + u32 \<times> u32 \<times> u32" where
  "ring_occupancy producer consumer w =
     (let current_producer = load_counter producer (shm_base w);
          current_consumer = load_counter consumer (shm_base w);
          current_occupancy = current_producer - current_consumer
      in if current_occupancy > SG2002_RTOS_SHM_SLOT_COUNT then Inl (- EPROTO)
         else Inr (current_producer, current_consumer, current_occupancy))"

definition request_occupancy :: "'x kernel_world_scheme \<Rightarrow> int + u32 \<times> u32 \<times> u32" where
  "request_occupancy w = ring_occupancy Request_producer Request_consumer w"

definition response_occupancy :: "'x kernel_world_scheme \<Rightarrow> int + u32 \<times> u32 \<times> u32" where
  "response_occupancy w = ring_occupancy Response_producer Response_consumer w"

definition request_wait_done :: "'x kernel_world_scheme \<Rightarrow> bool" where
  "request_wait_done w = (if \<not> rtos_ready w then True
     else case request_occupancy w of Inl _ \<Rightarrow> True
       | Inr (_, _, occupancy) \<Rightarrow> occupancy < SG2002_RTOS_SHM_SLOT_COUNT)"

definition response_wait_done :: "'x kernel_world_scheme \<Rightarrow> bool" where
  "response_wait_done w = (if \<not> rtos_ready w then True
     else case response_occupancy w of Inl _ \<Rightarrow> True | Inr (_, _, occupancy) \<Rightarrow> occupancy > 0)"

definition wait_jiffies :: "'w kernel_env \<Rightarrow> u32 \<Rightarrow> int" where
  "wait_jiffies env timeout_ms =
     (if timeout_ms = NOT 0 then MAX_SCHEDULE_TIMEOUT env else max 1 (msecs_to_jiffies env timeout_ms))"

definition initialize_generation :: "u32 \<Rightarrow> 'x kernel_world_scheme \<Rightarrow> 'x kernel_world_scheme" where
  "initialize_generation previous_generation w =
     (let g = previous_generation + 1;
          g = (if g = 0 then 1 else g);
          m = blank_region;
          m = m\<lparr>layout := (layout m)\<lparr>abi_version := SG2002_RTOS_SHM_ABI_VERSION,
                 control_size := SG2002_RTOS_SHM_CONTROL_SIZE, region_size := SG2002_RTOS_SHM_REGION_SIZE,
                 slot_size := SG2002_RTOS_SHM_SLOT_SIZE, slot_count := SG2002_RTOS_SHM_SLOT_COUNT,
                 request_offset := SG2002_RTOS_SHM_REQUEST_OFFSET,
                 response_offset := SG2002_RTOS_SHM_RESPONSE_OFFSET, layout_generation := g,
                 features := SG2002_RTOS_SHM_FEATURES\<rparr>\<rparr>;
          m = m\<lparr>layout := (layout m)\<lparr>magic := SG2002_RTOS_SHM_MAGIC\<rparr>\<rparr>;
          m = m\<lparr>linux_peer := (linux_peer m)\<lparr>peer_generation := g\<rparr>\<rparr>;
          m = m\<lparr>linux_peer := (linux_peer m)\<lparr>peer_state := SG2002_RTOS_SHM_STATE_READY\<rparr>\<rparr>
      in w\<lparr>shm_base := m, generation := g, next_sequence := 1\<rparr>)"

definition fill_info :: "'x kernel_world_scheme \<Rightarrow> sg2002_rtos_shm_info" where
  "fill_info w = \<lparr>info_abi_version = SG2002_RTOS_SHM_ABI_VERSION,
     info_region_size = SG2002_RTOS_SHM_REGION_SIZE, info_control_size = SG2002_RTOS_SHM_CONTROL_SIZE,
     info_slot_size = SG2002_RTOS_SHM_SLOT_SIZE, info_slot_count = SG2002_RTOS_SHM_SLOT_COUNT,
     info_payload_size = SG2002_RTOS_SHM_PAYLOAD_SIZE, info_generation = generation w,
     info_features = SG2002_RTOS_SHM_FEATURES\<rparr>"

definition is_owner :: "file_ptr \<Rightarrow> 'x kernel_world_scheme \<Rightarrow> bool" where
  "is_owner owner w \<longleftrightarrow> \<not> shutting_down w \<and> file_owner w = Some owner"

subsection \<open>The doorbell and notifications\<close>

definition kick_generation :: "'w kernel_env \<Rightarrow> u32 \<Rightarrow> 'w \<Rightarrow> int \<times> 'w" where
  "kick_generation env g w = kick env g w"

definition kick_now :: "'x kernel_world_scheme kernel_env \<Rightarrow> 'x kernel_world_scheme \<Rightarrow> int \<times> 'x kernel_world_scheme" where
  "kick_now env w = kick_generation env (generation w) w"

text \<open>The work item; the work queue has taken it off its queue before it runs.\<close>

definition kick_work :: "'x kernel_world_scheme kernel_env \<Rightarrow> 'x kernel_world_scheme \<Rightarrow> 'x kernel_world_scheme" where
  "kick_work env w =
     (if shutting_down w \<or> file_owner w = None then w
      else let (ret, w) = kick_now env w in
        if ret = 0 then w\<lparr>kick_attempts := 0\<rparr>
        else let w = w\<lparr>kick_attempts := kick_attempts w + 1\<rparr>; attempt = kick_attempts w in
          if attempt < SG2002_RTOS_SHM_KICK_MAX_ATTEMPTS \<and> \<not> shutting_down w \<and> file_owner w \<noteq> None
          then w\<lparr>kick_work_scheduled := True\<rparr> else w)"

definition request_kick :: "'x kernel_world_scheme kernel_env \<Rightarrow> 'x kernel_world_scheme \<Rightarrow> 'x kernel_world_scheme" where
  "request_kick env w =
     (if shutting_down w then w
      else let w = w\<lparr>kick_attempts := 0\<rparr>; (ret, w) = kick_now env w
        in if ret \<noteq> 0 then w\<lparr>kick_work_scheduled := True\<rparr> else w)"

definition sg2002_rtos_shm_linux_notify ::
  "'x kernel_world_scheme kernel_env \<Rightarrow> 'x kernel_world_scheme \<Rightarrow> 'x kernel_world_scheme" where
  "sg2002_rtos_shm_linux_notify env w =
     (if \<not> shutting_down w then wake_up env (w\<lparr>notifications := notifications w + 1\<rparr>) else w)"

subsection \<open>Acquiring and releasing\<close>

definition set_linux_state :: "u32 \<Rightarrow> 'x kernel_world_scheme \<Rightarrow> 'x kernel_world_scheme" where
  "set_linux_state st w =
     w\<lparr>shm_base := (shm_base w)\<lparr>linux_peer := (linux_peer (shm_base w))\<lparr>peer_state := st\<rparr>\<rparr>\<rparr>"

definition sg2002_rtos_shm_linux_release ::
  "'x kernel_world_scheme kernel_env \<Rightarrow> file_ptr option \<Rightarrow> 'x kernel_world_scheme \<Rightarrow> 'x kernel_world_scheme" where
  "sg2002_rtos_shm_linux_release env owner w = (case owner of None \<Rightarrow> w
     | Some f \<Rightarrow>
       let w = lock_mutex env Owner_lock w;
           w = (if file_owner w = Some f then
                  let w = (if \<not> shutting_down w then set_linux_state SG2002_RTOS_SHM_STATE_OFFLINE w else w);
                      w = w\<lparr>file_owner := None\<rparr>
                  in wake_up env w
                else w)
       in unlock_mutex env Owner_lock w)"

text \<open>What \<^verbatim>\<open>acquire\<close> does when a firmware that is still up has to be quiesced first: take the
  region off line, ring the doorbell, and wait until the firmware has answered it. The owner lock is
  held; it has been given back when the result is not zero.\<close>

definition quiesce_firmware ::
  "'x kernel_world_scheme kernel_env \<Rightarrow> file_ptr \<Rightarrow> 'x kernel_world_scheme \<Rightarrow> int \<times> 'x kernel_world_scheme" where
  "quiesce_firmware env owner w =
     (let w = set_linux_state SG2002_RTOS_SHM_STATE_OFFLINE w;
          w = w\<lparr>shm_base := (shm_base w)\<lparr>layout := (layout (shm_base w))\<lparr>magic := 0\<rparr>\<rparr>\<rparr>;
          w = w\<lparr>generation := 0\<rparr>;
          notification = notifications w;
          w = request_kick env w;
          (wait_result, w) = wait_event env (\<lambda>v. shutting_down v \<or> notifications v \<noteq> notification)
             (msecs_to_jiffies env SG2002_RTOS_SHM_DEFAULT_TIMEOUT_MS) w
      in if shutting_down w then (- ENODEV, unlock_mutex env Owner_lock w)
         else if wait_result \<le> 0 then
           (if wait_result = 0 then - ETIMEDOUT else wait_result,
            sg2002_rtos_shm_linux_release env (Some owner) (unlock_mutex env Owner_lock w))
         else (0, w))"

definition firmware_is_up :: "u32 \<Rightarrow> 'x kernel_world_scheme \<Rightarrow> bool" where
  "firmware_is_up previous_generation w \<longleftrightarrow> previous_generation \<noteq> 0 \<and>
     peer_state (rtos_peer (shm_base w)) = SG2002_RTOS_SHM_STATE_READY \<and>
     peer_generation (rtos_peer (shm_base w)) = previous_generation"

definition start_generation ::
  "'x kernel_world_scheme kernel_env \<Rightarrow> file_ptr \<Rightarrow> 'x kernel_world_scheme \<Rightarrow> int \<times> 'x kernel_world_scheme" where
  "start_generation env owner w =
     (let previous_generation = (if layout_valid w then layout_generation (layout (shm_base w)) else 0);
          quiesce = (layout_valid w \<and> firmware_is_up previous_generation w);
          w = w\<lparr>file_owner := Some owner\<rparr>;
          (ret, w) = (if quiesce then quiesce_firmware env owner w else (0, w))
      in if ret \<noteq> 0 then (ret, w)
         else (0, request_kick env (initialize_generation previous_generation w)))"

definition acquire ::
  "'x kernel_world_scheme kernel_env \<Rightarrow> file_ptr \<Rightarrow> 'x kernel_world_scheme \<Rightarrow>
    (int + sg2002_rtos_shm_info) \<times> 'x kernel_world_scheme" where
  "acquire env owner w =
     (let (ret, w) = lock_interruptible env Owner_lock w in
      if ret \<noteq> 0 then (Inl ret, w)
      else if shutting_down w then (Inl (- ENODEV), unlock_mutex env Owner_lock w)
      else if file_owner w \<noteq> None \<and> file_owner w \<noteq> Some owner
      then (Inl (- EBUSY), unlock_mutex env Owner_lock w)
      else let (ret, w) = (if file_owner w = None then start_generation env owner w else (0, w)) in
        if ret \<noteq> 0 then (Inl ret, w)
        else let w = unlock_mutex env Owner_lock w;
                 (wait_result, w) = wait_event env (\<lambda>v. shutting_down v \<or> rtos_ready v)
                    (msecs_to_jiffies env SG2002_RTOS_SHM_DEFAULT_TIMEOUT_MS) w
          in if shutting_down w then (Inl (- ENODEV), w)
             else if wait_result \<le> 0 then
               (Inl (if wait_result = 0 then - ETIMEDOUT else wait_result),
                sg2002_rtos_shm_linux_release env (Some owner) w)
             else let info = fill_info w; (copied, w) = copy_to_user env w
               in if \<not> copied then (Inl (- EFAULT), sg2002_rtos_shm_linux_release env (Some owner) w)
                  else (Inr info, w))"

subsection \<open>Single messages\<close>

text \<open>The waiting loops of the four transfer functions: until the request ring has space, until the
  response ring holds a message. \<open>stale\<close> is the generation check of the batch functions, never true
  for single messages. The result is the error, or the counters the loop ended with.\<close>

partial_function (option) wait_for_space ::
  "'x kernel_world_scheme kernel_env \<Rightarrow> ('x kernel_world_scheme \<Rightarrow> bool) \<Rightarrow> u32 \<Rightarrow> int \<Rightarrow>
    'x kernel_world_scheme \<Rightarrow> ((int + u32 \<times> u32) \<times> 'x kernel_world_scheme) option" where
  "wait_for_space env stale timeout_ms remaining w =
     (if stale w then Some (Inl (- ESTALE), w)
      else if \<not> rtos_ready w then Some (Inl (- ENOTCONN), w)
      else case request_occupancy w of Inl ret \<Rightarrow> Some (Inl ret, w)
       | Inr (producer, _, occupancy) \<Rightarrow>
           if occupancy < SG2002_RTOS_SHM_SLOT_COUNT then Some (Inr (producer, occupancy), w)
           else if remaining = 0 then Some (Inl (if timeout_ms = 0 then - EAGAIN else - ETIMEDOUT), w)
           else (case wait_event env request_wait_done remaining w of (remaining, w) \<Rightarrow>
             if remaining < 0 then Some (Inl remaining, w)
             else wait_for_space env stale timeout_ms remaining w))"

partial_function (option) wait_for_response ::
  "'x kernel_world_scheme kernel_env \<Rightarrow> ('x kernel_world_scheme \<Rightarrow> bool) \<Rightarrow> u32 \<Rightarrow> int \<Rightarrow>
    'x kernel_world_scheme \<Rightarrow> ((int + u32 \<times> u32) \<times> 'x kernel_world_scheme) option" where
  "wait_for_response env stale timeout_ms remaining w =
     (if stale w then Some (Inl (- ESTALE), w)
      else if \<not> rtos_ready w then Some (Inl (- ENOTCONN), w)
      else case response_occupancy w of Inl ret \<Rightarrow> Some (Inl ret, w)
       | Inr (_, consumer, occupancy) \<Rightarrow>
           if occupancy > 0 then Some (Inr (consumer, occupancy), w)
           else if remaining = 0 then Some (Inl (if timeout_ms = 0 then - EAGAIN else - ETIMEDOUT), w)
           else (case wait_event env response_wait_done remaining w of (remaining, w) \<Rightarrow>
             if remaining < 0 then Some (Inl remaining, w)
             else wait_for_response env stale timeout_ms remaining w))"

definition first_wait :: "'w kernel_env \<Rightarrow> u32 \<Rightarrow> int" where
  "first_wait env timeout_ms = (if timeout_ms = 0 then 0 else wait_jiffies env timeout_ms)"

text \<open>The next sequence that is not zero.\<close>

function take_sequence :: "'x kernel_world_scheme \<Rightarrow> u32 \<times> 'x kernel_world_scheme" where
  "take_sequence w =
     (let s = next_sequence w; w = w\<lparr>next_sequence := s + 1\<rparr>
      in if s = 0 then take_sequence w else (s, w))"
  by pat_completeness auto

termination
  by (relation "measure (\<lambda>w. if next_sequence w = 0 then 1 else 0)") auto

declare take_sequence.simps [simp del]

definition slot_index :: "u32 \<Rightarrow> nat" where
  "slot_index counter = unat (counter AND (SG2002_RTOS_SHM_SLOT_COUNT - 1))"

definition write_request :: "u32 \<Rightarrow> sg2002_rtos_shm_slot \<Rightarrow> 'x kernel_world_scheme \<Rightarrow> 'x kernel_world_scheme" where
  "write_request counter msg w =
     w\<lparr>shm_base := store_slot Request_slots (slot_index counter) msg (shm_base w)\<rparr>"

definition set_counter :: "counter_ptr \<Rightarrow> u32 \<Rightarrow> 'x kernel_world_scheme \<Rightarrow> 'x kernel_world_scheme" where
  "set_counter c v w = w\<lparr>shm_base := store_counter c v (shm_base w)\<rparr>"

definition send_message ::
  "'x kernel_world_scheme kernel_env \<Rightarrow> file_ptr \<Rightarrow> sg2002_rtos_shm_transfer \<Rightarrow> 'x kernel_world_scheme \<Rightarrow>
    ((int + sg2002_rtos_shm_transfer) \<times> 'x kernel_world_scheme) option" where
  "send_message env owner transfer w =
     (if \<not> is_owner owner w then Some (Inl (- EPERM), w)
      else let (copied, w) = copy_from_user env w in
        if \<not> copied then Some (Inl (- EFAULT), w)
        else if slot_length (message transfer) > SG2002_RTOS_SHM_PAYLOAD_SIZE then Some (Inl (- EMSGSIZE), w)
        else let (ret, w) = lock_interruptible env Transmit_lock w in
          if ret \<noteq> 0 then Some (Inl ret, w)
          else do {
            (found, w) \<leftarrow> wait_for_space env (\<lambda>_. False) (transfer_timeout_ms transfer)
                (first_wait env (transfer_timeout_ms transfer)) w;
            case found of Inl ret \<Rightarrow> Some (Inl ret, unlock_mutex env Transmit_lock w)
            | Inr (producer, _) \<Rightarrow>
                let (s, w) = take_sequence w;
                    transfer = transfer\<lparr>message := (message transfer)\<lparr>sequence := s\<rparr>\<rparr>;
                    (copied, w) = copy_to_user env w
                in if \<not> copied then Some (Inl (- EFAULT), unlock_mutex env Transmit_lock w)
                   else let w = write_request producer (message transfer) w;
                            w = set_counter Request_producer (producer + 1) w;
                            w = request_kick env w
                        in Some (Inr transfer, unlock_mutex env Transmit_lock w)
          })"

text \<open>The doorbell after responses have been taken, in case requests are waiting for their place.\<close>

definition kick_pending :: "'x kernel_world_scheme kernel_env \<Rightarrow> 'x kernel_world_scheme \<Rightarrow> 'x kernel_world_scheme" where
  "kick_pending env w = (case request_occupancy w of Inl _ \<Rightarrow> w
     | Inr (_, _, pending_requests) \<Rightarrow> if pending_requests > 0 then request_kick env w else w)"

definition response_at :: "u32 \<Rightarrow> 'x kernel_world_scheme \<Rightarrow> sg2002_rtos_shm_slot" where
  "response_at counter w = slots_of Response_slots (shm_base w) ! slot_index counter"

definition receive_message ::
  "'x kernel_world_scheme kernel_env \<Rightarrow> file_ptr \<Rightarrow> sg2002_rtos_shm_transfer \<Rightarrow> 'x kernel_world_scheme \<Rightarrow>
    ((int + sg2002_rtos_shm_transfer) \<times> 'x kernel_world_scheme) option" where
  "receive_message env owner transfer w =
     (if \<not> is_owner owner w then Some (Inl (- EPERM), w)
      else let (copied, w) = copy_from_user env w in
        if \<not> copied then Some (Inl (- EFAULT), w)
        else let (ret, w) = lock_interruptible env Receive_lock w in
          if ret \<noteq> 0 then Some (Inl ret, w)
          else do {
            (found, w) \<leftarrow> wait_for_response env (\<lambda>_. False) (transfer_timeout_ms transfer)
                (first_wait env (transfer_timeout_ms transfer)) w;
            case found of Inl ret \<Rightarrow> Some (Inl ret, unlock_mutex env Receive_lock w)
            | Inr (consumer, _) \<Rightarrow>
                let transfer = transfer\<lparr>message := response_at consumer w\<rparr>;
                    (ret, w) = (if slot_length (message transfer) > SG2002_RTOS_SHM_PAYLOAD_SIZE then (- EPROTO, w)
                      else let (copied, w) = copy_to_user env w in (if copied then 0 else - EFAULT, w))
                in if ret = - EFAULT then Some (Inl ret, unlock_mutex env Receive_lock w)
                   else let w = set_counter Response_consumer (consumer + 1) w;
                            w = kick_pending env w
                        in Some (if ret = 0 then Inr transfer else Inl ret, unlock_mutex env Receive_lock w)
          })"

subsection \<open>Batches\<close>

definition copy_batch_from_user ::
  "'x kernel_world_scheme kernel_env \<Rightarrow> user_batch \<Rightarrow> 'x kernel_world_scheme \<Rightarrow>
    (int + user_batch) \<times> 'x kernel_world_scheme" where
  "copy_batch_from_user env b w =
     (let (copied, w) = copy_from_user env w
      in if \<not> copied then (Inl (- EFAULT), w)
         else if batch_slots_ptr b = 0 \<or> batch_count b = 0 \<or> batch_count b > SG2002_RTOS_SHM_SLOT_COUNT \<or>
           batch_flags b \<noteq> 0 \<or> fst (batch_reserved b) \<noteq> 0 \<or> snd (batch_reserved b) \<noteq> 0
         then (Inl (- EINVAL), w)
         else (Inr (b\<lparr>batch_completed := 0\<rparr>), w))"

text \<open>The loops over the first entries of the batch buffers: numbering and writing requests.\<close>

primrec assign_sequences :: "nat list \<Rightarrow> 'x kernel_world_scheme \<Rightarrow> 'x kernel_world_scheme" where
  "assign_sequences [] w = w"
| "assign_sequences (index # is) w =
     (let (s, w) = take_sequence w
      in assign_sequences is (w\<lparr>tx_batch := (tx_batch w)[index := (tx_batch w ! index)\<lparr>sequence := s\<rparr>]\<rparr>))"

primrec write_requests :: "u32 \<Rightarrow> nat list \<Rightarrow> 'x kernel_world_scheme \<Rightarrow> 'x kernel_world_scheme" where
  "write_requests producer [] w = w"
| "write_requests producer (index # is) w =
     write_requests producer is (write_request (producer + of_nat index) (tx_batch w ! index) w)"

text \<open>The last part of the two batch functions copies the slots and the descriptor out. The answer
  says whether both copies succeeded; the user's slots are replaced as soon as the first one did.\<close>

definition copy_batch_to_user ::
  "'x kernel_world_scheme kernel_env \<Rightarrow> user_batch \<Rightarrow> sg2002_rtos_shm_slot list \<Rightarrow> user_batch \<Rightarrow>
    sg2002_rtos_shm_slot list \<Rightarrow> 'x kernel_world_scheme \<Rightarrow>
    bool \<times> user_batch \<times> sg2002_rtos_shm_slot list \<times> 'x kernel_world_scheme" where
  "copy_batch_to_user env b done user_b user_slots w =
     (let (copied, w) = copy_to_user env w
      in if \<not> copied then (False, user_b, user_slots, w)
         else let user_slots = done @ drop (length done) user_slots;
                  (copied, w) = copy_to_user env w
              in (copied, if copied then b else user_b, user_slots, w))"

definition submit_batch ::
  "'x kernel_world_scheme kernel_env \<Rightarrow> file_ptr \<Rightarrow> user_batch \<Rightarrow> sg2002_rtos_shm_slot list \<Rightarrow>
    'x kernel_world_scheme \<Rightarrow> (int \<times> user_batch \<times> sg2002_rtos_shm_slot list \<times> 'x kernel_world_scheme) option" where
  "submit_batch env owner user_b user_slots w =
     (if \<not> is_owner owner w then Some (- EPERM, user_b, user_slots, w)
      else case copy_batch_from_user env user_b w of
        (Inl ret, w) \<Rightarrow> Some (ret, user_b, user_slots, w)
      | (Inr b, w) \<Rightarrow>
        let (ret, w) = lock_interruptible env Transmit_lock w in
        if ret \<noteq> 0 then Some (ret, user_b, user_slots, w)
        else let (copied, w) = copy_from_user env w; n = unat (batch_count b) in
          if \<not> copied then Some (- EFAULT, user_b, user_slots, unlock_mutex env Transmit_lock w)
          else let w = w\<lparr>tx_batch := take n user_slots @ drop n (tx_batch w)\<rparr> in
          if list_ex (\<lambda>m. slot_length m > SG2002_RTOS_SHM_PAYLOAD_SIZE) (take n (tx_batch w))
          then Some (- EMSGSIZE, user_b, user_slots, unlock_mutex env Transmit_lock w)
          else do {
            (found, w) \<leftarrow> wait_for_space env (\<lambda>v. batch_generation b \<noteq> generation v) (batch_timeout_ms b)
                (first_wait env (batch_timeout_ms b)) w;
            case found of Inl ret \<Rightarrow> Some (ret, user_b, user_slots, unlock_mutex env Transmit_lock w)
            | Inr (producer, occupancy) \<Rightarrow>
                let completed = min (batch_count b) (ucast (SG2002_RTOS_SHM_SLOT_COUNT - occupancy));
                    k = unat completed;
                    w = assign_sequences [0..<k] w;
                    b = b\<lparr>batch_completed := completed\<rparr>;
                    (copied, user_b, user_slots, w) =
                      copy_batch_to_user env b (take k (tx_batch w)) user_b user_slots w
                in if \<not> copied then Some (- EFAULT, user_b, user_slots, unlock_mutex env Transmit_lock w)
                   else if batch_generation b \<noteq> generation w \<or> \<not> rtos_ready w
                   then Some (- ESTALE, user_b, user_slots, unlock_mutex env Transmit_lock w)
                   else let w = write_requests producer [0..<k] w;
                            w = set_counter Request_producer (producer + ucast completed) w;
                            w = request_kick env w
                        in Some (0, user_b, user_slots, unlock_mutex env Transmit_lock w)
          })"

text \<open>The loop that takes responses into the batch buffer over the indices that remain; it answers
  the number of valid responses before the first invalid one.\<close>

primrec reap_responses :: "u32 \<Rightarrow> nat list \<Rightarrow> nat \<Rightarrow> 'x kernel_world_scheme \<Rightarrow> nat \<times> 'x kernel_world_scheme" where
  "reap_responses consumer [] completed w = (completed, w)"
| "reap_responses consumer (index # is) completed w =
     (let msg = response_at (consumer + of_nat index) w;
          w = w\<lparr>rx_batch := (rx_batch w)[index := msg]\<rparr>
      in if sequence msg = 0 \<or> slot_length msg > SG2002_RTOS_SHM_PAYLOAD_SIZE then (index, w)
         else reap_responses consumer is completed w)"

definition reap_batch ::
  "'x kernel_world_scheme kernel_env \<Rightarrow> file_ptr \<Rightarrow> user_batch \<Rightarrow> sg2002_rtos_shm_slot list \<Rightarrow>
    'x kernel_world_scheme \<Rightarrow> (int \<times> user_batch \<times> sg2002_rtos_shm_slot list \<times> 'x kernel_world_scheme) option" where
  "reap_batch env owner user_b user_slots w =
     (if \<not> is_owner owner w then Some (- EPERM, user_b, user_slots, w)
      else case copy_batch_from_user env user_b w of
        (Inl ret, w) \<Rightarrow> Some (ret, user_b, user_slots, w)
      | (Inr b, w) \<Rightarrow>
        let (ret, w) = lock_interruptible env Receive_lock w in
        if ret \<noteq> 0 then Some (ret, user_b, user_slots, w)
        else do {
          (found, w) \<leftarrow> wait_for_response env (\<lambda>v. batch_generation b \<noteq> generation v) (batch_timeout_ms b)
              (first_wait env (batch_timeout_ms b)) w;
          case found of Inl ret \<Rightarrow> Some (ret, user_b, user_slots, unlock_mutex env Receive_lock w)
          | Inr (consumer, occupancy) \<Rightarrow>
              let (k, w) = (let c = unat (min (batch_count b) (ucast occupancy)) in reap_responses consumer [0..<c] c w)
              in if k = 0 then
                   let w = set_counter Response_consumer (consumer + 1) w
                   in Some (- EPROTO, user_b, user_slots, unlock_mutex env Receive_lock (kick_pending env w))
                 else let b = b\<lparr>batch_completed := of_nat k\<rparr>;
                          (copied, user_b, user_slots, w) =
                            copy_batch_to_user env b (take k (rx_batch w)) user_b user_slots w
                   in if \<not> copied then Some (- EFAULT, user_b, user_slots, unlock_mutex env Receive_lock w)
                      else if batch_generation b \<noteq> generation w \<or> \<not> rtos_ready w
                      then Some (- ESTALE, user_b, user_slots, unlock_mutex env Receive_lock w)
                      else let w = set_counter Response_consumer (consumer + of_nat k) w
                           in Some (0, user_b, user_slots, unlock_mutex env Receive_lock (kick_pending env w))
        })"

subsection \<open>Shutdown, dispatch and readiness\<close>

text \<open>The checks of \<^verbatim>\<open>sg2002_rtos_shm_linux_create\<close> on its arguments.\<close>

definition create_arguments_valid :: "bool \<Rightarrow> bool \<Rightarrow> u64 \<Rightarrow> u64 \<Rightarrow> bool" where
  "create_arguments_valid device_given kick_given start sz \<longleftrightarrow> device_given \<and> kick_given \<and>
     start \<noteq> 0 \<and> start AND (SG2002_RTOS_SHM_CONTROL_SIZE - 1) = 0 \<and> sz = SG2002_RTOS_SHM_REGION_SIZE"

definition sg2002_rtos_shm_linux_shutdown ::
  "'x kernel_world_scheme kernel_env \<Rightarrow> 'x kernel_world_scheme \<Rightarrow> 'x kernel_world_scheme" where
  "sg2002_rtos_shm_linux_shutdown env w =
     (let w = wake_up env (w\<lparr>shutting_down := True\<rparr>);
          w = lock_mutex env Shutdown_lock w
      in if shutdown_complete w then unlock_mutex env Shutdown_lock w
         else let w = lock_mutex env Owner_lock w;
                  w = lock_mutex env Receive_lock w;
                  w = lock_mutex env Transmit_lock w;
                  w = cancel_kick_work env (w\<lparr>kick_work_scheduled := False\<rparr>);
                  w = set_linux_state SG2002_RTOS_SHM_STATE_OFFLINE w;
                  w = w\<lparr>file_owner := None, generation := 0\<rparr>;
                  w = wake_up env w;
                  w = unlock_mutex env Transmit_lock w;
                  w = unlock_mutex env Receive_lock w;
                  w = unlock_mutex env Owner_lock w;
                  w = w\<lparr>shutdown_complete := True\<rparr>
              in unlock_mutex env Shutdown_lock w)"

datatype shm_command =
    SG2002_RTOS_SHM_ACQUIRE
  | SG2002_RTOS_SHM_SEND sg2002_rtos_shm_transfer
  | SG2002_RTOS_SHM_RECEIVE sg2002_rtos_shm_transfer
  | SG2002_RTOS_SHM_SUBMIT_BATCH user_batch "sg2002_rtos_shm_slot list"
  | SG2002_RTOS_SHM_REAP_BATCH user_batch "sg2002_rtos_shm_slot list"
  | Other_command

datatype shm_answer =
    Info_answer sg2002_rtos_shm_info
  | Transfer_answer sg2002_rtos_shm_transfer
  | Batch_answer int user_batch "sg2002_rtos_shm_slot list"
  | Error_answer int

definition transfer_answer :: "(int + sg2002_rtos_shm_transfer) \<Rightarrow> shm_answer" where
  "transfer_answer r = (case r of Inl ret \<Rightarrow> Error_answer ret | Inr t \<Rightarrow> Transfer_answer t)"

definition sg2002_rtos_shm_linux_ioctl ::
  "'x kernel_world_scheme kernel_env \<Rightarrow> file_ptr \<Rightarrow> shm_command \<Rightarrow> 'x kernel_world_scheme \<Rightarrow>
    (shm_answer \<times> 'x kernel_world_scheme) option" where
  "sg2002_rtos_shm_linux_ioctl env owner command w =
     (if shutting_down w then Some (Error_answer (- ENODEV), w)
      else case command of
        SG2002_RTOS_SHM_ACQUIRE \<Rightarrow>
          (case acquire env owner w of (Inl ret, w) \<Rightarrow> Some (Error_answer ret, w)
           | (Inr info, w) \<Rightarrow> Some (Info_answer info, w))
      | SG2002_RTOS_SHM_SEND t \<Rightarrow> do { (r, w) \<leftarrow> send_message env owner t w; Some (transfer_answer r, w) }
      | SG2002_RTOS_SHM_RECEIVE t \<Rightarrow> do { (r, w) \<leftarrow> receive_message env owner t w; Some (transfer_answer r, w) }
      | SG2002_RTOS_SHM_SUBMIT_BATCH b slots \<Rightarrow>
          do { (ret, b, slots, w) \<leftarrow> submit_batch env owner b slots w; Some (Batch_answer ret b slots, w) }
      | SG2002_RTOS_SHM_REAP_BATCH b slots \<Rightarrow>
          do { (ret, b, slots, w) \<leftarrow> reap_batch env owner b slots w; Some (Batch_answer ret b slots, w) }
      | Other_command \<Rightarrow> Some (Error_answer (- ENOTTY), w))"

abbreviation EPOLLIN :: u32 where "EPOLLIN \<equiv> 0x1"
abbreviation EPOLLOUT :: u32 where "EPOLLOUT \<equiv> 0x4"
abbreviation EPOLLERR :: u32 where "EPOLLERR \<equiv> 0x8"
abbreviation EPOLLHUP :: u32 where "EPOLLHUP \<equiv> 0x10"
abbreviation EPOLLRDNORM :: u32 where "EPOLLRDNORM \<equiv> 0x40"
abbreviation EPOLLWRNORM :: u32 where "EPOLLWRNORM \<equiv> 0x100"

text \<open>Registering the caller with the wait queue has no visible effect.\<close>

definition sg2002_rtos_shm_linux_poll :: "file_ptr \<Rightarrow> 'x kernel_world_scheme \<Rightarrow> u32" where
  "sg2002_rtos_shm_linux_poll owner w =
     (if shutting_down w then EPOLLERR OR EPOLLHUP
      else if \<not> is_owner owner w then EPOLLERR
      else if \<not> rtos_ready w then EPOLLERR OR EPOLLHUP
      else case response_occupancy w of Inl _ \<Rightarrow> EPOLLERR
       | Inr (_, _, occupancy) \<Rightarrow>
         let mask = (if occupancy > 0 then EPOLLIN OR EPOLLRDNORM else 0)
         in case request_occupancy w of Inl _ \<Rightarrow> EPOLLERR
          | Inr (_, _, occupancy) \<Rightarrow>
              if occupancy < SG2002_RTOS_SHM_SLOT_COUNT then mask OR (EPOLLOUT OR EPOLLWRNORM) else mask)"

end
