(* ===== verification/Kernel_Channel.thy ===== *)
theory Kernel_Channel
  imports Kernel_Driver
begin

section \<open>What the kernel driver does for its owner\<close>

text \<open>
  The transfer functions of the driver as operations on the two rings of the region: single
  messages, batches, ownership, the doorbell, and that every call returns. The results are stated up to \<open>core\<close>, the state the driver depends on,
  for an environment that leaves that state alone while no one waits.
\<close>

subsection \<open>An undisturbed call\<close>

text \<open>The state the driver depends on; what is left out is the bookkeeping of the doorbell.\<close>

definition core ::
  "'x kernel_world_scheme \<Rightarrow> (shm_region \<times> u32 \<times> file_ptr option) \<times> (u32 \<times> u32 \<times> bool) \<times>
    sg2002_rtos_shm_slot list \<times> sg2002_rtos_shm_slot list" where
  "core w = ((shm_base w, shm_size w, file_owner w), (generation w, next_sequence w, shutting_down w),
     tx_batch w, rx_batch w)"

text \<open>Apart from waits, the environment leaves that state alone, and it grants locks and copies.\<close>

definition quiet_env :: "'x kernel_world_scheme kernel_env \<Rightarrow> bool" where
  "quiet_env env \<longleftrightarrow> (\<forall>g w. core (snd (kick env g w)) = core w) \<and> (\<forall>w. core (wake_up env w) = core w) \<and>
     (\<forall>l w. core (snd (lock_interruptible env l w)) = core w \<and> core (lock_mutex env l w) = core w \<and>
        core (unlock_mutex env l w) = core w) \<and>
     (\<forall>w. core (snd (copy_from_user env w)) = core w \<and> core (snd (copy_to_user env w)) = core w)"

definition granting_env :: "'x kernel_world_scheme kernel_env \<Rightarrow> bool" where
  "granting_env env \<longleftrightarrow> (\<forall>l w. fst (lock_interruptible env l w) = 0) \<and>
     (\<forall>w. fst (copy_from_user env w) \<and> fst (copy_to_user env w))"

lemma core_fields:
  assumes "core v = core w"
  shows "shm_base v = shm_base w" "shm_size v = shm_size w" "file_owner v = file_owner w"
    "generation v = generation w" "next_sequence v = next_sequence w" "shutting_down v = shutting_down w"
    "tx_batch v = tx_batch w" "rx_batch v = rx_batch w"
  using assms by (simp_all add: core_def)

lemma core_predicates:
  assumes "core v = core w"
  shows "rtos_ready v = rtos_ready w" "is_owner f v = is_owner f w"
    "request_occupancy v = request_occupancy w" "response_occupancy v = response_occupancy w"
    "layout_valid v = layout_valid w"
  using core_fields [OF assms]
  by (simp_all add: rtos_ready_def layout_valid_def is_owner_def request_occupancy_def
      response_occupancy_def ring_occupancy_def)

lemma quiet_rules:
  assumes "quiet_env env"
  shows "core (wake_up env w) = core w" "core (lock_mutex env l w) = core w" "core (unlock_mutex env l w) = core w"
    "lock_interruptible env l w = (r, w') \<Longrightarrow> core w' = core w"
    "copy_from_user env w = (b, w') \<Longrightarrow> core w' = core w" "copy_to_user env w = (b, w') \<Longrightarrow> core w' = core w"
    "kick env g w = (r, w') \<Longrightarrow> core w' = core w"
  using assms unfolding quiet_env_def by (simp, simp, simp, metis snd_conv, metis snd_conv, metis snd_conv, metis snd_conv)

lemma granting_rules:
  assumes "granting_env env"
  shows "lock_interruptible env l w = (r, w') \<Longrightarrow> r = 0" "copy_from_user env w = (b, w') \<Longrightarrow> b"
    "copy_to_user env w = (b, w') \<Longrightarrow> b"
  using assms unfolding granting_env_def by (metis fst_conv)+

lemma request_kick_core: "quiet_env env \<Longrightarrow> core (request_kick env w) = core w"
proof -
  assume q: "quiet_env env"
  obtain r v where k: "kick env (generation w) (w\<lparr>kick_attempts := 0\<rparr>) = (r, v)" by fastforce
  from quiet_rules(7) [OF q k] have "core v = core w" by (simp add: core_def)
  with k show ?thesis
    by (simp add: request_kick_def kick_now_def kick_generation_def) (simp add: core_def)
qed

lemma kick_pending_core: "quiet_env env \<Longrightarrow> core (kick_pending env w) = core w"
  by (simp add: kick_pending_def request_kick_core split: sum.splits prod.splits)

lemma take_sequence_result:
  assumes "take_sequence w = (s, w')"
  shows "s \<noteq> 0 \<and> w' = w\<lparr>next_sequence := s + 1\<rparr> \<and> s = (if next_sequence w = 0 then 1 else next_sequence w)"
  using assms
  by (cases "next_sequence w = 0")
    (auto simp: take_sequence.simps [of w] take_sequence.simps [of "w\<lparr>next_sequence := 1\<rparr>"] Let_def)

text \<open>Occupancies in terms of the contents of the rings, when the counters are consistent.\<close>

definition rings_counted :: "shm_region \<Rightarrow> bool" where
  "rings_counted m \<longleftrightarrow> ring_ok Request_producer Request_consumer m \<and> ring_ok Response_producer Response_consumer m"

lemma rings_ok_counted: "rings_ok m \<Longrightarrow> rings_counted m"
  by (simp add: rings_ok_def ring_contents_ok_def rings_counted_def)

lemma occupancies:
  assumes "rings_counted (shm_base w)"
  shows "request_occupancy w = Inr (request_producer (shm_base w), request_consumer (shm_base w),
      of_nat (length (requests (shm_base w))))"
    "response_occupancy w = Inr (response_producer (shm_base w), response_consumer (shm_base w),
      of_nat (length (responses (shm_base w))))"
  using assms ring_count_word(1) [of Request_producer "shm_base w" Request_consumer]
    ring_count_word(1) [of Response_producer "shm_base w" Response_consumer]
  by (simp_all add: rings_counted_def ring_ok_def request_occupancy_def
      response_occupancy_def ring_occupancy_def Let_def) (simp_all add: ring_count_def)

lemma rings_counted_lengths:
  assumes "rings_counted m"
  shows "length (requests m) \<le> 64" "length (responses m) \<le> 64"
  using assms by (simp_all add: rings_counted_def ring_ok_def)

lemma slot_index_ring: "slot_index (load_counter c m) = ring_index c m"
  by (simp add: slot_index_def ring_index_def unat_and_63)

text \<open>Without a timeout the loops end in their first round.\<close>

lemma wait_for_space_now:
  assumes "rings_counted (shm_base w)" "rtos_ready w" "\<not> stale w"
  shows "wait_for_space env stale 0 0 w =
    Some (if length (requests (shm_base w)) = 64 then Inl (- EAGAIN)
      else Inr (request_producer (shm_base w), of_nat (length (requests (shm_base w)))), w)"
proof -
  let ?n = "length (requests (shm_base w))"
  have n: "?n \<le> 64" by (rule rings_counted_lengths [OF assms(1)])
  have "(of_nat ?n :: u32) < 64 \<longleftrightarrow> ?n < 64"
    using n by (simp only: word_less_nat_alt unat_of_nat_u32) simp
  with n show ?thesis
    using assms(2,3) occupancies(1) [OF assms(1)]
    by (subst wait_for_space.simps) (simp del: length_ring_contents)
qed

lemma wait_for_response_now:
  assumes "rings_counted (shm_base w)" "rtos_ready w" "\<not> stale w"
  shows "wait_for_response env stale 0 0 w =
    Some (if responses (shm_base w) = [] then Inl (- EAGAIN)
      else Inr (response_consumer (shm_base w), of_nat (length (responses (shm_base w)))), w)"
proof -
  let ?n = "length (responses (shm_base w))"
  have "?n \<le> 64" by (rule rings_counted_lengths [OF assms(1)])
  then have "(of_nat ?n :: u32) > 0 \<longleftrightarrow> ?n > 0"
    by (simp only: word_less_nat_alt unat_of_nat_u32) simp
  then show ?thesis
    using assms(2,3) occupancies(2) [OF assms(1)]
    by (subst wait_for_response.simps) (simp del: length_ring_contents)
qed

lemma granted:
  assumes "quiet_env env" "granting_env env"
  shows "\<exists>v. lock_interruptible env l w = (0, v) \<and> core v = core w"
    "\<exists>v. copy_from_user env w = (True, v) \<and> core v = core w" "\<exists>v. copy_to_user env w = (True, v) \<and> core v = core w"
  using quiet_rules(4-6) [OF assms(1)] granting_rules [OF assms(2)] by (metis surj_pair)+

text \<open>The next sequence number, and what an undisturbed send and receive do.\<close>

definition fresh_sequence :: "u32 \<Rightarrow> u32" where
  "fresh_sequence s = (if s = 0 then 1 else s)"

lemma fresh_sequence_nonzero [simp]: "fresh_sequence s \<noteq> 0"
  by (simp add: fresh_sequence_def)

lemma take_sequence_fresh:
  "take_sequence w = (fresh_sequence (next_sequence w), w\<lparr>next_sequence := fresh_sequence (next_sequence w) + 1\<rparr>)"
  using take_sequence_result [of w] by (cases "take_sequence w") (auto simp: fresh_sequence_def)

abbreviation tag :: "u32 \<Rightarrow> sg2002_rtos_shm_slot \<Rightarrow> sg2002_rtos_shm_slot" where
  "tag s msg \<equiv> msg\<lparr>sequence := s\<rparr>"

lemma send_message_now:
  assumes "quiet_env env" "granting_env env" "rings_counted (shm_base w)" "rtos_ready w" "is_owner f w"
    and "slot_length (message t) \<le> SG2002_RTOS_SHM_PAYLOAD_SIZE" "transfer_timeout_ms t = 0"
    and "s = fresh_sequence (next_sequence w)" "msg = tag s (message t)" "full = (length (requests (shm_base w)) = 64)"
  shows "\<exists>v. send_message env f t w = Some (if full then Inl (- EAGAIN) else Inr (t\<lparr>message := msg\<rparr>), v) \<and>
    core v = core (if full then w else w\<lparr>next_sequence := s + 1,
      shm_base := push_effect Request_producer Request_slots msg (shm_base w)\<rparr>)"
proof -
  obtain w1 where 1: "copy_from_user env w = (True, w1)" "core w1 = core w"
    using granted(2) [OF assms(1,2)] by blast
  obtain w2 where 2: "lock_interruptible env Transmit_lock w1 = (0, w2)" "core w2 = core w"
    using granted(1) [OF assms(1,2)] 1(2) by metis
  note c = core_fields [OF 2(2)] core_predicates [OF 2(2)]
  note wait = wait_for_space_now [of w2 "\<lambda>_. False" env, unfolded c, OF assms(3,4), simplified]
  obtain w4 where 4: "copy_to_user env (w2\<lparr>next_sequence := s + 1\<rparr>) = (True, w4)"
    "core w4 = core (w2\<lparr>next_sequence := s + 1\<rparr>)" using granted(3) [OF assms(1,2)] by blast
  have seq: "take_sequence w2 = (s, w2\<lparr>next_sequence := s + 1\<rparr>)"
    using c(5) assms(8) by (simp add: take_sequence_fresh)
  have msg: "tag s (message t) = msg" by (simp add: assms(9))
  define w5 where "w5 = set_counter Request_producer (request_producer (shm_base w) + 1)
    (write_request (request_producer (shm_base w)) msg w4)"
  have 5: "core w5 = core (w\<lparr>next_sequence := s + 1,
      shm_base := push_effect Request_producer Request_slots msg (shm_base w)\<rparr>)"
    using 4(2) 2(2) slot_index_ring [of Request_producer "shm_base w"]
    by (simp add: w5_def core_def set_counter_def write_request_def push_effect_def)
  show ?thesis
    using assms(5-7) 1 2(1) 4(1) c quiet_rules(3) [OF assms(1)] 2(2)
    by (simp add: send_message_def first_wait_def wait seq msg w5_def [symmetric] 5
        request_kick_core [OF assms(1)] linorder_not_less assms(10))
qed

lemma receive_message_now:
  assumes "quiet_env env" "granting_env env" "rings_counted (shm_base w)" "rtos_ready w" "is_owner f w"
    and "transfer_timeout_ms t = 0" "none = (responses (shm_base w) = [])" "msg = hd (responses (shm_base w))"
  shows "\<exists>v. receive_message env f t w =
      Some (if none then Inl (- EAGAIN) else if slot_length msg > SG2002_RTOS_SHM_PAYLOAD_SIZE then Inl (- EPROTO)
        else Inr (t\<lparr>message := msg\<rparr>), v) \<and>
    core v = core (if none then w else w\<lparr>shm_base := pop_effect Response_consumer (shm_base w)\<rparr>)"
proof -
  obtain w1 where 1: "copy_from_user env w = (True, w1)" "core w1 = core w"
    using granted(2) [OF assms(1,2)] by blast
  obtain w2 where 2: "lock_interruptible env Receive_lock w1 = (0, w2)" "core w2 = core w"
    using granted(1) [OF assms(1,2)] 1(2) by metis
  note c = core_fields [OF 2(2)] core_predicates [OF 2(2)]
  note wait = wait_for_response_now [of w2 "\<lambda>_. False" env, unfolded c, OF assms(3,4), simplified]
  obtain w3 where 3: "copy_to_user env w2 = (True, w3)" "core w3 = core w"
    using granted(3) [OF assms(1,2)] 2(2) by metis
  show ?thesis
  proof (cases none)
    case True
    then show ?thesis
      using assms(5-7) 1 2 c quiet_rules(3) [OF assms(1)]
      by (simp add: receive_message_def first_wait_def wait)
  next
    case False
    then obtain msgs where r: "responses (shm_base w) = msg # msgs"
      using assms(7,8) by (cases "responses (shm_base w)") auto
    have at: "response_at (response_consumer (shm_base w)) w2 = msg"
      using contents_pop_cons [OF _ r] slot_index_ring [of Response_consumer "shm_base w"] c(1)
      by (simp add: response_at_def pop_message_def)
    have pop: "core (set_counter Response_consumer (response_consumer (shm_base w) + 1) v) =
        core (w\<lparr>shm_base := pop_effect Response_consumer (shm_base w)\<rparr>)" if "core v = core w" for v
      using that by (simp add: core_def set_counter_def pop_effect_def)
    show ?thesis
      using False assms(5-7) 1 2 3 c(10) quiet_rules(3) [OF assms(1)] r
      by (simp add: receive_message_def first_wait_def wait at pop kick_pending_core [OF assms(1)])
  qed
qed

subsection \<open>Batches as single messages\<close>

primrec tag_all :: "u32 \<Rightarrow> sg2002_rtos_shm_slot list \<Rightarrow> sg2002_rtos_shm_slot list" where
  "tag_all s [] = []"
| "tag_all s (msg # msgs) = tag (fresh_sequence s) msg # tag_all (fresh_sequence s + 1) msgs"

primrec sequence_after :: "u32 \<Rightarrow> nat \<Rightarrow> u32" where
  "sequence_after s 0 = s"
| "sequence_after s (Suc n) = sequence_after (fresh_sequence s + 1) n"

lemma length_tag_all [simp]: "length (tag_all s msgs) = length msgs"
  by (induction msgs arbitrary: s) simp_all

lemma message_ok_tag [simp]: "message_ok (tag s msg) = message_ok msg"
  by (simp add: message_ok_def slot_wf_def)

lemma tag_all_ok: "list_all message_ok (tag_all s msgs) = list_all message_ok msgs"
  by (induction msgs arbitrary: s) simp_all

text \<open>Consecutive slots written without moving the counter, and the same as pushes.\<close>

primrec store_all :: "u32 \<Rightarrow> sg2002_rtos_shm_slot list \<Rightarrow> shm_region \<Rightarrow> shm_region" where
  "store_all c [] m = m"
| "store_all c (msg # msgs) m = store_all (c + 1) msgs (store_slot Request_slots (slot_index c) msg m)"

abbreviation push_request :: "sg2002_rtos_shm_slot \<Rightarrow> shm_region \<Rightarrow> shm_region" where
  "push_request \<equiv> push_effect Request_producer Request_slots"

lemma store_all_counter:
  "store_all c msgs (store_counter Request_producer v m) = store_counter Request_producer v (store_all c msgs m)"
proof (induction msgs arbitrary: c m)
  case (Cons msg msgs)
  have "store_slot Request_slots i msg (store_counter Request_producer v m) =
      store_counter Request_producer v (store_slot Request_slots i msg m)" for i by simp
  then show ?case by (simp only: store_all.simps Cons.IH)
qed simp

lemma store_all_pushes:
  "request_producer m = c \<Longrightarrow>
    store_counter Request_producer (c + of_nat (length msgs)) (store_all c msgs m) = fold push_request msgs m"
proof (induction msgs arbitrary: c m)
  case (Cons msg msgs)
  let ?m = "store_slot Request_slots (slot_index c) msg m"
  have p: "push_request msg m = store_counter Request_producer (c + 1) ?m"
    using Cons.prems slot_index_ring [of Request_producer m] by (simp add: push_effect_def)
  have "fold push_request msgs (push_request msg m) =
      store_counter Request_producer (c + 1 + of_nat (length msgs)) (store_all (c + 1) msgs (push_request msg m))"
    by (rule Cons.IH [symmetric]) (simp add: p)
  also have "\<dots> = store_counter Request_producer (c + 1 + of_nat (length msgs)) (store_all (c + 1) msgs ?m)"
    by (simp only: p store_all_counter) simp
  finally show ?case by (simp add: algebra_simps)
qed simp

lemma write_requests_all:
  "i \<le> k \<Longrightarrow> k \<le> length (tx_batch w) \<Longrightarrow> write_requests c [i..<k] w =
    w\<lparr>shm_base := store_all (c + of_nat i) (drop i (take k (tx_batch w))) (shm_base w)\<rparr>"
proof (induction "k - i" arbitrary: i w)
  case (Suc d)
  then have i: "i < k" by simp
  then have "drop i (take k (tx_batch w)) = (tx_batch w ! i) # drop (Suc i) (take k (tx_batch w))"
    using Suc.prems by (simp add: Cons_nth_drop_Suc [symmetric])
  with Suc i show ?case
    by (simp add: upt_conv_Cons write_request_def algebra_simps)
qed simp

lemma assign_sequences_tags:
  "i \<le> k \<Longrightarrow> k \<le> length (tx_batch w) \<Longrightarrow> assign_sequences [i..<k] w =
    w\<lparr>tx_batch := take i (tx_batch w) @ tag_all (next_sequence w) (drop i (take k (tx_batch w))) @ drop k (tx_batch w),
      next_sequence := sequence_after (next_sequence w) (k - i)\<rparr>"
proof (induction "k - i" arbitrary: i w)
  case (Suc d)
  then have i: "i < k" "i < length (tx_batch w)" by simp_all
  let ?b = "tx_batch w" and ?s = "fresh_sequence (next_sequence w)"
  have d: "drop i (take k ?b) = (?b ! i) # drop (Suc i) (take k ?b)" "k - i = Suc (k - Suc i)"
    using i by (simp_all add: Cons_nth_drop_Suc [symmetric])
  have "take (Suc i) (?b[i := x]) = take i ?b @ [x]" for x
    using i(2) by (simp add: take_Suc_conv_app_nth)
  with Suc i d show ?case
    by (simp add: upt_conv_Cons take_sequence_fresh take_update_swap drop_update_swap)
qed simp

text \<open>Sending a list of messages one by one; the answers are the messages with their numbers.\<close>

fun send_each ::
  "'x kernel_world_scheme kernel_env \<Rightarrow> file_ptr \<Rightarrow> sg2002_rtos_shm_slot list \<Rightarrow> 'x kernel_world_scheme \<Rightarrow>
    (sg2002_rtos_shm_slot list \<times> 'x kernel_world_scheme) option" where
  "send_each env f [] w = Some ([], w)"
| "send_each env f (msg # msgs) w = do {
     (r, w) \<leftarrow> send_message env f \<lparr>transfer_timeout_ms = 0, message = msg\<rparr> w;
     t \<leftarrow> (case r of Inl _ \<Rightarrow> None | Inr t \<Rightarrow> Some t);
     (sent, w) \<leftarrow> send_each env f msgs w;
     Some (message t # sent, w)
   }"

lemma push_request_rings:
  assumes "rings_ok m" "length (requests m) < 64" "message_ok msg"
  shows "rings_ok (push_request msg m)" "requests (push_request msg m) = requests m @ [msg]"
    "responses (push_request msg m) = responses m"
    "layout (push_request msg m) = layout m" "linux_peer (push_request msg m) = linux_peer m"
    "rtos_peer (push_request msg m) = rtos_peer m"
proof -
  have ok: "ring_contents_ok Request_producer Request_consumer Request_slots (push_request msg m)"
    using assms ring_contents_ok_push [of Request_producer Request_consumer Request_slots m msg]
    by (simp add: rings_ok_def)
  then show "rings_ok (push_request msg m)"
    using assms(1) by (simp add: rings_ok_def ring_contents_ok_def ring_ok_def)
  show "responses (push_request msg m) = responses m" by simp
  show "requests (push_request msg m) = requests m @ [msg]"
    using assms by (simp add: contents_push rings_ok_def ring_contents_ok_def ring_ok_def)
qed (simp_all add: push_effect_def)

lemma fold_push_request_rings:
  assumes "rings_ok m" "length (requests m) + length msgs \<le> 64" "list_all message_ok msgs"
  shows "rings_ok (fold push_request msgs m) \<and> requests (fold push_request msgs m) = requests m @ msgs \<and>
    responses (fold push_request msgs m) = responses m \<and> layout (fold push_request msgs m) = layout m \<and>
    linux_peer (fold push_request msgs m) = linux_peer m \<and> rtos_peer (fold push_request msgs m) = rtos_peer m"
  using assms
proof (induction msgs arbitrary: m)
  case (Cons msg msgs)
  have l: "length (requests m) < 64" "message_ok msg" using Cons.prems(2,3) by simp_all
  note p = push_request_rings [OF Cons.prems(1) l]
  have "length (requests (push_request msg m)) + length msgs \<le> 64" "list_all message_ok msgs"
    using Cons.prems(2,3) p(2) by (simp_all del: length_ring_contents)
  from Cons.IH [OF p(1) this] p show ?case by (simp del: length_ring_contents)
qed simp

lemma rtos_ready_same_control:
  assumes "core v = core (w\<lparr>shm_base := m, next_sequence := s\<rparr>)" "layout m = layout (shm_base w)"
    "linux_peer m = linux_peer (shm_base w)" "rtos_peer m = rtos_peer (shm_base w)"
  shows "rtos_ready v = rtos_ready w" "is_owner f v = is_owner f w"
  using core_fields [OF assms(1)] assms(2-)
  by (simp_all add: rtos_ready_def layout_valid_def is_owner_def)

lemma send_each_now:
  assumes "quiet_env env" "granting_env env" "rings_ok (shm_base w)" "rtos_ready w" "is_owner f w"
    and "length (requests (shm_base w)) + length msgs \<le> 64" "list_all message_ok msgs"
  shows "\<exists>v. send_each env f msgs w = Some (tag_all (next_sequence w) msgs, v) \<and>
    core v = core (w\<lparr>shm_base := fold push_request (tag_all (next_sequence w) msgs) (shm_base w),
      next_sequence := sequence_after (next_sequence w) (length msgs)\<rparr>)"
  using assms(3-)
proof (induction msgs arbitrary: w)
  case (Cons msg msgs)
  let ?s = "fresh_sequence (next_sequence w)" and ?m = "shm_base w"
  have l: "length (requests ?m) < 64" "message_ok msg" "message_ok (tag ?s msg)"
    using Cons.prems(4,5) by simp_all
  note p = push_request_rings [OF Cons.prems(1) l(1,3)]
  have "slot_length msg \<le> SG2002_RTOS_SHM_PAYLOAD_SIZE" using l(2) by (simp add: message_ok_def)
  then obtain v where v: "send_message env f \<lparr>transfer_timeout_ms = 0, message = msg\<rparr> w =
      Some (Inr \<lparr>transfer_timeout_ms = 0, message = tag ?s msg\<rparr>, v)"
    "core v = core (w\<lparr>shm_base := push_request (tag ?s msg) ?m, next_sequence := ?s + 1\<rparr>)"
    using send_message_now [OF assms(1,2) rings_ok_counted [OF Cons.prems(1)] Cons.prems(2,3), of
        "\<lparr>transfer_timeout_ms = 0, message = msg\<rparr>" ?s "tag ?s msg" False] l(1)
    by (auto simp: core_def)
  note c = core_fields [OF v(2), simplified]
  have "rings_ok (shm_base v)" "rtos_ready v" "is_owner f v"
    "length (requests (shm_base v)) + length msgs \<le> 64" "list_all message_ok msgs"
    using rtos_ready_same_control [OF v(2) p(4-6)] c(1) p(1,2) Cons.prems(2-5)
    by (simp_all del: length_ring_contents)
  from Cons.IH [OF this] v(1) show ?case
    by (auto simp: c core_def)
qed (auto simp: core_def)

text \<open>A batch descriptor the driver accepts, with no timeout.\<close>

definition batch_accepted :: "user_batch \<Rightarrow> 'x kernel_world_scheme \<Rightarrow> bool" where
  "batch_accepted b w \<longleftrightarrow> batch_slots_ptr b \<noteq> 0 \<and> 0 < batch_count b \<and> batch_count b \<le> 64 \<and>
     batch_flags b = 0 \<and> batch_reserved b = (0, 0) \<and> batch_timeout_ms b = 0 \<and> batch_generation b = generation w"

lemma copy_batch_accepted:
  assumes "quiet_env env" "granting_env env" "batch_accepted b w"
  shows "\<exists>v. copy_batch_from_user env b w = (Inr (b\<lparr>batch_completed := 0\<rparr>), v) \<and> core v = core w"
proof -
  obtain v where "copy_from_user env w = (True, v)" "core v = core w" using granted(2) [OF assms(1,2)] by blast
  then show ?thesis
    using assms(3) by (auto simp: copy_batch_from_user_def batch_accepted_def)
qed

lemma copy_batch_granted:
  assumes "quiet_env env" "granting_env env"
  shows "\<exists>v. copy_batch_to_user env b sent user_b slots w = (True, b, sent @ drop (length sent) slots, v) \<and> core v = core w"
proof -
  obtain v where 1: "copy_to_user env w = (True, v)" "core v = core w" using granted(3) [OF assms] by blast
  obtain u where "copy_to_user env v = (True, u)" "core u = core v" using granted(3) [OF assms] by blast
  with 1 show ?thesis by (auto simp: copy_batch_to_user_def)
qed

lemma unat_min_word: "unat (min a b) = min (unat a) (unat (b :: 'a::len word))"
  by (simp add: min_def word_le_nat_alt)

lemma completed_count:
  assumes "c \<le> 64" "l \<le> 64"
  shows "unat (min c (ucast (64 - (of_nat l :: u32))) :: u16) = min (unat c) (64 - l)"
    "unat (min c (ucast (of_nat l :: u32)) :: u16) = min (unat c) l"
proof -
  have "(of_nat l :: u32) \<le> 64" using assms(2) by (simp add: word_le_nat_alt unat_of_nat_u32)
  then have "unat (64 - (of_nat l :: u32)) = 64 - l" using assms(2) by (simp add: unat_sub unat_of_nat_u32)
  then show "unat (min c (ucast (64 - (of_nat l :: u32))) :: u16) = min (unat c) (64 - l)"
    by (simp add: unat_min_word unsigned_ucast_eq take_bit_nat_eq_self)
  show "unat (min c (ucast (of_nat l :: u32)) :: u16) = min (unat c) l"
    using assms(2) by (simp add: unat_min_word unsigned_ucast_eq unat_of_nat_u32 take_bit_nat_eq_self)
qed

lemma submit_batch_now:
  assumes q: "quiet_env env" "granting_env env" and w: "rings_ok (shm_base w)" "rtos_ready w" "is_owner f w"
    and b: "batch_accepted b w" "length slots = unat (batch_count b)" "length (tx_batch w) = 64"
    and ok: "list_all message_ok slots"
    and k: "k = min (length slots) (64 - length (requests (shm_base w)))" "0 < k"
    and sent: "sent = tag_all (next_sequence w) (take k slots)"
  shows "\<exists>v. submit_batch env f b slots w =
      Some (0, b\<lparr>batch_completed := of_nat k\<rparr>, sent @ drop k slots, v) \<and>
    core v = core (w\<lparr>shm_base := fold push_request sent (shm_base w),
      next_sequence := sequence_after (next_sequence w) k, tx_batch := tx_batch v\<rparr>)"
proof -
  let ?m = "shm_base w" and ?n = "length slots" and ?b = "b\<lparr>batch_completed := 0\<rparr>" and ?p = "request_producer (shm_base w)"
  have len: "length (requests ?m) \<le> 64" "length (requests ?m) < 64"
    using rings_counted_lengths [OF rings_ok_counted [OF w(1)]] k by simp_all
  obtain w1 where 1: "copy_batch_from_user env b w = (Inr ?b, w1)" "core w1 = core w"
    using copy_batch_accepted [OF q b(1)] by blast
  obtain w2 where 2: "lock_interruptible env Transmit_lock w1 = (0, w2)" "core w2 = core w"
    using granted(1) [OF q] 1(2) by metis
  obtain w3 where 3: "copy_from_user env w2 = (True, w3)" "core w3 = core w"
    using granted(2) [OF q] 2(2) by metis
  define w4 where "w4 = w3\<lparr>tx_batch := take ?n slots @ drop ?n (tx_batch w3)\<rparr>"
  note c3 = core_fields [OF 3(2)]
  have tx4: "tx_batch w4 = slots @ drop ?n (tx_batch w)" and n: "?n \<le> 64"
    using b(1,2) c3(7) by (simp_all add: w4_def batch_accepted_def word_le_nat_alt)
  have m4: "shm_base w4 = ?m" "next_sequence w4 = next_sequence w" "generation w4 = generation w"
    using c3 by (simp_all add: w4_def)
  have ready4: "rtos_ready w4" using w(2) core_predicates(1) [OF 3(2)]
    by (simp add: w4_def rtos_ready_def layout_valid_def)
  have ok4: "\<not> list_ex (\<lambda>m. slot_length m > SG2002_RTOS_SHM_PAYLOAD_SIZE) (take ?n (tx_batch w4))"
    using ok by (auto simp: tx4 list_ex_iff list_all_iff message_ok_def)
  have w4': "w3\<lparr>tx_batch := slots @ drop (unat (batch_count b)) (tx_batch w3)\<rparr> = w4"
    using b(2) by (simp add: w4_def)
  have wait: "wait_for_space env (\<lambda>v. generation w \<noteq> generation v) 0 0 w4 =
      Some (Inr (?p, of_nat (length (requests ?m))), w4)"
    using wait_for_space_now [of w4 "\<lambda>v. generation w \<noteq> generation v" env] ready4 m4 len(2)
      rings_ok_counted [OF w(1)] b(1) by (simp add: batch_accepted_def del: length_ring_contents)
  have k64: "k \<le> 64" using k(1) n by simp
  have k16: "unat (of_nat k :: u16) = k" "unat (of_nat k :: u32) = k"
    using k64 by (simp_all add: unat_of_nat_u16 unat_of_nat_u32)
  have cnt: "min (batch_count b) (ucast (64 - (of_nat (length (requests ?m)) :: u32))) = of_nat k"
    using b(1,2) k(1) len(1) k16(1) by (simp add: word_unat_eq_iff completed_count batch_accepted_def del: length_ring_contents)
  have cast: "ucast (of_nat k :: u16) = (of_nat k :: u32)"
    using k16 k64 by (simp add: word_unat_eq_iff unsigned_ucast_eq take_bit_nat_eq_self)
  define w5 where "w5 = assign_sequences [0..<k] w4"
  have tx: "length (tx_batch w4) = 64" using tx4 n b(3) by simp
  have w5: "w5 = w4\<lparr>tx_batch := sent @ drop k (tx_batch w4), next_sequence := sequence_after (next_sequence w) k\<rparr>"
    unfolding w5_def using assign_sequences_tags [of 0 k w4] tx k(1) n tx4
    by (simp add: m4 sent)
  have ls: "length sent = k" using k(1) by (simp add: sent)
  then have tx5: "take k (tx_batch w5) = sent" by (simp add: w5)
  obtain w6 where 6: "copy_batch_to_user env (b\<lparr>batch_completed := of_nat k\<rparr>) sent b slots w5 =
      (True, b\<lparr>batch_completed := of_nat k\<rparr>, sent @ drop k slots, w6)" "core w6 = core w5"
    using copy_batch_granted [OF q] ls by metis
  note c6 = core_fields [OF 6(2)]
  have ready6: "rtos_ready w6" "generation w6 = generation w"
    using ready4 core_predicates(1) [OF 6(2)] c6(4) m4 by (simp_all add: w5 rtos_ready_def layout_valid_def)
  have wr: "shm_base (set_counter Request_producer (?p + of_nat k) (write_requests ?p [0..<k] w6)) =
      fold push_request sent ?m"
    using write_requests_all [of 0 k w6 ?p] c6(1,7) store_all_pushes [of ?m ?p sent] tx k(1) ls
    by (simp add: set_counter_def w5 m4)
  have wr': "core (set_counter Request_producer (?p + of_nat k) (write_requests ?p [0..<k] w6)) =
      core (w\<lparr>shm_base := fold push_request sent ?m, next_sequence := sequence_after (next_sequence w) k,
        tx_batch := tx_batch w6\<rparr>)"
    using wr write_requests_all [of 0 k w6 ?p] c6 c3 tx k(1) ls
    by (simp add: core_def) (simp add: set_counter_def w5 w4_def)
  note cr = request_kick_core [OF q(1)] quiet_rules(3) [OF q(1)] core_fields(7) [OF request_kick_core [OF q(1)]]
    core_fields(7) [OF quiet_rules(3) [OF q(1)]] core_fields(7) [OF wr']
  from w(3) b(1) 1(1) 2(1) 3(1) ready6 tx4 ok4 n b(2) k(2) ls show ?thesis
    by (simp add: submit_batch_def first_wait_def w4' wait cnt k16 cast w5_def [symmetric] 6(1)
        batch_accepted_def wr' cr list_ex_iff tx5 del: length_ring_contents)
qed

text \<open>Taking responses one by one, and what the loop of a batch collects.\<close>

definition reapable :: "sg2002_rtos_shm_slot \<Rightarrow> bool" where
  "reapable msg \<longleftrightarrow> sequence msg \<noteq> 0 \<and> slot_length msg \<le> SG2002_RTOS_SHM_PAYLOAD_SIZE"

abbreviation pop_response :: "shm_region \<Rightarrow> shm_region" where
  "pop_response \<equiv> pop_effect Response_consumer"

fun receive_each ::
  "'x kernel_world_scheme kernel_env \<Rightarrow> file_ptr \<Rightarrow> nat \<Rightarrow> 'x kernel_world_scheme \<Rightarrow>
    (sg2002_rtos_shm_slot list \<times> 'x kernel_world_scheme) option" where
  "receive_each env f 0 w = Some ([], w)"
| "receive_each env f (Suc n) w = do {
     (r, w) \<leftarrow> receive_message env f \<lparr>transfer_timeout_ms = 0, message = zero_slot\<rparr> w;
     t \<leftarrow> (case r of Inl _ \<Rightarrow> None | Inr t \<Rightarrow> Some t);
     (taken, w) \<leftarrow> receive_each env f n w;
     Some (message t # taken, w)
   }"

lemma pop_responses_counter:
  "(pop_response ^^ k) m = store_counter Response_consumer (response_consumer m + of_nat k) m"
  by (induction k) (simp_all add: pop_effect_def algebra_simps)

lemma pop_response_rings:
  assumes "rings_counted m" "responses m \<noteq> []"
  shows "rings_counted (pop_response m)" "responses (pop_response m) = tl (responses m)"
    "requests (pop_response m) = requests m" "layout (pop_response m) = layout m"
    "linux_peer (pop_response m) = linux_peer m" "rtos_peer (pop_response m) = rtos_peer m"
proof -
  have n: "0 < ring_count Response_producer Response_consumer m" using assms(2) by (simp add: contents_nil)
  show "responses (pop_response m) = tl (responses m)" by (rule contents_pop) (use n in simp_all)
  show "rings_counted (pop_response m)"
    using assms(1) n ring_ok_pop [of Response_producer Response_consumer m]
    by (simp add: rings_counted_def) (simp add: ring_ok_def)
qed (simp, simp_all add: pop_effect_def)

lemma response_at_nth:
  assumes "j < length (responses (shm_base w))"
  shows "response_at (response_consumer (shm_base w) + of_nat j) w = responses (shm_base w) ! j"
proof -
  let ?c = "response_consumer (shm_base w)"
  have "(a + j mod 4294967296) mod 64 = (a + j) mod 64" for a :: nat
  proof -
    have "(a + j mod 4294967296) mod 64 = (a + (j mod 4294967296) mod 64) mod 64" by (simp only: mod_add_right_eq)
    also have "(j mod 4294967296) mod 64 = j mod 64" by (simp add: mod_mod_cancel)
    finally show ?thesis by (simp only: mod_add_right_eq)
  qed
  then have "unat (?c + of_nat j) mod 64 = (unat ?c + j) mod 64"
    by (simp add: unat_word_ariths unsigned_of_nat take_bit_eq_mod mod_mod_cancel)
  then show ?thesis
    using assms by (simp add: response_at_def slot_index_def unat_and_63 ring_contents_def)
qed

lemma reap_responses_prefix:
  "i \<le> c \<Longrightarrow> c \<le> length (rx_batch w) \<Longrightarrow> rs = map (\<lambda>j. response_at (consumer + of_nat j) w) [i..<c] \<Longrightarrow>
    \<exists>rx. reap_responses consumer [i..<c] c w = (i + length (takeWhile reapable rs), w\<lparr>rx_batch := rx\<rparr>) \<and>
      take (i + length (takeWhile reapable rs)) rx = take i (rx_batch w) @ takeWhile reapable rs"
proof (induction "c - i" arbitrary: i w rs)
  case 0
  then show ?case by (auto intro!: exI [of _ "rx_batch w"])
next
  case (Suc d)
  let ?msg = "response_at (consumer + of_nat i) w"
  let ?w = "w\<lparr>rx_batch := (rx_batch w)[i := ?msg]\<rparr>"
  have i: "i < c" using Suc by simp
  have at: "response_at j ?w = response_at j w" for j by (simp add: response_at_def)
  have rs: "rs = ?msg # map (\<lambda>j. response_at (consumer + of_nat j) ?w) [Suc i..<c]"
    using i Suc.prems(3) by (simp add: upt_conv_Cons at)
  show ?case
  proof (cases "reapable ?msg")
    case True
    let ?n = "Suc i + length (takeWhile reapable (tl rs))"
    have "\<exists>rx. reap_responses consumer [Suc i..<c] c ?w = (?n, ?w\<lparr>rx_batch := rx\<rparr>) \<and>
        take ?n rx = take (Suc i) (rx_batch ?w) @ takeWhile reapable (tl rs)"
      by (rule Suc.hyps(1)) (use Suc.hyps(2) Suc.prems(2) i rs in simp_all)
    then obtain rx where "reap_responses consumer [Suc i..<c] c ?w = (?n, w\<lparr>rx_batch := rx\<rparr>)"
      "take ?n rx = take (Suc i) (rx_batch ?w) @ takeWhile reapable (tl rs)" by auto
    moreover have "takeWhile reapable rs = ?msg # takeWhile reapable (tl rs)" by (simp add: rs True)
    moreover have "take (Suc i) (rx_batch ?w) = take i (rx_batch w) @ [?msg]"
      using i Suc.prems(2) by (simp add: take_Suc_conv_app_nth)
    moreover have "reap_responses consumer [i..<c] c w = reap_responses consumer [Suc i..<c] c ?w"
      using i True by (simp add: upt_conv_Cons reapable_def Let_def linorder_not_less [symmetric])
    ultimately show ?thesis by (intro exI [of _ rx]) simp
  next
    case False
    have "takeWhile reapable rs = []" by (simp add: rs False)
    moreover have "reap_responses consumer [i..<c] c w = (i, ?w)"
      using i False by (simp add: upt_conv_Cons reapable_def Let_def) (auto simp: linorder_not_less)
    ultimately show ?thesis by (intro exI [of _ "(rx_batch w)[i := ?msg]"]) simp
  qed
qed

lemma receive_each_now:
  assumes "quiet_env env" "granting_env env" "rings_counted (shm_base w)" "rtos_ready w" "is_owner f w"
    and "k \<le> length (responses (shm_base w))" "list_all reapable (take k (responses (shm_base w)))"
  shows "\<exists>v. receive_each env f k w = Some (take k (responses (shm_base w)), v) \<and>
    core v = core (w\<lparr>shm_base := (pop_response ^^ k) (shm_base w)\<rparr>)"
  using assms(3-)
proof (induction k arbitrary: w)
  case (Suc k)
  let ?m = "shm_base w"
  obtain msg msgs where r: "responses ?m = msg # msgs" using Suc.prems(4) by (cases "responses ?m") auto
  then have len: "\<not> SG2002_RTOS_SHM_PAYLOAD_SIZE < slot_length msg" using Suc.prems(5) by (simp add: reapable_def linorder_not_less)
  have ne: "responses ?m \<noteq> []" using r by simp
  note p = pop_response_rings [OF Suc.prems(1) ne]
  let ?t = "\<lparr>transfer_timeout_ms = 0, message = zero_slot\<rparr>"
  have "\<exists>v. receive_message env f ?t w = Some (if False then Inl (- EAGAIN)
        else if slot_length msg > SG2002_RTOS_SHM_PAYLOAD_SIZE then Inl (- EPROTO) else Inr (?t\<lparr>message := msg\<rparr>), v) \<and>
      core v = core (if False then w else w\<lparr>shm_base := pop_response ?m\<rparr>)"
    by (rule receive_message_now [OF assms(1,2) Suc.prems(1-3)]) (simp_all add: r)
  then obtain v where v: "receive_message env f ?t w = Some (Inr (?t\<lparr>message := msg\<rparr>), v)"
    "core v = core (w\<lparr>shm_base := pop_response ?m\<rparr>)" using len by (simp only: if_False) blast
  note c = core_fields [OF v(2), simplified]
  have v': "core v = core (w\<lparr>shm_base := pop_response ?m, next_sequence := next_sequence w\<rparr>)"
    using v(2) by (simp add: core_def)
  have "rings_counted (shm_base v)" "rtos_ready v" "is_owner f v" "k \<le> length (responses (shm_base v))"
    "list_all reapable (take k (responses (shm_base v)))"
    using rtos_ready_same_control [OF v' p(4-6)] c(1) p(1,2) Suc.prems(2-5) r by simp_all
  from Suc.IH [OF this] v(1) p(2) r show ?case
    by (auto simp: c core_def funpow_swap1)
qed (auto simp: core_def)

lemma pop_responses_rings:
  assumes "rings_counted m" "k \<le> length (responses m)"
  shows "rings_counted ((pop_response ^^ k) m) \<and> responses ((pop_response ^^ k) m) = drop k (responses m) \<and>
    requests ((pop_response ^^ k) m) = requests m"
  using assms
proof (induction k)
  case (Suc k)
  let ?m = "(pop_response ^^ k) m"
  have i: "rings_counted ?m" "responses ?m = drop k (responses m)" "requests ?m = requests m" using Suc by simp_all
  have "responses ?m \<noteq> []" using i(2) Suc.prems(2) by simp
  from pop_response_rings [OF i(1) this] i show ?case by (simp add: drop_Suc tl_drop)
qed simp

lemma reap_batch_now:
  assumes q: "quiet_env env" "granting_env env" and w: "rings_counted (shm_base w)" "rtos_ready w" "is_owner f w"
    and b: "batch_accepted b w" "length slots = unat (batch_count b)" "length (rx_batch w) = 64"
    and r: "responses (shm_base w) \<noteq> []"
    and taken: "taken = takeWhile reapable (take (length slots) (responses (shm_base w)))" "k = length taken"
  shows "\<exists>v. reap_batch env f b slots w =
      Some (if k = 0 then (- EPROTO, b, slots, v)
        else (0, b\<lparr>batch_completed := of_nat k\<rparr>, taken @ drop k slots, v)) \<and>
    shm_base v = (pop_response ^^ (if k = 0 then 1 else k)) (shm_base w) \<and> next_sequence v = next_sequence w"
proof -
  let ?m = "shm_base w" and ?b = "b\<lparr>batch_completed := 0\<rparr>" and ?p = "response_consumer (shm_base w)"
  let ?l = "length (responses ?m)"
  have len: "?l \<le> 64" by (rule rings_counted_lengths [OF w(1)])
  obtain w1 where 1: "copy_batch_from_user env b w = (Inr ?b, w1)" "core w1 = core w"
    using copy_batch_accepted [OF q b(1)] by blast
  obtain w2 where 2: "lock_interruptible env Receive_lock w1 = (0, w2)" "core w2 = core w"
    using granted(1) [OF q] 1(2) by metis
  note c2 = core_fields [OF 2(2)] core_predicates [OF 2(2)]
  have wait: "wait_for_response env (\<lambda>v. generation w \<noteq> generation v) 0 0 w2 =
      Some (Inr (?p, of_nat ?l), w2)"
    using wait_for_response_now [of w2 "\<lambda>v. generation w \<noteq> generation v" env] w(1,2) c2 r
    by (simp del: length_ring_contents)
  let ?c = "min (unat (batch_count b)) ?l"
  have cnt: "unat (min (batch_count b) (ucast (of_nat ?l :: u32))) = ?c"
    using b(1) len by (simp add: completed_count batch_accepted_def del: length_ring_contents)
  have n: "?c \<le> 64" "0 < ?c" using b(1) len r
    by (simp_all add: batch_accepted_def word_le_nat_alt word_less_nat_alt del: length_ring_contents)
  have rs: "map (\<lambda>j. response_at (?p + of_nat j) w2) [0..<?c] = take (length slots) (responses ?m)"
    by (rule nth_equalityI) (use response_at_nth [of _ w2] c2(1) b(2) in \<open>simp_all add: min.commute\<close>)
  obtain rx where rx: "reap_responses ?p [0..<?c] ?c w2 = (k, w2\<lparr>rx_batch := rx\<rparr>)" "take k rx = taken"
    using reap_responses_prefix [of 0 ?c w2 "take (length slots) (responses ?m)" ?p] rs n c2(8) b(3) taken
    by (auto simp del: length_ring_contents)
  have k: "k \<le> 64" "k \<le> ?l"
    using taken n length_takeWhile_le [of reapable "take (length slots) (responses ?m)"] b(2) by auto
  define w3 where "w3 = w2\<lparr>rx_batch := rx\<rparr>"
  obtain w4 where 4: "copy_batch_to_user env (b\<lparr>batch_completed := of_nat k\<rparr>) taken b slots w3 =
      (True, b\<lparr>batch_completed := of_nat k\<rparr>, taken @ drop k slots, w4)" "core w4 = core w3"
    using copy_batch_granted [OF q] taken(2) by metis
  note c4 = core_fields [OF 4(2)] core_predicates [OF 4(2)]
  have ready4: "rtos_ready w4" "generation w4 = generation w" "shm_base w4 = ?m" "next_sequence w4 = next_sequence w"
    "shm_base w3 = ?m" "next_sequence w3 = next_sequence w" "rx_batch w3 = rx"
    using w(2) c2 c4 by (simp_all add: w3_def rtos_ready_def layout_valid_def)
  note rules = reap_batch_def first_wait_def wait cnt rx(1) w3_def [symmetric] batch_accepted_def set_counter_def
    core_fields [OF kick_pending_core [OF q(1)]] core_fields [OF quiet_rules(3) [OF q(1)]] ready4
  show ?thesis
  proof (cases "k = 0")
    case True
    from w(3) b(1) 1(1) 2(1) True show ?thesis
      by (simp add: rules pop_effect_def del: length_ring_contents)
  next
    case False
    from w(3) b(1) 1(1) 2(1) False rx(2) 4(1) show ?thesis
      by (simp add: rules pop_responses_counter del: length_ring_contents)
  qed
qed

subsection \<open>A concrete driver\<close>

text \<open>An environment in which nothing else happens and a driver that owns the channel.\<close>

definition still_env :: "'x kernel_world_scheme kernel_env" where
  "still_env = \<lparr>kick = (\<lambda>_ w. (0, w)), wait_event = (\<lambda>_ _ w. (0, w)), wake_up = (\<lambda>w. w),
     lock_interruptible = (\<lambda>_ w. (0, w)), lock_mutex = (\<lambda>_ w. w), unlock_mutex = (\<lambda>_ w. w),
     copy_from_user = (\<lambda>w. (True, w)), copy_to_user = (\<lambda>w. (True, w)), cancel_kick_work = (\<lambda>w. w),
     msecs_to_jiffies = (\<lambda>ms. uint ms), MAX_SCHEDULE_TIMEOUT = 0x7fffffffffffffff\<rparr>"

definition owned_world :: "shm_region \<Rightarrow> kernel_world" where
  "owned_world m = \<lparr>shm_base = m\<lparr>rtos_peer := \<lparr>peer_state = SG2002_RTOS_SHM_STATE_READY, peer_generation = 1\<rparr>\<rparr>,
     shm_size = SG2002_RTOS_SHM_REGION_SIZE, kick_attempts = 0, kick_work_scheduled = False, notifications = 0,
     file_owner = Some 7, generation = 1, next_sequence = 1, shutting_down = False, shutdown_complete = False,
     tx_batch = replicate 64 zero_slot, rx_batch = replicate 64 zero_slot\<rparr>"

definition user_batch_of :: "nat \<Rightarrow> user_batch" where
  "user_batch_of n = \<lparr>batch_timeout_ms = 0, batch_generation = 1, batch_count = of_nat n, batch_completed = 0,
     batch_slots_ptr = 4096, batch_flags = 0, batch_reserved = (0, 0)\<rparr>"

lemma still_env_ok [simp]: "quiet_env still_env" "granting_env still_env"
  by (simp_all add: still_env_def quiet_env_def granting_env_def)

lemma owned_world_ok:
  assumes "message_ok q"
  shows "rtos_ready (owned_world (demo_region q))" "is_owner 7 (owned_world (demo_region q))"
    "rings_ok (shm_base (owned_world (demo_region q)))" "requests (shm_base (owned_world (demo_region q))) = [q]"
    "responses (shm_base (owned_world (demo_region q))) = []"
    "linux_ready 1 (shm_base (owned_world (demo_region q)))"
  using demo_region_ok [OF assms]
  by (simp_all add: owned_world_def is_owner_def)
    (simp_all add: rtos_ready_def layout_valid_def linux_ready_def layout_is_valid_def demo_region_def)

lemma owned_world_fields [simp]:
  "generation (owned_world m) = 1" "next_sequence (owned_world m) = 1"
  "length (tx_batch (owned_world m)) = 64" "length (rx_batch (owned_world m)) = 64"
  by (simp_all add: owned_world_def)

lemma user_batch_of_accepted:
  "0 < n \<Longrightarrow> n \<le> 64 \<Longrightarrow> batch_accepted (user_batch_of n) (owned_world m) \<and> unat (batch_count (user_batch_of n)) = n"
  by (simp add: batch_accepted_def user_batch_of_def word_le_nat_alt word_less_nat_alt unat_of_nat_u16)

text \<open>The same with one response queued.\<close>

definition answered_region :: "sg2002_rtos_shm_slot \<Rightarrow> shm_region" where
  "answered_region r = push_effect Response_producer Response_slots r (demo_region zero_slot)"

lemma answered_region_ok:
  assumes "message_ok r"
  shows "rtos_ready (owned_world (answered_region r))" "is_owner 7 (owned_world (answered_region r))"
    "rings_ok (shm_base (owned_world (answered_region r)))" "responses (shm_base (owned_world (answered_region r))) = [r]"
proof -
  note d = demo_region_ok [OF message_ok_zero]
  have ok: "ring_contents_ok Response_producer Response_consumer Response_slots (demo_region zero_slot)"
    and n: "ring_count Response_producer Response_consumer (demo_region zero_slot) = 0"
    using d(1,5) by (simp_all add: rings_ok_def contents_nil)
  have ok': "ring_contents_ok Response_producer Response_consumer Response_slots (answered_region r)"
    unfolding answered_region_def by (rule ring_contents_ok_push) (use ok n assms in simp_all)
  then have "region_wf (answered_region r)" by (simp add: ring_contents_ok_def ring_ok_def)
  then have "rings_ok (answered_region r)"
    using ok' d(1) by (simp add: rings_ok_def answered_region_def ring_contents_ok_def ring_ok_def)
  then show "rings_ok (shm_base (owned_world (answered_region r)))" by (simp add: owned_world_def)
  have "responses (answered_region r) = responses (demo_region zero_slot) @ [r]"
    unfolding answered_region_def by (rule contents_push) (use n d(2) in simp_all)
  with d(5) show "responses (shm_base (owned_world (answered_region r))) = [r]" by (simp add: owned_world_def)
  show "is_owner 7 (owned_world (answered_region r))" by (simp add: owned_world_def is_owner_def)
  show "rtos_ready (owned_world (answered_region r))"
    using owned_world_ok(1) [OF message_ok_zero]
    by (simp add: owned_world_def rtos_ready_def layout_valid_def answered_region_def push_effect_def)
qed
lemma tag_all_sequences: "0 \<notin> sequence ` set (tag_all s msgs)"
  by (induction msgs arbitrary: s) (auto simp: fresh_sequence_nonzero [symmetric])

lemma tag_all_bytes: "map slot_bytes (tag_all s msgs) = map slot_bytes msgs"
  by (induction msgs arbitrary: s) (simp_all add: slot_bytes_def)


text \<open>A region the driver has just initialised: both rings empty, Linux ready, the firmware not.\<close>

definition next_generation :: "u32 \<Rightarrow> u32" where
  "next_generation g = fresh_sequence (g + 1)"

lemma initialize_generation_fields:
  assumes "v = initialize_generation g w"
  shows "rings_ok (shm_base v)" "requests (shm_base v) = []" "responses (shm_base v) = []"
    "linux_ready (next_generation g) (shm_base v)" "layout_valid v = (shm_size w = SG2002_RTOS_SHM_REGION_SIZE)"
    "layout_generation (layout (shm_base v)) = next_generation g"
    "rtos_peer (shm_base v) = \<lparr>peer_state = SG2002_RTOS_SHM_STATE_OFFLINE, peer_generation = 0\<rparr>"
    "linux_peer (shm_base v) = \<lparr>peer_state = SG2002_RTOS_SHM_STATE_READY, peer_generation = next_generation g\<rparr>"
    "generation v = next_generation g" "next_sequence v = 1" "file_owner v = file_owner w"
    "shutting_down v = shutting_down w" "shm_size v = shm_size w"
proof -
  have wf: "region_wf (shm_base v)"
    using region_wf_blank by (simp add: assms initialize_generation_def Let_def region_wf_def)
  have c: "ring_count Request_producer Request_consumer (shm_base v) = 0"
    "ring_count Response_producer Response_consumer (shm_base v) = 0"
    by (simp_all add: ring_count_def assms initialize_generation_def Let_def blank_region_def)
  then show e: "requests (shm_base v) = []" "responses (shm_base v) = []" by (simp_all add: contents_nil)
  show "rings_ok (shm_base v)" using wf c e by (simp add: rings_ok_def ring_contents_ok_def ring_ok_def)
qed (auto simp: assms initialize_generation_def Let_def blank_region_def next_generation_def fresh_sequence_def
      linux_ready_def layout_is_valid_def layout_valid_def)

text \<open>A channel that has just been opened, for concrete evaluations.\<close>

definition new_region :: shm_region where
  "new_region = shm_base (initialize_generation 0 (owned_world blank_region))"

lemma new_region_ok:
  "rings_ok new_region" "requests new_region = []" "responses new_region = []" "linux_ready 1 new_region"
  using initialize_generation_fields [OF refl, of 0 "owned_world blank_region"]
  by (simp_all add: new_region_def next_generation_def fresh_sequence_def)

lemma new_channel_ok:
  "rings_ok (shm_base (owned_world new_region))" "requests (shm_base (owned_world new_region)) = []"
  "responses (shm_base (owned_world new_region)) = []" "linux_ready 1 (shm_base (owned_world new_region))"
  "rtos_ready (owned_world new_region)" "is_owner 7 (owned_world new_region)" "layout_valid (owned_world new_region)"
  using new_region_ok
  by (simp_all add: owned_world_def is_owner_def)
    (simp_all add: rtos_ready_def layout_valid_def linux_ready_def layout_is_valid_def Let_def)

lemma demo_transport_ok [simp]: "transport_ok sim_inv sim_clean demo_transport"
  by (simp add: transport_ok_def demo_transport_def Let_def)

subsection \<open>Properties\<close>

text \<open>Property C14: a batch is the same as its messages sent one by one. The driver numbers the first
  messages of the batch, as many as the request ring has room for, with fresh non-zero sequences,
  and appends them to the ring; the user gets those numbers back and the count. The region, the next
  sequence and the numbered messages are exactly those of so many calls that send a single message.\<close>

theorem batch_is_single_sends:
  assumes "quiet_env env" "granting_env env" "rings_ok (shm_base w)" "rtos_ready w" "is_owner f w"
    and "batch_accepted b w" "length slots = unat (batch_count b)" "length (tx_batch w) = 64"
    and "list_all message_ok slots" "k = min (length slots) (64 - length (requests (shm_base w)))" "0 < k"
  shows "\<exists>sent v u. submit_batch env f b slots w = Some (0, b\<lparr>batch_completed := of_nat k\<rparr>, sent @ drop k slots, v) \<and>
    send_each env f (take k slots) w = Some (sent, u) \<and>
    shm_base v = shm_base u \<and> next_sequence v = next_sequence u \<and>
    requests (shm_base v) = requests (shm_base w) @ sent \<and> responses (shm_base v) = responses (shm_base w) \<and>
    rings_ok (shm_base v) \<and> rtos_ready v \<and> 0 \<notin> sequence ` set sent \<and>
    map slot_bytes sent = map slot_bytes (take k slots)"
proof -
  let ?sent = "tag_all (next_sequence w) (take k slots)"
  have k: "length (requests (shm_base w)) + length (take k slots) \<le> 64" "list_all message_ok (take k slots)"
    using assms(9,10) rings_counted_lengths [OF rings_ok_counted [OF assms(3)]]
    by (simp_all del: length_ring_contents) (metis append_take_drop_id list_all_append)
  obtain v where v: "submit_batch env f b slots w = Some (0, b\<lparr>batch_completed := of_nat k\<rparr>, ?sent @ drop k slots, v)"
    "core v = core (w\<lparr>shm_base := fold push_request ?sent (shm_base w),
      next_sequence := sequence_after (next_sequence w) k, tx_batch := tx_batch v\<rparr>)"
    using submit_batch_now [OF assms(1-11) refl] by blast
  obtain u where u: "send_each env f (take k slots) w = Some (?sent, u)"
    "core u = core (w\<lparr>shm_base := fold push_request ?sent (shm_base w),
      next_sequence := sequence_after (next_sequence w) (length (take k slots))\<rparr>)"
    using send_each_now [OF assms(1-5) k] by blast
  have "length (requests (shm_base w)) + length ?sent \<le> 64" "list_all message_ok ?sent"
    using k by (simp_all add: tag_all_ok del: length_ring_contents)
  note p = fold_push_request_rings [OF assms(3) this]
  note cv = core_fields [OF v(2), simplified] and cu = core_fields [OF u(2), simplified]
  have "rtos_ready v" using p cv assms(4) by (simp add: rtos_ready_def layout_valid_def)
  moreover have "length (take k slots) = k" using assms(10) by simp
  ultimately show ?thesis
    using v(1) u(1) p cv cu by (intro exI [of _ ?sent] exI [of _ v] exI [of _ u])
      (simp add: tag_all_sequences tag_all_bytes del: length_ring_contents)
qed

theorem batch_is_single_sends_witness:
  "\<exists>sent v u. submit_batch still_env 7 (user_batch_of 2) [zero_slot, slot_of_bytes 9 [1, 2, 3]]
      (owned_world (demo_region zero_slot)) =
      Some (0, (user_batch_of 2)\<lparr>batch_completed := 2\<rparr>, sent, v) \<and>
    send_each still_env 7 [zero_slot, slot_of_bytes 9 [1, 2, 3]] (owned_world (demo_region zero_slot)) = Some (sent, u) \<and>
    requests (shm_base v) = zero_slot # sent \<and> map slot_bytes sent = [[], [1, 2, 3]]"
proof -
  let ?q = "slot_of_bytes 9 [1, 2, 3]" and ?w = "owned_world (demo_region zero_slot)"
  note d = owned_world_ok [OF message_ok_zero]
  have "message_ok ?q" by (simp add: message_ok_def slot_wf_def slot_of_bytes_def)
  then have ok: "list_all message_ok [zero_slot, ?q]" by simp
  have k: "2 = min (length [zero_slot, ?q]) (64 - length (requests (shm_base ?w)))" by (simp only: d) simp
  have b: "batch_accepted (user_batch_of 2) ?w" "length [zero_slot, ?q] = unat (batch_count (user_batch_of 2))"
    using user_batch_of_accepted [of 2 "demo_region zero_slot"] by simp_all
  obtain sent v u where "submit_batch still_env 7 (user_batch_of 2) [zero_slot, ?q] ?w =
      Some (0, (user_batch_of 2)\<lparr>batch_completed := of_nat 2\<rparr>, sent @ drop 2 [zero_slot, ?q], v)"
    "send_each still_env 7 (take 2 [zero_slot, ?q]) ?w = Some (sent, u)"
    "requests (shm_base v) = requests (shm_base ?w) @ sent" "map slot_bytes sent = map slot_bytes (take 2 [zero_slot, ?q])"
    using batch_is_single_sends [OF still_env_ok d(3,1,2) b _ ok k] by auto
  moreover have "map slot_bytes [zero_slot, ?q] = [[], [1, 2, 3]]"
    by (simp add: slot_bytes_def slot_of_bytes_def zero_slot_def)
  ultimately show ?thesis by (simp only: d) simp
qed

text \<open>Property C15: taking a batch is taking its messages one by one. When responses are queued, the driver
  hands the longest prefix of well-formed ones that fits the user's array to the user, in order, and
  frees exactly their slots; it is what so many calls that receive a single message return. When the
  first response is malformed the call fails with \<^verbatim>\<open>EPROTO\<close>, drops that one response and gives nothing
  to the user.\<close>

theorem reap_is_single_receives:
  assumes "quiet_env env" "granting_env env" "rings_ok (shm_base w)" "rtos_ready w" "is_owner f w"
    and "batch_accepted b w" "length slots = unat (batch_count b)" "length (rx_batch w) = 64"
    and "responses (shm_base w) \<noteq> []" "taken = takeWhile reapable (take (length slots) (responses (shm_base w)))"
    and "k = length taken"
  shows "\<exists>v. reap_batch env f b slots w = Some (if k = 0 then (- EPROTO, b, slots, v)
        else (0, b\<lparr>batch_completed := of_nat k\<rparr>, taken @ drop k slots, v)) \<and>
    responses (shm_base v) = drop (if k = 0 then 1 else k) (responses (shm_base w)) \<and>
    requests (shm_base v) = requests (shm_base w) \<and>
    (k = 0 \<or> (\<exists>u. receive_each env f k w = Some (taken, u) \<and> shm_base u = shm_base v))"
proof -
  let ?m = "shm_base w" and ?k = "if k = 0 then 1 else k"
  note c = rings_ok_counted [OF assms(3)]
  obtain v where v: "reap_batch env f b slots w = Some (if k = 0 then (- EPROTO, b, slots, v)
        else (0, b\<lparr>batch_completed := of_nat k\<rparr>, taken @ drop k slots, v))" "shm_base v = (pop_response ^^ ?k) ?m"
    using reap_batch_now [OF assms(1,2) c assms(4-11)] by blast
  have k: "taken = take k (responses ?m)" "k \<le> length (responses ?m)"
    using assms(10,11) takeWhile_eq_take [of reapable "take (length slots) (responses ?m)"]
      length_takeWhile_le [of reapable "take (length slots) (responses ?m)"]
    by (auto simp: min_def split: if_splits)
  moreover have "list_all reapable taken" using set_takeWhileD [of _ reapable] by (auto simp: list_all_iff assms(10))
  moreover have "?k \<le> length (responses ?m)" using k(2) assms(9) by (cases "responses ?m") auto
  ultimately show ?thesis
    using v pop_responses_rings [OF c, of ?k] receive_each_now [OF assms(1,2) c assms(4,5), of k]
    by (auto dest: core_fields(1) simp del: length_ring_contents)
qed

theorem reap_is_single_receives_witness:
  "\<exists>v. reap_batch still_env 7 (user_batch_of 2) [zero_slot, zero_slot]
      (owned_world (answered_region (slot_of_bytes 5 [1]))) =
    Some (0, (user_batch_of 2)\<lparr>batch_completed := 1\<rparr>, [slot_of_bytes 5 [1], zero_slot], v) \<and>
    responses (shm_base v) = []"
proof -
  let ?q = "slot_of_bytes 5 [1]" let ?w = "owned_world (answered_region ?q)"
  have "message_ok ?q" by (simp add: message_ok_def slot_wf_def slot_of_bytes_def)
  note d = answered_region_ok [OF this]
  have r: "responses (shm_base ?w) \<noteq> []" "[?q] = takeWhile reapable (take (length [zero_slot, zero_slot]) (responses (shm_base ?w)))"
    by (simp_all only: d) (simp_all add: reapable_def slot_of_bytes_def)
  have b: "batch_accepted (user_batch_of 2) ?w" "length [zero_slot, zero_slot] = unat (batch_count (user_batch_of 2))"
    using user_batch_of_accepted [of 2 "answered_region ?q"] by simp_all
  show ?thesis
    using reap_is_single_receives [OF still_env_ok d(3,1,2) b _ r, of 1] by (simp only: d) auto
qed

subsection \<open>Ownership, the doorbell and returning\<close>

text \<open>A sequence of ioctl calls by several files.\<close>

fun run_ioctls ::
  "'x kernel_world_scheme kernel_env \<Rightarrow> (file_ptr \<times> shm_command) list \<Rightarrow> 'x kernel_world_scheme \<Rightarrow>
    (shm_answer list \<times> 'x kernel_world_scheme) option" where
  "run_ioctls env [] w = Some ([], w)"
| "run_ioctls env ((f, c) # calls) w = do {
     (a, w) \<leftarrow> sg2002_rtos_shm_linux_ioctl env f c w;
     (as, w) \<leftarrow> run_ioctls env calls w;
     Some (a # as, w)
   }"

text \<open>An answer that is an error and hands nothing to the user.\<close>

definition refused :: "shm_command \<Rightarrow> shm_answer \<Rightarrow> bool" where
  "refused c a = (case a of Error_answer e \<Rightarrow> e < 0
     | Batch_answer e b slots \<Rightarrow> e < 0 \<and>
         (c = SG2002_RTOS_SHM_SUBMIT_BATCH b slots \<or> c = SG2002_RTOS_SHM_REAP_BATCH b slots)
     | _ \<Rightarrow> False)"

lemma intruder_ioctl:
  assumes "quiet_env env" "granting_env env" "file_owner w = Some owner" "f \<noteq> owner"
  shows "\<exists>a v. sg2002_rtos_shm_linux_ioctl env f c w = Some (a, v) \<and> core v = core w \<and> refused c a"
proof (cases "shutting_down w \<or> c \<noteq> SG2002_RTOS_SHM_ACQUIRE")
  case True
  have "\<not> is_owner f w" using assms(3,4) by (simp add: is_owner_def)
  with True show ?thesis
    by (cases c) (auto simp: sg2002_rtos_shm_linux_ioctl_def send_message_def receive_message_def
        submit_batch_def reap_batch_def transfer_answer_def refused_def)
next
  case False
  obtain w1 where 1: "lock_interruptible env Owner_lock w = (0, w1)" "core w1 = core w"
    using granted(1) [OF assms(1,2)] by blast
  have "acquire env f w = (Inl (- EBUSY), unlock_mutex env Owner_lock w1)"
    using 1 core_fields(3,6) [OF 1(2)] False assms(3,4) by (simp add: acquire_def)
  then show ?thesis
    using False 1(2) quiet_rules(3) [OF assms(1)]
    by (simp add: sg2002_rtos_shm_linux_ioctl_def refused_def)
qed

text \<open>Property C33: only the owner uses the channel. Whatever sequence of commands other files issue
  while one file owns the channel, every command is answered with an error, no user memory is
  changed, and the region, the owner, the generation, the next sequence and the driver's buffers stay
  as they are; polling tells them nothing but an error.\<close>

theorem only_owner_uses_channel:
  assumes "quiet_env env" "granting_env env" "file_owner w = Some owner" "\<forall>(f, c) \<in> set calls. f \<noteq> owner"
  shows "\<exists>answers v. run_ioctls env calls w = Some (answers, v) \<and> core v = core w \<and>
    list_all2 (\<lambda>(f, c) a. refused c a \<and> sg2002_rtos_shm_linux_poll f v AND EPOLLERR = EPOLLERR) calls answers"
  using assms(3,4)
proof (induction calls arbitrary: w)
  case (Cons call calls)
  obtain f c where call: "call = (f, c)" by (cases call)
  with Cons.prems have f: "f \<noteq> owner" by simp
  obtain a w1 where 1: "sg2002_rtos_shm_linux_ioctl env f c w = Some (a, w1)" "core w1 = core w" "refused c a"
    using intruder_ioctl [OF assms(1,2) Cons.prems(1) f] by blast
  have "file_owner w1 = Some owner" using core_fields(3) [OF 1(2)] Cons.prems(1) by simp
  then obtain as v where 2: "run_ioctls env calls w1 = Some (as, v)" "core v = core w1"
    "list_all2 (\<lambda>(f, c) a. refused c a \<and> sg2002_rtos_shm_linux_poll f v AND EPOLLERR = EPOLLERR) calls as"
    using Cons.IH [of w1] Cons.prems(2) by auto
  have "file_owner v = Some owner" using core_fields(3) [OF 2(2)] core_fields(3) [OF 1(2)] Cons.prems(1) by simp
  then have "sg2002_rtos_shm_linux_poll f v AND EPOLLERR = EPOLLERR"
    using f by (simp add: sg2002_rtos_shm_linux_poll_def is_owner_def)
  then show ?case using call 1 2 by simp
qed simp

theorem only_owner_uses_channel_witness:
  "\<exists>answers v. run_ioctls still_env
      [(3, SG2002_RTOS_SHM_ACQUIRE), (4, SG2002_RTOS_SHM_SEND \<lparr>transfer_timeout_ms = 0, message = zero_slot\<rparr>)]
      (owned_world new_region) = Some (answers, v) \<and> shm_base v = shm_base (owned_world new_region)"
proof -
  have "file_owner (owned_world new_region) = Some 7" by (simp add: owned_world_def)
  then show ?thesis
    using only_owner_uses_channel [OF still_env_ok, of "owned_world new_region" 7
        "[(3, SG2002_RTOS_SHM_ACQUIRE), (4, SG2002_RTOS_SHM_SEND \<lparr>transfer_timeout_ms = 0, message = zero_slot\<rparr>)]"]
    by (fastforce dest: core_fields(1))
qed

text \<open>The work queue runs the pending work item.\<close>

definition run_kick_work :: "'x kernel_world_scheme kernel_env \<Rightarrow> 'x kernel_world_scheme \<Rightarrow> 'x kernel_world_scheme" where
  "run_kick_work env w =
     (if kick_work_scheduled w then kick_work env (w\<lparr>kick_work_scheduled := False\<rparr>) else w)"

lemma run_kick_work_idle [simp]: "\<not> kick_work_scheduled w \<Longrightarrow> (run_kick_work env ^^ n) w = w"
  by (induction n) (simp_all add: run_kick_work_def)

lemma kick_rounds:
  assumes "\<And>g v. snd (kick env g v) = v"
  shows "0 \<le> kick_attempts w \<Longrightarrow> kick_attempts w + int n = 100 \<Longrightarrow> \<not> kick_work_scheduled ((run_kick_work env ^^ n) w) \<or> n = 0"
proof (induction n arbitrary: w)
  case (Suc n)
  have s: "(run_kick_work env ^^ Suc n) w = (run_kick_work env ^^ n) (run_kick_work env w)"
    by (simp add: funpow_swap1)
  let ?v = "run_kick_work env w"
  have k: "kick env g v = (fst (kick env g v), v)" for g v using assms [of g v] by (metis prod.collapse)
  have step: "\<not> kick_work_scheduled ?v \<or> kick_attempts ?v = kick_attempts w + 1 \<and> n \<noteq> 0"
    using Suc.prems k [of "generation w" "w\<lparr>kick_work_scheduled := False\<rparr>"]
    by (auto simp: run_kick_work_def kick_work_def kick_now_def kick_generation_def Let_def split: prod.splits)
  then show ?case
  proof
    assume "kick_attempts ?v = kick_attempts w + 1 \<and> n \<noteq> 0"
    then have "\<not> kick_work_scheduled ((run_kick_work env ^^ n) ?v)" using Suc.IH [of ?v] Suc.prems by simp
    then show ?thesis by (simp only: s not_False_eq_True simp_thms)
  next
    assume "\<not> kick_work_scheduled ?v"
    then have "\<not> kick_work_scheduled ((run_kick_work env ^^ n) ?v)" by simp
    then show ?thesis by (simp only: s not_False_eq_True simp_thms)
  qed
qed simp

text \<open>A busy doorbell is not retried for ever. After a request for the doorbell the work item
  runs at most one hundred times, whatever the doorbell answers, and then is no longer scheduled.\<close>

theorem doorbell_retries_end:
  assumes "\<And>g v. snd (kick env g v) = v"
  shows "\<not> kick_work_scheduled ((run_kick_work env ^^ 100) (request_kick env w))"
proof (cases "shutting_down w")
  case True
  have "run_kick_work env ^^ 100 = run_kick_work env ^^ Suc 99" by simp
  then have "(run_kick_work env ^^ 100) w = (run_kick_work env ^^ 99) (run_kick_work env w)"
    by (simp only: funpow_Suc_right comp_apply)
  with True show ?thesis
    by (cases "kick_work_scheduled w") (simp_all add: request_kick_def run_kick_work_def kick_work_def)
next
  case False
  have "kick env g v = (fst (kick env g v), v)" for g v using assms [of g v] by (metis prod.collapse)
  from this [of "generation w" "w\<lparr>kick_attempts := 0\<rparr>"] have "kick_attempts (request_kick env w) = 0"
    using False by (auto simp: request_kick_def kick_now_def kick_generation_def Let_def split: prod.splits)
  then show ?thesis using kick_rounds [OF assms, of "request_kick env w" 100] by simp
qed

theorem doorbell_retries_end_witness:
  "kick_attempts (request_kick (still_env\<lparr>kick := (\<lambda>_ w. (- EBUSY, w))\<rparr>) (owned_world new_region)) = 0 \<and>
   \<not> kick_work_scheduled ((run_kick_work (still_env\<lparr>kick := (\<lambda>_ w. (- EBUSY, w))\<rparr>) ^^ 100)
     (request_kick (still_env\<lparr>kick := (\<lambda>_ w. (- EBUSY, w))\<rparr>) (owned_world new_region)))"
proof -
  let ?e = "still_env\<lparr>kick := (\<lambda>_ w. (- EBUSY, w))\<rparr>"
  have "snd (kick ?e g v) = v" for g and v :: kernel_world by simp
  then show ?thesis
    using doorbell_retries_end [of ?e "owned_world new_region"]
    by (simp add: request_kick_def kick_now_def kick_generation_def owned_world_def)
qed

text \<open>A positive result of a wait says that its condition holds; then the loops do not go round again.\<close>

definition waits_for_condition :: "'x kernel_world_scheme kernel_env \<Rightarrow> bool" where
  "waits_for_condition env \<longleftrightarrow>
     (\<forall>c t v. 0 < fst (wait_event env c t v) \<longrightarrow> c (snd (wait_event env c t v)))"

lemma wait_for_space_returns:
  assumes "waits_for_condition env"
  shows "\<exists>r. wait_for_space env stale timeout remaining w = Some r"
proof -
  have last: "\<exists>r. wait_for_space env stale timeout t v = Some r" if "t = 0 \<or> request_wait_done v" for t v
    using that by (subst wait_for_space.simps)
      (auto simp: request_wait_done_def split: sum.splits prod.splits)
  obtain t v where e: "wait_event env request_wait_done remaining w = (t, v)" by fastforce
  have "0 < t \<longrightarrow> request_wait_done v" using assms e unfolding waits_for_condition_def by (metis fst_conv snd_conv)
  with last [of t v] e show ?thesis
    by (subst wait_for_space.simps) (force split: sum.splits prod.splits)
qed

lemma wait_for_response_returns:
  assumes "waits_for_condition env"
  shows "\<exists>r. wait_for_response env stale timeout remaining w = Some r"
proof -
  have last: "\<exists>r. wait_for_response env stale timeout t v = Some r" if "t = 0 \<or> response_wait_done v" for t v
    using that by (subst wait_for_response.simps)
      (auto simp: response_wait_done_def split: sum.splits prod.splits)
  obtain t v where e: "wait_event env response_wait_done remaining w = (t, v)" by fastforce
  have "0 < t \<longrightarrow> response_wait_done v" using assms e unfolding waits_for_condition_def by (metis fst_conv snd_conv)
  with last [of t v] e show ?thesis
    by (subst wait_for_response.simps) (force split: sum.splits prod.splits)
qed

definition returns :: "'a option \<Rightarrow> bool" where
  "returns m \<longleftrightarrow> m \<noteq> None"

lemma returns_Some [simp, intro]: "returns (Some r)"
  by (simp add: returns_def)

lemma returns_bind [intro]: "returns m \<Longrightarrow> (\<And>x. returns (k x)) \<Longrightarrow> returns (Option.bind m k)"
  by (auto simp: returns_def)

lemma waits_return:
  assumes "waits_for_condition env"
  shows "returns (wait_for_space env stale timeout remaining w)" "returns (wait_for_response env stale timeout remaining w)"
  using wait_for_space_returns [OF assms] wait_for_response_returns [OF assms] by (simp_all add: returns_def)



end
