(* ===== verification/Kernel_Firmware.thy ===== *)
theory Kernel_Firmware
  imports Kernel_Channel
begin

section \<open>The kernel driver and the firmware on one region\<close>

text \<open>
  The two ends of the shared region put together: the driver of \<^verbatim>\<open>Kernel_Driver\<close> and the transport of
  \<^verbatim>\<open>Shm_Transport\<close>, which reaches the same RAM through its data cache. A new generation and what the
  firmware makes of it, a batch from submission to reaping, and an acquisition that is broken off.
\<close>

subsection \<open>A new generation\<close>

lemma firmware_answers_new_generation:
  assumes "transport_ok iv cl fw" "region_wf cache" "v = initialize_generation g w"
    and "shm_size w = SG2002_RTOS_SHM_REGION_SIZE" "\<not> shutting_down w"
  shows "\<exists>fw' mem. sg2002_rtos_shm_process iv cl mm processed fw \<lparr>view = cache, ram = shm_base v\<rparr> io =
      Some (SG2002_RTOS_SHM_PROCESS_OK, map_option (\<lambda>_. 0) processed, fw', mem, io) \<and>
    sg2002_rtos_shm_generation fw' = generation v \<and>
    rtos_ready (v\<lparr>shm_base := ram mem\<rparr>) = (sg2002_rtos_shm_generation fw \<noteq> generation v) \<and>
    requests (ram mem) = [] \<and> responses (ram mem) = []"
proof -
  note i = initialize_generation_fields [OF assms(3)]
  let ?w = "\<lparr>view = cache, ram = shm_base v\<rparr>"
  have wf: "mem_wf ?w" using i(1) assms(2) by (simp add: mem_wf_def rings_ok_def ring_contents_ok_def ring_ok_def)
  have b: "0 = batch_size (ram ?w)" using i(2) by (simp add: batch_size_def del: length_ring_contents)
  obtain fw' mem where f: "sg2002_rtos_shm_process iv cl mm processed fw ?w io =
      Some (SG2002_RTOS_SHM_PROCESS_OK, map_option (\<lambda>_. 0) processed, fw', mem, io)"
    "requests (ram mem) = []" "responses (ram mem) = []" "sg2002_rtos_shm_generation fw' = next_generation g"
    "rtos_peer (ram mem) = (if active_generation fw = next_generation g then rtos_peer (ram ?w)
      else \<lparr>peer_state = SG2002_RTOS_SHM_STATE_READY, peer_generation = next_generation g\<rparr>)"
    "linux_ready (next_generation g) (ram mem)"
    using process_serves_any [OF assms(1) wf _ _ b, of "next_generation g" "([], io)" mm io processed] i(1-4)
    by (simp del: length_ring_contents) blast
  have "rtos_ready (v\<lparr>shm_base := ram mem\<rparr>) = (active_generation fw \<noteq> next_generation g)"
    using f(5,6) i(7,9,12,13) assms(4,5)
    by (simp add: rtos_ready_def layout_valid_def linux_ready_def layout_is_valid_def Let_def split: if_splits)
  then show ?thesis using f(1-4) i(9) by (simp add: sg2002_rtos_shm_generation_def)
qed

text \<open>Starting a generation on a region without a valid layout, and an acquisition broken off while it
  quiesces the firmware.\<close>

lemma start_generation_invalid:
  assumes "quiet_env env" "\<not> layout_valid w"
  shows "\<exists>v. start_generation env f w = (0, v) \<and> core v = core (initialize_generation 0 (w\<lparr>file_owner := Some f\<rparr>))"
  using assms by (simp add: start_generation_def request_kick_core)

lemma set_linux_state_fields [simp]:
  "file_owner (set_linux_state st w) = file_owner w" "shm_size (set_linux_state st w) = shm_size w"
  "shutting_down (set_linux_state st w) = shutting_down w" "generation (set_linux_state st w) = generation w"
  "layout (shm_base (set_linux_state st w)) = layout (shm_base w)"
  by (simp_all add: set_linux_state_def)

lemma release_by_owner:
  assumes "quiet_env env" "file_owner w = Some f" "\<not> shutting_down w"
  shows "core (sg2002_rtos_shm_linux_release env (Some f) w) =
    core (set_linux_state SG2002_RTOS_SHM_STATE_OFFLINE w\<lparr>file_owner := None\<rparr>)"
proof -
  note q = quiet_rules(1-3) [OF assms(1)] and c = core_fields [OF quiet_rules(2) [OF assms(1)]]
  show ?thesis using assms(2,3)
    by (simp add: sg2002_rtos_shm_linux_release_def q c Let_def)
      (use q(2) [of Owner_lock w] in \<open>simp add: core_def set_linux_state_def\<close>)
qed

lemma interrupted_quiesce:
  assumes "quiet_env env" "granting_env env"
    and "\<And>c t v. core (snd (wait_event env c t v)) = core v \<and> fst (wait_event env c t v) \<le> 0"
    and "layout_valid w" "firmware_is_up (layout_generation (layout (shm_base w))) w"
    and "file_owner w = None" "\<not> shutting_down w"
  shows "\<exists>e w1. acquire env f w = (Inl e, w1) \<and> e < 0 \<and> file_owner w1 = None \<and> \<not> layout_valid w1 \<and>
    shm_size w1 = shm_size w \<and> \<not> shutting_down w1"
proof -
  obtain w1 where 1: "lock_interruptible env Owner_lock w = (0, w1)" "core w1 = core w"
    using granted(1) [OF assms(1,2)] by blast
  note c1 = core_fields [OF 1(2)] core_predicates [OF 1(2)]
  have q: "layout_valid w1" "firmware_is_up (layout_generation (layout (shm_base w1))) w1"
    using assms(4,5) c1 by (simp_all add: firmware_is_up_def)
  define w2 where "w2 = (set_linux_state SG2002_RTOS_SHM_STATE_OFFLINE (w1\<lparr>file_owner := Some f\<rparr>))"
  define w3 where "w3 = w2\<lparr>shm_base := (shm_base w2)\<lparr>layout := (layout (shm_base w2))\<lparr>magic := 0\<rparr>\<rparr>, generation := 0\<rparr>"
  obtain r w4 where 4: "wait_event env (\<lambda>v. shutting_down v \<or> notifications v \<noteq> notifications w3)
     (msecs_to_jiffies env SG2002_RTOS_SHM_DEFAULT_TIMEOUT_MS) (request_kick env w3) = (r, w4)" by fastforce
  have 5: "core w4 = core w3" "r \<le> 0"
    using assms(3) [of "\<lambda>v. shutting_down v \<or> notifications v \<noteq> notifications w3"
        "msecs_to_jiffies env SG2002_RTOS_SHM_DEFAULT_TIMEOUT_MS" "request_kick env w3", unfolded 4]
      request_kick_core [OF assms(1), of w3] by simp_all
  let ?u = "unlock_mutex env Owner_lock w4"
  have u: "core ?u = core w3" using 5(1) quiet_rules(3) [OF assms(1)] by simp
  note cu = core_fields [OF u] and c4 = core_fields [OF 5(1)]
  have s: "\<not> shutting_down w3" "file_owner w3 = Some f" using c1 assms(7) by (simp_all add: w3_def w2_def)
  have rel: "core (sg2002_rtos_shm_linux_release env (Some f) ?u) =
      core (set_linux_state SG2002_RTOS_SHM_STATE_OFFLINE ?u\<lparr>file_owner := None\<rparr>)"
    using release_by_owner [OF assms(1)] s cu by simp
  note cr = core_fields [OF rel] core_predicates(5) [OF rel]
  let ?e = "if r = 0 then - ETIMEDOUT else r"
  have n3: "notifications w3 = notifications w2" by (simp add: w3_def)
  have "quiesce_firmware env f (w1\<lparr>file_owner := Some f\<rparr>) = (?e, sg2002_rtos_shm_linux_release env (Some f) ?u)"
    using 4 5(2) c4(6) s(1)
    by (simp add: quiesce_firmware_def Let_def w2_def [symmetric] n3) (simp add: w3_def [symmetric])
  then have "acquire env f w = (Inl ?e, sg2002_rtos_shm_linux_release env (Some f) ?u)"
    using 1 c1 assms(6,7) q by (simp add: acquire_def start_generation_def Let_def)
  moreover have "\<not> layout_valid (sg2002_rtos_shm_linux_release env (Some f) ?u)"
    using cr(1) cu(1) by (simp add: layout_valid_def w3_def)
  moreover have "shm_size ?u = shm_size w" using cu(2) c1(2) by (simp add: w3_def w2_def)
  ultimately show ?thesis using 5(2) cr(2,3,6) cu(6) s(1) by (intro exI conjI) auto
qed

subsection \<open>Properties\<close>

text \<open>The driver finds a region ready that the firmware has served.\<close>

lemma served_region_ready:
  assumes "rtos_ready w" "linux_ready (generation w) m" "rtos_peer m = rtos_peer (shm_base w) \<or>
    rtos_peer m = \<lparr>peer_state = SG2002_RTOS_SHM_STATE_READY, peer_generation = generation w\<rparr>"
  shows "rtos_ready (w\<lparr>shm_base := m\<rparr>)"
  using assms by (auto simp: rtos_ready_def layout_valid_def linux_ready_def layout_is_valid_def Let_def)

lemma responses_reapable:
  assumes "rings_ok m" "0 \<notin> sequence ` set (responses m)"
  shows "takeWhile reapable (responses m) = responses m"
  using assms by (intro takeWhile_eq_all_conv [THEN iffD2] ballI)
    (auto simp: rings_ok_def ring_contents_ok_def list_all_iff message_ok_def reapable_def)

text \<open>A batch on an empty channel leaves its messages in the request ring of a region that is ready.\<close>

lemma submit_on_empty_channel:
  assumes "quiet_env env" "granting_env env" "rings_ok (shm_base w)" "rtos_ready w" "is_owner f w"
    and "linux_ready (generation w) (shm_base w)" "requests (shm_base w) = []" "responses (shm_base w) = []"
    and "batch_accepted b w" "length slots = unat (batch_count b)" "length (tx_batch w) = 64"
    and "list_all message_ok slots" "sent = tag_all (next_sequence w) slots"
  shows "\<exists>v. submit_batch env f b slots w = Some (0, b\<lparr>batch_completed := batch_count b\<rparr>, sent, v) \<and>
    requests (shm_base v) = sent \<and> responses (shm_base v) = [] \<and> rings_ok (shm_base v) \<and>
    linux_ready (generation w) (shm_base v) \<and> rtos_ready v \<and> generation v = generation w \<and> is_owner f v \<and>
    rx_batch v = rx_batch w"
proof -
  let ?n = "length slots" and ?m = "shm_base w"
  have n: "?n \<le> 64" "0 < ?n" using assms(9,10) by (simp_all add: batch_accepted_def word_le_nat_alt word_less_nat_alt)
  have k: "?n = min ?n (64 - length (requests ?m))" using n(1) assms(7) by (simp del: length_ring_contents)
  obtain v where v: "submit_batch env f b slots w = Some (0, b\<lparr>batch_completed := batch_count b\<rparr>, sent, v)"
    "core v = core (w\<lparr>shm_base := fold push_request sent ?m, next_sequence := sequence_after (next_sequence w) ?n,
      tx_batch := tx_batch v\<rparr>)"
    using submit_batch_now [OF assms(1-5,9-12) k n(2), of sent] assms(10,13) by auto
  note c = core_fields [OF v(2), simplified]
  have "length (requests ?m) + length sent \<le> 64" "list_all message_ok sent"
    using n(1) assms(7,12,13) by (simp_all add: tag_all_ok del: length_ring_contents)
  note p = fold_push_request_rings [OF assms(3) this]
  have "requests (shm_base v) = sent" "responses (shm_base v) = []" "rings_ok (shm_base v)"
    using p c(1) assms(7,8) by (simp_all del: length_ring_contents)
  moreover have "linux_ready (generation w) (shm_base v)" "rtos_ready v" "is_owner f v"
    using p c assms(4-6)
    by (simp_all add: linux_ready_def layout_is_valid_def rtos_ready_def layout_valid_def is_owner_def del: length_ring_contents)
  ultimately show ?thesis using v(1) c by simp
qed

text \<open>Property C3: from the user through the kernel to the firmware and back. On an empty channel the
  driver submits a batch of up to 64 requests, the firmware is run once over the same RAM, whatever
  its cache holds, and the driver reaps: every request has been answered exactly once, the user gets
  the application's replies in the order of the requests, each with the sequence the submission
  reported, and both rings are empty again.\<close>

theorem batch_round_trip:
  assumes "quiet_env env" "granting_env env" "rings_ok (shm_base w)" "rtos_ready w" "is_owner f w"
    and "linux_ready (generation w) (shm_base w)" "requests (shm_base w) = []" "responses (shm_base w) = []"
    and "batch_accepted b w" "length slots = unat (batch_count b)" "length (tx_batch w) = 64" "length (rx_batch w) = 64"
    and "list_all message_ok slots" "transport_ok iv cl fw" "region_wf cache"
    and "sent = tag_all (next_sequence w) slots" "served = serve_all mm sent io"
  shows "\<exists>v fw' mem v'. submit_batch env f b slots w = Some (0, b\<lparr>batch_completed := batch_count b\<rparr>, sent, v) \<and>
    sg2002_rtos_shm_process iv cl mm processed fw \<lparr>view = cache, ram = shm_base v\<rparr> io =
      Some (SG2002_RTOS_SHM_PROCESS_OK, map_option (\<lambda>_. ucast (batch_count b)) processed, fw', mem, snd served) \<and>
    reap_batch env f b slots (v\<lparr>shm_base := ram mem\<rparr>) =
      Some (0, b\<lparr>batch_completed := batch_count b\<rparr>, fst served, v') \<and>
    map sequence (fst served) = map sequence sent \<and>
    requests (shm_base v') = [] \<and> responses (shm_base v') = []"
proof -
  let ?n = "length slots"
  have n: "?n \<le> 64" "slots \<noteq> []" using assms(9,10) by (auto simp: batch_accepted_def word_le_nat_alt word_less_nat_alt)
  have s: "length sent = ?n" by (simp add: assms(16))
  obtain v where v: "submit_batch env f b slots w = Some (0, b\<lparr>batch_completed := batch_count b\<rparr>, sent, v)"
    and m: "requests (shm_base v) = sent" "responses (shm_base v) = []" "rings_ok (shm_base v)"
    and rdy: "linux_ready (generation w) (shm_base v)" "rtos_ready v" "generation v = generation w" "is_owner f v"
    and rx: "rx_batch v = rx_batch w"
    using submit_on_empty_channel [OF assms(1-11,13,16)] by blast
  have wf: "mem_wf \<lparr>view = cache, ram = shm_base v\<rparr>"
    using m(3) assms(15) by (simp add: mem_wf_def rings_ok_def ring_contents_ok_def ring_ok_def)
  have bs: "?n = batch_size (ram \<lparr>view = cache, ram = shm_base v\<rparr>)" "take ?n sent = sent"
    using m(1,2) n(1) s by (simp_all add: batch_size_def del: length_ring_contents)
  obtain fw' mem where f: "sg2002_rtos_shm_process iv cl mm processed fw \<lparr>view = cache, ram = shm_base v\<rparr> io =
      Some (SG2002_RTOS_SHM_PROCESS_OK, map_option (\<lambda>_. of_nat ?n) processed, fw', mem, snd served)"
    "requests (ram mem) = []" "responses (ram mem) = fst served" "map sequence (fst served) = map sequence sent"
    "rtos_peer (ram mem) = rtos_peer (shm_base v) \<or>
      rtos_peer (ram mem) = \<lparr>peer_state = SG2002_RTOS_SHM_STATE_READY, peer_generation = generation w\<rparr>"
    "linux_ready (generation w) (ram mem)" "rings_ok (ram mem)"
    using process_serves_any [OF assms(14) wf, of "generation w" ?n served mm io processed] m rdy bs s assms(17)
    by (auto split: if_splits)
  let ?v = "v\<lparr>shm_base := ram mem\<rparr>"
  have "0 \<notin> sequence ` set (fst served)"
    using f(4) tag_all_sequences [of "next_sequence w" slots] assms(16) by (metis list.set_map)
  then have tk: "takeWhile reapable (fst served) = fst served"
    using responses_reapable [OF f(7)] f(3) by (simp del: length_ring_contents)
  have ln: "length (fst served) = ?n" using f(4) s by (metis length_map)
  have rv: "rtos_ready ?v" "is_owner f ?v" "batch_accepted b ?v" "length (rx_batch ?v) = 64"
    using served_region_ready [OF rdy(2)] f(5,6) rdy(3,4) assms(9,12) rx
    by (simp_all add: is_owner_def batch_accepted_def)
  have rm: "rings_counted (shm_base ?v)" "responses (shm_base ?v) \<noteq> []"
    "fst served = takeWhile reapable (take (length slots) (responses (shm_base ?v)))"
    using rings_ok_counted [OF f(7)] f(3) ln n(2) tk by (auto simp del: length_ring_contents takeWhile_eq_all_conv)
  obtain v' where v': "reap_batch env f b slots ?v =
      Some (0, b\<lparr>batch_completed := of_nat ?n\<rparr>, fst served @ drop ?n slots, v')"
    "shm_base v' = (pop_response ^^ ?n) (ram mem)"
    using reap_batch_now [OF assms(1,2) rm(1) rv(1,2,3) assms(10) rv(4) rm(2,3) ln [symmetric]] n(2) by (simp del: length_ring_contents) auto
  have "requests (shm_base v') = []" "responses (shm_base v') = []"
    using pop_responses_rings [OF rings_ok_counted [OF f(7)], of ?n] f(2,3) ln v'(2)
    by (simp_all del: length_ring_contents)
  then show ?thesis
    using v(1) f(1,4) v'(1) assms(10) ln by auto
qed

theorem batch_round_trip_witness:
  "\<exists>v fw' mem v'. submit_batch still_env 7 (user_batch_of 1) [slot_of_bytes 0 (value_message SG2002_RTOS_CMD_PING 7)]
      (owned_world new_region) = Some (0, (user_batch_of 1)\<lparr>batch_completed := 1\<rparr>,
        [slot_of_bytes 1 (value_message SG2002_RTOS_CMD_PING 7)], v) \<and>
    sg2002_rtos_shm_process sim_inv sim_clean plain_mmio (Some 0) demo_transport
      \<lparr>view = blank_region, ram = shm_base v\<rparr> (\<lambda>_. 0) =
      Some (SG2002_RTOS_SHM_PROCESS_OK, Some 1, fw', mem, \<lambda>_. 0) \<and>
    reap_batch still_env 7 (user_batch_of 1) [slot_of_bytes 0 (value_message SG2002_RTOS_CMD_PING 7)]
      (v\<lparr>shm_base := ram mem\<rparr>) = Some (0, (user_batch_of 1)\<lparr>batch_completed := 1\<rparr>,
        [slot_of_bytes 1 (value_message SG2002_RTOS_CMD_PING 0xa5a55a5d)], v')"
proof -
  let ?q = "slot_of_bytes 0 (value_message SG2002_RTOS_CMD_PING 7)" let ?w = "owned_world new_region"
  let ?s = "slot_of_bytes 1 (value_message SG2002_RTOS_CMD_PING 7)"
  let ?r = "slot_of_bytes 1 (value_message SG2002_RTOS_CMD_PING 0xa5a55a5d)"
  have q: "list_all message_ok [?q]" by (simp add: message_ok_def slot_wf_def slot_of_bytes_def)
  have b: "batch_accepted (user_batch_of 1) ?w" "length [?q] = unat (batch_count (user_batch_of 1))"
    using user_batch_of_accepted [of 1 new_region] by simp_all
  have sent: "[?s] = tag_all (next_sequence ?w) [?q]"
    by (simp add: fresh_sequence_def slot_of_bytes_def)
  have "slot_bytes ?s = value_message SG2002_RTOS_CMD_PING 7" by (simp add: slot_bytes_def slot_of_bytes_def)
  then have served: "([?r], \<lambda>_. 0) = serve_all plain_mmio [?s] (\<lambda>_. 0)"
    by (simp add: response_to_def app_reply_ping)
  have g: "linux_ready (generation ?w) (shm_base ?w)" using new_channel_ok(4) by simp
  have l: "length (tx_batch ?w) = 64" "length (rx_batch ?w) = 64" by simp_all
  have "ucast (batch_count (user_batch_of 1)) = (1 :: u32)" "batch_count (user_batch_of 1) = 1"
    by (simp_all add: user_batch_of_def)
  then show ?thesis
    using batch_round_trip [OF still_env_ok new_channel_ok(1,5,6) g new_channel_ok(2,3) b l q
        demo_transport_ok region_wf_blank sent served, of "Some 0"] by (simp only: option.map fst_conv snd_conv) blast
qed

text \<open>Property C31: a new generation is accepted only under a new number. When the driver has initialised the
  region, one run of the firmware attaches to the new generation and leaves both rings empty, and then
  the driver sees the firmware ready if and only if the firmware was not attached to a generation
  with that number before: a firmware that was does not announce itself again.\<close>

theorem firmware_joins_new_generation:
  assumes "transport_ok iv cl fw" "region_wf cache" "v = initialize_generation g w"
    and "shm_size w = SG2002_RTOS_SHM_REGION_SIZE" "\<not> shutting_down w"
  shows "\<exists>fw' mem. sg2002_rtos_shm_process iv cl mm processed fw \<lparr>view = cache, ram = shm_base v\<rparr> io =
      Some (SG2002_RTOS_SHM_PROCESS_OK, map_option (\<lambda>_. 0) processed, fw', mem, io) \<and>
    sg2002_rtos_shm_generation fw' = generation v \<and>
    rtos_ready (v\<lparr>shm_base := ram mem\<rparr>) = (sg2002_rtos_shm_generation fw \<noteq> generation v) \<and>
    requests (ram mem) = [] \<and> responses (ram mem) = []"
  by (rule firmware_answers_new_generation [OF assms])

theorem firmware_joins_new_generation_witness:
  "\<exists>fw' mem. sg2002_rtos_shm_process sim_inv sim_clean plain_mmio (Some 5) demo_transport
      \<lparr>view = blank_region, ram = shm_base (initialize_generation 0xffffffff (owned_world blank_region))\<rparr> (\<lambda>_. 0) =
      Some (SG2002_RTOS_SHM_PROCESS_OK, Some 0, fw', mem, \<lambda>_. 0) \<and>
    sg2002_rtos_shm_generation fw' = 1 \<and>
    rtos_ready (initialize_generation 0xffffffff (owned_world blank_region)\<lparr>shm_base := ram mem\<rparr>)"
proof -
  let ?w = "owned_world blank_region" let ?v = "initialize_generation 0xffffffff ?w"
  have w: "shm_size ?w = SG2002_RTOS_SHM_REGION_SIZE" "\<not> shutting_down ?w" by (simp_all add: owned_world_def)
  have "generation ?v = 1" "sg2002_rtos_shm_generation demo_transport \<noteq> generation ?v"
    using initialize_generation_fields(9) [OF refl, of "0xffffffff" ?w]
    by (simp_all add: next_generation_def fresh_sequence_def sg2002_rtos_shm_generation_def demo_transport_def Let_def)
  then show ?thesis
    using firmware_joins_new_generation [of sim_inv sim_clean demo_transport blank_region ?v "0xffffffff" ?w plain_mmio
        "Some 5" "\<lambda>_. 0", OF demo_transport_ok region_wf_blank refl w]
    by auto
qed

text \<open>Property C32: an acquisition that is broken off while it waits for the old firmware makes the next one
  fail. With generation 1 in use, an acquisition that times out or is interrupted in the quiesce step
  leaves a region without a valid layout; the next one therefore numbers its generation 1 again, and
  a firmware still attached to the old generation 1 serves it without announcing itself, so that the
  driver does not become ready and that acquisition can only time out.\<close>

theorem interrupted_quiesce_reuses_generation:
  assumes "quiet_env env" "granting_env env"
    and "\<And>c t v. core (snd (wait_event env c t v)) = core v \<and> fst (wait_event env c t v) \<le> 0"
    and "layout_valid w" "layout_generation (layout (shm_base w)) = 1" "firmware_is_up 1 w"
    and "file_owner w = None" "\<not> shutting_down w"
    and "transport_ok iv cl fw" "region_wf cache" "sg2002_rtos_shm_generation fw = 1"
  shows "\<exists>e w1 w2 fw' mem. acquire env f w = (Inl e, w1) \<and> e < 0 \<and> file_owner w1 = None \<and>
    start_generation env f' w1 = (0, w2) \<and> generation w2 = 1 \<and>
    sg2002_rtos_shm_process iv cl mm processed fw \<lparr>view = cache, ram = shm_base w2\<rparr> io =
      Some (SG2002_RTOS_SHM_PROCESS_OK, map_option (\<lambda>_. 0) processed, fw', mem, io) \<and>
    sg2002_rtos_shm_generation fw' = 1 \<and> \<not> rtos_ready (w2\<lparr>shm_base := ram mem\<rparr>)"
proof -
  obtain e w1 where 1: "acquire env f w = (Inl e, w1)" "e < 0" "file_owner w1 = None" "\<not> layout_valid w1"
    "shm_size w1 = shm_size w" "\<not> shutting_down w1"
    using interrupted_quiesce [OF assms(1-3) _ _ assms(7,8)] assms(4-6) by metis
  obtain w2 where 2: "start_generation env f' w1 = (0, w2)"
    "core w2 = core (initialize_generation 0 (w1\<lparr>file_owner := Some f'\<rparr>))"
    using start_generation_invalid [OF assms(1) 1(4)] by blast
  let ?w = "w1\<lparr>file_owner := Some f'\<rparr>" let ?v = "initialize_generation 0 ?w"
  have "shm_size ?w = SG2002_RTOS_SHM_REGION_SIZE" "\<not> shutting_down ?w"
    using 1(5,6) assms(4) by (simp_all add: layout_valid_def)
  from firmware_answers_new_generation [of iv cl fw cache ?v 0 ?w mm processed io, OF assms(9,10) refl this]
  obtain fw' mem where f: "sg2002_rtos_shm_process iv cl mm processed fw \<lparr>view = cache, ram = shm_base ?v\<rparr> io =
      Some (SG2002_RTOS_SHM_PROCESS_OK, map_option (\<lambda>_. 0) processed, fw', mem, io)"
    "sg2002_rtos_shm_generation fw' = 1" "\<not> rtos_ready (?v\<lparr>shm_base := ram mem\<rparr>)"
    using assms(11) initialize_generation_fields(9) [OF refl, of 0 ?w] by (auto simp: next_generation_def fresh_sequence_def)
  have "core (w2\<lparr>shm_base := ram mem\<rparr>) = core (?v\<lparr>shm_base := ram mem\<rparr>)" using 2(2) by (simp add: core_def)
  from core_predicates(1) [OF this] f 1 2 core_fields(1,4) [OF 2(2)] show ?thesis
    by (auto simp: initialize_generation_fields(9) [OF refl] next_generation_def fresh_sequence_def)
qed

theorem interrupted_quiesce_reuses_generation_witness:
  "\<exists>fw e w1 w2 fw' mem. sg2002_rtos_shm_generation fw = 1 \<and>
    acquire still_env 3 ((owned_world new_region)\<lparr>file_owner := None\<rparr>) = (Inl e, w1) \<and>
    start_generation still_env 4 w1 = (0, w2) \<and>
    sg2002_rtos_shm_process sim_inv sim_clean plain_mmio None fw \<lparr>view = blank_region, ram = shm_base w2\<rparr> (\<lambda>_. 0) =
      Some (SG2002_RTOS_SHM_PROCESS_OK, None, fw', mem, \<lambda>_. 0) \<and> \<not> rtos_ready (w2\<lparr>shm_base := ram mem\<rparr>)"
proof -
  let ?w = "(owned_world new_region)\<lparr>file_owner := None\<rparr>" let ?m = "\<lparr>view = blank_region, ram = new_region\<rparr>"
  note n = new_region_ok
  have wf: "mem_wf ?m" using n(1) by (simp add: mem_wf_def rings_ok_def ring_contents_ok_def ring_ok_def)
  obtain fw :: "fw_mem transport" where fw: "transport_ok sim_inv sim_clean fw" "sg2002_rtos_shm_generation fw = 1"
    using process_serves_any [of sim_inv sim_clean demo_transport ?m 1 _ _ plain_mmio "\<lambda>_. 0" None,
        OF demo_transport_ok wf _ _ refl refl] n by auto
  have wt: "core (snd (wait_event still_env c t v)) = core v \<and> fst (wait_event still_env c t v) \<le> 0"
    for c t and v :: kernel_world by (simp add: still_env_def)
  have lay: "layout_valid ?w" "layout_generation (layout (shm_base ?w)) = 1" "firmware_is_up 1 ?w"
    "file_owner ?w = None" "\<not> shutting_down ?w"
    using new_channel_ok(5,7) by (simp_all add: layout_valid_def rtos_ready_def firmware_is_up_def)
  show ?thesis
    using interrupted_quiesce_reuses_generation [OF still_env_ok wt lay fw(1) region_wf_blank fw(2),
        of 3 4 plain_mmio None "\<lambda>_. 0"] fw(2) by auto
qed

end
