(* ===== verification/Bench_Common.thy ===== *)
theory Bench_Common
  imports Linux_Messages Shm_Transport
begin

section \<open>What the benchmark programs share\<close>

text \<open>
  The helpers that \<^verbatim>\<open>tools/rtos-bench.c\<close> and \<^verbatim>\<open>tools/rtos-thread-bench.c\<close> both have: differences of
  times, the nearest-rank percentile, the request a seed stands for, and the check of a response.
  The lemmas show that the check accepts exactly the reply the firmware gives.
\<close>

record timespec =
  tv_sec :: u64
  tv_nsec :: u64

text \<open>Signed 64-bit differences, cast to unsigned.\<close>

definition elapsed_ns :: "timespec \<Rightarrow> timespec \<Rightarrow> u64" where
  "elapsed_ns start end = (tv_sec end - tv_sec start) * 1000000000 + (tv_nsec end - tv_nsec start)"

definition compare_u64 :: "u64 \<Rightarrow> u64 \<Rightarrow> int" where
  "compare_u64 a b = of_bool (a > b) - of_bool (a < b)"

definition percentile :: "u64 list \<Rightarrow> u32 \<Rightarrow> u32 \<Rightarrow> u64 option" where
  "percentile samples count percent =
     (let rank = (ucast percent * ucast count + 99) div 100 :: u64;
          rank = (if rank = 0 then 1 else rank);
          i = unat (rank - 1)
      in if i < length samples then Some (samples ! i) else None)"

text \<open>\<^const>\<open>None\<close> is an access outside the buffer.\<close>

fun fill_pattern :: "nat list \<Rightarrow> u32 \<Rightarrow> bytes \<Rightarrow> bytes option" where
  "fill_pattern [] seed request = Some request"
| "fill_pattern (index # is) seed request = do {
     request \<leftarrow> write_bytes request index [ucast (seed + of_nat index * 17)];
     fill_pattern is seed request
   }"

definition build_request :: "bytes \<Rightarrow> u32 \<Rightarrow> u32 \<Rightarrow> (bytes \<times> u16) option" where
  "build_request request echo_data_bytes seed =
     (if echo_data_bytes = 0 then do {
        request \<leftarrow> write_bytes request SG2002_RTOS_VALUE_MESSAGE_COMMAND_OFFSET [SG2002_RTOS_CMD_PING];
        request \<leftarrow> write_bytes request SG2002_RTOS_VALUE_MESSAGE_VALUE_OFFSET (le32 seed);
        Some (request, of_nat SG2002_RTOS_VALUE_MESSAGE_SIZE)
      } else let request_length = ucast (echo_data_bytes + 1) in do {
        request \<leftarrow> write_bytes request 0 [SG2002_RTOS_CMD_ECHO];
        request \<leftarrow> fill_pattern [1..<unat request_length] seed request;
        Some (request, request_length)
      })"

fun check_pattern :: "nat list \<Rightarrow> u32 \<Rightarrow> bytes \<Rightarrow> int option" where
  "check_pattern [] seed response = Some 0"
| "check_pattern (index # is) seed response = do {
     b \<leftarrow> read_byte response index;
     if b \<noteq> ucast (seed + of_nat index * 17) then Some (- EPROTO) else check_pattern is seed response
   }"

definition validate_response :: "bytes \<Rightarrow> u16 \<Rightarrow> u32 \<Rightarrow> u32 \<Rightarrow> int option" where
  "validate_response response response_length echo_data_bytes seed =
     (if echo_data_bytes = 0 then
        if response_length \<noteq> of_nat SG2002_RTOS_VALUE_MESSAGE_SIZE then Some (- EPROTO)
        else do {
          command \<leftarrow> read_byte response SG2002_RTOS_VALUE_MESSAGE_COMMAND_OFFSET;
          if command \<noteq> SG2002_RTOS_CMD_PING then Some (- EPROTO)
          else do {
            v \<leftarrow> read_bytes response SG2002_RTOS_VALUE_MESSAGE_VALUE_OFFSET 4;
            Some (if of_le32 v = seed XOR SG2002_RTOS_PING_XOR then 0 else - EPROTO)
          }
        }
      else let expected_length = ucast (echo_data_bytes + 1) in
        if response_length \<noteq> expected_length then Some (- EPROTO)
        else do {
          command \<leftarrow> read_byte response 0;
          if command \<noteq> SG2002_RTOS_CMD_ECHO then Some (- EPROTO)
          else check_pattern [1..<unat expected_length] seed response
        })"

subsection \<open>Lemmas\<close>

text \<open>The request of a seed and the reply the firmware gives to it.\<close>

definition pattern :: "nat \<Rightarrow> u32 \<Rightarrow> bytes" where
  "pattern n seed = map (\<lambda>i. ucast (seed + of_nat i * 17)) [1..<n]"

definition request_bytes :: "u32 \<Rightarrow> u32 \<Rightarrow> bytes" where
  "request_bytes echo_data_bytes seed =
     (if echo_data_bytes = 0 then value_message SG2002_RTOS_CMD_PING seed
      else SG2002_RTOS_CMD_ECHO # pattern (unat echo_data_bytes + 1) seed)"

definition reply_bytes :: "u32 \<Rightarrow> u32 \<Rightarrow> bytes" where
  "reply_bytes echo_data_bytes seed =
     (if echo_data_bytes = 0 then value_message SG2002_RTOS_CMD_PING (seed XOR SG2002_RTOS_PING_XOR)
      else request_bytes echo_data_bytes seed)"

lemma length_pattern [simp]: "length (pattern n seed) = n - 1"
  by (simp add: pattern_def)

lemma echo_length:
  assumes "(echo_data_bytes :: u32) \<le> 1017"
  shows "unat (ucast (echo_data_bytes + 1) :: u16) = unat echo_data_bytes + 1"
proof -
  have "unat echo_data_bytes \<le> 1017" using assms by (simp add: word_le_nat_alt)
  then show ?thesis by (simp add: unsigned_ucast_eq unat_word_ariths take_bit_nat_eq_self)
qed

lemma fill_pattern_prefix:
  "i \<le> n \<Longrightarrow> n \<le> length buf \<Longrightarrow> fill_pattern [i..<n] seed buf =
    Some (take i buf @ map (\<lambda>i. ucast (seed + of_nat i * 17)) [i..<n] @ drop n buf)"
proof (induction "n - i" arbitrary: i buf)
  case (Suc d)
  then have i: "i < n" "i < length buf" by simp_all
  let ?x = "ucast (seed + of_nat i * 17) :: u8"
  have w: "write_bytes buf i [?x] = Some (buf[i := ?x])"
    using i by (simp add: write_bytes_def upd_conv_take_nth_drop)
  have "fill_pattern [Suc i..<n] seed (buf[i := ?x]) = Some (take (Suc i) (buf[i := ?x]) @
      map (\<lambda>i. ucast (seed + of_nat i * 17)) [Suc i..<n] @ drop n (buf[i := ?x]))"
    using Suc i by simp
  then show ?case
    using i by (simp add: upt_conv_Cons w take_Suc_conv_app_nth)
qed simp

lemma build_request_bytes:
  assumes "length buf = SG2002_RTOS_SHM_PAYLOAD_SIZE" "echo_data_bytes \<le> 1017"
  shows "build_request buf echo_data_bytes seed =
    Some (request_bytes echo_data_bytes seed @ drop (length (request_bytes echo_data_bytes seed)) buf,
      of_nat (length (request_bytes echo_data_bytes seed)))"
proof (cases "echo_data_bytes = 0")
  case True
  then show ?thesis
    using assms(1) by (simp add: build_request_def request_bytes_def value_message_def write_bytes_def)
next
  case False
  note n = echo_length [OF assms(2)]
  have le: "unat echo_data_bytes \<le> 1017" using assms(2) by (simp add: word_le_nat_alt)
  have "write_bytes buf 0 [SG2002_RTOS_CMD_ECHO] = Some (SG2002_RTOS_CMD_ECHO # drop 1 buf)"
    using assms(1) by (simp add: write_bytes_def)
  moreover have "fill_pattern [1..<unat echo_data_bytes + 1] seed (SG2002_RTOS_CMD_ECHO # drop 1 buf) =
      Some (take 1 (SG2002_RTOS_CMD_ECHO # drop 1 buf) @ map (\<lambda>i. ucast (seed + of_nat i * 17)) [1..<unat echo_data_bytes + 1] @
        drop (unat echo_data_bytes + 1) (SG2002_RTOS_CMD_ECHO # drop 1 buf))"
    by (rule fill_pattern_prefix) (use le assms(1) in simp_all)
  moreover have u: "unat (of_nat (unat echo_data_bytes + 1) :: u16) = unat echo_data_bytes + 1"
    by (rule unat_of_nat_u16) (use le in simp)
  moreover from u have "ucast (echo_data_bytes + 1) = (of_nat (unat echo_data_bytes + 1) :: u16)"
    by (simp only: word_unat_eq_iff n)
  ultimately show ?thesis
    using False le u by (simp add: build_request_def Let_def n request_bytes_def pattern_def del: upt_Suc)
qed

lemma check_pattern_prefix:
  "i \<le> n \<Longrightarrow> n \<le> length buf \<Longrightarrow> check_pattern [i..<n] seed buf =
    Some (if take (n - i) (drop i buf) = map (\<lambda>i. ucast (seed + of_nat i * 17)) [i..<n] then 0 else - EPROTO)"
proof (induction "n - i" arbitrary: i)
  case (Suc d)
  then have i: "i < n" "i < length buf" by simp_all
  then have "take (n - i) (drop i buf) = buf ! i # take (n - Suc i) (drop (Suc i) buf)"
    by (simp add: Cons_nth_drop_Suc [symmetric] take_Cons' del: drop_drop)
  with Suc i show ?case by (simp add: upt_conv_Cons read_byte_def)
qed simp

lemma validate_response_exact:
  assumes "length buf = SG2002_RTOS_SHM_PAYLOAD_SIZE" "echo_data_bytes \<le> 1017"
  shows "validate_response buf len echo_data_bytes seed =
    Some (if unat len = length (reply_bytes echo_data_bytes seed) \<and> take (unat len) buf = reply_bytes echo_data_bytes seed
      then 0 else - EPROTO)"
proof (cases "echo_data_bytes = 0")
  case True
  have five: "len = 5 \<longleftrightarrow> unat len = 5" by (simp add: word_unat_eq_iff)
  obtain c rest where b: "buf = c # rest" "length rest = 1017" using assms(1) by (cases buf) auto
  have "take 4 rest = le32 v \<longleftrightarrow> of_le32 (take 4 rest) = v" for v
    using b(2) le32_of_le32 [of "take 4 rest"] by auto
  then show ?thesis
    using True b by (auto simp: validate_response_def reply_bytes_def value_message_def read_byte_def read_bytes_def five)
next
  case False
  note n = echo_length [OF assms(2)]
  have le: "unat echo_data_bytes \<le> 1017" using assms(2) by (simp add: word_le_nat_alt)
  have l: "len = ucast (echo_data_bytes + 1) \<longleftrightarrow> unat len = unat echo_data_bytes + 1"
    by (metis n word_unat_eq_iff)
  obtain c rest where b: "buf = c # rest" "length rest = 1017" using assms(1) by (cases buf) auto
  have "check_pattern [1..<unat echo_data_bytes + 1] seed buf = Some (if take (unat echo_data_bytes + 1 - 1) (drop 1 buf) =
      map (\<lambda>i. ucast (seed + of_nat i * 17)) [1..<unat echo_data_bytes + 1] then 0 else - EPROTO)"
    by (rule check_pattern_prefix) (use le assms(1) in simp_all)
  then show ?thesis
    using False b n l
    by (simp add: validate_response_def Let_def reply_bytes_def request_bytes_def read_byte_def pattern_def del: upt_Suc)
      (auto simp del: upt_Suc)
qed

lemma firmware_reply:
  assumes "echo_data_bytes \<le> 1017"
  shows "app_reply mm (request_bytes echo_data_bytes seed) SG2002_RTOS_SHM_PAYLOAD_SIZE io =
    (Some (reply_bytes echo_data_bytes seed), io)"
proof (cases "echo_data_bytes = 0")
  case True
  then show ?thesis by (simp add: request_bytes_def reply_bytes_def app_reply_ping)
next
  case False
  have "unat echo_data_bytes \<le> 1017" using assms by (simp add: word_le_nat_alt)
  then show ?thesis
    using False by (simp add: request_bytes_def reply_bytes_def app_reply_def)
qed

text \<open>Sorted lists and the number of their elements up to a bound.\<close>

lemma sorted_count_le:
  assumes "sorted xs" "i < length xs"
  shows "Suc i \<le> length (filter (\<lambda>x. x \<le> xs ! i) xs)" "y < xs ! i \<Longrightarrow> length (filter (\<lambda>x. x \<le> y) xs) \<le> i"
proof -
  have "filter (\<lambda>x. x \<le> xs ! i) (take (Suc i) xs) = take (Suc i) xs"
    using assms by (intro filter_True ballI) (auto simp: in_set_conv_nth sorted_nth_mono)
  then have "Suc i = length (filter (\<lambda>x. x \<le> xs ! i) (take (Suc i) xs))" using assms(2) by simp
  also have "\<dots> \<le> length (filter (\<lambda>x. x \<le> xs ! i) (take (Suc i) xs @ drop (Suc i) xs))"
    by (simp del: append_take_drop_id)
  finally show "Suc i \<le> length (filter (\<lambda>x. x \<le> xs ! i) xs)" by (simp only: append_take_drop_id)
  assume y: "y < xs ! i"
  have "filter (\<lambda>x. x \<le> y) (drop i xs) = []"
  proof (rule filter_False, rule ballI)
    fix x assume "x \<in> set (drop i xs)"
    then obtain j where "x = xs ! (i + j)" "i + j < length xs" by (auto simp: in_set_conv_nth)
    with assms(1) y have "xs ! i \<le> x" using sorted_nth_mono [of xs i "i + j"] by simp
    with y show "\<not> x \<le> y" by simp
  qed
  then have "length (filter (\<lambda>x. x \<le> y) (take i xs @ drop i xs)) \<le> length (take i xs)"
    by (simp only: filter_append length_append list.size add_0_right length_filter_le)
  then show "length (filter (\<lambda>x. x \<le> y) xs) \<le> i" using assms(2) by (simp only: append_take_drop_id length_take)
qed

subsection \<open>Properties\<close>

text \<open>The percentile is the nearest-rank percentile: with at most a million sorted samples it is the
  least sample that the given share of the samples does not exceed, and it never reads outside the
  array.\<close>

theorem percentile_nearest_rank:
  assumes "sorted samples" "samples \<noteq> []" "length samples \<le> 1000000" "percent \<le> 100"
  shows "\<exists>x\<in>set samples. percentile samples (of_nat (length samples)) percent = Some x \<and>
    unat percent * length samples \<le> 100 * length (filter (\<lambda>s. s \<le> x) samples) \<and>
    (\<forall>y<x. 0 < percent \<longrightarrow> 100 * length (filter (\<lambda>s. s \<le> y) samples) < unat percent * length samples)"
proof -
  let ?n = "length samples" and ?p = "unat percent"
  define rank where "rank = max 1 ((?p * ?n + 99) div 100)"
  have p: "?p \<le> 100" using assms(4) by (simp add: word_le_nat_alt)
  have n: "0 < ?n" using assms(2) by simp
  have bound: "?p * ?n \<le> 100000000" using mult_le_mono [OF p assms(3)] by simp
  have "(?p * ?n + 99) div 100 \<le> (100 * ?n + 99) div 100"
    by (rule div_le_mono) (use mult_le_mono1 [OF p, of ?n] in simp)
  then have r: "1 \<le> rank" "rank \<le> ?n" using n by (simp_all add: rank_def Suc_le_eq)
  have u: "unat (ucast percent * ucast (of_nat ?n :: u32) + 99 :: u64) = ?p * ?n + 99"
  proof -
    have "unat (ucast (of_nat ?n :: u32) :: u64) = ?n" using assms(3)
      by (simp add: unsigned_ucast_eq unat_of_nat_u32 take_bit_nat_eq_self)
    moreover have "unat (ucast percent :: u64) = ?p" using p by (simp add: unsigned_ucast_eq take_bit_nat_eq_self)
    ultimately show ?thesis using bound by (simp add: unat_word_ariths)
  qed
  then have d: "unat ((ucast percent * ucast (of_nat ?n :: u32) + 99) div 100 :: u64) = (?p * ?n + 99) div 100"
    by (simp only: unat_div) simp
  let ?q = "(ucast percent * ucast (of_nat ?n :: u32) + 99) div 100 :: u64"
  have i: "unat ((if ?q = 0 then 1 else ?q) - 1) = rank - 1"
  proof (cases "?q = 0")
    case True
    then have "unat ?q = 0" by simp
    then have "(?p * ?n + 99) div 100 = 0" by (simp only: d)
    then show ?thesis by (simp only: True rank_def) simp
  next
    case False
    then have "1 \<le> ?q" using unat_gt_0 [of ?q] by (simp add: word_le_nat_alt del: unat_gt_0)
    then have "unat (?q - 1) = unat ?q - 1" by (simp only: unat_sub) simp
    moreover have "0 < unat ?q" using False by (simp only: unat_gt_0) simp
    ultimately show ?thesis using False by (simp only: d if_False rank_def)
  qed
  have i': "rank - 1 < ?n" using r by simp
  have s: "percentile samples (of_nat ?n) percent = Some (samples ! (rank - 1))"
    using i i' by (simp only: percentile_def Let_def) simp
  have above: "?p * ?n \<le> 100 * rank" by (simp add: rank_def)
  have below: "100 * (rank - 1) < ?p * ?n" if "0 < percent"
  proof -
    have "0 < ?p * ?n" using that n by (simp add: unat_gt_0)
    then show ?thesis by (auto simp: rank_def max_def)
  qed
  show ?thesis
  proof (intro bexI conjI allI impI)
    show "?p * ?n \<le> 100 * length (filter (\<lambda>s. s \<le> samples ! (rank - 1)) samples)"
      using sorted_count_le(1) [OF assms(1) i'] above r by simp
    fix y assume "y < samples ! (rank - 1)" "0 < percent"
    then show "100 * length (filter (\<lambda>s. s \<le> y) samples) < ?p * ?n"
      using sorted_count_le(2) [OF assms(1) i'] below by fastforce
  qed (use s i' in simp_all)
qed

theorem percentile_nearest_rank_witness:
  "\<exists>x\<in>set [1, 2, 3, 4, 5]. percentile [1, 2, 3, 4, 5] (of_nat (length [1 :: u64, 2, 3, 4, 5])) 95 = Some x \<and>
    unat (95 :: u32) * length [1 :: u64, 2, 3, 4, 5] \<le> 100 * length (filter (\<lambda>s. s \<le> x) [1, 2, 3, 4, 5]) \<and>
    (\<forall>y<x. 0 < (95 :: u32) \<longrightarrow>
      100 * length (filter (\<lambda>s. s \<le> y) [1, 2, 3, 4, 5]) < unat (95 :: u32) * length [1 :: u64, 2, 3, 4, 5])"
  by (rule percentile_nearest_rank) simp_all

text \<open>Property C36: the firmware answers the request of any seed so that the check accepts the answer, and the
  check accepts nothing else: of all buffers and lengths exactly those with the bytes of the answer. Neither
  the request nor the check reaches outside its buffer.\<close>

theorem benchmark_accepts_exactly_the_reply:
  assumes "length buf = SG2002_RTOS_SHM_PAYLOAD_SIZE" "length resp = SG2002_RTOS_SHM_PAYLOAD_SIZE"
    and "echo_data_bytes \<le> 1017"
  shows "\<exists>request len reply out.
    build_request buf echo_data_bytes seed = Some (request, len) \<and>
    sg2002_rtos_app_handle_message mm (Some request) len (Some resp) (Some (of_nat SG2002_RTOS_SHM_PAYLOAD_SIZE)) io =
      Some (SG2002_RTOS_APP_HANDLED, Some reply, Some out, io) \<and>
    (\<forall>response n. length response = SG2002_RTOS_SHM_PAYLOAD_SIZE \<longrightarrow>
      validate_response response n echo_data_bytes seed =
        Some (if n = out \<and> take (unat n) response = take (unat out) reply then 0 else - EPROTO))"
proof -
  let ?q = "request_bytes echo_data_bytes seed" and ?r = "reply_bytes echo_data_bytes seed"
  have e: "unat echo_data_bytes \<le> 1017" using assms(3) by (simp add: word_le_nat_alt)
  then have len: "length ?q \<le> 1018" "length ?r \<le> 1018" by (simp_all add: request_bytes_def reply_bytes_def)
  then have u: "unat (of_nat (length ?q) :: u16) = length ?q" "unat (of_nat (length ?r) :: u16) = length ?r"
    by (simp_all add: unat_of_nat_u16)
  have "sg2002_rtos_app_handle_message mm (Some (?q @ drop (length ?q) buf)) (of_nat (length ?q)) (Some resp)
      (Some (of_nat SG2002_RTOS_SHM_PAYLOAD_SIZE)) io =
    Some (SG2002_RTOS_APP_HANDLED, Some (?r @ drop (length ?r) resp), Some (of_nat (length ?r)), io)"
    using assms(1,2) len u firmware_reply [OF assms(3), of mm seed io] by (subst handle_message_refines) simp_all
  moreover have "validate_response response n echo_data_bytes seed =
      Some (if n = of_nat (length ?r) \<and> take (unat n) response = take (unat (of_nat (length ?r) :: u16)) (?r @ drop (length ?r) resp)
        then 0 else - EPROTO)" if "length response = SG2002_RTOS_SHM_PAYLOAD_SIZE" for response n
    using u(2) validate_response_exact [OF that assms(3), of n seed] word_unat_eq_iff [of n "of_nat (length ?r)"] by simp
  ultimately show ?thesis using build_request_bytes [OF assms(1,3), of seed] by blast
qed

theorem benchmark_accepts_exactly_the_reply_witness:
  "\<exists>request len reply out.
    build_request (replicate 1018 0) 1017 0x12345678 = Some (request, len) \<and>
    sg2002_rtos_app_handle_message plain_mmio (Some request) len (Some (replicate 1018 1))
      (Some (of_nat SG2002_RTOS_SHM_PAYLOAD_SIZE)) (\<lambda>_. 0) =
      Some (SG2002_RTOS_APP_HANDLED, Some reply, Some out, \<lambda>_. 0) \<and>
    (\<forall>response n. length response = SG2002_RTOS_SHM_PAYLOAD_SIZE \<longrightarrow>
      validate_response response n 1017 0x12345678 =
        Some (if n = out \<and> take (unat n) response = take (unat out) reply then 0 else - EPROTO))"
  by (rule benchmark_accepts_exactly_the_reply) simp_all

text \<open>A driver that answers every request at once, the way the firmware does.\<close>

definition answering_env :: "sim_world linux_env" where
  "answering_env = sim_env\<lparr>ioctl_send := (\<lambda>f t w.
     (Inr (t\<lparr>message := (message t)\<lparr>sequence := 7\<rparr>\<rparr>),
      w\<lparr>sim_kernel := sim_kernel w @ [fst (response_to plain_mmio ((message t)\<lparr>sequence := 7\<rparr>) (\<lambda>_. 0))]\<rparr>))\<rparr>"

definition one_handle :: "sg2002_rtos option" where
  "one_handle = Some \<lparr>fd = 3, private_data = True\<rparr>"

end
