(* ===== verification/Thread_Bench.thy ===== *)
theory Thread_Bench
  imports Bench_Common
begin

section \<open>The benchmark with worker threads\<close>

text \<open>
  \<^verbatim>\<open>tools/rtos-thread-bench.c\<close>: worker threads that each have at most one request outstanding, and a
  dispatcher that submits the requests of ready workers and hands the responses back. All threads
  share a \<open>thread_phase\<close> under one lock. What a thread does between taking the lock and giving it back,
  or waiting on a condition variable, is one step; the calls of the client library and the poll are
  steps of their own. The event descriptor that wakes the dispatcher, the raw clock and the poll are
  parameters over a state \<open>'k\<close>; the client library is the one of \<^verbatim>\<open>Linux_Messages\<close>. Condition
  variables have no state: a waiting thread may run on when its condition holds. Locks do not fail.
  Creating the threads and the objects of the phase and printing the results are not modelled.
\<close>

subsection \<open>State\<close>

datatype worker_state =
    WORKER_STARTING | WORKER_IDLE | WORKER_READY | WORKER_SUBMITTING | WORKER_IN_FLIGHT
  | WORKER_COMPLETE | WORKER_EXITED

record worker =
  worker_request :: sg2002_rtos_shm_slot
  worker_started :: timespec
  state_of :: worker_state
  target :: u32
  issued :: u32
  worker_seed :: u32
  worker_sequence :: u32

record phase_stats =
  max_ready :: u32
  max_in_flight :: u32
  max_outstanding :: u32
  stat_send_eagain :: u64
  stat_receive_eagain :: u64
  poll_calls :: u64
  stat_poll_wakeups :: u64
  dispatcher_notifications_consumed :: u64
  stat_submit_calls :: u64
  submit_successes :: u64
  submitted_messages :: u64
  stat_reap_calls :: u64
  reap_successes :: u64
  reaped_messages :: u64
  max_submit_batch :: u16
  max_reap_batch :: u16

record thread_phase =
  workers :: "worker list"
  stats :: phase_stats
  latencies :: "u64 list option"
  latencies_sum :: u64
  worker_count :: u32
  total :: u32
  completed :: u32
  started :: u32
  ready :: u32
  submitting :: u32
  in_flight :: u32
  seed_base :: u32
  echo_data_bytes :: u32
  go :: bool
  stop :: bool
  phase_error :: int

record ('k, 'w) bench_env =
  wake_write :: "u64 \<Rightarrow> 'k \<Rightarrow> (int + nat) \<times> 'k"
  wake_read :: "'k \<Rightarrow> (int + nat \<times> u64) \<times> 'k"
  raw_clock :: "'k \<Rightarrow> (int + timespec) \<times> 'k"
  bench_poll :: "16 word option \<Rightarrow> u32 \<Rightarrow> 'k \<Rightarrow> 'w \<Rightarrow> (int + int \<times> 16 word \<times> 16 word) \<times> 'k \<times> 'w"

text \<open>The poll is given the events of the transport descriptor when that one is polled too, and
  answers the number of descriptors and the events of both.\<close>

datatype worker_pc = Worker_created | Worker_at_gate | Worker_waiting u32 | Worker_done

datatype dispatcher_pc =
    Dispatch_starting
  | Dispatch_check
  | Dispatch_reap
  | Dispatch_reaping u16
  | Dispatch_complete u16 "sg2002_rtos_shm_slot list" timespec
  | Dispatch_select bool
  | Dispatch_submitting bool "nat list" "sg2002_rtos_shm_slot list"
  | Dispatch_submitted bool "nat list" int u16 "sg2002_rtos_shm_slot list"
  | Dispatch_wait
  | Dispatch_polling int "16 word"
  | Dispatch_stopping int
  | Dispatch_joining int
  | Dispatch_returned int

record ('k, 'w) bench_system =
  phase :: thread_phase
  outside :: 'k
  client :: 'w
  phase_begin :: timespec
  duration_ns :: u64
  threads :: "worker_pc list"
  dispatcher :: dispatcher_pc

definition worker_target :: "u32 \<Rightarrow> u32 \<Rightarrow> u32 \<Rightarrow> u32" where
  "worker_target n count i = n div count + (if i < n mod count then 1 else 0)"

definition set_worker :: "nat \<Rightarrow> (worker \<Rightarrow> worker) \<Rightarrow> thread_phase \<Rightarrow> thread_phase" where
  "set_worker i f ph = ph\<lparr>workers := (workers ph)[i := f (workers ph ! i)]\<rparr>"

definition set_stats :: "(phase_stats \<Rightarrow> phase_stats) \<Rightarrow> thread_phase \<Rightarrow> thread_phase" where
  "set_stats f ph = ph\<lparr>stats := f (stats ph)\<rparr>"

definition update_depth_stats :: "thread_phase \<Rightarrow> thread_phase" where
  "update_depth_stats ph =
     (let outstanding = ready ph + submitting ph + in_flight ph
      in set_stats (\<lambda>st. st\<lparr>max_ready := (if ready ph > max_ready st then ready ph else max_ready st),
           max_in_flight := (if in_flight ph > max_in_flight st then in_flight ph else max_in_flight st),
           max_outstanding := (if outstanding > max_outstanding st then outstanding else max_outstanding st)\<rparr>) ph)"

subsection \<open>The event descriptor and failure\<close>

partial_function (option) signal_dispatcher :: "('k, 'w) bench_env \<Rightarrow> 'k \<Rightarrow> (int \<times> 'k) option" where
  "signal_dispatcher be k =
     (case wake_write be 1 k of (r, k) \<Rightarrow>
       (case r of
          Inl e \<Rightarrow> if e = EINTR then signal_dispatcher be k else Some (if e = EAGAIN then 0 else - e, k)
        | Inr written \<Rightarrow> Some (if written = 8 then 0 else - EIO, k)))"

partial_function (option) consume_dispatcher_signal :: "('k, 'w) bench_env \<Rightarrow> 'k \<Rightarrow> ((int + u64) \<times> 'k) option" where
  "consume_dispatcher_signal be k =
     (case wake_read be k of (r, k) \<Rightarrow>
       (case r of
          Inl e \<Rightarrow> if e = EINTR then consume_dispatcher_signal be k
            else Some (if e = EAGAIN then Inr 0 else Inl (- e), k)
        | Inr (received, v) \<Rightarrow> Some (if received = 8 then Inr v else Inl (- EIO), k)))"

definition fail_phase_locked :: "('k, 'w) bench_env \<Rightarrow> int \<Rightarrow> thread_phase \<Rightarrow> 'k \<Rightarrow> (thread_phase \<times> 'k) option" where
  "fail_phase_locked be e ph k = do {
     let ph = (if phase_error ph = 0 then ph\<lparr>phase_error := (if e \<noteq> 0 then e else - EIO)\<rparr> else ph);
     (_, k) \<leftarrow> signal_dispatcher be k;
     Some (ph\<lparr>stop := True\<rparr>, k)
   }"

subsection \<open>Workers\<close>

text \<open>One round of the loop of \<^verbatim>\<open>worker_main\<close> up to its wait; \<^const>\<open>False\<close> when the loop is left.\<close>

definition issue_request ::
  "('k, 'w) bench_env \<Rightarrow> nat \<Rightarrow> u32 \<Rightarrow> thread_phase \<Rightarrow> 'k \<Rightarrow> (bool \<times> thread_phase \<times> 'k) option" where
  "issue_request be i operation ph k = do {
     let seed = seed_base ph + operation * worker_count ph + of_nat i;
     (bytes, len) \<leftarrow> build_request (payload zero_slot) (echo_data_bytes ph) seed;
     let ph = set_worker i (\<lambda>x. x\<lparr>worker_seed := seed,
       worker_request := zero_slot\<lparr>payload := bytes, slot_length := len\<rparr>\<rparr>) ph;
     (case raw_clock be k of
        (Inl e, k) \<Rightarrow> do { (ph, k) \<leftarrow> fail_phase_locked be (- e) ph k; Some (False, ph, k) }
      | (Inr now, k) \<Rightarrow> do {
          let ph = set_worker i (\<lambda>x. x\<lparr>worker_started := now, state_of := WORKER_READY, issued := issued x + 1\<rparr>) ph;
          let ph = update_depth_stats (ph\<lparr>ready := ready ph + 1\<rparr>);
          (ret, k) \<leftarrow> signal_dispatcher be k;
          if ret \<noteq> 0 then do { (ph, k) \<leftarrow> fail_phase_locked be ret ph k; Some (False, ph, k) }
          else Some (True, ph, k)
        })
   }"

definition worker_exit :: "nat \<Rightarrow> thread_phase \<Rightarrow> thread_phase" where
  "worker_exit i ph = set_worker i (\<lambda>x. x\<lparr>state_of := WORKER_EXITED\<rparr>) ph"

definition worker_loop ::
  "('k, 'w) bench_env \<Rightarrow> nat \<Rightarrow> u32 \<Rightarrow> thread_phase \<Rightarrow> 'k \<Rightarrow> (worker_pc \<times> thread_phase \<times> 'k) option" where
  "worker_loop be i operation ph k =
     (if operation < target (workers ph ! i) \<and> \<not> stop ph then do {
        (waits, ph, k) \<leftarrow> issue_request be i operation ph k;
        Some (if waits then (Worker_waiting operation, ph, k) else (Worker_done, worker_exit i ph, k))
      } else Some (Worker_done, worker_exit i ph, k))"

definition worker_resume ::
  "('k, 'w) bench_env \<Rightarrow> nat \<Rightarrow> u32 \<Rightarrow> thread_phase \<Rightarrow> 'k \<Rightarrow> (worker_pc \<times> thread_phase \<times> 'k) option" where
  "worker_resume be i operation ph k =
     worker_loop be i (operation + 1)
       (if \<not> stop ph then set_worker i (\<lambda>x. x\<lparr>state_of := WORKER_IDLE\<rparr>) ph else ph) k"

text \<open>A worker thread: it starts, passes the gate, and runs on when its request is complete or the phase
  stops.\<close>

definition worker_step ::
  "('k, 'w) bench_env \<Rightarrow> nat \<Rightarrow> worker_pc \<Rightarrow> thread_phase \<Rightarrow> 'k \<Rightarrow> (worker_pc \<times> thread_phase \<times> 'k) option" where
  "worker_step be i pc ph k = (case pc of
       Worker_created \<Rightarrow> Some (Worker_at_gate,
         set_worker i (\<lambda>x. x\<lparr>state_of := WORKER_IDLE\<rparr>) (ph\<lparr>started := started ph + 1\<rparr>), k)
     | Worker_at_gate \<Rightarrow> if go ph \<or> stop ph then worker_loop be i 0 ph k else None
     | Worker_waiting operation \<Rightarrow>
         if state_of (workers ph ! i) = WORKER_COMPLETE \<or> stop ph then worker_resume be i operation ph k else None
     | Worker_done \<Rightarrow> None)"

subsection \<open>The dispatcher\<close>

definition find_in_flight_worker :: "thread_phase \<Rightarrow> u32 \<Rightarrow> nat option" where
  "find_in_flight_worker ph seq =
     find (\<lambda>i. state_of (workers ph ! i) = WORKER_IN_FLIGHT \<and> worker_sequence (workers ph ! i) = seq)
       [0..<unat (worker_count ph)]"

text \<open>Handing back the responses of a reaped batch over the indices that remain. The inner option is
  the success; the outer one tells accesses out of range apart.\<close>

fun complete_workers ::
  "sg2002_rtos_shm_slot list \<Rightarrow> timespec \<Rightarrow> nat list \<Rightarrow> thread_phase \<Rightarrow> (bool \<times> thread_phase) option" where
  "complete_workers messages now [] ph = Some (True, ph)"
| "complete_workers messages now (index # is) ph =
     (if index \<ge> length messages then None
      else case find_in_flight_worker ph (sequence (messages ! index)) of
        None \<Rightarrow> Some (False, ph)
      | Some i \<Rightarrow> do {
          let m = messages ! index;
          ret \<leftarrow> validate_response (payload m) (slot_length m) (echo_data_bytes ph) (worker_seed (workers ph ! i));
          if ret \<noteq> 0 then Some (False, ph)
          else do {
            let taken = elapsed_ns (worker_started (workers ph ! i)) now;
            ph \<leftarrow> (case latencies ph of None \<Rightarrow> Some ph
              | Some ls \<Rightarrow> if unat (completed ph) < length ls
                  then Some (ph\<lparr>latencies := Some (ls[unat (completed ph) := taken]),
                    latencies_sum := latencies_sum ph + taken\<rparr>)
                  else None);
            let ph = set_worker i (\<lambda>x. x\<lparr>state_of := WORKER_COMPLETE\<rparr>) ph;
            complete_workers messages now is (ph\<lparr>in_flight := in_flight ph - 1, completed := completed ph + 1\<rparr>)
          }
        })"

text \<open>Choosing the ready workers.\<close>

fun select_workers ::
  "nat list \<Rightarrow> thread_phase \<Rightarrow> nat list \<times> sg2002_rtos_shm_slot list \<times> thread_phase" where
  "select_workers [] ph = ([], [], ph)"
| "select_workers (i # is) ph =
     (if state_of (workers ph ! i) \<noteq> WORKER_READY then select_workers is ph
      else let m = worker_request (workers ph ! i);
               ph = set_worker i (\<lambda>x. x\<lparr>state_of := WORKER_SUBMITTING\<rparr>) ph;
               (selected, messages, ph) = select_workers is (ph\<lparr>ready := ready ph - 1, submitting := submitting ph + 1\<rparr>)
           in (i # selected, m # messages, ph))"

text \<open>Giving selected workers back, and recording the ones whose requests were accepted.\<close>

fun restore_workers :: "nat list \<Rightarrow> thread_phase \<Rightarrow> thread_phase" where
  "restore_workers [] ph = ph"
| "restore_workers (i # is) ph =
     (let ph = set_worker i (\<lambda>x. x\<lparr>state_of := WORKER_READY\<rparr>) ph
      in restore_workers is (ph\<lparr>submitting := submitting ph - 1, ready := ready ph + 1\<rparr>))"

fun accept_workers :: "(nat \<times> sg2002_rtos_shm_slot) list \<Rightarrow> thread_phase \<Rightarrow> bool \<times> thread_phase" where
  "accept_workers [] ph = (True, ph)"
| "accept_workers ((i, m) # rest) ph =
     (if sequence m = 0 \<or> find_in_flight_worker ph (sequence m) \<noteq> None then (False, ph)
      else let ph = set_worker i (\<lambda>x. x\<lparr>worker_sequence := sequence m, state_of := WORKER_IN_FLIGHT\<rparr>) ph
           in accept_workers rest (ph\<lparr>submitting := submitting ph - 1, in_flight := in_flight ph + 1\<rparr>))"

text \<open>The processing of a finished submission under the lock: the result of
  \<^verbatim>\<open>submit_ready_workers\<close>, an error or whether it progressed.\<close>

definition record_submission ::
  "('k, 'w) bench_env \<Rightarrow> nat list \<Rightarrow> int \<Rightarrow> u16 \<Rightarrow> sg2002_rtos_shm_slot list \<Rightarrow> thread_phase \<Rightarrow> 'k \<Rightarrow>
    ((int + bool) \<times> thread_phase \<times> 'k) option" where
  "record_submission be selected ret submitted messages ph k =
     (if ret \<noteq> 0 \<and> ret \<noteq> - EAGAIN then do {
        (ph, k) \<leftarrow> fail_phase_locked be ret (restore_workers selected ph) k;
        Some (Inl ret, ph, k)
      } else do {
        let ph = (if ret = - EAGAIN then set_stats (\<lambda>st. st\<lparr>stat_send_eagain := stat_send_eagain st + 1\<rparr>) ph else ph);
        let n = unat submitted;
        if ret = 0 \<and> (submitted = 0 \<or> n > length selected)
        then do { (ph, k) \<leftarrow> fail_phase_locked be (- EPROTO) ph k; Some (Inl (- EPROTO), ph, k) }
        else if n > length selected \<or> n > length messages then None
        else case accept_workers (zip (take n selected) (take n messages)) ph of
          (False, ph) \<Rightarrow> do { (ph, k) \<leftarrow> fail_phase_locked be (- EPROTO) ph k; Some (Inl (- EPROTO), ph, k) }
        | (True, ph) \<Rightarrow>
            let ph = update_depth_stats (restore_workers (drop n selected) ph);
                ph = (if submitted > 0 then set_stats (\<lambda>st. st\<lparr>submit_successes := submit_successes st + 1,
                    submitted_messages := submitted_messages st + ucast submitted,
                    max_submit_batch := (if submitted > max_submit_batch st then submitted else max_submit_batch st)\<rparr>) ph
                  else ph)
            in Some (Inr (submitted > 0), ph, k)
      })"

definition transport_outcome :: "16 word \<Rightarrow> int" where
  "transport_outcome revents =
     (if revents AND POLLNVAL \<noteq> 0 then - EBADF
      else if revents AND (POLLERR OR POLLHUP) \<noteq> 0 then - ENOTCONN else 0)"

definition poll_transport_or_worker ::
  "('k, 'w) bench_env \<Rightarrow> int \<Rightarrow> 16 word \<Rightarrow> u32 \<Rightarrow> thread_phase \<Rightarrow> 'k \<Rightarrow> 'w \<Rightarrow> (int \<times> thread_phase \<times> 'k \<times> 'w) option" where
  "poll_transport_or_worker be transport_fd events timeout_ms ph k w =
     (if events \<noteq> 0 \<and> transport_fd < 0 then Some (- EBADF, ph, k, w)
      else let ph = set_stats (\<lambda>st. st\<lparr>poll_calls := poll_calls st + 1\<rparr>) ph
      in case bench_poll be (if events = 0 then None else Some events) timeout_ms k w of
        (Inl e, k, w) \<Rightarrow> Some (if e = EINTR then 0 else - e, ph, k, w)
      | (Inr (ret, wake, transport), k, w) \<Rightarrow>
          if ret = 0 then Some (- ETIMEDOUT, ph, k, w)
          else let ph = set_stats (\<lambda>st. st\<lparr>stat_poll_wakeups := stat_poll_wakeups st + 1\<rparr>) ph in
            if wake AND POLLNVAL \<noteq> 0 then Some (- EBADF, ph, k, w)
            else if wake AND (POLLERR OR POLLHUP) \<noteq> 0 then Some (- ENOTCONN, ph, k, w)
            else do {
              (r, k) \<leftarrow> (if wake AND POLLIN \<noteq> 0 then consume_dispatcher_signal be k else Some (Inr 0, k));
              case r of Inl ret \<Rightarrow> Some (ret, ph, k, w)
              | Inr notifications \<Rightarrow>
                  let ph = set_stats (\<lambda>st. st\<lparr>dispatcher_notifications_consumed :=
                        dispatcher_notifications_consumed st + notifications\<rparr>) ph
                  in Some (if events = 0 then 0 else transport_outcome transport, ph, k, w)
            })"

text \<open>The steps of the thread that runs \<^verbatim>\<open>run_phase\<close> once the workers are created: it waits for them to
  start, opens the gate, dispatches, and joins them.\<close>

definition dispatcher_step ::
  "('k, 'x client_world_scheme) bench_env \<Rightarrow> 'x client_world_scheme linux_env \<Rightarrow> sg2002_rtos option \<Rightarrow>
    ('k, 'x client_world_scheme) bench_system \<Rightarrow> ('k, 'x client_world_scheme) bench_system option" where
  "dispatcher_step be env rtos s = (let ph = phase s; k = outside s; w = client s in
     case dispatcher s of
       Dispatch_starting \<Rightarrow>
         if started ph < worker_count ph \<and> phase_error ph = 0 then None
         else (case raw_clock be k of
             (Inl e, k) \<Rightarrow> do { (ph, k) \<leftarrow> fail_phase_locked be (- e) ph k;
               Some (s\<lparr>phase := ph, outside := k, dispatcher := Dispatch_joining (- e)\<rparr>) }
           | (Inr now, k) \<Rightarrow> Some (s\<lparr>phase := ph\<lparr>go := True\<rparr>, phase_begin := now, outside := k, dispatcher := Dispatch_check\<rparr>))
     | Dispatch_check \<Rightarrow> Some (s\<lparr>dispatcher :=
         (if phase_error ph \<noteq> 0 \<or> completed ph = total ph then Dispatch_stopping (phase_error ph) else Dispatch_reap)\<rparr>)
     | Dispatch_reap \<Rightarrow> let requested = ucast (in_flight ph) in
         if requested = 0 then Some (s\<lparr>dispatcher := Dispatch_select False\<rparr>)
         else Some (s\<lparr>phase := set_stats (\<lambda>st. st\<lparr>stat_reap_calls := stat_reap_calls st + 1\<rparr>) ph,
           dispatcher := Dispatch_reaping requested\<rparr>)
     | Dispatch_reaping requested \<Rightarrow> do {
         (ret, reaped, messages, w) \<leftarrow> sg2002_rtos_message_reap_batch env rtos
            (Some (replicate 8 zero_slot)) requested (Some 0) 0 w;
         let s = s\<lparr>client := w\<rparr>;
         reaped \<leftarrow> reaped;
         messages \<leftarrow> messages;
         if ret = - EAGAIN then
           Some (s\<lparr>phase := set_stats (\<lambda>st. st\<lparr>stat_receive_eagain := stat_receive_eagain st + 1\<rparr>) ph,
             dispatcher := Dispatch_select False\<rparr>)
         else if ret \<noteq> 0 then Some (s\<lparr>dispatcher := Dispatch_stopping ret\<rparr>)
         else if reaped = 0 \<or> reaped > requested then Some (s\<lparr>dispatcher := Dispatch_stopping (- EPROTO)\<rparr>)
         else case raw_clock be k of
             (Inl e, k) \<Rightarrow> Some (s\<lparr>outside := k, dispatcher := (if - e \<noteq> 0 then Dispatch_stopping (- e) else Dispatch_select False)\<rparr>)
           | (Inr now, k) \<Rightarrow> Some (s\<lparr>outside := k,
               phase := set_stats (\<lambda>st. st\<lparr>reap_successes := reap_successes st + 1,
                 reaped_messages := reaped_messages st + ucast reaped,
                 max_reap_batch := (if reaped > max_reap_batch st then reaped else max_reap_batch st)\<rparr>) ph,
               dispatcher := Dispatch_complete reaped messages now\<rparr>)
       }
     | Dispatch_complete reaped messages now \<Rightarrow> do {
         (done, ph) \<leftarrow> complete_workers messages now [0..<unat reaped] ph;
         if done then Some (s\<lparr>phase := update_depth_stats ph, dispatcher := Dispatch_select True\<rparr>)
         else do { (ph, k) \<leftarrow> fail_phase_locked be (- EPROTO) ph k;
           Some (s\<lparr>phase := ph, outside := k, dispatcher := Dispatch_stopping (- EPROTO)\<rparr>) }
       }
     | Dispatch_select progressed \<Rightarrow>
         (case select_workers [0..<unat (worker_count ph)] ph of (selected, messages, ph) \<Rightarrow>
           let ph = update_depth_stats ph in
           if selected = [] then Some (s\<lparr>phase := ph, dispatcher := (if progressed then Dispatch_check else Dispatch_wait)\<rparr>)
           else Some (s\<lparr>phase := set_stats (\<lambda>st. st\<lparr>stat_submit_calls := stat_submit_calls st + 1\<rparr>) ph,
             dispatcher := Dispatch_submitting progressed selected messages\<rparr>))
     | Dispatch_submitting progressed selected messages \<Rightarrow> do {
         (ret, submitted, messages, w) \<leftarrow> sg2002_rtos_message_submit_batch env rtos (Some messages)
            (of_nat (length selected)) (Some 0) 0 w;
         submitted \<leftarrow> submitted;
         messages \<leftarrow> messages;
         Some (s\<lparr>client := w, dispatcher := Dispatch_submitted progressed selected ret submitted messages\<rparr>)
       }
     | Dispatch_submitted progressed selected ret submitted messages \<Rightarrow> do {
         (r, ph, k) \<leftarrow> record_submission be selected ret submitted messages ph k;
         Some (s\<lparr>phase := ph, outside := k, dispatcher := (case r of Inl ret \<Rightarrow> Dispatch_stopping ret
           | Inr now \<Rightarrow> if progressed \<or> now then Dispatch_check else Dispatch_wait)\<rparr>)
       }
     | Dispatch_wait \<Rightarrow>
         if phase_error ph \<noteq> 0 \<or> completed ph = total ph
         then Some (s\<lparr>dispatcher := (if phase_error ph \<noteq> 0 then Dispatch_stopping (phase_error ph) else Dispatch_check)\<rparr>)
         else let events = (if in_flight ph > 0 then POLLIN else 0) OR (if ready ph > 0 then POLLOUT else 0);
                  transport_fd = sg2002_rtos_poll_fd rtos w
           in Some (s\<lparr>dispatcher := (if events \<noteq> 0 \<and> transport_fd < 0 then Dispatch_stopping transport_fd
                else Dispatch_polling (if events \<noteq> 0 then transport_fd else -1) events)\<rparr>)
     | Dispatch_polling transport_fd events \<Rightarrow> do {
         (ret, ph, k, w) \<leftarrow> poll_transport_or_worker be transport_fd events (ucast SG2002_RTOS_DEFAULT_TIMEOUT_MS) ph k w;
         Some (s\<lparr>phase := ph, outside := k, client := w,
           dispatcher := (if ret \<noteq> 0 then Dispatch_stopping ret else Dispatch_check)\<rparr>)
       }
     | Dispatch_stopping ret \<Rightarrow> (case raw_clock be k of (r, k) \<Rightarrow>
         let s = s\<lparr>outside := k, duration_ns := (case r of Inl _ \<Rightarrow> 0 | Inr now \<Rightarrow> elapsed_ns (phase_begin s) now)\<rparr>;
             ret = (case r of Inl e \<Rightarrow> if ret = 0 then - e else ret | Inr _ \<Rightarrow> ret)
         in if ret \<noteq> 0 then do { (ph, k) \<leftarrow> fail_phase_locked be ret ph k;
              Some (s\<lparr>phase := ph, outside := k, dispatcher := Dispatch_joining ret\<rparr>) }
            else Some (s\<lparr>dispatcher := Dispatch_joining ret\<rparr>))
     | Dispatch_joining ret \<Rightarrow>
         if list_all (\<lambda>pc. pc = Worker_done) (threads s)
         then Some (s\<lparr>dispatcher := Dispatch_returned
           (if ret = 0 \<and> completed ph \<noteq> total ph then - EIO else ret)\<rparr>)
         else None
     | Dispatch_returned ret \<Rightarrow> None)"

text \<open>Any thread may make the next step.\<close>

inductive bench_step ::
  "('k, 'x client_world_scheme) bench_env \<Rightarrow> 'x client_world_scheme linux_env \<Rightarrow> sg2002_rtos option \<Rightarrow>
    ('k, 'x client_world_scheme) bench_system \<Rightarrow> ('k, 'x client_world_scheme) bench_system \<Rightarrow> bool"
  for be env rtos where
  worker_runs:
    "i < length (threads s) \<Longrightarrow> worker_step be i (threads s ! i) (phase s) (outside s) = Some (pc, ph, k) \<Longrightarrow>
     bench_step be env rtos s (s\<lparr>phase := ph, outside := k, threads := (threads s)[i := pc]\<rparr>)"
| dispatcher_runs:
    "dispatcher_step be env rtos s = Some t \<Longrightarrow> bench_step be env rtos s t"

text \<open>The system when all workers have been created.\<close>

definition new_worker :: "u32 \<Rightarrow> worker" where
  "new_worker n = \<lparr>worker_request = zero_slot, worker_started = \<lparr>tv_sec = 0, tv_nsec = 0\<rparr>, state_of = WORKER_STARTING,
     target = n, issued = 0, worker_seed = 0, worker_sequence = 0\<rparr>"

definition no_stats :: phase_stats where
  "no_stats = \<lparr>max_ready = 0, max_in_flight = 0, max_outstanding = 0, stat_send_eagain = 0, stat_receive_eagain = 0,
     poll_calls = 0, stat_poll_wakeups = 0, dispatcher_notifications_consumed = 0, stat_submit_calls = 0,
     submit_successes = 0, submitted_messages = 0, stat_reap_calls = 0, reap_successes = 0, reaped_messages = 0,
     max_submit_batch = 0, max_reap_batch = 0\<rparr>"

definition start_phase :: "u32 \<Rightarrow> u32 \<Rightarrow> u32 \<Rightarrow> u32 \<Rightarrow> u64 list option \<Rightarrow> 'k \<Rightarrow> 'w \<Rightarrow> ('k, 'w) bench_system" where
  "start_phase count n echo seed ls k w = \<lparr>
     phase = \<lparr>workers = map (\<lambda>i. new_worker (worker_target n count (of_nat i))) [0..<unat count], stats = no_stats,
       latencies = ls, latencies_sum = 0, worker_count = count, total = n, completed = 0, started = 0, ready = 0,
       submitting = 0, in_flight = 0, seed_base = seed, echo_data_bytes = echo, go = False, stop = False,
       phase_error = 0\<rparr>,
     outside = k, client = w, phase_begin = \<lparr>tv_sec = 0, tv_nsec = 0\<rparr>, duration_ns = 0, threads = replicate (unat count) Worker_created, dispatcher = Dispatch_starting\<rparr>"

end
