(* ===== verification/Thread_Accounts.thy ===== *)
theory Thread_Accounts
  imports Thread_Bench
begin

section \<open>The accounts of the benchmark with worker threads\<close>

text \<open>
  The invariant of \<^verbatim>\<open>Thread_Bench\<close> that every thread keeps: \<open>phase_ok\<close> relates the fixed fields, \<open>accounts\<close> the
  counters to the states of the workers, \<open>pc_ok\<close> the place of a thread to the state of its worker, and
  \<open>consistent\<close> collects them. There is one lemma for each move of a worker from state to state
  (\<open>balanced_\<dots>\<close> on sets and counters, \<open>consistent_\<dots>\<close> on the phase), then one for each block of the code that
  runs under the lock.
\<close>

subsection \<open>Accounting\<close>

definition in_state :: "worker_state \<Rightarrow> thread_phase \<Rightarrow> nat set" where
  "in_state q ph = {i. i < length (workers ph) \<and> state_of (workers ph ! i) = q}"

definition issued_sum :: "thread_phase \<Rightarrow> nat" where
  "issued_sum ph = (\<Sum>x\<leftarrow>workers ph. unat (issued x))"

text \<open>The fields no thread changes, and consistency of the array of workers with them.\<close>

definition phase_ok :: "thread_phase \<Rightarrow> bool" where
  "phase_ok ph \<longleftrightarrow> length (workers ph) = unat (worker_count ph) \<and> unat (worker_count ph) \<le> 8 \<and>
     (\<Sum>x\<leftarrow>workers ph. unat (target x)) = unat (total ph) \<and> (\<forall>x\<in>set (workers ph). issued x \<le> target x) \<and>
     (\<forall>ls. latencies ph = Some ls \<longrightarrow> length ls = unat (total ph)) \<and> (stop ph \<longleftrightarrow> phase_error ph \<noteq> 0) \<and>
     echo_data_bytes ph \<le> 1017"

text \<open>The accounts, when the requests of the workers in \<open>A\<close> are with the dispatcher: \<open>R\<close>, \<open>S\<close>, \<open>F\<close>, \<open>E\<close> are the
  workers in the states ready, submitting, in flight and exited, \<open>c\<close> is the number of completed requests
  and \<open>n\<close> that of issued ones. After a failure some requests may be lost and the counters mean nothing.\<close>

definition ledger :: "nat \<Rightarrow> nat \<Rightarrow> nat \<Rightarrow> nat \<Rightarrow> nat \<Rightarrow> u32 \<Rightarrow> u32 \<Rightarrow> u32 \<Rightarrow> bool \<Rightarrow> bool" where
  "ledger c nr na nf n r sb fl halted \<longleftrightarrow> c + nr + na + nf \<le> n \<and>
     (\<not> halted \<longrightarrow> c + nr + na + nf = n \<and> r = of_nat nr \<and> sb = of_nat na \<and> fl = of_nat nf)"

definition held :: "nat set \<Rightarrow> nat set \<Rightarrow> nat set \<Rightarrow> nat set \<Rightarrow> nat set \<Rightarrow> bool \<Rightarrow> bool" where
  "held R S F E A halted \<longleftrightarrow> finite A \<and> finite R \<and> finite F \<and> A \<subseteq> S \<union> E \<and> (\<not> halted \<longrightarrow> A \<subseteq> S \<and> S \<subseteq> A)"

definition balanced ::
  "nat set \<Rightarrow> nat set \<Rightarrow> nat set \<Rightarrow> nat set \<Rightarrow> nat set \<Rightarrow> nat \<Rightarrow> nat \<Rightarrow> u32 \<Rightarrow> u32 \<Rightarrow> u32 \<Rightarrow> bool \<Rightarrow> bool" where
  "balanced R S F E A c n r sb fl halted \<longleftrightarrow>
     held R S F E A halted \<and> ledger c (card R) (card A) (card F) n r sb fl halted"

definition accounts :: "thread_phase \<Rightarrow> nat set \<Rightarrow> bool" where
  "accounts ph A \<longleftrightarrow> balanced (in_state WORKER_READY ph) (in_state WORKER_SUBMITTING ph)
     (in_state WORKER_IN_FLIGHT ph) (in_state WORKER_EXITED ph) A (unat (completed ph)) (issued_sum ph)
     (ready ph) (submitting ph) (in_flight ph) (stop ph) \<and>
     inj_on (\<lambda>i. worker_sequence (workers ph ! i)) (in_state WORKER_IN_FLIGHT ph)"

lemma finite_in_state [simp]: "finite (in_state q ph)"
  by (simp add: in_state_def)

lemma in_stateD: "i \<in> in_state q ph \<Longrightarrow> i < length (workers ph)"
  by (simp add: in_state_def)

lemma set_worker_fields [simp]:
  "length (workers (set_worker i f ph)) = length (workers ph)" "stop (set_worker i f ph) = stop ph"
  "completed (set_worker i f ph) = completed ph" "ready (set_worker i f ph) = ready ph"
  "submitting (set_worker i f ph) = submitting ph" "in_flight (set_worker i f ph) = in_flight ph"
  "worker_count (set_worker i f ph) = worker_count ph" "total (set_worker i f ph) = total ph"
  "latencies (set_worker i f ph) = latencies ph" "phase_error (set_worker i f ph) = phase_error ph"
  "echo_data_bytes (set_worker i f ph) = echo_data_bytes ph" "go (set_worker i f ph) = go ph"
  "seed_base (set_worker i f ph) = seed_base ph" "started (set_worker i f ph) = started ph"
  by (simp_all add: set_worker_def)

lemma set_worker_nth:
  "i < length (workers ph) \<Longrightarrow>
    workers (set_worker i f ph) ! j = (if j = i then f (workers ph ! i) else workers ph ! j)"
  by (simp add: set_worker_def nth_list_update)

lemma in_state_set_worker:
  assumes "i < length (workers ph)"
  shows "in_state q (set_worker i f ph) =
    (if state_of (f (workers ph ! i)) = q then insert i (in_state q ph) else in_state q ph - {i})"
  using assms by (auto simp: in_state_def set_worker_nth)

lemma in_state_cong: "workers ph = workers ph' \<Longrightarrow> in_state q ph = in_state q ph'"
  by (simp add: in_state_def)

lemma sum_list_map_update:
  fixes g :: "'a \<Rightarrow> nat"
  assumes "i < length xs"
  shows "(\<Sum>x\<leftarrow>xs[i := y]. g x) + g (xs ! i) = (\<Sum>x\<leftarrow>xs. g x) + g y"
  using assms by (induction xs arbitrary: i) (auto split: nat.splits)

lemma issued_sum_set_worker:
  assumes "i < length (workers ph)"
  shows "issued (f (workers ph ! i)) = issued (workers ph ! i) \<Longrightarrow> issued_sum (set_worker i f ph) = issued_sum ph"
    "unat (issued (f (workers ph ! i))) = unat (issued (workers ph ! i)) + 1 \<Longrightarrow>
      issued_sum (set_worker i f ph) = issued_sum ph + 1"
  using sum_list_map_update [OF assms, of "\<lambda>x. unat (issued x)" "f (workers ph ! i)"]
  by (simp_all add: issued_sum_def set_worker_def)

lemma issued_le_target: "phase_ok ph \<Longrightarrow> i < length (workers ph) \<Longrightarrow> issued (workers ph ! i) \<le> target (workers ph ! i)"
  by (metis nth_mem phase_ok_def)

lemma issued_le_total:
  assumes "phase_ok ph"
  shows "issued_sum ph \<le> unat (total ph)"
proof -
  have "(\<Sum>x\<leftarrow>workers ph. unat (issued x)) \<le> (\<Sum>x\<leftarrow>workers ph. unat (target x))"
    using assms by (intro sum_list_mono) (simp add: phase_ok_def word_le_nat_alt)
  with assms show ?thesis by (simp add: issued_sum_def phase_ok_def)
qed

lemma set_stats_fields [simp]:
  "workers (set_stats f ph) = workers ph" "stop (set_stats f ph) = stop ph" "completed (set_stats f ph) = completed ph"
  "ready (set_stats f ph) = ready ph" "submitting (set_stats f ph) = submitting ph" "in_flight (set_stats f ph) = in_flight ph"
  "worker_count (set_stats f ph) = worker_count ph" "total (set_stats f ph) = total ph" "latencies (set_stats f ph) = latencies ph"
  "phase_error (set_stats f ph) = phase_error ph" "echo_data_bytes (set_stats f ph) = echo_data_bytes ph"
  "go (set_stats f ph) = go ph" "seed_base (set_stats f ph) = seed_base ph" "started (set_stats f ph) = started ph"
  by (simp_all add: set_stats_def)

lemma update_depth_stats_fields [simp]:
  "workers (update_depth_stats ph) = workers ph" "stop (update_depth_stats ph) = stop ph"
  "completed (update_depth_stats ph) = completed ph" "ready (update_depth_stats ph) = ready ph"
  "submitting (update_depth_stats ph) = submitting ph" "in_flight (update_depth_stats ph) = in_flight ph"
  "worker_count (update_depth_stats ph) = worker_count ph" "total (update_depth_stats ph) = total ph"
  "latencies (update_depth_stats ph) = latencies ph" "phase_error (update_depth_stats ph) = phase_error ph"
  "echo_data_bytes (update_depth_stats ph) = echo_data_bytes ph" "go (update_depth_stats ph) = go ph"
  "seed_base (update_depth_stats ph) = seed_base ph" "started (update_depth_stats ph) = started ph"
  by (simp_all add: update_depth_stats_def Let_def)

text \<open>What the accounts depend on.\<close>

definition books :: "thread_phase \<Rightarrow> worker list \<times> bool \<times> u32 \<times> u32 \<times> u32 \<times> u32" where
  "books ph = (workers ph, stop ph, completed ph, ready ph, submitting ph, in_flight ph)"

lemma accounts_books: "books ph = books ph' \<Longrightarrow> accounts ph A = accounts ph' A"
  by (simp add: books_def accounts_def in_state_def issued_sum_def)

lemma accounts_stats [simp]:
  "accounts (set_stats f ph) A = accounts ph A" "accounts (update_depth_stats ph) A = accounts ph A"
  by (rule accounts_books, simp add: books_def update_depth_stats_def Let_def)+

lemma phase_ok_stats [simp]:
  "phase_ok (set_stats f ph) = phase_ok ph" "phase_ok (update_depth_stats ph) = phase_ok ph"
  by (simp_all add: phase_ok_def update_depth_stats_def Let_def)

text \<open>The movements of one worker through the books.\<close>

lemma ledger_moves:
  "ledger c (Suc x) y z n r sb fl h \<Longrightarrow> ledger c x (Suc y) z n (r - 1) (sb + 1) fl h"
  "ledger c x (Suc y) z n r sb fl h \<Longrightarrow> ledger c (Suc x) y z n (r + 1) (sb - 1) fl h"
  "ledger c x (Suc y) z n r sb fl h \<Longrightarrow> ledger c x y (Suc z) n r (sb - 1) (fl + 1) h"
  "ledger c x y (Suc z) n r sb fl h \<Longrightarrow> ledger (c + 1) x y z n r sb (fl - 1) h"
  "ledger c x y z n r sb fl False \<Longrightarrow> ledger c (Suc x) y z (n + 1) (r + 1) sb fl False"
  "ledger c x y z n r sb fl h \<Longrightarrow> ledger c x y z n r' sb' fl' True"
  by (auto simp: ledger_def)

lemma ledger_less:
  "ledger c x y z n r sb fl True \<Longrightarrow> x' \<le> x \<Longrightarrow> z' \<le> z \<Longrightarrow> ledger c x' y z' n r sb fl True"
  by (simp add: ledger_def)

lemma heldD:
  assumes "held R S F E A h"
  shows "finite A" "finite R" "finite F" "A \<subseteq> S \<union> E"
  using assms by (simp_all add: held_def)

lemma held_moves:
  assumes "held R S F E A h"
  shows "i \<notin> S \<Longrightarrow> i \<notin> F \<Longrightarrow> i \<notin> E \<Longrightarrow> held (R - {i}) (insert i S) (F - {i}) (E - {i}) (insert i A) h"
    and "held (insert i R) (S - {i}) (F - {i}) (E - {i}) (A - {i}) h"
    and "held (R - {i}) (S - {i}) (insert i F) (E - {i}) (A - {i}) h"
    and "i \<notin> S \<Longrightarrow> i \<notin> E \<Longrightarrow> held (R - {i}) (S - {i}) (F - {i}) (E - {i}) A h"
    and "i \<notin> S \<Longrightarrow> \<not> h \<Longrightarrow> held (insert i R) (S - {i}) (F - {i}) (E - {i}) A h"
    and "h \<or> i \<notin> S \<Longrightarrow> held (R - {i}) (S - {i}) (F - {i}) (insert i E) A h"
    and "held R S F E A True"
  using assms unfolding held_def by blast+

lemma balanced_less:
  assumes "balanced R S F E A c n r sb fl h" "i \<notin> R" "i \<notin> S" "i \<notin> F" "i \<notin> E"
  shows "balanced (R - {i}) (S - {i}) (F - {i}) (E - {i}) A c n r sb fl h"
  using assms by (simp add: balanced_def)

lemma balanced_select:
  assumes "balanced R S F E A c n r sb fl h" "i \<in> R" "i \<notin> S" "i \<notin> F" "i \<notin> E"
  shows "balanced (R - {i}) (insert i S) (F - {i}) (E - {i}) (insert i A) c n (r - 1) (sb + 1) fl h"
proof -
  have held: "held R S F E A h" and ledger: "ledger c (card R) (card A) (card F) n r sb fl h"
    using assms(1) by (simp_all add: balanced_def)
  have i: "i \<notin> A" using heldD(4) [OF held] assms by blast
  have "ledger c (card (R - {i})) (Suc (card A)) (card F) n (r - 1) (sb + 1) fl h"
    by (rule ledger_moves(1)) (use ledger heldD [OF held] assms in \<open>simp add: card_Suc_Diff1 del: card_Diff_insert card_Diff_singleton\<close>)
  moreover have "F - {i} = F" using assms by simp
  ultimately show ?thesis
    using held_moves(1) [OF held assms(3-5)] i heldD [OF held] assms by (simp add: balanced_def del: card_Diff_insert card_Diff_singleton)
qed

lemma balanced_restore:
  assumes "balanced R S F E A c n r sb fl h" "i \<in> A" "i \<notin> R" "i \<notin> F"
  shows "balanced (insert i R) (S - {i}) (F - {i}) (E - {i}) (A - {i}) c n (r + 1) (sb - 1) fl h"
proof -
  have held: "held R S F E A h" and ledger: "ledger c (card R) (card A) (card F) n r sb fl h"
    using assms(1) by (simp_all add: balanced_def)
  have "ledger c (Suc (card R)) (card (A - {i})) (card F) n (r + 1) (sb - 1) fl h"
    by (rule ledger_moves(2)) (use ledger heldD [OF held] assms in \<open>simp add: card_Suc_Diff1 del: card_Diff_insert card_Diff_singleton\<close>)
  moreover have "F - {i} = F" using assms by simp
  ultimately show ?thesis
    using held_moves(2) [OF held, of i] heldD [OF held] assms by (simp add: balanced_def del: card_Diff_insert card_Diff_singleton)
qed

lemma balanced_accept:
  assumes "balanced R S F E A c n r sb fl h" "i \<in> A" "i \<notin> R" "i \<notin> F"
  shows "balanced (R - {i}) (S - {i}) (insert i F) (E - {i}) (A - {i}) c n r (sb - 1) (fl + 1) h"
proof -
  have held: "held R S F E A h" and ledger: "ledger c (card R) (card A) (card F) n r sb fl h"
    using assms(1) by (simp_all add: balanced_def)
  have "ledger c (card R) (card (A - {i})) (Suc (card F)) n r (sb - 1) (fl + 1) h"
    by (rule ledger_moves(3)) (use ledger heldD [OF held] assms in \<open>simp add: card_Suc_Diff1 del: card_Diff_insert card_Diff_singleton\<close>)
  moreover have "R - {i} = R" using assms by simp
  ultimately show ?thesis
    using held_moves(3) [OF held, of i] heldD [OF held] assms by (simp add: balanced_def del: card_Diff_insert card_Diff_singleton)
qed

lemma balanced_complete:
  assumes "balanced R S F E A c n r sb fl h" "i \<in> F" "i \<notin> R" "i \<notin> S" "i \<notin> E"
  shows "balanced (R - {i}) (S - {i}) (F - {i}) (E - {i}) A (c + 1) n r sb (fl - 1) h"
proof -
  have held: "held R S F E A h" and ledger: "ledger c (card R) (card A) (card F) n r sb fl h"
    using assms(1) by (simp_all add: balanced_def)
  have "ledger (c + 1) (card R) (card A) (card (F - {i})) n r sb (fl - 1) h"
    by (rule ledger_moves(4)) (use ledger heldD [OF held] assms in \<open>simp add: card_Suc_Diff1 del: card_Diff_insert card_Diff_singleton\<close>)
  moreover have "R - {i} = R" using assms by simp
  ultimately show ?thesis
    using held_moves(4) [OF held assms(4,5)] heldD [OF held] assms by (simp add: balanced_def del: card_Diff_insert card_Diff_singleton)
qed

lemma balanced_issue:
  assumes "balanced R S F E A c n r sb fl False" "i \<notin> R" "i \<notin> S" "i \<notin> F"
  shows "balanced (insert i R) (S - {i}) (F - {i}) (E - {i}) A c (n + 1) (r + 1) sb fl False"
proof -
  have held: "held R S F E A False" and ledger: "ledger c (card R) (card A) (card F) n r sb fl False"
    using assms(1) by (simp_all add: balanced_def)
  have "card (insert i R) = Suc (card R)" "F - {i} = F"
    using heldD [OF held] assms by simp_all
  then show ?thesis
    using held_moves(5) [OF held assms(3)] ledger_moves(5) [OF ledger] by (simp add: balanced_def)
qed

lemma balanced_leave:
  assumes "balanced R S F E A c n r sb fl h" "h \<or> i \<notin> R \<and> i \<notin> S \<and> i \<notin> F"
  shows "balanced (R - {i}) (S - {i}) (F - {i}) (insert i E) A c n r sb fl h"
proof -
  have held: "held R S F E A h" and ledger: "ledger c (card R) (card A) (card F) n r sb fl h"
    using assms(1) by (simp_all add: balanced_def)
  have "held (R - {i}) (S - {i}) (F - {i}) (insert i E) A h"
    using held_moves(6) [OF held] assms(2) by blast
  moreover have "ledger c (card (R - {i})) (card A) (card (F - {i})) n r sb fl h"
  proof (cases h)
    case True
    with ledger ledger_less show ?thesis using heldD [OF held] by (simp add: card_Diff1_le)
  qed (use assms(2) ledger in simp)
  ultimately show ?thesis by (simp add: balanced_def)
qed

lemma balanced_halt:
  "balanced R S F E A c n r sb fl h \<Longrightarrow> balanced R S F E A c n r' sb' fl' True"
  using held_moves(7) by (auto simp: balanced_def intro: ledger_moves(6))

subsection \<open>Where a worker thread is\<close>

fun pc_ok :: "worker_pc \<Rightarrow> bool \<Rightarrow> worker \<Rightarrow> bool" where
  "pc_ok Worker_created halted x \<longleftrightarrow> state_of x = WORKER_STARTING \<and> issued x = 0"
| "pc_ok Worker_at_gate halted x \<longleftrightarrow> state_of x = WORKER_IDLE \<and> issued x = 0"
| "pc_ok (Worker_waiting operation) halted x \<longleftrightarrow>
     state_of x \<in> {WORKER_READY, WORKER_SUBMITTING, WORKER_IN_FLIGHT, WORKER_COMPLETE} \<and>
     operation < target x \<and> issued x = operation + 1"
| "pc_ok Worker_done halted x \<longleftrightarrow> (\<not> halted \<longrightarrow> state_of x = WORKER_EXITED \<and> issued x = target x)"

text \<open>The invariant of a phase: the threads \<open>pcs\<close>, the shared phase and the workers \<open>A\<close> the dispatcher holds.\<close>

definition consistent :: "worker_pc list \<Rightarrow> thread_phase \<Rightarrow> nat set \<Rightarrow> bool" where
  "consistent pcs ph A \<longleftrightarrow> length pcs = length (workers ph) \<and> phase_ok ph \<and> accounts ph A \<and>
     (\<forall>i<length pcs. pc_ok (pcs ! i) (stop ph) (workers ph ! i))"

lemma pc_ok_halt: "pc_ok pc h x \<Longrightarrow> pc_ok pc True x"
  by (cases pc) auto

definition fixed_part :: "thread_phase \<Rightarrow> u32 \<times> u32 \<times> nat option \<times> bool \<times> int \<times> u32" where
  "fixed_part ph = (worker_count ph, total ph, map_option length (latencies ph), stop ph, phase_error ph, echo_data_bytes ph)"

lemma phase_ok_move:
  assumes "phase_ok ph" "i < length (workers ph)" "workers ph' = (workers ph)[i := x]" "fixed_part ph' = fixed_part ph"
    and "target x = target (workers ph ! i)" "issued x \<le> target x"
  shows "phase_ok ph'"
proof -
  have "(\<Sum>y\<leftarrow>(workers ph)[i := x]. unat (target y)) = (\<Sum>y\<leftarrow>workers ph. unat (target y))"
    using sum_list_map_update [OF assms(2), of "\<lambda>y. unat (target y)" x] assms(5) by simp
  moreover have "\<forall>y\<in>set ((workers ph)[i := x]). issued y \<le> target y"
    using assms(1,6) set_update_subset_insert [of "workers ph" i x] by (auto simp: phase_ok_def)
  moreover have "latencies ph' = Some ls' \<Longrightarrow> length ls' = unat (total ph)" for ls'
    using assms(1,4) by (cases "latencies ph") (simp_all add: fixed_part_def phase_ok_def)
  ultimately show ?thesis using assms(1,3,4) by (simp add: phase_ok_def fixed_part_def)
qed

lemma consistent_move:
  assumes "consistent pcs ph A" "i < length (workers ph)" "workers ph' = (workers ph)[i := x]" "fixed_part ph' = fixed_part ph"
    and "target x = target (workers ph ! i)" "issued x \<le> target x" "pc_ok pc (stop ph) x" "accounts ph' A'"
  shows "consistent (pcs[i := pc]) ph' A'"
proof -
  have "phase_ok ph'" using assms by (intro phase_ok_move [of ph i ph' x]) (simp_all add: consistent_def)
  moreover have "stop ph' = stop ph" using assms(4) by (simp add: fixed_part_def)
  ultimately show ?thesis using assms(1-3,7,8) by (auto simp: consistent_def nth_list_update)
qed

lemma accountsI:
  assumes "balanced (in_state WORKER_READY ph) (in_state WORKER_SUBMITTING ph) (in_state WORKER_IN_FLIGHT ph)
      (in_state WORKER_EXITED ph) A (unat (completed ph)) (issued_sum ph) (ready ph) (submitting ph) (in_flight ph) (stop ph)"
    and "inj_on (\<lambda>i. worker_sequence (workers ph0 ! i)) (in_state WORKER_IN_FLIGHT ph0)"
    and "\<And>i. i \<in> in_state WORKER_IN_FLIGHT ph \<Longrightarrow>
      i \<in> in_state WORKER_IN_FLIGHT ph0 \<and> worker_sequence (workers ph ! i) = worker_sequence (workers ph0 ! i)"
  shows "accounts ph A"
  using assms by (auto simp: accounts_def inj_on_def)

lemma accountsD:
  assumes "accounts ph A"
  shows "balanced (in_state WORKER_READY ph) (in_state WORKER_SUBMITTING ph) (in_state WORKER_IN_FLIGHT ph)
      (in_state WORKER_EXITED ph) A (unat (completed ph)) (issued_sum ph) (ready ph) (submitting ph) (in_flight ph) (stop ph)"
    and "inj_on (\<lambda>i. worker_sequence (workers ph ! i)) (in_state WORKER_IN_FLIGHT ph)"
  using assms by (simp_all add: accounts_def)

lemma consistentD:
  assumes "consistent pcs ph A"
  shows "length pcs = length (workers ph)" "phase_ok ph" "accounts ph A"
    "i < length (workers ph) \<Longrightarrow> pc_ok (pcs ! i) (stop ph) (workers ph ! i)"
  using assms by (simp_all add: consistent_def)

text \<open>The workers the dispatcher holds are submitting or have left.\<close>

lemma held_state:
  assumes "consistent pcs ph A" "i \<in> A"
  shows "i < length (workers ph)" "state_of (workers ph ! i) = WORKER_SUBMITTING \<or> state_of (workers ph ! i) = WORKER_EXITED"
    "\<not> stop ph \<Longrightarrow> state_of (workers ph ! i) = WORKER_SUBMITTING"
proof -
  have h: "held (in_state WORKER_READY ph) (in_state WORKER_SUBMITTING ph) (in_state WORKER_IN_FLIGHT ph)
      (in_state WORKER_EXITED ph) A (stop ph)"
    using consistentD(3) [OF assms(1)] by (simp add: accounts_def balanced_def)
  with assms(2) show "i < length (workers ph)"
    "state_of (workers ph ! i) = WORKER_SUBMITTING \<or> state_of (workers ph ! i) = WORKER_EXITED"
    by (auto simp: held_def in_state_def)
  show "\<not> stop ph \<Longrightarrow> state_of (workers ph ! i) = WORKER_SUBMITTING"
    using h assms(2) by (auto simp: held_def in_state_def)
qed

text \<open>A thread whose worker is handed on by the dispatcher stays where it is.\<close>

lemma pc_ok_handed_on:
  assumes "pc_ok pc h x" "state_of x \<in> {WORKER_READY, WORKER_SUBMITTING, WORKER_IN_FLIGHT} \<or> h \<and> state_of x = WORKER_EXITED"
    and "state_of y \<in> {WORKER_READY, WORKER_SUBMITTING, WORKER_IN_FLIGHT, WORKER_COMPLETE}" "issued y = issued x" "target y = target x"
  shows "pc_ok pc h y"
  using assms by (cases pc) auto

lemma consistent_handed_on:
  assumes "consistent pcs ph A" "i < length (workers ph)" "workers ph' = (workers ph)[i := x]" "fixed_part ph' = fixed_part ph"
    and "issued x = issued (workers ph ! i)" "target x = target (workers ph ! i)"
    and "state_of (workers ph ! i) \<in> {WORKER_READY, WORKER_SUBMITTING, WORKER_IN_FLIGHT} \<or> stop ph \<and> state_of (workers ph ! i) = WORKER_EXITED"
    and "state_of x \<in> {WORKER_READY, WORKER_SUBMITTING, WORKER_IN_FLIGHT, WORKER_COMPLETE}" "accounts ph' A'"
  shows "consistent pcs ph' A'"
proof -
  have "issued x \<le> target x" using consistentD(2) [OF assms(1)] assms(2,5,6) by (simp add: phase_ok_def)
  moreover have "pc_ok (pcs ! i) (stop ph) x"
    using pc_ok_handed_on [OF consistentD(4) [OF assms(1,2)] assms(7,8,5,6)] .
  ultimately have "consistent (pcs[i := pcs ! i]) ph' A'" using assms by (intro consistent_move)
  then show ?thesis by simp
qed

subsection \<open>The moves of the dispatcher\<close>

lemma in_state_update:
  assumes "workers ph' = (workers ph)[i := x]" "i < length (workers ph)"
  shows "in_state q ph' = (if state_of x = q then insert i (in_state q ph) else in_state q ph - {i})"
  using assms by (auto simp: in_state_def nth_list_update)

lemma issued_sum_update:
  assumes "workers ph' = (workers ph)[i := x]" "i < length (workers ph)"
  shows "issued x = issued (workers ph ! i) \<Longrightarrow> issued_sum ph' = issued_sum ph"
    "unat (issued x) = unat (issued (workers ph ! i)) + 1 \<Longrightarrow> issued_sum ph' = issued_sum ph + 1"
  using sum_list_map_update [OF assms(2), of "\<lambda>x. unat (issued x)" x]
  by (simp_all add: issued_sum_def assms(1))

lemma in_state_iff: "i < length (workers ph) \<Longrightarrow> i \<in> in_state q ph \<longleftrightarrow> state_of (workers ph ! i) = q"
  by (simp add: in_state_def)

text \<open>Selecting a ready worker.\<close>

lemma consistent_select:
  assumes "consistent pcs ph A" "i < length (workers ph)" "state_of (workers ph ! i) = WORKER_READY"
  shows "consistent pcs (set_worker i (\<lambda>x. x\<lparr>state_of := WORKER_SUBMITTING\<rparr>) ph
      \<lparr>ready := ready ph - 1, submitting := submitting ph + 1\<rparr>) (insert i A)"
    (is "consistent pcs ?ph' _")
proof (rule consistent_handed_on [OF assms(1,2)])
  show w: "workers ?ph' = (workers ph)[i := (workers ph ! i)\<lparr>state_of := WORKER_SUBMITTING\<rparr>]"
    by (simp add: set_worker_def)
  note a = accountsD [OF consistentD(3) [OF assms(1)]]
  note st = in_state_update [OF w assms(2)]
  show "accounts ?ph' (insert i A)"
  proof (rule accountsI [OF _ a(2)])
    show "balanced (in_state WORKER_READY ?ph') (in_state WORKER_SUBMITTING ?ph') (in_state WORKER_IN_FLIGHT ?ph')
        (in_state WORKER_EXITED ?ph') (insert i A) (unat (completed ?ph')) (issued_sum ?ph') (ready ?ph') (submitting ?ph')
        (in_flight ?ph') (stop ?ph')"
      using balanced_select [OF a(1), of i] assms(2,3) issued_sum_update(1) [OF w assms(2)] by (simp add: st in_state_iff)
  qed (auto simp: w st nth_list_update split: if_splits)
qed (simp_all add: fixed_part_def assms(3))

text \<open>Giving one back.\<close>

lemma consistent_restore:
  assumes "consistent pcs ph A" "i \<in> A"
  shows "consistent pcs (set_worker i (\<lambda>x. x\<lparr>state_of := WORKER_READY\<rparr>) ph
      \<lparr>submitting := submitting ph - 1, ready := ready ph + 1\<rparr>) (A - {i})"
    (is "consistent pcs ?ph' _")
proof -
  note h = held_state [OF assms]
  show ?thesis
  proof (rule consistent_handed_on [OF assms(1) h(1)])
    show w: "workers ?ph' = (workers ph)[i := (workers ph ! i)\<lparr>state_of := WORKER_READY\<rparr>]"
      by (simp add: set_worker_def)
    note a = accountsD [OF consistentD(3) [OF assms(1)]]
    note st = in_state_update [OF w h(1)]
    show "accounts ?ph' (A - {i})"
    proof (rule accountsI [OF _ a(2)])
      show "balanced (in_state WORKER_READY ?ph') (in_state WORKER_SUBMITTING ?ph') (in_state WORKER_IN_FLIGHT ?ph')
          (in_state WORKER_EXITED ?ph') (A - {i}) (unat (completed ?ph')) (issued_sum ?ph') (ready ?ph') (submitting ?ph')
          (in_flight ?ph') (stop ?ph')"
        using balanced_restore [OF a(1) assms(2)] h(2) issued_sum_update(1) [OF w h(1)] by (auto simp: st in_state_iff h(1))
    qed (auto simp: w st nth_list_update split: if_splits)
  qed (use h in \<open>auto simp: fixed_part_def\<close>)
qed

text \<open>Recording an accepted request.\<close>

lemma consistent_accept:
  assumes "consistent pcs ph A" "i \<in> A" "\<forall>j\<in>in_state WORKER_IN_FLIGHT ph. worker_sequence (workers ph ! j) \<noteq> seq"
  shows "consistent pcs (set_worker i (\<lambda>x. x\<lparr>worker_sequence := seq, state_of := WORKER_IN_FLIGHT\<rparr>) ph
      \<lparr>submitting := submitting ph - 1, in_flight := in_flight ph + 1\<rparr>) (A - {i})"
    (is "consistent pcs ?ph' _")
proof -
  note h = held_state [OF assms(1,2)]
  show ?thesis
  proof (rule consistent_handed_on [OF assms(1) h(1)])
    show w: "workers ?ph' = (workers ph)[i := (workers ph ! i)\<lparr>worker_sequence := seq, state_of := WORKER_IN_FLIGHT\<rparr>]"
      by (simp add: set_worker_def)
    note a = accountsD [OF consistentD(3) [OF assms(1)]]
    note st = in_state_update [OF w h(1)]
    have "balanced (in_state WORKER_READY ?ph') (in_state WORKER_SUBMITTING ?ph') (in_state WORKER_IN_FLIGHT ?ph')
        (in_state WORKER_EXITED ?ph') (A - {i}) (unat (completed ?ph')) (issued_sum ?ph') (ready ?ph') (submitting ?ph')
        (in_flight ?ph') (stop ?ph')"
      using balanced_accept [OF a(1) assms(2)] h(2) issued_sum_update(1) [OF w h(1)] by (auto simp: st in_state_iff h(1))
    moreover have "inj_on (\<lambda>j. worker_sequence (workers ?ph' ! j)) (in_state WORKER_IN_FLIGHT ?ph')"
      using a(2) assms(3) h by (auto simp: inj_on_def w st nth_list_update)
    ultimately show "accounts ?ph' (A - {i})" by (simp only: accounts_def simp_thms)
  qed (use h in \<open>auto simp: fixed_part_def\<close>)
qed

text \<open>Completing a request in flight.\<close>

lemma outstanding_bound:
  assumes "consistent pcs ph A"
  shows "unat (completed ph) + card (in_state WORKER_READY ph) + card A + card (in_state WORKER_IN_FLIGHT ph) \<le> issued_sum ph"
    "issued_sum ph \<le> unat (total ph)" "completed ph \<le> total ph"
proof -
  show a: "unat (completed ph) + card (in_state WORKER_READY ph) + card A + card (in_state WORKER_IN_FLIGHT ph) \<le> issued_sum ph"
    using accountsD(1) [OF consistentD(3) [OF assms]] by (simp add: balanced_def ledger_def)
  show b: "issued_sum ph \<le> unat (total ph)" by (rule issued_le_total [OF consistentD(2) [OF assms]])
  show "completed ph \<le> total ph" using a b by (simp add: word_le_nat_alt)
qed

lemma completed_less:
  assumes "consistent pcs ph A" "i < length (workers ph)" "state_of (workers ph ! i) = WORKER_IN_FLIGHT"
  shows "unat (completed ph) < unat (total ph)" "unat (completed ph + 1) = unat (completed ph) + 1"
proof -
  have "0 < card (in_state WORKER_IN_FLIGHT ph)"
    using assms(2,3) by (auto simp: card_gt_0_iff in_state_def)
  then show l: "unat (completed ph) < unat (total ph)" using outstanding_bound [OF assms(1)] by linarith
  then have "Suc (unat (completed ph)) < 4294967296" using unat_u32_less [of "total ph"] by linarith
  then show "unat (completed ph + 1) = unat (completed ph) + 1" by (simp add: unat_word_ariths)
qed

lemma consistent_complete:
  assumes "consistent pcs ph A" "i < length (workers ph)" "state_of (workers ph ! i) = WORKER_IN_FLIGHT"
    and w: "workers ph' = (workers ph)[i := (workers ph ! i)\<lparr>state_of := WORKER_COMPLETE\<rparr>]"
    and f: "fixed_part ph' = fixed_part ph" "completed ph' = completed ph + 1" "in_flight ph' = in_flight ph - 1"
      "ready ph' = ready ph" "submitting ph' = submitting ph"
  shows "consistent pcs ph' A"
proof (rule consistent_handed_on [OF assms(1,2) w f(1)])
  note a = accountsD [OF consistentD(3) [OF assms(1)]]
  note st = in_state_update [OF w assms(2)]
  have "stop ph' = stop ph" using f(1) by (simp add: fixed_part_def)
  moreover note b = balanced_complete [OF a(1), of i]
  ultimately have "balanced (in_state WORKER_READY ph') (in_state WORKER_SUBMITTING ph') (in_state WORKER_IN_FLIGHT ph')
      (in_state WORKER_EXITED ph') A (unat (completed ph')) (issued_sum ph') (ready ph') (submitting ph')
      (in_flight ph') (stop ph')"
    using b assms(2,3) f(2-5) issued_sum_update(1) [OF w assms(2)] completed_less(2) [OF assms(1-3)]
    by (simp add: st in_state_iff)
  then show "accounts ph' A"
    by (rule accountsI [OF _ a(2)]) (auto simp: w st nth_list_update split: if_splits)
qed (simp_all add: assms(3))

subsection \<open>The moves of a worker\<close>

text \<open>A worker is idle when its thread has passed the gate or goes on after a completed request.\<close>

lemma consistent_idle:
  assumes "consistent pcs ph A" "i < length (workers ph)" "x = (workers ph ! i)\<lparr>state_of := WORKER_IDLE\<rparr>"
    and "state_of (workers ph ! i) \<in> {WORKER_STARTING, WORKER_IDLE, WORKER_COMPLETE}"
    and w: "workers ph' = (workers ph)[i := x]"
    and f: "fixed_part ph' = fixed_part ph" "completed ph' = completed ph" "in_flight ph' = in_flight ph"
      "ready ph' = ready ph" "submitting ph' = submitting ph"
  shows "accounts ph' A"
proof -
  note a = accountsD [OF consistentD(3) [OF assms(1)]]
  note st = in_state_update [OF w assms(2)]
  have "stop ph' = stop ph" using f(1) by (simp add: fixed_part_def)
  then have "balanced (in_state WORKER_READY ph') (in_state WORKER_SUBMITTING ph') (in_state WORKER_IN_FLIGHT ph')
      (in_state WORKER_EXITED ph') A (unat (completed ph')) (issued_sum ph') (ready ph') (submitting ph')
      (in_flight ph') (stop ph')"
    using balanced_less [OF a(1), of i] assms(2-4) f(2-5) issued_sum_update(1) [OF w assms(2)]
    by (auto simp: st in_state_iff)
  then show ?thesis
    by (rule accountsI [OF _ a(2)]) (auto simp: w st nth_list_update assms(3) split: if_splits)
qed

text \<open>A worker leaves.\<close>

lemma accounts_exit:
  assumes "accounts ph A" "i < length (workers ph)" "ph' = worker_exit i ph"
    and "stop ph \<or> state_of (workers ph ! i) \<notin> {WORKER_READY, WORKER_SUBMITTING, WORKER_IN_FLIGHT}"
  shows "accounts ph' A"
proof -
  note a = accountsD [OF assms(1)]
  have w: "workers ph' = (workers ph)[i := (workers ph ! i)\<lparr>state_of := WORKER_EXITED\<rparr>]"
    and f: "stop ph' = stop ph" "completed ph' = completed ph" "in_flight ph' = in_flight ph"
      "ready ph' = ready ph" "submitting ph' = submitting ph"
    by (simp_all add: assms(3) worker_exit_def) (simp add: set_worker_def)
  note st = in_state_update [OF w assms(2)]
  have "balanced (in_state WORKER_READY ph') (in_state WORKER_SUBMITTING ph') (in_state WORKER_IN_FLIGHT ph')
      (in_state WORKER_EXITED ph') A (unat (completed ph')) (issued_sum ph') (ready ph') (submitting ph')
      (in_flight ph') (stop ph')"
    using balanced_leave [OF a(1), of i] assms(2,4) f issued_sum_update(1) [OF w assms(2)]
    by (auto simp: st in_state_iff)
  then show ?thesis
    by (rule accountsI [OF _ a(2)]) (auto simp: w st nth_list_update split: if_splits)
qed

text \<open>A worker that is idle issues a request: its counter and the account of ready workers grow together.\<close>

lemma accounts_issue:
  assumes "accounts ph A" "i < length (workers ph)" "\<not> stop ph" "state_of (workers ph ! i) = WORKER_IDLE"
    and w: "workers ph' = (workers ph)[i := x]"
    and x: "state_of x = WORKER_READY" "unat (issued x) = unat (issued (workers ph ! i)) + 1"
    and f: "\<not> stop ph'" "completed ph' = completed ph" "in_flight ph' = in_flight ph"
      "ready ph' = ready ph + 1" "submitting ph' = submitting ph"
  shows "accounts ph' A"
proof -
  note a = accountsD [OF assms(1)]
  note st = in_state_update [OF w assms(2)]
  have b: "balanced (in_state WORKER_READY ph) (in_state WORKER_SUBMITTING ph) (in_state WORKER_IN_FLIGHT ph)
      (in_state WORKER_EXITED ph) A (unat (completed ph)) (issued_sum ph) (ready ph) (submitting ph) (in_flight ph) False"
    using a(1) assms(3) by simp
  have "balanced (in_state WORKER_READY ph') (in_state WORKER_SUBMITTING ph') (in_state WORKER_IN_FLIGHT ph')
      (in_state WORKER_EXITED ph') A (unat (completed ph')) (issued_sum ph') (ready ph') (submitting ph')
      (in_flight ph') (stop ph')"
    using balanced_issue [OF b, of i] assms(2,4) x f issued_sum_update(2) [OF w assms(2)]
    by (simp add: st in_state_iff)
  then show ?thesis
    by (rule accountsI [OF _ a(2)]) (use x in \<open>auto simp: w st nth_list_update split: if_splits\<close>)
qed

text \<open>A failure is recorded.\<close>

lemma accounts_halt:
  assumes "accounts ph A" "workers ph' = workers ph" "completed ph' = completed ph" "stop ph'"
  shows "accounts ph' A"
proof -
  have st: "in_state q ph' = in_state q ph" for q by (simp add: in_state_def assms(2))
  have "issued_sum ph' = issued_sum ph" by (simp add: issued_sum_def assms(2))
  then show ?thesis
    using assms by (simp add: accounts_def st) (blast intro: balanced_halt)
qed

lemma consistent_forget:
  assumes "consistent pcs ph A" "stop ph" "B \<subseteq> A"
  shows "consistent pcs ph B"
proof -
  note a = accountsD(1) [OF consistentD(3) [OF assms(1)]]
  have "finite A" using a by (simp add: balanced_def held_def)
  then have "card B \<le> card A" "finite B" using assms(3) by (auto intro: card_mono finite_subset)
  then show ?thesis
    using assms a by (auto simp: consistent_def accounts_def balanced_def held_def ledger_def)
qed

subsection \<open>The blocks of the code\<close>

lemma fail_phase_locked_effect:
  assumes "fail_phase_locked be e ph k = Some (ph', k')"
  shows "stop ph'" "workers ph' = workers ph" "completed ph' = completed ph" "total ph' = total ph" "phase_error ph' \<noteq> 0"
    "worker_count ph' = worker_count ph" "latencies ph' = latencies ph" "echo_data_bytes ph' = echo_data_bytes ph"
    "go ph' = go ph" "started ph' = started ph"
  using assms by (auto simp: fail_phase_locked_def bind_eq_Some_conv split: if_splits)

lemma consistent_fail:
  assumes "consistent pcs ph A" "fail_phase_locked be e ph k = Some (ph', k')" "B \<subseteq> A"
  shows "consistent pcs ph' B"
proof (rule consistent_forget [OF _ _ assms(3)])
  note f = fail_phase_locked_effect [OF assms(2)]
  show "stop ph'" by (rule f(1))
  have "phase_ok ph'" using consistentD(2) [OF assms(1)] by (simp add: phase_ok_def f)
  moreover have "accounts ph' A" by (rule accounts_halt [OF consistentD(3) [OF assms(1)]]) (simp_all add: f)
  ultimately show "consistent pcs ph' A"
    using assms(1) by (auto simp: consistent_def f intro: pc_ok_halt)
qed

lemma consistent_stats [simp]:
  "consistent pcs (set_stats f ph) A = consistent pcs ph A" "consistent pcs (update_depth_stats ph) A = consistent pcs ph A"
  by (simp_all add: consistent_def)

lemma find_in_flight_workerD:
  assumes "consistent pcs ph A"
  shows "find_in_flight_worker ph seq = Some i \<Longrightarrow> i < length (workers ph) \<and> state_of (workers ph ! i) = WORKER_IN_FLIGHT \<and>
      worker_sequence (workers ph ! i) = seq"
    and "find_in_flight_worker ph seq = None \<Longrightarrow> j \<in> in_state WORKER_IN_FLIGHT ph \<Longrightarrow> worker_sequence (workers ph ! j) \<noteq> seq"
proof -
  have n: "length (workers ph) = unat (worker_count ph)" using consistentD(2) [OF assms] by (simp add: phase_ok_def)
  show "find_in_flight_worker ph seq = Some i \<Longrightarrow> i < length (workers ph) \<and> state_of (workers ph ! i) = WORKER_IN_FLIGHT \<and>
      worker_sequence (workers ph ! i) = seq"
    by (auto simp: find_in_flight_worker_def find_Some_iff n)
  show "find_in_flight_worker ph seq = None \<Longrightarrow> j \<in> in_state WORKER_IN_FLIGHT ph \<Longrightarrow> worker_sequence (workers ph ! j) \<noteq> seq"
    by (auto simp: find_in_flight_worker_def find_None_iff in_state_def n)
qed

lemma select_workers_consistent:
  assumes "consistent pcs ph A" "distinct is" "\<forall>i\<in>set is. i < length (workers ph)" "select_workers is ph = (sel, msgs, ph')"
  shows "consistent pcs ph' (A \<union> set sel) \<and> distinct sel \<and> set sel \<subseteq> set is \<and> length msgs = length sel \<and>
    fixed_part ph' = fixed_part ph \<and> go ph' = go ph \<and> started ph' = started ph \<and> completed ph' = completed ph"
  using assms
proof (induction "is" arbitrary: ph A sel msgs ph')
  case (Cons i rest)
  show ?case
  proof (cases "state_of (workers ph ! i) = WORKER_READY")
    case False
    with Cons.prems Cons.IH [of ph A sel msgs ph'] show ?thesis by auto
  next
    case True
    let ?ph = "set_worker i (\<lambda>x. x\<lparr>state_of := WORKER_SUBMITTING\<rparr>) ph\<lparr>ready := ready ph - 1, submitting := submitting ph + 1\<rparr>"
    obtain sel' msgs' where s: "select_workers rest ?ph = (sel', msgs', ph')" "sel = i # sel'" "msgs = worker_request (workers ph ! i) # msgs'"
      using Cons.prems(4) True by (auto simp: Let_def split: prod.splits)
    have "consistent pcs ?ph (insert i A)" using Cons.prems(1,3) True by (intro consistent_select) simp_all
    from Cons.IH [OF this _ _ s(1)] Cons.prems(2,3) s(2,3) show ?thesis by (auto simp: fixed_part_def)
  qed
qed auto

lemma restore_workers_consistent:
  assumes "consistent pcs ph A" "distinct is" "set is \<subseteq> A"
  shows "consistent pcs (restore_workers is ph) (A - set is) \<and> fixed_part (restore_workers is ph) = fixed_part ph \<and>
    go (restore_workers is ph) = go ph \<and> started (restore_workers is ph) = started ph \<and>
    completed (restore_workers is ph) = completed ph"
  using assms
proof (induction "is" arbitrary: ph A)
  case (Cons i rest)
  let ?ph = "set_worker i (\<lambda>x. x\<lparr>state_of := WORKER_READY\<rparr>) ph\<lparr>submitting := submitting ph - 1, ready := ready ph + 1\<rparr>"
  have "consistent pcs ?ph (A - {i})" using Cons.prems by (intro consistent_restore) simp_all
  moreover have "set rest \<subseteq> A - {i}" using Cons.prems by auto
  moreover have "distinct rest" using Cons.prems(2) by simp
  ultimately have IH: "consistent pcs (restore_workers rest ?ph) (A - {i} - set rest)"
      "fixed_part (restore_workers rest ?ph) = fixed_part ?ph" "go (restore_workers rest ?ph) = go ?ph"
      "started (restore_workers rest ?ph) = started ?ph" "completed (restore_workers rest ?ph) = completed ?ph"
    using Cons.IH by blast+
  have "A - {i} - set rest = A - set (i # rest)" by auto
  with IH(1) have "consistent pcs (restore_workers rest ?ph) (A - set (i # rest))" by (simp only:)
  moreover have "fixed_part ?ph = fixed_part ph" by (simp add: fixed_part_def)
  ultimately show ?case using IH(2-5) by (simp add: Let_def)
qed simp

lemma accept_workers_consistent:
  assumes "consistent pcs ph A" "distinct (map fst prs)" "fst ` set prs \<subseteq> A" "accept_workers prs ph = (b, ph')"
  shows "(\<exists>B\<subseteq>A. consistent pcs ph' B \<and> (b \<longrightarrow> B = A - fst ` set prs)) \<and> fixed_part ph' = fixed_part ph \<and>
    go ph' = go ph \<and> started ph' = started ph \<and> completed ph' = completed ph"
  using assms
proof (induction prs arbitrary: ph A)
  case (Cons p rest)
  obtain i m where p: "p = (i, m)" by fastforce
  show ?case
  proof (cases "sequence m = 0 \<or> find_in_flight_worker ph (sequence m) \<noteq> None")
    case True
    with Cons.prems show ?thesis by (auto simp: p)
  next
    case False
    let ?ph = "set_worker i (\<lambda>x. x\<lparr>worker_sequence := sequence m, state_of := WORKER_IN_FLIGHT\<rparr>) ph
      \<lparr>submitting := submitting ph - 1, in_flight := in_flight ph + 1\<rparr>"
    have "consistent pcs ?ph (A - {i})"
      using Cons.prems(1,3) False find_in_flight_workerD(2) [OF Cons.prems(1), of "sequence m"]
      by (intro consistent_accept) (auto simp: p)
    moreover have "fst ` set rest \<subseteq> A - {i}" using Cons.prems(2,3) by (auto simp: p)
    moreover have "accept_workers rest ?ph = (b, ph')" using Cons.prems(4) False by (auto simp: p Let_def)
    moreover have "distinct (map fst rest)" using Cons.prems(2) by simp
    ultimately obtain B where B: "B \<subseteq> A - {i}" "consistent pcs ph' B" "b \<longrightarrow> B = A - {i} - fst ` set rest"
      and IH: "fixed_part ph' = fixed_part ?ph" "go ph' = go ?ph" "started ph' = started ?ph" "completed ph' = completed ?ph"
      using Cons.IH [of ?ph "A - {i}"] by blast
    have "A - {i} - fst ` set rest = A - fst ` set (p # rest)" by (auto simp: p)
    with B have "\<exists>B\<subseteq>A. consistent pcs ph' B \<and> (b \<longrightarrow> B = A - fst ` set (p # rest))" by blast
    moreover have "fixed_part ?ph = fixed_part ph" by (simp add: fixed_part_def)
    ultimately show ?thesis using IH by simp
  qed
qed auto

lemma complete_workers_consistent:
  assumes "consistent pcs ph A" "complete_workers messages now is ph = Some (b, ph')"
  shows "consistent pcs ph' A \<and> fixed_part ph' = fixed_part ph \<and> go ph' = go ph \<and> started ph' = started ph"
  using assms
proof (induction "is" arbitrary: ph)
  case (Cons index rest)
  show ?case
  proof (cases "find_in_flight_worker ph (sequence (messages ! index))")
    case None
    then show ?thesis using Cons.prems by (auto split: if_splits)
  next
    case (Some i)
    note i = find_in_flight_workerD(1) [OF Cons.prems(1) Some]
    show ?thesis
    proof (cases "b = False \<and> ph' = ph")
      case True
      then show ?thesis using Cons.prems by simp
    next
      case False
      then obtain ph1 where c: "complete_workers messages now rest (set_worker i (\<lambda>x. x\<lparr>state_of := WORKER_COMPLETE\<rparr>) ph1
            \<lparr>in_flight := in_flight ph1 - 1, completed := completed ph1 + 1\<rparr>) = Some (b, ph')"
          (is "complete_workers _ _ _ ?ph2 = _")
        and ph1: "workers ph1 = workers ph" "fixed_part ph1 = fixed_part ph" "go ph1 = go ph" "started ph1 = started ph"
          "completed ph1 = completed ph" "in_flight ph1 = in_flight ph" "ready ph1 = ready ph" "submitting ph1 = submitting ph"
        using Cons.prems(2) Some
        by (auto simp: Let_def bind_eq_Some_conv fixed_part_def split: if_splits option.splits)
      have "consistent pcs ?ph2 A"
        by (rule consistent_complete [OF Cons.prems(1), of i]) (use i ph1 in \<open>auto simp: set_worker_def fixed_part_def\<close>)
      from Cons.IH [OF this c] show ?thesis by (simp add: ph1(2) [symmetric] ph1(3,4)) (simp add: fixed_part_def)
    qed
  qed
qed simp

subsection \<open>The steps of a worker\<close>

text \<open>The invariant does not depend on requests, seeds and times.\<close>

definition outline :: "worker \<Rightarrow> worker_state \<times> u32 \<times> u32 \<times> u32" where
  "outline x = (state_of x, issued x, target x, worker_sequence x)"

lemma consistent_outline:
  assumes "consistent pcs ph A" "map outline (workers ph') = map outline (workers ph)" "fixed_part ph' = fixed_part ph"
    "completed ph' = completed ph" "ready ph' = ready ph" "submitting ph' = submitting ph" "in_flight ph' = in_flight ph"
  shows "consistent pcs ph' A"
proof -
  have len: "length (workers ph') = length (workers ph)" using assms(2) by (metis length_map)
  have o: "outline (workers ph' ! i) = outline (workers ph ! i)" if "i < length (workers ph)" for i
    using assms(2) len that by (metis nth_map)
  have st: "in_state q ph' = in_state q ph" for q using len o by (auto simp: in_state_def outline_def)
  have sums: "issued_sum ph' = issued_sum ph" "(\<Sum>x\<leftarrow>workers ph'. unat (target x)) = (\<Sum>x\<leftarrow>workers ph. unat (target x))"
    using arg_cong [OF assms(2), of "map (\<lambda>(q, n, t, s). unat n)"] arg_cong [OF assms(2), of "map (\<lambda>(q, n, t, s). unat t)"]
    by (simp_all add: issued_sum_def outline_def comp_def)
  have "issued y \<le> target y" if "y \<in> set (workers ph')" for y
  proof -
    from that len obtain i where "i < length (workers ph)" "y = workers ph' ! i" by (metis in_set_conv_nth)
    then show ?thesis using o [of i] consistentD(2) [OF assms(1)] by (auto simp: outline_def phase_ok_def)
  qed
  moreover have "latencies ph' = Some ls' \<Longrightarrow> length ls' = unat (total ph)" for ls'
    using assms(3) consistentD(2) [OF assms(1)] by (cases "latencies ph") (simp_all add: fixed_part_def phase_ok_def)
  ultimately have "phase_ok ph'"
    using assms(3) consistentD(2) [OF assms(1)] len sums(2) by (simp add: phase_ok_def fixed_part_def)
  moreover have "inj_on (\<lambda>i. worker_sequence (workers ph' ! i)) (in_state WORKER_IN_FLIGHT ph')"
    using accountsD(2) [OF consistentD(3) [OF assms(1)]] o in_stateD
    by (subst st, subst inj_on_cong [where g = "\<lambda>i. worker_sequence (workers ph ! i)"]) (auto simp: outline_def)
  moreover have "stop ph' = stop ph" using assms(3) by (simp add: fixed_part_def)
  moreover have "pc_ok (pcs ! i) h (workers ph' ! i) = pc_ok (pcs ! i) h (workers ph ! i)" if "i < length (workers ph)" for i h
    using o [OF that] by (cases "pcs ! i") (simp_all add: outline_def)
  ultimately show ?thesis
    using assms(1,4-7) len by (simp add: consistent_def accounts_def st sums(1))
qed

lemma consistent_exit:
  assumes "consistent pcs ph A" "i < length (workers ph)"
    "stop ph \<or> state_of (workers ph ! i) = WORKER_IDLE \<and> issued (workers ph ! i) = target (workers ph ! i)"
  shows "consistent (pcs[i := Worker_done]) (worker_exit i ph) A"
proof (rule consistent_move [OF assms(1,2)])
  show w: "workers (worker_exit i ph) = (workers ph)[i := (workers ph ! i)\<lparr>state_of := WORKER_EXITED\<rparr>]"
    by (simp add: worker_exit_def set_worker_def)
  show "accounts (worker_exit i ph) A"
    by (rule accounts_exit [OF consistentD(3) [OF assms(1)] assms(2) refl]) (use assms(3) in auto)
qed (use assms consistentD(2) [OF assms(1)] in \<open>auto simp: fixed_part_def worker_exit_def phase_ok_def\<close>)

text \<open>What a worker does never touches the account of completed requests and of those in flight.\<close>

definition worker_frame :: "thread_phase \<Rightarrow> thread_phase \<Rightarrow> bool" where
  "worker_frame ph ph' \<longleftrightarrow> completed ph' = completed ph \<and> in_flight ph' = in_flight ph \<and> total ph' = total ph \<and>
     worker_count ph' = worker_count ph \<and> go ph' = go ph \<and> started ph' = started ph \<and> latencies ph' = latencies ph \<and> (stop ph \<longrightarrow> stop ph')"

lemma worker_frame_fail: "fail_phase_locked be e ph k = Some (ph', k') \<Longrightarrow> worker_frame ph ph'"
  by (auto simp: worker_frame_def fail_phase_locked_def bind_eq_Some_conv split: if_splits)

lemma worker_frame_trans [trans]: "worker_frame a b \<Longrightarrow> worker_frame b c \<Longrightarrow> worker_frame a c"
  by (simp add: worker_frame_def)

text \<open>A worker between two requests; nothing is said of its thread.\<close>

definition idle_at :: "worker_pc list \<Rightarrow> thread_phase \<Rightarrow> nat set \<Rightarrow> nat \<Rightarrow> u32 \<Rightarrow> bool" where
  "idle_at pcs ph A i operation \<longleftrightarrow> length pcs = length (workers ph) \<and> i < length pcs \<and> phase_ok ph \<and> accounts ph A \<and>
     (\<forall>j<length pcs. j \<noteq> i \<longrightarrow> pc_ok (pcs ! j) (stop ph) (workers ph ! j)) \<and>
     state_of (workers ph ! i) = WORKER_IDLE \<and> issued (workers ph ! i) = operation"

lemma idle_move:
  assumes "idle_at pcs ph A i operation" "workers ph' = (workers ph)[i := x]" "fixed_part ph' = fixed_part ph"
    and "target x = target (workers ph ! i)" "issued x \<le> target x" "pc_ok pc (stop ph) x" "accounts ph' A"
  shows "consistent (pcs[i := pc]) ph' A"
proof -
  have "phase_ok ph'" using assms by (intro phase_ok_move [of ph i ph' x]) (simp_all add: idle_at_def)
  moreover have "stop ph' = stop ph" using assms(3) by (simp add: fixed_part_def)
  ultimately show ?thesis using assms by (auto simp: consistent_def idle_at_def nth_list_update)
qed

lemma idle_issue:
  assumes "idle_at pcs ph A i operation" "operation < target (workers ph ! i)" "\<not> stop ph"
    and w: "workers ph' = (workers ph)[i := x]" and f: "fixed_part ph' = fixed_part ph"
    and x: "state_of x = WORKER_READY" "issued x = operation + 1" "target x = target (workers ph ! i)"
    and c: "completed ph' = completed ph" "ready ph' = ready ph + 1" "submitting ph' = submitting ph" "in_flight ph' = in_flight ph"
  shows "consistent (pcs[i := Worker_waiting operation]) ph' A"
proof (rule idle_move [OF assms(1) w f x(3)])
  have i: "i < length (workers ph)" "state_of (workers ph ! i) = WORKER_IDLE" "issued (workers ph ! i) = operation" "accounts ph A"
    using assms(1) by (simp_all add: idle_at_def)
  have u: "unat (operation + 1) = unat operation + 1"
  proof -
    have "Suc (unat operation) < 4294967296"
      using assms(2) unat_u32_less [of "target (workers ph ! i)"] unfolding word_less_nat_alt by linarith
    then show ?thesis by (simp add: unat_word_ariths)
  qed
  have "\<not> stop ph'" using f assms(3) by (simp add: fixed_part_def)
  then show "accounts ph' A"
    using accounts_issue [OF i(4,1) assms(3) i(2) w x(1) _ _ c(1,4,2,3)] u x(2) i(3) by simp
  show "issued x \<le> target x" using assms(2) u x(2,3) by (simp add: word_le_nat_alt word_less_nat_alt)
  show "pc_ok (Worker_waiting operation) (stop ph) x" using assms(2) x by simp
qed

lemma consistent_done: "consistent pcs ph A \<Longrightarrow> stop ph \<Longrightarrow> consistent (pcs[i := Worker_done]) ph A"
  by (cases "i < length pcs") (auto simp: consistent_def nth_list_update)

lemma idle_keep:
  assumes "idle_at pcs ph A i operation" "workers ph' = (workers ph)[i := x]" "outline x = outline (workers ph ! i)"
    and f: "fixed_part ph' = fixed_part ph"
    and c: "completed ph' = completed ph" "ready ph' = ready ph" "submitting ph' = submitting ph" "in_flight ph' = in_flight ph"
  shows "idle_at pcs ph' A i operation"
proof -
  have i: "i < length (workers ph)" using assms(1) by (simp add: idle_at_def)
  note a = assms(1) [unfolded idle_at_def]
  have "accounts ph' A"
  proof (rule accountsI)
    have st: "in_state q ph' = in_state q ph" for q
      using in_state_update [OF assms(2) i, of q] assms(3) i by (auto simp: in_state_def outline_def)
    have "issued_sum ph' = issued_sum ph" using issued_sum_update(1) [OF assms(2) i] assms(3) by (simp add: outline_def)
    moreover have "stop ph' = stop ph" using f by (simp add: fixed_part_def)
    ultimately show "balanced (in_state WORKER_READY ph') (in_state WORKER_SUBMITTING ph') (in_state WORKER_IN_FLIGHT ph')
        (in_state WORKER_EXITED ph') A (unat (completed ph')) (issued_sum ph') (ready ph') (submitting ph')
        (in_flight ph') (stop ph')"
      using accountsD(1) a by (simp add: st c)
    show "inj_on (\<lambda>i. worker_sequence (workers ph ! i)) (in_state WORKER_IN_FLIGHT ph)" using accountsD(2) a by blast
    show "j \<in> in_state WORKER_IN_FLIGHT ph' \<Longrightarrow>
        j \<in> in_state WORKER_IN_FLIGHT ph \<and> worker_sequence (workers ph' ! j) = worker_sequence (workers ph ! j)" for j
      using assms(2,3) i by (auto simp: st nth_list_update outline_def)
  qed
  moreover have "phase_ok ph'"
    using a assms(3) issued_le_target [OF _ i] by (intro phase_ok_move [OF _ i assms(2) f]) (simp_all add: outline_def)
  moreover have "stop ph' = stop ph" using f by (simp add: fixed_part_def)
  ultimately show ?thesis using a assms(2,3) by (simp add: idle_at_def outline_def)
qed

lemma idle_fail:
  assumes "idle_at pcs ph A i operation" "fail_phase_locked be e ph k = Some (ph', k')"
  shows "consistent (pcs[i := Worker_done]) ph' A"
proof -
  note f = fail_phase_locked_effect [OF assms(2)] and a = assms(1) [unfolded idle_at_def]
  have "accounts ph' A" by (rule accounts_halt [of ph]) (use a f in simp_all)
  moreover have "phase_ok ph'" using a by (simp add: phase_ok_def f)
  ultimately show ?thesis using a by (auto simp: consistent_def f nth_list_update intro: pc_ok_halt)
qed

lemma issue_request_consistent:
  assumes "idle_at pcs ph A i operation" "operation < target (workers ph ! i)" "\<not> stop ph"
    and "issue_request be i operation ph k = Some (b, ph', k')"
  shows "consistent (pcs[i := if b then Worker_waiting operation else Worker_done]) ph' A \<and> worker_frame ph ph' \<and> (\<not> b \<longrightarrow> stop ph')"
proof -
  let ?seed = "seed_base ph + operation * worker_count ph + of_nat i"
  obtain bytes len where req: "build_request (payload zero_slot) (echo_data_bytes ph) ?seed = Some (bytes, len)"
    using assms(4) by (auto simp: issue_request_def Let_def bind_eq_Some_conv)
  define ph1 where "ph1 = set_worker i (\<lambda>x. x\<lparr>worker_seed := ?seed,
       worker_request := zero_slot\<lparr>payload := bytes, slot_length := len\<rparr>\<rparr>) ph"
  have i: "i < length (workers ph)" using assms(1) by (simp add: idle_at_def)
  have one: "idle_at pcs ph1 A i operation"
    by (rule idle_keep [OF assms(1), of _ "(workers ph ! i)\<lparr>worker_seed := ?seed,
          worker_request := zero_slot\<lparr>payload := bytes, slot_length := len\<rparr>\<rparr>"])
      (simp_all add: ph1_def outline_def fixed_part_def, simp add: set_worker_def)
  have frame: "worker_frame ph ph1" by (simp add: worker_frame_def ph1_def)
  have t: "target (workers ph1 ! i) = target (workers ph ! i)" using i by (simp add: ph1_def set_worker_nth)
  have s: "\<not> stop ph1" using assms(3) by (simp add: ph1_def)
  show ?thesis
  proof (cases "fst (raw_clock be k)")
    case (Inl e)
    then obtain k1 where "raw_clock be k = (Inl e, k1)" by (metis prod.collapse)
    with assms(4) req have fail: "fail_phase_locked be (- e) ph1 k1 = Some (ph', k')" "b = False"
      by (auto simp: issue_request_def Let_def ph1_def bind_eq_Some_conv)
    then show ?thesis
      using idle_fail [OF one fail(1)] worker_frame_trans [OF frame worker_frame_fail] fail_phase_locked_effect(1) by auto
  next
    case (Inr now)
    then obtain k1 where clk: "raw_clock be k = (Inr now, k1)" by (metis prod.collapse)
    let ?x = "(workers ph1 ! i)\<lparr>worker_started := now, state_of := WORKER_READY, issued := issued (workers ph1 ! i) + 1\<rparr>"
    define ph2 where "ph2 = update_depth_stats (set_worker i (\<lambda>x. x\<lparr>worker_started := now, state_of := WORKER_READY,
        issued := issued x + 1\<rparr>) ph1\<lparr>ready := ready ph1 + 1\<rparr>)"
    have two: "consistent (pcs[i := Worker_waiting operation]) ph2 A"
    proof (rule idle_issue [OF one _ s])
      show "workers ph2 = (workers ph1)[i := ?x]" by (simp add: ph2_def) (simp add: set_worker_def)
      show "issued ?x = operation + 1" using one by (simp add: idle_at_def)
    qed (use assms(2) t in \<open>simp_all add: ph2_def fixed_part_def\<close>)
    have frame2: "worker_frame ph ph2"
      by (rule worker_frame_trans [OF frame]) (simp add: worker_frame_def ph2_def)
    from assms(4) req clk obtain ret k2 where sig: "signal_dispatcher be k1 = Some (ret, k2)"
      and rest: "if ret \<noteq> 0 then b = False \<and> fail_phase_locked be ret ph2 k2 = Some (ph', k') else b = True \<and> ph' = ph2"
      by (auto simp: issue_request_def Let_def ph1_def ph2_def bind_eq_Some_conv split: if_splits)
    show ?thesis
    proof (cases "ret = 0")
      case True
      with rest two frame2 show ?thesis by simp
    next
      case False
      with rest have fail: "fail_phase_locked be ret ph2 k2 = Some (ph', k')" "b = False" by simp_all
      then have "consistent (pcs[i := Worker_waiting operation, i := Worker_done]) ph' A"
        by (intro consistent_done consistent_fail [OF two fail(1) order_refl] fail_phase_locked_effect(1))
      then show ?thesis
        using fail worker_frame_trans [OF frame2 worker_frame_fail] fail_phase_locked_effect(1) by auto
    qed
  qed
qed

lemma worker_loop_consistent:
  assumes "worker_loop be i operation ph k = Some (pc, ph', k')"
    and "stop ph \<Longrightarrow> consistent pcs ph A" "\<not> stop ph \<Longrightarrow> idle_at pcs ph A i operation" "i < length (workers ph)"
  shows "consistent (pcs[i := pc]) ph' A \<and> worker_frame ph ph' \<and> pc \<noteq> Worker_created"
proof (cases "operation < target (workers ph ! i) \<and> \<not> stop ph")
  case True
  then obtain b ph1 k1 where r: "issue_request be i operation ph k = Some (b, ph1, k1)"
    using assms(1) by (auto simp: worker_loop_def bind_eq_Some_conv)
  note c = issue_request_consistent [OF assms(3) _ _ r]
  show ?thesis
  proof (cases b)
    case True
    then show ?thesis using c r assms(1) \<open>operation < _ \<and> _\<close> by (auto simp: worker_loop_def)
  next
    case False
    then have e: "pc = Worker_done" "ph' = worker_exit i ph1"
      using r assms(1) \<open>operation < _ \<and> _\<close> by (auto simp: worker_loop_def)
    have c1: "consistent (pcs[i := Worker_done]) ph1 A" "worker_frame ph ph1" "stop ph1"
      using c False \<open>operation < _ \<and> _\<close> by auto
    have l: "i < length (workers ph1)" using c1(1) consistentD(1) [OF c1(1)] assms(3,4) \<open>operation < _ \<and> _\<close>
      by (simp add: idle_at_def)
    have "consistent (pcs[i := Worker_done, i := Worker_done]) ph' A"
      unfolding e by (rule consistent_exit [OF c1(1) l]) (simp add: c1(3))
    moreover have "worker_frame ph1 ph'" by (simp add: e worker_frame_def worker_exit_def)
    ultimately show ?thesis using worker_frame_trans c1(2) e by auto
  qed
next
  case False
  then have e: "pc = Worker_done" "ph' = worker_exit i ph" using assms(1) by (auto simp: worker_loop_def)
  have "consistent (pcs[i := Worker_done]) (worker_exit i ph) A"
  proof (cases "stop ph")
    case True
    then show ?thesis using consistent_exit [OF assms(2)] assms(4) by simp
  next
    case running: False
    note idle = assms(3) [OF running, unfolded idle_at_def]
    have "issued (workers ph ! i) = target (workers ph ! i)"
      using issued_le_target [of ph i] idle False running by simp
    have w: "workers (worker_exit i ph) = (workers ph)[i := (workers ph ! i)\<lparr>state_of := WORKER_EXITED\<rparr>]"
      by (simp add: worker_exit_def set_worker_def)
    have f: "fixed_part (worker_exit i ph) = fixed_part ph" by (simp add: fixed_part_def worker_exit_def)
    have a: "accounts (worker_exit i ph) A" using idle by (intro accounts_exit [OF _ _ refl]) simp_all
    show ?thesis
      by (rule idle_move [OF assms(3) [OF running] w f _ _ _ a])
        (simp_all add: \<open>issued (workers ph ! i) = target (workers ph ! i)\<close>)
  qed
  then show ?thesis by (simp add: e worker_frame_def worker_exit_def)
qed

end
