(* ===== verification/Thread_Invariant.thy ===== *)
theory Thread_Invariant
  imports Thread_Accounts
begin

section \<open>Every interleaving of the workers and the dispatcher\<close>

text \<open>
  The steps of \<^verbatim>\<open>Thread_Bench\<close> keep the invariant of \<^verbatim>\<open>Thread_Accounts\<close>, whichever thread runs next and
  whatever the client library, the clock and the poll answer: \<open>bench_ok\<close> adds to it what the place of the
  dispatcher says. The properties follow for every state that a phase can reach: the counters, the completion of
  a phase, what completes a request, and that no wake-up is lost.
\<close>

subsection \<open>The steps of a worker\<close>

lemma worker_step_consistent:
  assumes "consistent pcs ph A" "i < length pcs" "worker_step be i (pcs ! i) ph k = Some (pc, ph', k')"
  shows "consistent (pcs[i := pc]) ph' A" "pc \<noteq> Worker_created"
    "pcs ! i = Worker_created \<Longrightarrow> worker_frame ph (ph'\<lparr>started := started ph\<rparr>) \<and> started ph' = started ph + 1"
    "pcs ! i \<noteq> Worker_created \<Longrightarrow> worker_frame ph ph'"
proof -
  note c = consistentD [OF assms(1)]
  have i: "i < length (workers ph)" using assms(2) c(1) by simp
  note pc = c(4) [OF i]
  have "consistent (pcs[i := pc]) ph' A \<and> pc \<noteq> Worker_created \<and>
    (pcs ! i = Worker_created \<longrightarrow> worker_frame ph (ph'\<lparr>started := started ph\<rparr>) \<and> started ph' = started ph + 1) \<and>
    (pcs ! i \<noteq> Worker_created \<longrightarrow> worker_frame ph ph')"
  proof (cases "pcs ! i")
    case Worker_created
    then have e: "pc = Worker_at_gate"
      "ph' = set_worker i (\<lambda>x. x\<lparr>state_of := WORKER_IDLE\<rparr>) (ph\<lparr>started := started ph + 1\<rparr>)"
      using assms(3) by (auto simp: worker_step_def)
    have w: "workers ph' = (workers ph)[i := (workers ph ! i)\<lparr>state_of := WORKER_IDLE\<rparr>]" by (simp add: e set_worker_def)
    have "accounts ph' A"
      by (rule consistent_idle [OF assms(1) i refl _ w]) (use Worker_created pc in \<open>simp_all add: e fixed_part_def\<close>)
    then have "consistent (pcs[i := pc]) ph' A"
      using Worker_created pc issued_le_target [OF c(2) i]
      by (intro consistent_move [OF assms(1) i w]) (simp_all add: e fixed_part_def)
    then show ?thesis using Worker_created by (simp add: e worker_frame_def)
  next
    case Worker_at_gate
    then have l: "worker_loop be i 0 ph k = Some (pc, ph', k')"
      using assms(3) by (auto simp: worker_step_def split: if_splits)
    have "idle_at pcs ph A i 0" using assms(1,2) c pc Worker_at_gate by (simp add: idle_at_def)
    then show ?thesis using worker_loop_consistent [OF l assms(1) _ i] Worker_at_gate by simp
  next
    case (Worker_waiting operation)
    define ph1 where "ph1 = (if \<not> stop ph then set_worker i (\<lambda>x. x\<lparr>state_of := WORKER_IDLE\<rparr>) ph else ph)"
    have l: "worker_loop be i (operation + 1) ph1 k = Some (pc, ph', k')"
      and ready: "state_of (workers ph ! i) = WORKER_COMPLETE \<or> stop ph"
      using assms(3) Worker_waiting by (auto simp: worker_step_def worker_resume_def ph1_def split: if_splits)
    have halted: "consistent pcs ph1 A" if "stop ph1" using that assms(1) by (simp add: ph1_def split: if_splits)
    have idle: "idle_at pcs ph1 A i (operation + 1)" if running: "\<not> stop ph1"
    proof -
      from running have s: "\<not> stop ph" by (simp add: ph1_def split: if_splits)
      then have w: "workers ph1 = (workers ph)[i := (workers ph ! i)\<lparr>state_of := WORKER_IDLE\<rparr>]"
        by (simp add: ph1_def set_worker_def)
      have "accounts ph1 A"
        by (rule consistent_idle [OF assms(1) i refl _ w]) (use s ready in \<open>simp_all add: ph1_def fixed_part_def\<close>)
      moreover have "phase_ok ph1"
        by (rule phase_ok_move [OF c(2) i w])
          (use s issued_le_target [OF c(2) i] in \<open>simp_all add: ph1_def fixed_part_def\<close>)
      moreover have "\<forall>j<length pcs. j \<noteq> i \<longrightarrow> pc_ok (pcs ! j) (stop ph1) (workers ph1 ! j)"
        using c running s by (simp add: w)
      ultimately show ?thesis using c(1) i pc Worker_waiting by (simp add: idle_at_def w)
    qed
    have f: "worker_frame ph ph1" by (simp add: ph1_def worker_frame_def)
    have "i < length (workers ph1)" using i by (simp add: ph1_def)
    then have "consistent (pcs[i := pc]) ph' A \<and> worker_frame ph1 ph' \<and> pc \<noteq> Worker_created"
      using worker_loop_consistent [OF l halted idle] by blast
    with worker_frame_trans [OF f] Worker_waiting show ?thesis by simp
  next
    case Worker_done
    then show ?thesis using assms(3) by (simp add: worker_step_def)
  qed
  then show "consistent (pcs[i := pc]) ph' A" "pc \<noteq> Worker_created"
    "pcs ! i = Worker_created \<Longrightarrow> worker_frame ph (ph'\<lparr>started := started ph\<rparr>) \<and> started ph' = started ph + 1"
    "pcs ! i \<noteq> Worker_created \<Longrightarrow> worker_frame ph ph'"
    by blast+
qed

subsection \<open>The steps of the dispatcher\<close>

fun held_by :: "dispatcher_pc \<Rightarrow> nat set" where
  "held_by (Dispatch_submitting progressed selected messages) = set selected"
| "held_by (Dispatch_submitted progressed selected ret submitted messages) = set selected"
| "held_by _ = {}"

fun dispatcher_ok :: "dispatcher_pc \<Rightarrow> thread_phase \<Rightarrow> bool" where
  "dispatcher_ok Dispatch_starting ph \<longleftrightarrow> True"
| "dispatcher_ok (Dispatch_submitting progressed selected messages) ph \<longleftrightarrow>
     (go ph \<or> stop ph) \<and> distinct selected \<and> length messages = length selected"
| "dispatcher_ok (Dispatch_submitted progressed selected ret submitted messages) ph \<longleftrightarrow>
     (go ph \<or> stop ph) \<and> distinct selected"
| "dispatcher_ok (Dispatch_stopping ret) ph \<longleftrightarrow> (go ph \<or> stop ph) \<and> (ret = 0 \<longrightarrow> completed ph = total ph)"
| "dispatcher_ok (Dispatch_joining ret) ph \<longleftrightarrow>
     (go ph \<or> stop ph) \<and> (stop ph \<or> ret = 0 \<and> completed ph = total ph)"
| "dispatcher_ok (Dispatch_returned ret) ph \<longleftrightarrow> (go ph \<or> stop ph) \<and> (ret = 0 \<longrightarrow> completed ph = total ph)"
| "dispatcher_ok _ ph \<longleftrightarrow> go ph \<or> stop ph"

definition started_count :: "worker_pc list \<Rightarrow> nat" where
  "started_count pcs = length (filter (\<lambda>pc. pc \<noteq> Worker_created) pcs)"

definition bench_ok :: "('k, 'w) bench_system \<Rightarrow> bool" where
  "bench_ok s \<longleftrightarrow> consistent (threads s) (phase s) (held_by (dispatcher s)) \<and>
     dispatcher_ok (dispatcher s) (phase s) \<and> started (phase s) = of_nat (started_count (threads s)) \<and>
     (\<forall>ret. dispatcher s = Dispatch_returned ret \<longrightarrow> list_all (\<lambda>pc. pc = Worker_done) (threads s))"

lemma bench_okD:
  assumes "bench_ok s"
  shows "consistent (threads s) (phase s) (held_by (dispatcher s))" "dispatcher_ok (dispatcher s) (phase s)"
    "started (phase s) = of_nat (started_count (threads s))"
    "dispatcher s = Dispatch_returned ret \<Longrightarrow> list_all (\<lambda>pc. pc = Worker_done) (threads s)"
  using assms by (simp_all add: bench_ok_def)

lemma bench_ok_dispatcher:
  assumes "bench_ok s" "threads t = threads s" "consistent (threads s) (phase t) (held_by (dispatcher t))"
    "dispatcher_ok (dispatcher t) (phase t)" "started (phase t) = started (phase s)"
    "\<And>ret. dispatcher t = Dispatch_returned ret \<Longrightarrow> list_all (\<lambda>pc. pc = Worker_done) (threads s)"
  shows "bench_ok t"
  using assms by (simp add: bench_ok_def)

lemma record_submission_consistent:
  assumes "consistent pcs ph (set selected)" "distinct selected"
    and "record_submission be selected ret submitted messages ph k = Some (r, ph', k')"
  shows "consistent pcs ph' {} \<and> go ph' = go ph \<and> started ph' = started ph \<and> (stop ph \<longrightarrow> stop ph') \<and>
    (\<forall>e. r = Inl e \<longrightarrow> e \<noteq> 0)"
proof -
  define ph1 where "ph1 = (if ret = - EAGAIN then set_stats (\<lambda>st. st\<lparr>stat_send_eagain := stat_send_eagain st + 1\<rparr>) ph else ph)"
  let ?n = "unat submitted" and ?prs = "zip (take (unat submitted) selected) (take (unat submitted) messages)"
  have one: "consistent pcs ph1 (set selected)" "go ph1 = go ph" "started ph1 = started ph" "stop ph1 = stop ph"
    using assms(1) by (simp_all add: ph1_def)
  have failing: ?thesis
    if "fail_phase_locked be e ph2 k = Some (ph', k')" "consistent pcs ph2 B" "go ph2 = go ph" "started ph2 = started ph"
      "r = Inl e" "e \<noteq> 0" for e ph2 B
    using consistent_fail [OF that(2,1)] fail_phase_locked_effect [OF that(1)] that by simp
  show ?thesis
  proof (cases "ret \<noteq> 0 \<and> ret \<noteq> - EAGAIN")
    case True
    then have "fail_phase_locked be ret (restore_workers selected ph) k = Some (ph', k')" "r = Inl ret"
      using assms(3) by (auto simp: record_submission_def bind_eq_Some_conv)
    then show ?thesis
      using failing restore_workers_consistent [OF assms(1,2) order_refl] True by blast
  next
    case answered: False
    show ?thesis
    proof (cases "ret = 0 \<and> (submitted = 0 \<or> ?n > length selected)")
      case True
      then have "fail_phase_locked be (- EPROTO) ph1 k = Some (ph', k')" "r = Inl (- EPROTO)"
        using assms(3) by (auto simp: record_submission_def ph1_def bind_eq_Some_conv)
      then show ?thesis using failing [OF _ one(1-3)] by simp
    next
      case False
      then have n: "?n \<le> length selected" "?n \<le> length messages"
        using assms(3) answered by (auto simp: record_submission_def Let_def split: if_splits)
      obtain b ph2 where a: "accept_workers ?prs ph1 = (b, ph2)" by fastforce
      have fst: "map fst ?prs = take ?n selected" using n by simp
      then have dist: "distinct (map fst ?prs)" "fst ` set ?prs \<subseteq> set selected" "fst ` set ?prs = set (take ?n selected)"
        using assms(2) set_take_subset [of ?n selected] by (auto simp flip: set_map)
      note acc = accept_workers_consistent [OF one(1) dist(1,2) a]
      show ?thesis
      proof (cases b)
        case False
        then have "fail_phase_locked be (- EPROTO) ph2 k = Some (ph', k')" "r = Inl (- EPROTO)"
          using assms(3) answered \<open>\<not> (ret = 0 \<and> _)\<close> n a
          by (auto simp: record_submission_def Let_def bind_eq_Some_conv ph1_def split: if_splits)
        then show ?thesis using failing acc one(2,3) by force
      next
        case True
        then have c2: "consistent pcs ph2 (set (drop ?n selected))"
        proof -
          have "set selected - set (take ?n selected) = set (drop ?n selected)"
            using assms(2) set_take_disj_set_drop_if_distinct [of selected ?n ?n] set_append [of "take ?n selected" "drop ?n selected"]
            by (auto simp del: set_append)
          then show ?thesis using acc True dist(3) by auto
        qed
        have "distinct (drop ?n selected)" using assms(2) by simp
        note res = restore_workers_consistent [OF c2 this order_refl]
        obtain f g where "ph' = set_stats f (update_depth_stats (restore_workers (drop ?n selected) ph2)) \<or>
            ph' = update_depth_stats (restore_workers (drop ?n selected) ph2)" "r = Inr g"
          using assms(3) answered \<open>\<not> (ret = 0 \<and> _)\<close> n a True
          by (auto simp: record_submission_def Let_def ph1_def split: if_splits)
        then show ?thesis using res acc one by (auto simp: fixed_part_def)
      qed
    qed
  qed
qed

lemma poll_only_stats:
  assumes "poll_transport_or_worker be transport_fd events timeout_ms ph k w = Some (ret, ph', k', w')"
  shows "\<exists>f. ph' = set_stats f ph"
proof -
  have "ph' = set_stats (\<lambda>_. stats ph') ph"
    using assms unfolding poll_transport_or_worker_def Let_def
    by (auto simp: set_stats_def split: Option.bind_split_asm if_split_asm prod.split_asm sum.split_asm)
  then show ?thesis by blast
qed

lemma dispatcher_step_ok:
  assumes "bench_ok s" "dispatcher_step be env rtos s = Some t"
  shows "bench_ok t"
proof -
  note ok = bench_okD(1-3) [OF assms(1)] and step = assms(2) [unfolded dispatcher_step_def Let_def]
  note close = bench_ok_dispatcher [OF assms(1)]
  have cons: "consistent (threads s) (phase s) {}" if "held_by (dispatcher s) = {}" using ok(1) that by simp
  show ?thesis
  proof (cases "dispatcher s")
    case Dispatch_starting
    then consider (fails) e k1 k ph where "fail_phase_locked be (- e) (phase s) k1 = Some (ph, k)"
          "t = s\<lparr>phase := ph, outside := k, dispatcher := Dispatch_joining (- e)\<rparr>"
      | (opens) now k where "t = s\<lparr>phase := (phase s)\<lparr>go := True\<rparr>, phase_begin := now, outside := k, dispatcher := Dispatch_check\<rparr>"
      using step by (auto simp: bind_eq_Some_conv split: if_split_asm prod.split_asm sum.split_asm)
    then show ?thesis
    proof cases
      case fails
      note f = fail_phase_locked_effect [OF fails(1)]
      have "consistent (threads s) ph {}" using consistent_fail [OF cons fails(1)] Dispatch_starting by simp
      then show ?thesis using fails(2) f Dispatch_starting by (intro close) auto
    next
      case opens
      have "consistent (threads s) ((phase s)\<lparr>go := True\<rparr>) {}"
        using cons Dispatch_starting by (auto intro: consistent_outline simp: fixed_part_def)
      with opens show ?thesis by (intro close) auto
    qed
  next
    case Dispatch_check
    have "stop (phase s) \<longleftrightarrow> phase_error (phase s) \<noteq> 0" using consistentD(2) [OF ok(1)] by (simp add: phase_ok_def)
    then show ?thesis
      using step ok cons Dispatch_check
      by (cases "stop (phase s) \<or> completed (phase s) = total (phase s)"; intro close) auto
  next
    case Dispatch_reap
    then show ?thesis
      using step ok cons by (intro close) (auto split: if_splits)
  next
    case (Dispatch_reaping requested)
    then show ?thesis
      using step ok cons by (intro close) (auto simp: bind_eq_Some_conv split: if_splits sum.splits prod.splits)
  next
    case (Dispatch_complete reaped messages now)
    then obtain b ph where c: "complete_workers messages now [0..<unat reaped] (phase s) = Some (b, ph)"
      using step by (auto simp: bind_eq_Some_conv)
    note cc = complete_workers_consistent [OF cons c]
    show ?thesis
    proof (cases b)
      case True
      then show ?thesis
        using step ok cc c Dispatch_complete by (intro close) (auto simp: fixed_part_def)
    next
      case False
      then obtain ph' k where f: "fail_phase_locked be (- EPROTO) ph (outside s) = Some (ph', k)"
          "t = s\<lparr>phase := ph', outside := k, dispatcher := Dispatch_stopping (- EPROTO)\<rparr>"
        using step c Dispatch_complete by (auto simp: bind_eq_Some_conv)
      show ?thesis
        using f(2) cc consistent_fail [OF _ f(1)] fail_phase_locked_effect [OF f(1)] Dispatch_complete by (intro close) auto
    qed
  next
    case (Dispatch_select progressed)
    obtain sel msgs ph where c: "select_workers [0..<unat (worker_count (phase s))] (phase s) = (sel, msgs, ph)" by (metis prod.exhaust)
    have n: "\<forall>i\<in>set [0..<unat (worker_count (phase s))]. i < length (workers (phase s))"
      using consistentD(2) [OF ok(1)] by (simp add: phase_ok_def)
    note cc = select_workers_consistent [OF cons _ n c]
    show ?thesis
      using step ok cc Dispatch_select c by (intro close) (auto simp: fixed_part_def split: if_splits)
  next
    case (Dispatch_submitting progressed selected messages)
    then show ?thesis
      using step ok by (intro close) (auto simp: bind_eq_Some_conv)
  next
    case (Dispatch_submitted progressed selected ret submitted messages)
    then obtain r ph k where c: "record_submission be selected ret submitted messages (phase s) (outside s) = Some (r, ph, k)"
      using step by (auto simp: bind_eq_Some_conv)
    have "consistent (threads s) (phase s) (set selected)" "distinct selected" using ok Dispatch_submitted by auto
    note cc = record_submission_consistent [OF this c]
    show ?thesis
      using step ok cc c Dispatch_submitted by (intro close) (auto split: sum.splits if_splits)
  next
    case Dispatch_wait
    then show ?thesis
      using step ok cons by (intro close) (auto split: if_splits)
  next
    case (Dispatch_polling transport_fd events)
    then obtain ret ph k w where c: "poll_transport_or_worker be transport_fd events (ucast SG2002_RTOS_DEFAULT_TIMEOUT_MS)
        (phase s) (outside s) (client s) = Some (ret, ph, k, w)"
      using step by (auto simp: bind_eq_Some_conv)
    obtain f where "ph = set_stats f (phase s)" using poll_only_stats [OF c] by blast
    then show ?thesis
      using step ok cons c Dispatch_polling by (intro close) (auto split: if_splits)
  next
    case (Dispatch_stopping ret)
    obtain r k0 where clk: "raw_clock be (outside s) = (r, k0)" by fastforce
    define ret' where "ret' = (case r of Inl e \<Rightarrow> if ret = 0 then - e else ret | Inr _ \<Rightarrow> ret)"
    define s' where "s' = s\<lparr>outside := k0, duration_ns := (case r of Inl _ \<Rightarrow> 0 | Inr now \<Rightarrow> elapsed_ns (phase_begin s) now)\<rparr>"
    have st: "(if ret' \<noteq> 0 then do { (ph, k) \<leftarrow> fail_phase_locked be ret' (phase s) k0;
              Some (s'\<lparr>phase := ph, outside := k, dispatcher := Dispatch_joining ret'\<rparr>) }
            else Some (s'\<lparr>dispatcher := Dispatch_joining ret'\<rparr>)) = Some t"
      using step unfolding ret'_def s'_def by (simp only: Dispatch_stopping dispatcher_pc.case clk prod.case)
    show ?thesis
    proof (cases "ret' = 0")
      case True
      then have "ret = 0" by (simp add: ret'_def split: sum.splits if_splits)
      then show ?thesis
        using st True ok cons Dispatch_stopping by (intro close) (auto simp: s'_def)
    next
      case False
      with st obtain ph k where f: "fail_phase_locked be ret' (phase s) k0 = Some (ph, k)"
          "t = s'\<lparr>phase := ph, outside := k, dispatcher := Dispatch_joining ret'\<rparr>"
        by (auto simp: bind_eq_Some_conv)
      note e = fail_phase_locked_effect [OF f(1)]
      have "consistent (threads s) ph {}" using consistent_fail [OF cons f(1)] Dispatch_stopping by simp
      then show ?thesis using f(2) e Dispatch_stopping by (intro close) (auto simp: s'_def)
    qed
  next
    case (Dispatch_joining ret)
    then show ?thesis
      using step ok cons by (intro close) (auto split: if_splits)
  next
    case (Dispatch_returned ret)
    then show ?thesis using step by simp
  qed
qed

subsection \<open>The shares of the workers\<close>

lemma unat_worker_target:
  assumes "i < unat count" "unat count \<le> 8"
  shows "unat (worker_target n count (of_nat i)) = unat n div unat count + (if i < unat n mod unat count then 1 else 0)"
proof -
  let ?n = "unat n" and ?c = "unat count"
  have i: "unat (of_nat i :: u32) = i" using assms by (simp add: unat_of_nat_u32)
  have less: "(of_nat i :: u32) < n mod count \<longleftrightarrow> i < ?n mod ?c"
    by (simp add: word_less_nat_alt i unat_mod)
  have le: "?n div ?c + 1 \<le> ?n" if "i < ?n mod ?c"
  proof -
    have "?n mod ?c < ?c" using assms(1) by simp
    with that have "2 \<le> ?c" by linarith
    moreover have "0 < ?n" using that by (cases "?n = 0") auto
    ultimately have "?n div ?c < ?n" by (intro div_less_dividend) simp_all
    then show ?thesis by simp
  qed
  have "Suc (?n div ?c) < 4294967296" if "i < ?n mod ?c" using le [OF that] unat_u32_less [of n] by linarith
  moreover have "?n div ?c < 4294967296" using div_le_dividend [of ?n ?c] unat_u32_less [of n] by linarith
  ultimately show ?thesis
    by (auto simp: worker_target_def less unat_word_ariths unat_div)
qed

lemma sum_shares:
  assumes "0 < c"
  shows "(\<Sum>i\<leftarrow>[0..<c]. n div c + (if i < n mod c then 1 else 0)) = (n :: nat)"
proof -
  have "{..<c} \<inter> {..<n mod c} = {..<n mod c}" using assms by (auto intro: less_trans [OF _ mod_less_divisor])
  moreover have "{i \<in> {..<c}. i < n mod c} = {..<c} \<inter> {..<n mod c}" by auto
  ultimately have "(\<Sum>i<c. if i < n mod c then 1 else 0) = n mod c"
    by (simp add: sum.If_cases Int_def)
  then have "(\<Sum>i<c. n div c + (if i < n mod c then 1 else 0)) = c * (n div c) + n mod c"
    by (simp add: sum.distrib)
  then show ?thesis by (simp add: interv_sum_list_conv_sum_set_nat atLeast0LessThan)
qed

lemma start_phase_ok:
  assumes "0 < unat count" "unat count \<le> 8" "echo \<le> 1017" "\<forall>l. ls = Some l \<longrightarrow> length l = unat n"
  shows "bench_ok (start_phase count n echo seed ls k w)" (is "bench_ok ?s")
proof -
  have st: "in_state q (phase ?s) = {}" if "q \<noteq> WORKER_STARTING" for q
    using that by (simp add: in_state_def start_phase_def new_worker_def)
  have "(\<Sum>x\<leftarrow>workers (phase ?s). unat (target x)) = (\<Sum>i\<leftarrow>[0..<unat count]. unat n div unat count + (if i < unat n mod unat count then 1 else 0))"
    by (simp add: start_phase_def new_worker_def comp_def)
      (intro arg_cong [where f = sum_list] map_cong refl, simp add: assms(2) unat_worker_target)
  then have "phase_ok (phase ?s)"
    using assms by (auto simp: phase_ok_def sum_shares start_phase_def new_worker_def)
  moreover have "accounts (phase ?s) {}"
  proof -
    have "issued_sum (phase ?s) = 0" by (simp add: issued_sum_def start_phase_def new_worker_def comp_def)
    then show ?thesis
      by (simp add: accounts_def balanced_def held_def ledger_def st) (simp add: start_phase_def)
  qed
  moreover have "\<forall>i<unat count. pc_ok (threads ?s ! i) (stop (phase ?s)) (workers (phase ?s) ! i)"
    by (simp add: start_phase_def new_worker_def)
  ultimately have "consistent (threads ?s) (phase ?s) {}" by (simp add: consistent_def) (simp add: start_phase_def)
  then show ?thesis by (simp add: bench_ok_def) (simp add: start_phase_def started_count_def)
qed

lemma started_count_update:
  assumes "i < length pcs" "pc \<noteq> Worker_created"
  shows "started_count (pcs[i := pc]) = started_count pcs + (if pcs ! i = Worker_created then 1 else 0)"
  using assms
proof (induction pcs arbitrary: i)
  case (Cons p ps)
  then show ?case by (cases i) (auto simp: started_count_def)
qed simp

lemma bench_step_ok:
  assumes "bench_step be env rtos s t" "bench_ok s"
  shows "bench_ok t"
  using assms(1)
proof cases
  case (worker_runs i pc ph k)
  note ok = bench_okD [OF assms(2)] and w = worker_step_consistent [OF bench_okD(1) [OF assms(2)] worker_runs(2,3)]
  have frame: "completed ph = completed (phase s)" "total ph = total (phase s)" "go ph = go (phase s)" "stop (phase s) \<longrightarrow> stop ph"
    using w(3,4) by (cases "threads s ! i = Worker_created"; auto simp: worker_frame_def)+
  have "started ph = of_nat (started_count ((threads s)[i := pc]))"
    using w(3,4) ok(3) started_count_update [OF worker_runs(2) w(2)]
    by (cases "threads s ! i = Worker_created") (simp_all add: worker_frame_def)
  moreover have "dispatcher_ok (dispatcher s) ph" using ok(2) frame by (cases "dispatcher s") auto
  moreover have "dispatcher s \<noteq> Dispatch_returned ret" for ret
    using ok(4) [of ret] worker_runs(2,3) by (auto simp: list_all_length worker_step_def)
  ultimately show ?thesis using w(1) by (simp add: bench_ok_def worker_runs(1))
next
  case dispatcher_runs
  then show ?thesis using dispatcher_step_ok [OF assms(2)] by simp
qed

lemma reachable_ok:
  assumes "(bench_step be env rtos)\<^sup>*\<^sup>* s t" "bench_ok s"
  shows "bench_ok t"
  using assms by (induction rule: rtranclp_induct) (blast intro: bench_step_ok)+

subsection \<open>What no step changes\<close>

definition constants :: "thread_phase \<Rightarrow> u32 \<times> u32 \<times> u32 \<times> u32 \<times> nat option \<times> u32 list" where
  "constants ph = (total ph, worker_count ph, seed_base ph, echo_data_bytes ph, map_option length (latencies ph),
     map target (workers ph))"

lemma constants_set_worker: "(\<And>x. target (f x) = target x) \<Longrightarrow> constants (set_worker i f ph) = constants ph"
  by (cases "i < length (workers ph)")
    (simp_all add: constants_def set_worker_def map_update list_update_beyond, metis list_update_id nth_map map_update)

lemma constants_update [simp]:
  "constants (ph\<lparr>ready := a\<rparr>) = constants ph" "constants (ph\<lparr>submitting := a\<rparr>) = constants ph"
  "constants (ph\<lparr>in_flight := a\<rparr>) = constants ph" "constants (ph\<lparr>completed := a\<rparr>) = constants ph"
  "constants (ph\<lparr>started := a\<rparr>) = constants ph" "constants (ph\<lparr>go := b\<rparr>) = constants ph"
  "constants (ph\<lparr>stop := b\<rparr>) = constants ph" "constants (ph\<lparr>phase_error := e\<rparr>) = constants ph"
  "constants (ph\<lparr>latencies_sum := v\<rparr>) = constants ph"
  "constants (set_stats f ph) = constants ph" "constants (update_depth_stats ph) = constants ph"
  by (simp_all add: constants_def)

lemma constants_fail: "fail_phase_locked be e ph k = Some (ph', k') \<Longrightarrow> constants ph' = constants ph"
  by (auto simp: fail_phase_locked_def bind_eq_Some_conv)

lemma constants_worker:
  assumes "worker_step be i pc ph k = Some (pc', ph', k')"
  shows "constants ph' = constants ph"
proof -
  have issue: "issue_request be i op ph k = Some (b, ph', k') \<Longrightarrow> constants ph' = constants ph" for op b ph k ph' k'
    by (auto simp: issue_request_def Let_def constants_set_worker
        split: Option.bind_split_asm prod.split_asm sum.split_asm if_split_asm dest!: constants_fail)
  have loop: "worker_loop be i op ph k = Some (pc', ph', k') \<Longrightarrow> constants ph' = constants ph" for op ph k pc' ph' k'
    by (auto simp: worker_loop_def bind_eq_Some_conv worker_exit_def constants_set_worker dest!: issue split: if_splits)
  have "worker_resume be i op ph k = Some (pc', ph', k') \<Longrightarrow> constants ph' = constants ph" for op
    by (auto simp: worker_resume_def constants_set_worker dest!: loop)
  then show ?thesis
    using assms by (auto simp: worker_step_def constants_set_worker split: worker_pc.splits if_splits dest!: loop)
qed

lemma constants_blocks:
  "select_workers is ph = (sel, msgs, ph') \<Longrightarrow> constants ph' = constants ph"
  "constants (restore_workers is ph) = constants ph"
  "accept_workers prs ph = (b, ph') \<Longrightarrow> constants ph' = constants ph"
  "complete_workers messages now is ph = Some (b, ph') \<Longrightarrow> constants ph' = constants ph"
proof -
  show "select_workers is ph = (sel, msgs, ph') \<Longrightarrow> constants ph' = constants ph"
    by (induction "is" arbitrary: ph sel msgs)
      (auto simp: Let_def constants_set_worker split: if_splits prod.splits)
  show "constants (restore_workers is ph) = constants ph"
    by (induction "is" arbitrary: ph) (simp_all add: Let_def constants_set_worker)
  show "accept_workers prs ph = (b, ph') \<Longrightarrow> constants ph' = constants ph"
    by (induction prs arbitrary: ph) (auto simp: Let_def constants_set_worker split: if_splits)
  have lat: "constants (ph\<lparr>latencies := Some (ls[n := v])\<rparr>) = constants ph" if "latencies ph = Some ls"
    for ls n v and ph :: thread_phase using that by (simp add: constants_def)
  show "complete_workers messages now is ph = Some (b, ph') \<Longrightarrow> constants ph' = constants ph"
    by (induction "is" arbitrary: ph)
      (auto simp: Let_def bind_eq_Some_conv constants_set_worker lat split: if_splits option.splits)
qed

lemma constants_step:
  assumes "bench_step be env rtos s t"
  shows "constants (phase t) = constants (phase s)"
  using assms
proof cases
  case (worker_runs i pc ph k)
  then show ?thesis using constants_worker by simp
next
  case dispatcher_runs
  have rec: "record_submission be selected ret submitted messages ph k = Some (r, ph', k') \<Longrightarrow> constants ph' = constants ph"
    for selected ret submitted messages ph k r ph' k'
    by (auto simp: record_submission_def Let_def bind_eq_Some_conv constants_blocks(2) split: if_split_asm prod.split_asm bool.split_asm
        dest!: constants_fail constants_blocks(3))
  from dispatcher_runs show ?thesis
    unfolding dispatcher_step_def Let_def
    by (cases "dispatcher s")
      (auto split: Option.bind_split_asm if_split_asm prod.split_asm sum.split_asm
        dest!: constants_fail constants_blocks(1,4) rec poll_only_stats)
qed

lemma constants_reachable:
  "(bench_step be env rtos)\<^sup>*\<^sup>* s t \<Longrightarrow> constants (phase t) = constants (phase s)"
  by (induction rule: rtranclp_induct) (simp_all add: constants_step)

end
