(* ===== verification/Thread_Properties.thy ===== *)
theory Thread_Properties
  imports Thread_Invariant
begin

section \<open>What the benchmark with worker threads guarantees\<close>

text \<open>
  The properties of \<^verbatim>\<open>Thread_Bench\<close> for every state a phase can reach: the counters, the completion of a phase,
  the division of the requests among the workers, what completes a request, and that no wake-up is lost. At
  the end a run with one worker and a transport that answers like the firmware, evaluated step by step.
\<close>

subsection \<open>Properties\<close>

text \<open>The number of workers in a state.\<close>

definition workers_in :: "worker_state \<Rightarrow> thread_phase \<Rightarrow> nat" where
  "workers_in q ph = length (filter (\<lambda>x. state_of x = q) (workers ph))"

lemma workers_in_card: "workers_in q ph = card (in_state q ph)"
  by (simp add: workers_in_def in_state_def length_filter_conv_card)

text \<open>What holds of a phase with the given parameters wherever its threads are.\<close>

lemma reachable_phase:
  assumes "0 < unat count" "unat count \<le> 8" "echo \<le> 1017" "\<forall>l. ls = Some l \<longrightarrow> length l = unat n"
    and "(bench_step be env rtos)\<^sup>*\<^sup>* (start_phase count n echo seed ls k w) s"
  shows "bench_ok s" "total (phase s) = n" "worker_count (phase s) = count" "length (workers (phase s)) = unat count"
    "i < unat count \<Longrightarrow> target (workers (phase s) ! i) = worker_target n count (of_nat i)"
    "map_option length (latencies (phase s)) = map_option length ls"
    "seed_base (phase s) = seed" "echo_data_bytes (phase s) = echo"
proof -
  show ok: "bench_ok s" by (rule reachable_ok [OF assms(5) start_phase_ok [OF assms(1-4)]])
  have c: "constants (phase s) = constants (phase (start_phase count n echo seed ls k w))"
    by (rule constants_reachable [OF assms(5)])
  then show "total (phase s) = n" "worker_count (phase s) = count" "map_option length (latencies (phase s)) = map_option length ls"
    "seed_base (phase s) = seed" "echo_data_bytes (phase s) = echo"
    by (simp_all add: constants_def start_phase_def)
  from c have t: "map target (workers (phase s)) = map (\<lambda>i. worker_target n count (of_nat i)) [0..<unat count]"
    by (simp add: constants_def start_phase_def new_worker_def comp_def)
  then show len: "length (workers (phase s)) = unat count" by (metis length_map length_upt minus_nat.diff_0)
  show "i < unat count \<Longrightarrow> target (workers (phase s) ! i) = worker_target n count (of_nat i)"
    using t len by (metis (no_types, lifting) add_0 length_map nth_map nth_upt length_upt minus_nat.diff_0)
qed

text \<open>Property C13: whatever the threads do in whatever order, the counters are exact until the first failure: they
  are the numbers of workers that are ready, being submitted and in flight, and together with the completed
  requests they account for every request that was issued. Failure or not, no worker issues more than its
  share and no more than the requested number complete, so the array of latencies is never left.\<close>

theorem bench_accounts_exact:
  assumes "0 < unat count" "unat count \<le> 8" "echo \<le> 1017" "\<forall>l. ls = Some l \<longrightarrow> length l = unat n"
    and "(bench_step be env rtos)\<^sup>*\<^sup>* (start_phase count n echo seed ls k w) s"
  shows "(phase_error (phase s) = 0 \<longrightarrow>
      unat (ready (phase s)) = workers_in WORKER_READY (phase s) \<and>
      unat (submitting (phase s)) = workers_in WORKER_SUBMITTING (phase s) \<and>
      unat (in_flight (phase s)) = workers_in WORKER_IN_FLIGHT (phase s) \<and>
      unat (completed (phase s)) + workers_in WORKER_READY (phase s) + workers_in WORKER_SUBMITTING (phase s) +
        workers_in WORKER_IN_FLIGHT (phase s) = (\<Sum>x\<leftarrow>workers (phase s). unat (issued x))) \<and>
    (\<forall>i<unat count. issued (workers (phase s) ! i) \<le> worker_target n count (of_nat i)) \<and>
    completed (phase s) \<le> n \<and>
    (\<forall>l. latencies (phase s) = Some l \<longrightarrow> length l = unat n)"
proof -
  note r = reachable_phase [OF assms]
  note c = consistentD [OF bench_okD(1) [OF r(1)]]
  have "workers_in q (phase s) \<le> unat count" for q
    by (simp add: workers_in_def flip: r(4))
  then have small: "workers_in q (phase s) < 4294967296" for q
    using assms(2) by (rule le_less_trans [OF le_trans]) simp
  have "unat (ready (phase s)) = workers_in WORKER_READY (phase s) \<and>
      unat (submitting (phase s)) = workers_in WORKER_SUBMITTING (phase s) \<and>
      unat (in_flight (phase s)) = workers_in WORKER_IN_FLIGHT (phase s) \<and>
      unat (completed (phase s)) + workers_in WORKER_READY (phase s) + workers_in WORKER_SUBMITTING (phase s) +
        workers_in WORKER_IN_FLIGHT (phase s) = (\<Sum>x\<leftarrow>workers (phase s). unat (issued x))"
    if "phase_error (phase s) = 0"
  proof -
    have "\<not> stop (phase s)" using c(2) that by (simp add: phase_ok_def)
    then have "held_by (dispatcher s) = in_state WORKER_SUBMITTING (phase s)"
      and "ledger (unat (completed (phase s))) (card (in_state WORKER_READY (phase s))) (card (held_by (dispatcher s)))
        (card (in_state WORKER_IN_FLIGHT (phase s))) (issued_sum (phase s)) (ready (phase s)) (submitting (phase s))
        (in_flight (phase s)) False"
      using accountsD(1) [OF c(3)] by (auto simp: balanced_def held_def)
    then show ?thesis
      using small by (simp add: ledger_def unat_of_nat_u32 issued_sum_def flip: workers_in_card)
  qed
  moreover have "issued (workers (phase s) ! i) \<le> worker_target n count (of_nat i)" if "i < unat count" for i
    using issued_le_target [OF c(2), of i] r(4) r(5) [OF that] that by simp
  moreover have "completed (phase s) \<le> n"
    using outstanding_bound(3) [OF bench_okD(1) [OF r(1)]] by (simp add: r(2))
  moreover have "latencies (phase s) = Some l \<Longrightarrow> length l = unat n" for l
    using c(2) r(2) by (simp add: phase_ok_def)
  ultimately show ?thesis by blast
qed

lemma sum_list_le_eq:
  fixes f g :: "'a \<Rightarrow> nat"
  assumes "\<And>x. x \<in> set xs \<Longrightarrow> f x \<le> g x" "(\<Sum>x\<leftarrow>xs. g x) \<le> (\<Sum>x\<leftarrow>xs. f x)"
  shows "x \<in> set xs \<Longrightarrow> f x = g x"
  using assms
proof (induction xs)
  case (Cons y ys)
  have "(\<Sum>x\<leftarrow>ys. f x) \<le> (\<Sum>x\<leftarrow>ys. g x)" using Cons.prems by (intro sum_list_mono) simp
  then have "f y = g y" "(\<Sum>x\<leftarrow>ys. g x) \<le> (\<Sum>x\<leftarrow>ys. f x)" using Cons.prems(2) [of y] Cons.prems(3) by simp_all
  then show ?case using Cons by auto
qed simp

text \<open>Property C23: a phase that returns success has completed exactly the requested number of requests, every
  worker has issued exactly its share of them, no request is left with a worker, the dispatcher or the
  transport, and all threads have ended.\<close>

theorem bench_success_completes_all:
  assumes "0 < unat count" "unat count \<le> 8" "echo \<le> 1017" "\<forall>l. ls = Some l \<longrightarrow> length l = unat n"
    and "(bench_step be env rtos)\<^sup>*\<^sup>* (start_phase count n echo seed ls k w) s"
    and "dispatcher s = Dispatch_returned 0"
  shows "completed (phase s) = n \<and>
    (\<forall>i<unat count. issued (workers (phase s) ! i) = worker_target n count (of_nat i)) \<and>
    workers_in WORKER_READY (phase s) = 0 \<and> workers_in WORKER_IN_FLIGHT (phase s) = 0 \<and>
    threads s = replicate (unat count) Worker_done"
proof -
  note r = reachable_phase [OF assms(1-5)]
  note ok = bench_okD [OF r(1)]
  note c = consistentD [OF ok(1)] and b = outstanding_bound [OF ok(1)]
  have finished: "completed (phase s) = n" using ok(2) r(2) assms(6) by simp
  then have eq: "issued_sum (phase s) = unat n" "card (in_state WORKER_READY (phase s)) = 0" "card (in_state WORKER_IN_FLIGHT (phase s)) = 0"
    using b(1) [unfolded finished] b(2) [unfolded r(2)] by linarith+
  have "(\<Sum>x\<leftarrow>workers (phase s). unat (target x)) \<le> (\<Sum>x\<leftarrow>workers (phase s). unat (issued x))"
    using eq(1) c(2) r(2) by (simp add: phase_ok_def issued_sum_def)
  moreover have "unat (issued x) \<le> unat (target x)" if "x \<in> set (workers (phase s))" for x
    using c(2) that by (simp add: phase_ok_def word_le_nat_alt)
  ultimately have "unat (issued x) = unat (target x)" if "x \<in> set (workers (phase s))" for x
    using sum_list_le_eq [of "workers (phase s)" "\<lambda>x. unat (issued x)" "\<lambda>x. unat (target x)"] that by blast
  then have "issued (workers (phase s) ! i) = worker_target n count (of_nat i)" if "i < unat count" for i
    using r(4) r(5) [OF that] that by (metis nth_mem word_unat_eq_iff)
  moreover have "threads s = replicate (unat count) Worker_done"
    using ok(4) [OF assms(6)] c(1) r(4) by (intro replicate_eqI) (simp_all add: list_all_iff)
  ultimately show ?thesis using finished eq(2,3) by (simp add: workers_in_card)
qed

lemma share_bound:
  assumes "i < c"
  shows "op * c + i < n \<longleftrightarrow> op < n div c + (if i < n mod c then 1 else (0 :: nat))"
proof -
  have n: "n = n div c * c + n mod c" by simp
  consider "op < n div c" | "op = n div c" | "n div c < op" by linarith
  then show ?thesis
  proof cases
    case 1
    then have "(op + 1) * c \<le> n div c * c" by (intro mult_le_mono1) simp
    then have "op * c + c \<le> n" using n by (simp only: add_mult_distrib mult_1)
    then have "op * c + i < n" using assms by linarith
    with 1 show ?thesis by simp
  next
    case 2
    have "n div c * c + i < n \<longleftrightarrow> i < n mod c" using n by linarith
    with 2 show ?thesis by simp
  next
    case 3
    then have "(n div c + 1) * c \<le> op * c" by (intro mult_le_mono1) simp
    moreover have "n < (n div c + 1) * c" using assms dividend_less_div_times [of c n] by (simp add: algebra_simps)
    ultimately show ?thesis using 3 by simp
  qed
qed

text \<open>The workers divide the requests among themselves: numbering the \<open>op\<close>-th request of worker \<open>i\<close> as
  \<open>op * count + i\<close>, which is what its seed counts from, every number below the total belongs to exactly one
  worker and one of its operations.\<close>

theorem shares_partition_requests:
  assumes "0 < unat count" "unat count \<le> 8"
  shows "bij_betw (\<lambda>(i, op). op * unat count + i)
    {(i, op). i < unat count \<and> op < unat (worker_target n count (of_nat i))} {..<unat n}"
proof (rule bij_betw_byWitness [where f' = "\<lambda>k. (k mod unat count, k div unat count)"])
  note t = unat_worker_target [OF _ assms(2), of _ n]
  show "\<forall>a\<in>{(i, op). i < unat count \<and> op < unat (worker_target n count (of_nat i))}.
      (\<lambda>k. (k mod unat count, k div unat count)) ((\<lambda>(i, op). op * unat count + i) a) = a"
    by auto
  show "(\<lambda>(i, op). op * unat count + i) ` {(i, op). i < unat count \<and> op < unat (worker_target n count (of_nat i))} \<subseteq> {..<unat n}"
    using share_bound [of _ "unat count" _ "unat n"] by (auto simp: t)
  have "k div unat count < unat (worker_target n count (of_nat (k mod unat count)))" if "k < unat n" for k
  proof -
    have "k mod unat count < unat count" using assms(1) by simp
    then show ?thesis
      using share_bound [of "k mod unat count" "unat count" "k div unat count" "unat n"] that by (simp add: t)
  qed
  then show "(\<lambda>k. (k mod unat count, k div unat count)) ` {..<unat n} \<subseteq>
      {(i, op). i < unat count \<and> op < unat (worker_target n count (of_nat i))}"
    using assms(1) by auto
qed simp

theorem shares_partition_requests_witness:
  "bij_betw (\<lambda>(i, op). op * unat (3 :: u32) + i)
    {(i, op). i < unat (3 :: u32) \<and> op < unat (worker_target 65 3 (of_nat i))} {..<unat (65 :: u32)}"
  by (rule shares_partition_requests) simp_all

text \<open>What completes a request.\<close>

lemma complete_workers_validated:
  assumes "consistent pcs ph A" "complete_workers messages now is ph = Some (b, ph')"
    and "i < length (workers ph)" "state_of (workers ph' ! i) = WORKER_COMPLETE" "state_of (workers ph ! i) \<noteq> WORKER_COMPLETE"
  shows "state_of (workers ph ! i) = WORKER_IN_FLIGHT \<and> (\<exists>j\<in>set is. j < length messages \<and>
    sequence (messages ! j) = worker_sequence (workers ph ! i) \<and>
    validate_response (payload (messages ! j)) (slot_length (messages ! j)) (echo_data_bytes ph) (worker_seed (workers ph ! i)) = Some 0)"
  using assms
proof (induction "is" arbitrary: ph)
  case (Cons index rest)
  have idx: "index < length messages" using Cons.prems(2) by (simp split: if_splits)
  show ?case
  proof (cases "find_in_flight_worker ph (sequence (messages ! index))")
    case None
    then show ?thesis using Cons.prems by (auto split: if_splits)
  next
    case (Some l)
    note l = find_in_flight_workerD(1) [OF Cons.prems(1) Some]
    let ?v = "validate_response (payload (messages ! index)) (slot_length (messages ! index)) (echo_data_bytes ph) (worker_seed (workers ph ! l))"
    obtain v where v: "?v = Some v" using Cons.prems(2) Some idx by (auto simp: Let_def bind_eq_Some_conv)
    show ?thesis
    proof (cases "v = 0")
      case False
      then show ?thesis using Cons.prems Some v idx by simp
    next
      case True
      then obtain ph1 where c: "complete_workers messages now rest (set_worker l (\<lambda>x. x\<lparr>state_of := WORKER_COMPLETE\<rparr>) ph1
            \<lparr>in_flight := in_flight ph1 - 1, completed := completed ph1 + 1\<rparr>) = Some (b, ph')"
          (is "complete_workers _ _ _ ?ph2 = _")
        and ph1: "workers ph1 = workers ph" "fixed_part ph1 = fixed_part ph" "completed ph1 = completed ph" "in_flight ph1 = in_flight ph"
          "ready ph1 = ready ph" "submitting ph1 = submitting ph" "echo_data_bytes ph1 = echo_data_bytes ph"
        using Cons.prems(2) Some v idx
        by (auto simp: Let_def bind_eq_Some_conv fixed_part_def split: if_splits option.splits)
      show ?thesis
      proof (cases "i = l")
        case True
        then show ?thesis using l v \<open>v = 0\<close> idx by auto
      next
        case False
        have two: "consistent pcs ?ph2 A"
          by (rule consistent_complete [OF Cons.prems(1), of l]) (use l ph1 in \<open>auto simp: set_worker_def fixed_part_def\<close>)
        have w: "workers ?ph2 ! i = workers ph ! i" "i < length (workers ?ph2)" "echo_data_bytes ?ph2 = echo_data_bytes ph"
          using False l Cons.prems(3) ph1 by (simp_all add: set_worker_nth)
        from Cons.IH [OF two c w(2) Cons.prems(4)] Cons.prems(5) show ?thesis unfolding w by auto
      qed
    qed
  qed
qed simp

text \<open>Nothing but a validated response makes a request complete.\<close>

lemma in_state_fields [simp]:
  "in_state q (ph\<lparr>ready := a\<rparr>) = in_state q ph" "in_state q (ph\<lparr>submitting := a\<rparr>) = in_state q ph"
  "in_state q (ph\<lparr>in_flight := a\<rparr>) = in_state q ph" "in_state q (ph\<lparr>completed := a\<rparr>) = in_state q ph"
  "in_state q (ph\<lparr>started := a\<rparr>) = in_state q ph" "in_state q (ph\<lparr>go := b\<rparr>) = in_state q ph"
  "in_state q (ph\<lparr>stop := b\<rparr>) = in_state q ph" "in_state q (ph\<lparr>phase_error := e\<rparr>) = in_state q ph"
  "in_state q (set_stats f ph) = in_state q ph" "in_state q (update_depth_stats ph) = in_state q ph"
  by (simp_all add: in_state_def)

lemma complete_set_worker:
  "(\<And>x. state_of (f x) \<noteq> WORKER_COMPLETE) \<Longrightarrow>
    in_state WORKER_COMPLETE (set_worker i f ph) = in_state WORKER_COMPLETE ph - {i}"
  "(\<And>x. state_of (f x) = state_of x) \<Longrightarrow> in_state q (set_worker i f ph) = in_state q ph"
  by (cases "i < length (workers ph)";
      auto simp: in_state_set_worker in_state_iff split: if_splits;
      simp add: set_worker_def in_state_def list_update_beyond)+

lemma complete_fail:
  "fail_phase_locked be e ph k = Some (ph', k') \<Longrightarrow> in_state WORKER_COMPLETE ph' = in_state WORKER_COMPLETE ph"
  by (drule fail_phase_locked_effect(2)) (simp add: in_state_def)

text \<open>No worker becomes complete from the first phase to the second.\<close>

definition none_completes :: "thread_phase \<Rightarrow> thread_phase \<Rightarrow> bool" where
  "none_completes ph ph' \<longleftrightarrow> in_state WORKER_COMPLETE ph' \<subseteq> in_state WORKER_COMPLETE ph"

lemma none_completes_refl [simp]: "none_completes ph ph"
  by (simp add: none_completes_def)

lemma none_completes_trans: "none_completes a b \<Longrightarrow> none_completes b c \<Longrightarrow> none_completes a c"
  by (auto simp: none_completes_def)

lemma none_completes_set_worker:
  "(\<And>x. state_of (f x) \<noteq> WORKER_COMPLETE) \<Longrightarrow> none_completes ph (set_worker i f ph)"
  "(\<And>x. state_of (f x) = state_of x) \<Longrightarrow> none_completes ph (set_worker i f ph)"
  by (auto simp: none_completes_def complete_set_worker)

lemma none_completes_fail: "fail_phase_locked be e ph1 k = Some (ph', k') \<Longrightarrow> none_completes ph ph' = none_completes ph ph1"
  by (drule complete_fail) (simp add: none_completes_def)

lemma none_completes_fields [simp]:
  "none_completes ph (ph'\<lparr>ready := a\<rparr>) = none_completes ph ph'" "none_completes ph (ph'\<lparr>submitting := a\<rparr>) = none_completes ph ph'"
  "none_completes ph (ph'\<lparr>in_flight := a\<rparr>) = none_completes ph ph'" "none_completes ph (ph'\<lparr>started := a\<rparr>) = none_completes ph ph'"
  "none_completes ph (ph'\<lparr>go := b\<rparr>) = none_completes ph ph'"
  "none_completes ph (set_stats f ph') = none_completes ph ph'" "none_completes ph (update_depth_stats ph') = none_completes ph ph'"
  "none_completes (ph\<lparr>ready := a\<rparr>) ph' = none_completes ph ph'" "none_completes (ph\<lparr>submitting := a\<rparr>) ph' = none_completes ph ph'"
  "none_completes (ph\<lparr>in_flight := a\<rparr>) ph' = none_completes ph ph'" "none_completes (ph\<lparr>started := a\<rparr>) ph' = none_completes ph ph'"
  "none_completes (set_stats f ph) ph' = none_completes ph ph'"
  by (simp_all add: none_completes_def)

lemma none_completes_issue:
  assumes "issue_request be i op ph k = Some (b, ph', k')"
  shows "none_completes ph ph'"
proof -
  let ?seed = "seed_base ph + op * worker_count ph + of_nat i"
  obtain bytes len where req: "build_request (payload zero_slot) (echo_data_bytes ph) ?seed = Some (bytes, len)"
    using assms by (auto simp: issue_request_def Let_def bind_eq_Some_conv)
  define ph1 where "ph1 = set_worker i (\<lambda>x. x\<lparr>worker_seed := ?seed,
       worker_request := zero_slot\<lparr>payload := bytes, slot_length := len\<rparr>\<rparr>) ph"
  have one: "none_completes ph ph1" unfolding ph1_def by (rule none_completes_set_worker(2)) simp
  have two: "none_completes ph1 (set_worker i (\<lambda>x. x\<lparr>worker_started := now, state_of := WORKER_READY, issued := issued x + 1\<rparr>) ph1)"
    for now by (rule none_completes_set_worker(1)) simp
  show ?thesis
    using assms req one none_completes_trans [OF one two]
    by (auto simp: issue_request_def Let_def none_completes_fail simp flip: ph1_def
        split: Option.bind_split_asm prod.split_asm sum.split_asm if_split_asm)
qed

lemma none_completes_worker:
  assumes "worker_step be i pc ph k = Some (pc', ph', k')"
  shows "none_completes ph ph'"
proof -
  have exit: "none_completes ph0 ph1 \<Longrightarrow> none_completes ph0 (worker_exit i ph1)" for ph0 ph1
    unfolding worker_exit_def by (erule none_completes_trans) (rule none_completes_set_worker(1), simp)
  have idle: "none_completes ph0 (set_worker i (\<lambda>x. x\<lparr>state_of := WORKER_IDLE\<rparr>) ph0)" for ph0
    by (rule none_completes_set_worker(1)) simp
  have loop: "none_completes ph1 ph'" if "worker_loop be i op ph1 k = Some (pc', ph', k')" for op ph1
    using that exit [OF none_completes_refl] exit [OF none_completes_issue] none_completes_issue
    by (auto simp: worker_loop_def split: if_split_asm Option.bind_split_asm)
  have "none_completes ph ph'" if "worker_resume be i op ph k = Some (pc', ph', k')" for op
    using that loop none_completes_trans [OF idle loop] by (auto simp: worker_resume_def split: if_split_asm)
  with loop show ?thesis
    using assms idle [of "ph\<lparr>started := started ph + 1\<rparr>"]
    by (auto simp: worker_step_def split: worker_pc.split_asm if_split_asm)
qed

lemma none_completes_blocks:
  "select_workers is ph = (sel, msgs, ph') \<Longrightarrow> none_completes ph ph'"
  "none_completes ph (restore_workers is ph)"
  "accept_workers prs ph = (b, ph') \<Longrightarrow> none_completes ph ph'"
proof -
  show "select_workers is ph = (sel, msgs, ph') \<Longrightarrow> none_completes ph ph'"
  proof (induction "is" arbitrary: ph sel msgs)
    case (Cons i rest)
    have s: "none_completes ph (set_worker i (\<lambda>x. x\<lparr>state_of := WORKER_SUBMITTING\<rparr>) ph)"
      by (rule none_completes_set_worker(1)) simp
    show ?case
      using Cons.prems none_completes_trans [OF s] by (auto simp: Let_def split: if_split_asm prod.split_asm dest!: Cons.IH)
  qed simp
  show "none_completes ph (restore_workers is ph)"
  proof (induction "is" arbitrary: ph)
    case (Cons i rest)
    let ?ph = "set_worker i (\<lambda>x. x\<lparr>state_of := WORKER_READY\<rparr>) ph"
    have "none_completes ph ?ph" by (rule none_completes_set_worker(1)) simp
    then show ?case
      using Cons.IH [of "?ph\<lparr>submitting := submitting ph - 1, ready := ready ph + 1\<rparr>"] none_completes_trans
      by (auto simp: Let_def)
  qed simp
  show "accept_workers prs ph = (b, ph') \<Longrightarrow> none_completes ph ph'"
  proof (induction prs arbitrary: ph)
    case (Cons p rest)
    obtain i m where p: "p = (i, m)" by fastforce
    have s: "none_completes ph (set_worker i (\<lambda>x. x\<lparr>worker_sequence := sequence m, state_of := WORKER_IN_FLIGHT\<rparr>) ph)"
      by (rule none_completes_set_worker(1)) simp
    show ?case
      using Cons.prems none_completes_trans [OF s] by (auto simp: p Let_def split: if_split_asm dest!: Cons.IH)
  qed simp
qed

lemma none_completes_record:
  assumes "record_submission be selected ret submitted messages ph k = Some (r, ph', k')"
  shows "none_completes ph ph'"
proof -
  have after: "none_completes ph ph1 \<Longrightarrow> none_completes ph (restore_workers is ph1)" for ph ph1 "is"
    using none_completes_trans none_completes_blocks(2) by blast
  show ?thesis
    using assms
    by (auto simp: record_submission_def Let_def none_completes_fail after
        split: Option.bind_split_asm if_split_asm prod.split_asm bool.split_asm dest!: none_completes_blocks(3))
qed

lemma complete_step:
  assumes "bench_step be env rtos s t" "\<not> none_completes (phase s) (phase t)"
  shows "\<exists>reaped messages now b ph. dispatcher s = Dispatch_complete reaped messages now \<and>
    complete_workers messages now [0..<unat reaped] (phase s) = Some (b, ph) \<and> workers (phase t) = workers ph"
  using assms(1)
proof cases
  case (worker_runs i pc ph k)
  then show ?thesis using assms(2) none_completes_worker [OF worker_runs(3)] by simp
next
  case dispatcher_runs
  note step = dispatcher_runs [unfolded dispatcher_step_def Let_def]
  show ?thesis
  proof (cases "\<exists>reaped messages now. dispatcher s = Dispatch_complete reaped messages now")
    case True
    then show ?thesis
      using step by (auto split: Option.bind_split_asm if_split_asm prod.split_asm dest!: fail_phase_locked_effect(2))
  next
    case False
    have "none_completes (phase s) (phase t)"
      using step False
      by (cases "dispatcher s")
        (auto simp: none_completes_fail split: Option.bind_split_asm if_split_asm prod.split_asm sum.split_asm
          dest!: poll_only_stats none_completes_record none_completes_blocks(1))
    then show ?thesis using assms(2) by contradiction
  qed
qed

text \<open>Property C21: a request becomes complete only when the dispatcher hands back a response that carries the
  sequence the request was accepted under and that the check accepts for the seed of that request; the worker
  had the request in flight.\<close>

theorem completion_is_validated:
  assumes "0 < unat count" "unat count \<le> 8" "echo \<le> 1017" "\<forall>l. ls = Some l \<longrightarrow> length l = unat n"
    and "(bench_step be env rtos)\<^sup>*\<^sup>* (start_phase count n echo seed ls k w) s"
    and "bench_step be env rtos s t" "i < unat count"
    and "state_of (workers (phase t) ! i) = WORKER_COMPLETE" "state_of (workers (phase s) ! i) \<noteq> WORKER_COMPLETE"
  shows "state_of (workers (phase s) ! i) = WORKER_IN_FLIGHT \<and>
    (\<exists>reaped messages now j. dispatcher s = Dispatch_complete reaped messages now \<and> j < unat reaped \<and> j < length messages \<and>
      sequence (messages ! j) = worker_sequence (workers (phase s) ! i) \<and>
      validate_response (payload (messages ! j)) (slot_length (messages ! j)) echo (worker_seed (workers (phase s) ! i)) = Some 0)"
proof -
  note r = reachable_phase [OF assms(1-5)]
  have "length (workers (phase t)) = length (workers (phase s))"
    using constants_step [OF assms(6)] by (simp add: constants_def) (metis length_map)
  then have "i \<in> in_state WORKER_COMPLETE (phase t)" "i \<notin> in_state WORKER_COMPLETE (phase s)"
    using assms(7-9) r(4) by (simp_all add: in_state_def)
  then have "\<not> none_completes (phase s) (phase t)" by (auto simp: none_completes_def)
  from complete_step [OF assms(6) this] obtain reaped messages now b ph where d: "dispatcher s = Dispatch_complete reaped messages now"
    "complete_workers messages now [0..<unat reaped] (phase s) = Some (b, ph)" "workers (phase t) = workers ph" by blast
  note v = complete_workers_validated [OF bench_okD(1) [OF r(1)] d(2), of i]
  show ?thesis using v assms(7-9) d r(4,8) by auto
qed

subsection \<open>Wake-ups\<close>

text \<open>An event descriptor: a write succeeds or finds the counter at its limit, and leaves it readable either way
  (\<^verbatim>\<open>eventfd(2)\<close>); only a read makes it unreadable, so reading the clock does not.\<close>

definition eventfd_wakes :: "('k, 'w) bench_env \<Rightarrow> ('k \<Rightarrow> bool) \<Rightarrow> bool" where
  "eventfd_wakes be readable \<longleftrightarrow>
     (\<forall>k. case wake_write be 1 k of
        (Inl e, k') \<Rightarrow> e = EAGAIN \<and> readable k'
      | (Inr written, k') \<Rightarrow> written = 8 \<and> readable k') \<and>
     (\<forall>k. readable k \<longrightarrow> readable (snd (raw_clock be k)))"

lemma eventfd_signal:
  assumes "eventfd_wakes be readable"
  shows "\<exists>k'. signal_dispatcher be k = Some (0, k') \<and> readable k'"
proof -
  have "case wake_write be 1 k of (Inl e, k') \<Rightarrow> e = EAGAIN \<and> readable k' | (Inr written, k') \<Rightarrow> written = 8 \<and> readable k'"
    using assms by (simp only: eventfd_wakes_def)
  then show ?thesis
    by (subst signal_dispatcher.simps) (auto split: prod.splits sum.splits)
qed

lemma eventfd_fail:
  assumes "eventfd_wakes be readable"
  shows "\<exists>ph' k'. fail_phase_locked be e ph k = Some (ph', k') \<and> readable k'"
  using eventfd_signal [OF assms, of k] by (auto simp: fail_phase_locked_def)

lemma eventfd_clock: "eventfd_wakes be readable \<Longrightarrow> readable k \<Longrightarrow> raw_clock be k = (r, k') \<Longrightarrow> readable k'"
  unfolding eventfd_wakes_def by (metis snd_conv)

lemma issue_request_wakes:
  assumes "eventfd_wakes be readable" "echo_data_bytes ph \<le> 1017"
  shows "\<exists>b ph' k'. issue_request be i op ph k = Some (b, ph', k') \<and> readable k'"
proof -
  let ?seed = "seed_base ph + op * worker_count ph + of_nat i"
  obtain bytes len where req: "build_request (payload zero_slot) (echo_data_bytes ph) ?seed = Some (bytes, len)"
    using build_request_bytes [OF _ assms(2), of "payload zero_slot" ?seed] by (auto simp: zero_slot_def)
  define ph1 where "ph1 = set_worker i (\<lambda>x. x\<lparr>worker_seed := ?seed,
       worker_request := zero_slot\<lparr>payload := bytes, slot_length := len\<rparr>\<rparr>) ph"
  obtain r k1 where clk: "raw_clock be k = (r, k1)" by fastforce
  obtain k2 where sig: "signal_dispatcher be k1 = Some (0, k2)" "readable k2" using eventfd_signal [OF assms(1)] by blast
  show ?thesis
  proof (cases r)
    case (Inl e)
    obtain ph2 k3 where "fail_phase_locked be (- e) ph1 k1 = Some (ph2, k3)" "readable k3"
      using eventfd_fail [OF assms(1)] by blast
    with req clk Inl show ?thesis by (auto simp: issue_request_def Let_def simp flip: ph1_def)
  next
    case (Inr now)
    with req clk sig show ?thesis by (auto simp: issue_request_def Let_def simp flip: ph1_def)
  qed
qed

lemma worker_loop_wakes:
  assumes "eventfd_wakes be readable" "echo_data_bytes ph \<le> 1017"
  shows "\<exists>pc' ph' k'. worker_loop be i op ph k = Some (pc', ph', k') \<and>
    (readable k' \<or> k' = k \<and> ready ph' = ready ph \<and> phase_error ph' = phase_error ph)"
proof (cases "op < target (workers ph ! i) \<and> \<not> stop ph")
  case True
  obtain b ph' k' where "issue_request be i op ph k = Some (b, ph', k')" "readable k'"
    using issue_request_wakes [OF assms, of i op k] by blast
  with True show ?thesis by (cases b) (simp_all add: worker_loop_def)
next
  case False
  then have "worker_loop be i op ph k = Some (Worker_done, worker_exit i ph, k)" by (auto simp: worker_loop_def)
  then show ?thesis by (simp add: worker_exit_def)
qed

text \<open>A thread is blocked at the gate while it is closed and while its request is outstanding, and nowhere else
  before its end.\<close>

lemma worker_step_wakes:
  assumes "eventfd_wakes be readable" "echo_data_bytes ph \<le> 1017"
    and "pc = Worker_created \<or> pc = Worker_at_gate \<and> (go ph \<or> stop ph) \<or>
      (\<exists>op. pc = Worker_waiting op) \<and> (state_of (workers ph ! i) = WORKER_COMPLETE \<or> stop ph)"
  shows "\<exists>pc' ph' k'. worker_step be i pc ph k = Some (pc', ph', k') \<and>
    (readable k' \<or> k' = k \<and> ready ph' = ready ph \<and> phase_error ph' = phase_error ph)"
proof -
  consider "pc = Worker_created" | "pc = Worker_at_gate" "go ph \<or> stop ph"
    | op where "pc = Worker_waiting op" "state_of (workers ph ! i) = WORKER_COMPLETE \<or> stop ph"
    using assms(3) by blast
  then show ?thesis
  proof cases
    case 1
    then show ?thesis by (simp add: worker_step_def)
  next
    case 2
    then show ?thesis using worker_loop_wakes [OF assms(1,2), of i 0 k] by (simp add: worker_step_def)
  next
    case 3
    define ph1 where "ph1 = (if \<not> stop ph then set_worker i (\<lambda>x. x\<lparr>state_of := WORKER_IDLE\<rparr>) ph else ph)"
    have "echo_data_bytes ph1 \<le> 1017" "ready ph1 = ready ph" "phase_error ph1 = phase_error ph"
      using assms(2) by (simp_all add: ph1_def)
    with 3 show ?thesis
      using worker_loop_wakes [OF assms(1), of ph1 i "op + 1" k]
      by (simp add: worker_step_def worker_resume_def flip: ph1_def)
  qed
qed

lemma worker_step_blocked:
  "worker_step be i pc ph k = Some r \<Longrightarrow> pc = Worker_created \<or> pc = Worker_at_gate \<and> (go ph \<or> stop ph) \<or>
      (\<exists>op. pc = Worker_waiting op) \<and> (state_of (workers ph ! i) = WORKER_COMPLETE \<or> stop ph)"
  by (auto simp: worker_step_def split: worker_pc.split_asm if_split_asm)

text \<open>What the dispatcher knows while it sleeps in the poll.\<close>

definition wakes_ok :: "('k \<Rightarrow> bool) \<Rightarrow> ('k, 'w) bench_system \<Rightarrow> bool" where
  "wakes_ok readable s \<longleftrightarrow> (\<forall>transport_fd events. dispatcher s = Dispatch_polling transport_fd events \<longrightarrow> readable (outside s) \<or>
     phase_error (phase s) = 0 \<and> completed (phase s) \<noteq> total (phase s) \<and>
     (in_flight (phase s) \<noteq> 0 \<longrightarrow> events AND POLLIN \<noteq> 0) \<and> (ready (phase s) \<noteq> 0 \<longrightarrow> events AND POLLOUT \<noteq> 0))"

lemma dispatcher_step_wakes:
  assumes "dispatcher_step be env rtos s = Some t"
  shows "wakes_ok readable t"
proof (cases "dispatcher s")
  case Dispatch_wait
  then show ?thesis
    using assms by (auto simp: dispatcher_step_def Let_def wakes_ok_def word_gt_0 bit.conj_disj_distrib2 split: if_splits)
next
  case (Dispatch_submitted x1 x2 x3 x4 x5)
  then show ?thesis
    using assms by (auto simp: dispatcher_step_def Let_def wakes_ok_def split: Option.bind_split_asm prod.split_asm sum.split_asm if_splits)
qed (use assms in \<open>auto simp: dispatcher_step_def Let_def wakes_ok_def
    split: Option.bind_split_asm prod.split_asm sum.split_asm if_splits\<close>)

lemma bench_step_wakes:
  assumes "bench_step be env rtos s t" "bench_ok s" "wakes_ok readable s" "eventfd_wakes be readable"
  shows "wakes_ok readable t"
  using assms(1)
proof cases
  case (worker_runs i pc ph k)
  note c = consistentD [OF bench_okD(1) [OF assms(2)]]
  have echo: "echo_data_bytes (phase s) \<le> 1017" using c(2) by (simp add: phase_ok_def)
  have w: "readable k \<or> k = outside s \<and> ready ph = ready (phase s) \<and> phase_error ph = phase_error (phase s)"
    using worker_step_wakes [OF assms(4) echo worker_step_blocked [OF worker_runs(3)], of "outside s"] worker_runs(3) by auto
  note f = worker_step_consistent(3,4) [OF bench_okD(1) [OF assms(2)] worker_runs(2,3)]
  have "in_flight ph = in_flight (phase s)" "completed ph = completed (phase s)" "total ph = total (phase s)"
    using f by (cases "threads s ! i = Worker_created"; simp add: worker_frame_def)+
  then show ?thesis using w assms(3) worker_runs(1) by (auto simp: wakes_ok_def)
next
  case dispatcher_runs
  then show ?thesis by (rule dispatcher_step_wakes)
qed

text \<open>As long as requests are missing and none waits for the dispatcher or the transport, some thread can run.\<close>

lemma some_worker_runs:
  assumes ok: "bench_ok s" and wake: "eventfd_wakes be readable" and open_gate: "go (phase s) \<or> stop (phase s)"
    and free: "stop (phase s) \<or> held_by (dispatcher s) = {} \<and> ready (phase s) = 0 \<and> in_flight (phase s) = 0"
    and live: "\<not> list_all (\<lambda>pc. pc = Worker_done) (threads s)"
  shows "\<exists>i<length (threads s). worker_step be i (threads s ! i) (phase s) (outside s) \<noteq> None"
proof -
  note c = consistentD [OF bench_okD(1) [OF ok]]
  have echo: "echo_data_bytes (phase s) \<le> 1017" using c(2) by (simp add: phase_ok_def)
  obtain i where i: "i < length (threads s)" "threads s ! i \<noteq> Worker_done" using live by (auto simp: list_all_length)
  have complete: "state_of (workers (phase s) ! i) = WORKER_COMPLETE" if waiting: "threads s ! i = Worker_waiting op" "\<not> stop (phase s)" for op
  proof -
    note b = accountsD(1) [OF c(3)]
    have "held_by (dispatcher s) = in_state WORKER_SUBMITTING (phase s)"
      and l: "ledger (unat (completed (phase s))) (card (in_state WORKER_READY (phase s))) (card (held_by (dispatcher s)))
        (card (in_state WORKER_IN_FLIGHT (phase s))) (issued_sum (phase s)) (ready (phase s)) (submitting (phase s))
        (in_flight (phase s)) False"
      using b waiting(2) by (auto simp: balanced_def held_def)
    moreover have zero: "card (in_state q (phase s)) = 0" if "(of_nat (card (in_state q (phase s))) :: u32) = 0" for q
    proof -
      have "card (in_state q (phase s)) \<le> card {..<length (workers (phase s))}"
        by (rule card_mono) (auto simp: in_state_def)
      also have "\<dots> \<le> 8" using c(2) by (simp add: phase_ok_def)
      finally have "unat (of_nat (card (in_state q (phase s))) :: u32) = card (in_state q (phase s))"
        by (intro unat_of_nat_u32) simp
      with that show ?thesis by simp
    qed
    ultimately have "in_state WORKER_SUBMITTING (phase s) = {}" "in_state WORKER_READY (phase s) = {}" "in_state WORKER_IN_FLIGHT (phase s) = {}"
      using free waiting(2) by (auto simp: ledger_def dest!: zero)
    then show ?thesis
      using c(4) [of i] waiting i(1) c(1) by (auto simp: in_state_def)
  qed
  have "threads s ! i = Worker_created \<or> threads s ! i = Worker_at_gate \<and> (go (phase s) \<or> stop (phase s)) \<or>
      (\<exists>op. threads s ! i = Worker_waiting op) \<and> (state_of (workers (phase s) ! i) = WORKER_COMPLETE \<or> stop (phase s))"
    using i(2) open_gate complete by (cases "threads s ! i") auto
  from worker_step_wakes [OF wake echo this, of "outside s"] i(1) show ?thesis by auto
qed

lemma running_ledger:
  assumes "consistent pcs ph A" "\<not> stop ph"
  shows "ledger (unat (completed ph)) (card (in_state WORKER_READY ph)) (card A) (card (in_state WORKER_IN_FLIGHT ph))
    (issued_sum ph) (ready ph) (submitting ph) (in_flight ph) False"
  using accountsD(1) [OF consistentD(3) [OF assms(1)]] assms(2) by (simp add: balanced_def)

lemma all_done_complete:
  assumes "consistent pcs ph {}" "\<not> stop ph" "list_all (\<lambda>pc. pc = Worker_done) pcs"
  shows "completed ph = total ph"
proof -
  note c = consistentD [OF assms(1)]
  have x: "state_of (workers ph ! i) = WORKER_EXITED \<and> issued (workers ph ! i) = target (workers ph ! i)" if "i < length (workers ph)" for i
    using c(4) [OF that] assms(2,3) c(1) that by (auto simp: list_all_length)
  then have "in_state q ph = {}" if "q \<in> {WORKER_READY, WORKER_IN_FLIGHT}" for q
    using that by (auto simp: in_state_def)
  then have "unat (completed ph) = issued_sum ph"
    using running_ledger [OF assms(1,2)] by (simp add: ledger_def)
  moreover have "issued_sum ph = unat (total ph)"
    using x c(2) by (simp add: phase_ok_def issued_sum_def) (metis (mono_tags, lifting) in_set_conv_nth map_cong)
  ultimately show ?thesis by (simp add: word_unat_eq_iff)
qed

lemma poll_is_woken:
  assumes "bench_ok s" "wakes_ok readable s" "eventfd_wakes be readable" "dispatcher s = Dispatch_polling transport_fd events"
  shows "readable (outside s) \<or> in_flight (phase s) \<noteq> 0 \<and> events AND POLLIN \<noteq> 0 \<or>
      ready (phase s) \<noteq> 0 \<and> events AND POLLOUT \<noteq> 0 \<or>
      (\<exists>i<length (threads s). worker_step be i (threads s ! i) (phase s) (outside s) \<noteq> None)"
proof (rule ccontr)
  assume no: "\<not> ?thesis"
  with assms(2,4) have w: "phase_error (phase s) = 0" "completed (phase s) \<noteq> total (phase s)" "in_flight (phase s) = 0"
      "ready (phase s) = 0"
    by (auto simp: wakes_ok_def)
  have "go (phase s) \<or> stop (phase s)" using bench_okD(2) [OF assms(1)] assms(4) by simp
  then have "list_all (\<lambda>pc. pc = Worker_done) (threads s)"
    using some_worker_runs [OF assms(1,3)] w no assms(4) by auto
  moreover have "consistent (threads s) (phase s) {}" using bench_okD(1) [OF assms(1)] assms(4) by simp
  moreover from this have "\<not> stop (phase s)" using consistentD(2) w(1) by (auto simp: phase_ok_def)
  ultimately show False using all_done_complete w(2) by blast
qed

lemma worker_can_step:
  assumes "\<exists>i<length (threads s). worker_step be i (threads s ! i) (phase s) (outside s) \<noteq> None"
  shows "\<exists>t. bench_step be env rtos s t"
proof -
  from assms obtain i pc ph k where "i < length (threads s)"
    "worker_step be i (threads s ! i) (phase s) (outside s) = Some (pc, ph, k)" by auto
  then show ?thesis by (blast intro: worker_runs)
qed

lemma start_not_stuck:
  assumes "bench_ok s" "eventfd_wakes be readable" "dispatcher s = Dispatch_starting"
  shows "\<exists>t. bench_step be env rtos s t"
proof (cases "started (phase s) < worker_count (phase s) \<and> phase_error (phase s) = 0")
  case True
  note c = consistentD [OF bench_okD(1) [OF assms(1)]]
  have n: "length (threads s) = unat (worker_count (phase s))" "length (threads s) \<le> 8"
    using c(1,2) by (simp_all add: phase_ok_def)
  have "started_count (threads s) \<le> 8"
    using le_trans [OF length_filter_le n(2)] by (simp add: started_count_def)
  then have "unat (started (phase s)) = started_count (threads s)"
    using bench_okD(3) [OF assms(1)] by (simp add: unat_of_nat_u32)
  with n(1) have "started_count (threads s) < length (threads s)" using True by (simp add: word_less_nat_alt)
  moreover have "started_count (threads s) = length (threads s)" if "\<forall>pc\<in>set (threads s). pc \<noteq> Worker_created"
    using filter_True [OF that] by (simp add: started_count_def)
  ultimately have "Worker_created \<in> set (threads s)" by fastforce
  then obtain i where i: "i < length (threads s)" "threads s ! i = Worker_created"
    by (auto simp: in_set_conv_nth)
  then have "worker_step be i (threads s ! i) (phase s) (outside s) \<noteq> None" by (simp add: worker_step_def)
  with i worker_can_step show ?thesis by blast
next
  case False
  obtain r k1 where clk: "raw_clock be (outside s) = (r, k1)" by fastforce
  have "\<exists>t. dispatcher_step be env rtos s = Some t"
  proof (cases r)
    case (Inl e)
    obtain ph k2 where "fail_phase_locked be (- e) (phase s) k1 = Some (ph, k2)" using eventfd_fail [OF assms(2)] by blast
    with Inl clk assms(3) False show ?thesis by (simp add: dispatcher_step_def Let_def)
  next
    case (Inr now)
    with clk assms(3) False show ?thesis by (simp add: dispatcher_step_def Let_def)
  qed
  then show ?thesis by (blast intro: dispatcher_runs)
qed

lemma join_not_stuck:
  assumes "bench_ok s" "eventfd_wakes be readable" "dispatcher s = Dispatch_joining ret"
  shows "\<exists>t. bench_step be env rtos s t"
proof (cases "list_all (\<lambda>pc. pc = Worker_done) (threads s)")
  case True
  then have "\<exists>t. dispatcher_step be env rtos s = Some t" by (simp add: dispatcher_step_def Let_def assms(3))
  then show ?thesis by (blast intro: dispatcher_runs)
next
  case False
  note c = bench_okD(1) [OF assms(1)]
  have "stop (phase s) \<or> held_by (dispatcher s) = {} \<and> ready (phase s) = 0 \<and> in_flight (phase s) = 0"
  proof (cases "stop (phase s)")
    case running: False
    with bench_okD(2) [OF assms(1)] assms(3) have total: "completed (phase s) = total (phase s)" by auto
    have "card (in_state WORKER_READY (phase s)) = 0" "card (in_state WORKER_IN_FLIGHT (phase s)) = 0"
      using outstanding_bound(1,2) [OF c, unfolded total] by linarith+
    then show ?thesis using running_ledger [OF c running] assms(3) by (simp add: ledger_def)
  qed simp
  moreover have "go (phase s) \<or> stop (phase s)" using bench_okD(2) [OF assms(1)] assms(3) by simp
  ultimately show ?thesis by (intro worker_can_step some_worker_runs [OF assms(1,2) _ _ False])
qed


subsection \<open>A run\<close>

text \<open>A schedule names the thread that makes each step, \<^const>\<open>None\<close> the dispatcher.\<close>

fun bench_run ::
  "('k, 'x client_world_scheme) bench_env \<Rightarrow> 'x client_world_scheme linux_env \<Rightarrow> sg2002_rtos option \<Rightarrow> nat option list \<Rightarrow>
    ('k, 'x client_world_scheme) bench_system \<Rightarrow> ('k, 'x client_world_scheme) bench_system option" where
  "bench_run be env rtos [] s = Some s"
| "bench_run be env rtos (None # sched) s = do { t \<leftarrow> dispatcher_step be env rtos s; bench_run be env rtos sched t }"
| "bench_run be env rtos (Some i # sched) s =
     (if i < length (threads s) then do {
        (pc, ph, k) \<leftarrow> worker_step be i (threads s ! i) (phase s) (outside s);
        bench_run be env rtos sched (s\<lparr>phase := ph, outside := k, threads := (threads s)[i := pc]\<rparr>)
      } else None)"

lemma bench_run_reachable:
  "bench_run be env rtos sched s = Some t \<Longrightarrow> (bench_step be env rtos)\<^sup>*\<^sup>* s t"
proof (induction be env rtos sched s rule: bench_run.induct)
  case (2 be env rtos sched s)
  then show ?case
    by (auto simp: bind_eq_Some_conv intro: converse_rtranclp_into_rtranclp dispatcher_runs)
next
  case (3 be env rtos i sched s)
  then show ?case
    by (auto simp: bind_eq_Some_conv split: if_splits intro: converse_rtranclp_into_rtranclp worker_runs)
qed simp

declare signal_dispatcher.simps [code] submit_batch_loop.simps [code] reap_batch_loop.simps [code]

text \<open>One worker and a transport that answers like the firmware.\<close>

definition counting_bench :: "(nat, 'w) bench_env" where
  "counting_bench = \<lparr>wake_write = (\<lambda>v k. (Inr 8, k + 1)),
     wake_read = (\<lambda>k. if k = 0 then (Inl EAGAIN, k) else (Inr (8, of_nat k), 0)),
     raw_clock = (\<lambda>k. (Inr \<lparr>tv_sec = 0, tv_nsec = 0\<rparr>, k)),
     bench_poll = (\<lambda>events timeout k w. (Inr (1, POLLIN, 0), k, w))\<rparr>"

definition one_request :: "(nat, sim_world) bench_system" where
  "one_request = start_phase 1 1 0 0x2468ace0 (Some [0]) 0 (sim_start [] [])"

definition to_response :: "nat option list" where
  "to_response = [Some 0, None, Some 0, None, None, None, None, None, None, None, None]"

definition to_end :: "nat option list" where
  "to_end = [None, None, None, Some 0, None, None]"

lemma response_arrives:
  "case bench_run counting_bench answering_env one_handle to_response one_request of
    Some s \<Rightarrow> (case dispatcher s of Dispatch_complete reaped messages now \<Rightarrow> reaped = 1 | _ \<Rightarrow> False) \<and>
      state_of (workers (phase s) ! 0) = WORKER_IN_FLIGHT \<and>
      (case bench_run counting_bench answering_env one_handle [None] s of
        Some t \<Rightarrow> state_of (workers (phase t) ! 0) = WORKER_COMPLETE | None \<Rightarrow> False)
  | None \<Rightarrow> False"
  by code_simp

lemma phase_ends:
  "case bench_run counting_bench answering_env one_handle (to_response @ to_end) one_request of
    Some s \<Rightarrow> dispatcher s = Dispatch_returned 0 | None \<Rightarrow> False"
  by code_simp

lemma dispatcher_polls:
  "case bench_run counting_bench answering_env one_handle [Some 0, None, None, None, None, None] one_request of
    Some s \<Rightarrow> (case dispatcher s of Dispatch_polling transport_fd events \<Rightarrow> events = 0 | _ \<Rightarrow> False) | None \<Rightarrow> False"
  by code_simp

lemma counting_bench_wakes: "eventfd_wakes counting_bench (\<lambda>k. 0 < k)"
  by (simp add: eventfd_wakes_def counting_bench_def)

lemma response_state:
  "\<exists>s reaped messages now. (bench_step counting_bench answering_env one_handle)\<^sup>*\<^sup>* one_request s \<and>
    dispatcher s = Dispatch_complete reaped messages now \<and> state_of (workers (phase s) ! 0) = WORKER_IN_FLIGHT \<and>
    (\<exists>t. bench_step counting_bench answering_env one_handle s t \<and> state_of (workers (phase t) ! 0) = WORKER_COMPLETE)"
proof -
  obtain s where s: "bench_run counting_bench answering_env one_handle to_response one_request = Some s"
    using response_arrives by (auto split: option.splits)
  then obtain t where t: "bench_run counting_bench answering_env one_handle [None] s = Some t"
      "state_of (workers (phase t) ! 0) = WORKER_COMPLETE"
    using response_arrives by (auto simp del: bench_run.simps split: option.splits)
  have "dispatcher_step counting_bench answering_env one_handle s = Some t"
    using t(1) by (auto simp: bind_eq_Some_conv)
  moreover obtain reaped messages now where "dispatcher s = Dispatch_complete reaped messages now"
    using s response_arrives by (cases "dispatcher s") (auto simp del: bench_run.simps)
  ultimately show ?thesis
    using s t(2) response_arrives bench_run_reachable [OF s] dispatcher_runs by (fastforce simp del: bench_run.simps)
qed

theorem bench_accounts_exact_witness:
  "\<exists>s. (bench_step counting_bench answering_env one_handle)\<^sup>*\<^sup>* one_request s \<and>
    state_of (workers (phase s) ! 0) = WORKER_IN_FLIGHT \<and>
    (phase_error (phase s) = 0 \<longrightarrow>
      unat (ready (phase s)) = workers_in WORKER_READY (phase s) \<and>
      unat (submitting (phase s)) = workers_in WORKER_SUBMITTING (phase s) \<and>
      unat (in_flight (phase s)) = workers_in WORKER_IN_FLIGHT (phase s) \<and>
      unat (completed (phase s)) + workers_in WORKER_READY (phase s) + workers_in WORKER_SUBMITTING (phase s) +
        workers_in WORKER_IN_FLIGHT (phase s) = (\<Sum>x\<leftarrow>workers (phase s). unat (issued x))) \<and>
    (\<forall>i<unat (1 :: u32). issued (workers (phase s) ! i) \<le> worker_target 1 1 (of_nat i)) \<and>
    completed (phase s) \<le> 1 \<and>
    (\<forall>l. latencies (phase s) = Some l \<longrightarrow> length l = unat (1 :: u32))"
proof -
  obtain s where s: "(bench_step counting_bench answering_env one_handle)\<^sup>*\<^sup>* one_request s"
      "state_of (workers (phase s) ! 0) = WORKER_IN_FLIGHT"
    using response_state by blast
  have "(phase_error (phase s) = 0 \<longrightarrow>
      unat (ready (phase s)) = workers_in WORKER_READY (phase s) \<and>
      unat (submitting (phase s)) = workers_in WORKER_SUBMITTING (phase s) \<and>
      unat (in_flight (phase s)) = workers_in WORKER_IN_FLIGHT (phase s) \<and>
      unat (completed (phase s)) + workers_in WORKER_READY (phase s) + workers_in WORKER_SUBMITTING (phase s) +
        workers_in WORKER_IN_FLIGHT (phase s) = (\<Sum>x\<leftarrow>workers (phase s). unat (issued x))) \<and>
    (\<forall>i<unat (1 :: u32). issued (workers (phase s) ! i) \<le> worker_target 1 1 (of_nat i)) \<and>
    completed (phase s) \<le> 1 \<and>
    (\<forall>l. latencies (phase s) = Some l \<longrightarrow> length l = unat (1 :: u32))"
    by (rule bench_accounts_exact [OF _ _ _ _ s(1) [unfolded one_request_def]]) simp_all
  with s show ?thesis by blast
qed

theorem bench_success_completes_all_witness:
  "\<exists>s. (bench_step counting_bench answering_env one_handle)\<^sup>*\<^sup>* one_request s \<and> dispatcher s = Dispatch_returned 0 \<and>
    completed (phase s) = 1 \<and>
    (\<forall>i<unat (1 :: u32). issued (workers (phase s) ! i) = worker_target 1 1 (of_nat i)) \<and>
    workers_in WORKER_READY (phase s) = 0 \<and> workers_in WORKER_IN_FLIGHT (phase s) = 0 \<and>
    threads s = replicate (unat (1 :: u32)) Worker_done"
proof -
  obtain s where run: "bench_run counting_bench answering_env one_handle (to_response @ to_end) one_request = Some s"
      "dispatcher s = Dispatch_returned 0"
    using phase_ends by (auto split: option.splits)
  note s = bench_run_reachable [OF run(1)]
  have "completed (phase s) = 1 \<and>
    (\<forall>i<unat (1 :: u32). issued (workers (phase s) ! i) = worker_target 1 1 (of_nat i)) \<and>
    workers_in WORKER_READY (phase s) = 0 \<and> workers_in WORKER_IN_FLIGHT (phase s) = 0 \<and>
    threads s = replicate (unat (1 :: u32)) Worker_done"
    by (rule bench_success_completes_all [OF _ _ _ _ s [unfolded one_request_def] run(2)]) simp_all
  with s run(2) show ?thesis by blast
qed

theorem completion_is_validated_witness:
  "\<exists>s t. (bench_step counting_bench answering_env one_handle)\<^sup>*\<^sup>* one_request s \<and>
    bench_step counting_bench answering_env one_handle s t \<and> state_of (workers (phase t) ! 0) = WORKER_COMPLETE \<and>
    state_of (workers (phase s) ! 0) = WORKER_IN_FLIGHT \<and>
    (\<exists>reaped messages now j. dispatcher s = Dispatch_complete reaped messages now \<and> j < unat reaped \<and> j < length messages \<and>
      sequence (messages ! j) = worker_sequence (workers (phase s) ! 0) \<and>
      validate_response (payload (messages ! j)) (slot_length (messages ! j)) 0 (worker_seed (workers (phase s) ! 0)) = Some 0)"
proof -
  obtain s t where s: "(bench_step counting_bench answering_env one_handle)\<^sup>*\<^sup>* one_request s"
      "state_of (workers (phase s) ! 0) = WORKER_IN_FLIGHT"
      "bench_step counting_bench answering_env one_handle s t" "state_of (workers (phase t) ! 0) = WORKER_COMPLETE"
    using response_state by blast
  have "state_of (workers (phase s) ! 0) = WORKER_IN_FLIGHT \<and>
    (\<exists>reaped messages now j. dispatcher s = Dispatch_complete reaped messages now \<and> j < unat reaped \<and> j < length messages \<and>
      sequence (messages ! j) = worker_sequence (workers (phase s) ! 0) \<and>
      validate_response (payload (messages ! j)) (slot_length (messages ! j)) 0 (worker_seed (workers (phase s) ! 0)) = Some 0)"
    by (rule completion_is_validated [OF _ _ _ _ s(1) [unfolded one_request_def] s(3) _ s(4)]) (simp_all add: s(2))
  with s show ?thesis by blast
qed


end
