(* ===== verification/Linux_Batches.thy ===== *)
theory Linux_Batches
  imports Linux_Messages
begin

section \<open>What the batch calls of the client library report\<close>

text \<open>
  \<^verbatim>\<open>sg2002_rtos_message_submit_batch\<close> and \<^verbatim>\<open>sg2002_rtos_message_reap_batch\<close> for any answers of the driver, with the
  batch commands and with the fallback to single messages: a call that succeeds has transferred at
  least one message and at most as many as were asked for, so that a loop over batches makes progress and
  stays in its array.
\<close>

subsection \<open>Submitting\<close>

text \<open>A system call that fails reports a positive error number.\<close>

definition errno_positive :: "'w linux_env \<Rightarrow> bool" where
  "errno_positive env \<longleftrightarrow>
     (\<forall>f b ms w e ms' w'. ioctl_submit_batch env f b ms w = (Inl e, ms', w') \<longrightarrow> e > 0) \<and>
     (\<forall>f b ms w e ms' w'. ioctl_reap_batch env f b ms w = (Inl e, ms', w') \<longrightarrow> e > 0)"

lemma submit_single_report:
  assumes "submit_single env r t index n messages w = Some (ret, index', messages', w')"
  shows "index \<le> index' \<and> index' \<le> index + n \<and> (ret = 0 \<longrightarrow> 0 < index')"
  using assms
proof (induction n arbitrary: index messages w)
  case (Suc n)
  let ?m = "messages ! index"
  obtain ret1 seq w1 where s: "message_send_locked env r (Some (payload ?m)) (slot_length ?m)
      (if index = 0 then t else 0) (Some 0) w = Some (ret1, seq, w1)"
    using Suc.prems by (auto simp: Let_def split: Option.bind_split_asm)
  show ?case
  proof (cases "ret1 = 0")
    case False
    then show ?thesis using Suc.prems s by (auto simp: Let_def split: if_splits)
  next
    case True
    then obtain q where "submit_single env r t (Suc index) n (messages[index := ?m\<lparr>sequence := q\<rparr>]) w1 =
        Some (ret, index', messages', w')"
      using Suc.prems s by (auto simp: Let_def split: Option.bind_split_asm)
    from Suc.IH [OF this] show ?thesis by auto
  qed
qed (auto split: if_splits)

text \<open>The report of one attempt, and of the loop.\<close>

definition batch_report :: "u16 \<Rightarrow> int \<Rightarrow> u16 \<Rightarrow> bool" where
  "batch_report count ret completed \<longleftrightarrow> completed \<le> count \<and> (ret = 0 \<longrightarrow> 0 < completed)"

lemma batch_report_zero [simp]: "ret \<noteq> 0 \<Longrightarrow> batch_report count ret 0"
  by (simp add: batch_report_def)

lemma batch_report_of_nat:
  assumes "n \<le> unat count" "ret = 0 \<longrightarrow> 0 < n"
  shows "batch_report count ret (of_nat n)"
proof -
  have "unat (of_nat n :: u16) = n" using assms(1) unat_u16_less [of count] by (intro unat_of_nat_u16) linarith
  then show ?thesis using assms by (simp add: batch_report_def word_le_nat_alt word_less_nat_alt)
qed

lemma submit_batch_locked_report:
  assumes "errno_positive env" "submit_batch_locked env r messages count 0 t w = Some (ret, completed, messages', w')"
  shows "batch_report count ret completed"
proof -
  have f: "batch_report count ret completed" if "submit_fallback env r messages1 count t w1 = Some (ret, completed, messages', w')"
    for messages1 w1
    using that submit_single_report [of env r t 0 "unat count"]
    by (auto simp: submit_fallback_def split: Option.bind_split_asm intro!: batch_report_of_nat)
  have e: "e > 0" if "ioctl_submit_batch env (fd r) b ms v = (Inl e, ms', v')" for b ms v e ms' v'
    using assms(1) that unfolding errno_positive_def by blast
  show ?thesis
    using assms(2) f
    by (auto simp: submit_batch_locked_def batch_report_def word_gt_0 not_less
        split: if_split_asm prod.split_asm sum.split_asm dest!: e)
qed

text \<open>One turn of the loop around such an attempt, for submitting and reaping alike.\<close>

lemma batch_turn_report:
  assumes "(case lock of (ret, w) \<Rightarrow> if ret \<noteq> 0 then Some (- ret, completed, messages, w)
       else do {
         (ret, completed, messages, w) \<leftarrow> attempt w;
         let w = unlock w;
         if \<not> retryable ret then Some (ret, completed, messages, w)
         else do {
           (ret, remaining, w) \<leftarrow> waiting w;
           if ret \<noteq> 0 then Some (ret, completed, messages, w)
           else loop completed messages remaining w
         }
       }) = Some (y :: int \<times> u16 \<times> sg2002_rtos_shm_slot list \<times> 'w)"
    and "\<And>w ret c ms w'. attempt w = Some (ret, c, ms, w') \<Longrightarrow> batch_report count ret c"
    and "\<And>c ms rem w. loop c ms rem w = Some y \<Longrightarrow> c \<le> count \<Longrightarrow> batch_report count (fst y) (fst (snd y))"
    and "completed \<le> count"
  shows "batch_report count (fst y) (fst (snd y))"
proof -
  have b: "batch_report count ret c \<Longrightarrow> ret' \<noteq> 0 \<Longrightarrow> batch_report count ret' c" for ret ret' c by (simp add: batch_report_def)
  have c: "batch_report count ret c \<Longrightarrow> c \<le> count" for ret c by (simp add: batch_report_def)
  show ?thesis
    using assms(1,4)
    by (auto simp: Let_def split: prod.split_asm if_split_asm Option.bind_split_asm dest!: assms(2) intro: assms(3) b c)
      (simp_all add: batch_report_def)
qed

lemma submit_batch_loop_report:
  assumes "submit_batch_loop env r messages count completed t d rem w = Some (ret, completed', messages', w')"
    and "errno_positive env" "completed \<le> count"
  shows "batch_report count ret completed'"
proof -
  let ?P = "\<lambda>e r messages count completed t d rem w y. e = env \<longrightarrow> completed \<le> count \<longrightarrow> batch_report count (fst y) (fst (snd y))"
  have "?P env r messages count completed t d rem w (ret, completed', messages', w')"
  proof (rule submit_batch_loop.raw_induct [where P = ?P, OF _ assms(1)], intro impI, goal_cases)
    case (1 loop e r messages count completed t d rem w y)
    show ?case
      by (rule batch_turn_report [OF 1(2) submit_batch_locked_report])
        (use 1 assms(2) in auto)
  qed
  with assms(2,3) show ?thesis by simp
qed

subsection \<open>Reaping\<close>

lemma reap_single_report:
  assumes "reap_single env r t index n messages w = (ret, index', messages', w')"
  shows "index \<le> index' \<and> index' \<le> index + n \<and> (ret = 0 \<longrightarrow> 0 < index')"
  using assms
proof (induction n arbitrary: index messages w)
  case (Suc n)
  obtain ret1 m w1 where s: "receive_from_kernel_locked env r (messages ! index) (if index = 0 then t else 0) w = (ret1, m, w1)"
    by (metis surj_pair)
  show ?case
  proof (cases "ret1 = 0")
    case False
    then show ?thesis using Suc.prems s by (auto simp: Let_def split: if_splits)
  next
    case True
    then have "reap_single env r t (Suc index) n (messages[index := m]) w1 = (ret, index', messages', w')"
      using Suc.prems s by (simp add: Let_def)
    from Suc.IH [OF this] show ?thesis by auto
  qed
qed (auto split: if_splits)

lemma reap_pending_report:
  assumes "reap_pending env index n messages w = Some (ret, index', messages', w')"
  shows "index \<le> index' \<and> index' \<le> index + n"
  using assms
proof (induction n arbitrary: index messages w)
  case (Suc n)
  obtain ret1 m w1 where s: "take_pending_oldest env (messages ! index) w = Some (ret1, m, w1)"
    using Suc.prems by (auto split: Option.bind_split_asm)
  show ?case
  proof (cases "ret1 \<le> 0")
    case True
    then show ?thesis using Suc.prems s by (auto simp: Let_def split: if_splits)
  next
    case False
    then have "reap_pending env (Suc index) n (messages[index := m]) w1 = Some (ret, index', messages', w')"
      using Suc.prems s by (simp add: Let_def)
    from Suc.IH [OF this] show ?thesis by auto
  qed
qed simp

lemma reap_batch_locked_report:
  assumes "errno_positive env" "reap_batch_locked env r messages count 0 t w = Some (ret, completed, messages', w')"
  shows "batch_report count ret completed"
proof -
  have single: "batch_report count ret (of_nat index)" if "reap_single env r t 0 (unat count) ms v = (ret, index, ms', v')"
    for ms v index ms' v'
    using reap_single_report [OF that] by (auto intro!: batch_report_of_nat)
  have pending: "batch_report count 0 (of_nat index)" if "reap_pending env 0 (unat count) ms v = Some (ret, index, ms', v')" "index > 0"
    for ms v ret index ms' v'
    using reap_pending_report [OF that(1)] that(2) by (auto intro!: batch_report_of_nat)
  have e: "e > 0" if "ioctl_reap_batch env (fd r) b ms v = (Inl e, ms', v')" for b ms v e ms' v'
    using assms(1) that unfolding errno_positive_def by blast
  have b: "c \<noteq> 0 \<Longrightarrow> \<not> c > count \<Longrightarrow> batch_report count 0 c" for c
    by (simp add: batch_report_def word_gt_0 not_less)
  show ?thesis
    using assms(2)
    by (auto simp: reap_batch_locked_def Let_def split: if_split_asm prod.split_asm sum.split_asm Option.bind_split_asm
        dest!: e intro: single pending b)
qed

lemma reap_batch_loop_report:
  assumes "reap_batch_loop env r messages count completed t d rem w = Some (ret, completed', messages', w')"
    and "errno_positive env" "completed \<le> count"
  shows "batch_report count ret completed'"
proof -
  let ?P = "\<lambda>e r messages count completed t d rem w y. e = env \<longrightarrow> completed \<le> count \<longrightarrow> batch_report count (fst y) (fst (snd y))"
  have "?P env r messages count completed t d rem w (ret, completed', messages', w')"
  proof (rule reap_batch_loop.raw_induct [where P = ?P, OF _ assms(1)], intro impI, goal_cases)
    case (1 loop e r messages count completed t d rem w y)
    show ?case
      by (rule batch_turn_report [OF 1(2) reap_batch_locked_report])
        (use 1 assms(2) in auto)
  qed
  with assms(2,3) show ?thesis by simp
qed

subsection \<open>The calls\<close>

lemma submit_batch_report:
  assumes "errno_positive env"
    and "sg2002_rtos_message_submit_batch env rtos messages count (Some c) t w = Some (ret, completed, messages', w')"
  shows "\<exists>n. completed = Some n \<and> batch_report count ret n"
  using assms submit_batch_loop_report [OF _ assms(1), where completed = 0]
  by (auto simp: sg2002_rtos_message_submit_batch_def Let_def split: prod.split_asm option.split_asm if_split_asm Option.bind_split_asm)

lemma reap_batch_report:
  assumes "errno_positive env"
    and "sg2002_rtos_message_reap_batch env rtos messages count (Some c) t w = Some (ret, completed, messages', w')"
  shows "\<exists>n. completed = Some n \<and> batch_report count ret n"
  using assms reap_batch_loop_report [OF _ assms(1), where completed = 0]
  by (auto simp: sg2002_rtos_message_reap_batch_def Let_def split: prod.split_asm option.split_asm if_split_asm Option.bind_split_asm)

end
