(* ===== verification/Window_Bench.thy ===== *)
theory Window_Bench
  imports Bench_Common Linux_Batches
begin

section \<open>The benchmark with a window of requests\<close>

text \<open>
  \<^verbatim>\<open>tools/rtos-bench.c\<close>: one thread keeps up to \<open>window\<close> requests outstanding, singly or in batches, and times
  each of them with a ticket. The client library is the one of \<^verbatim>\<open>Linux_Messages\<close>, the raw clock a parameter.
  The loops may wait for ever and are partial functions; \<^const>\<open>None\<close> also stands for an access
  out of range. The arguments and the report are in \<^verbatim>\<open>Bench_Main\<close>.
\<close>

subsection \<open>State\<close>

abbreviation EDEADLK :: int where "EDEADLK \<equiv> 35"
abbreviation EOVERFLOW :: int where "EOVERFLOW \<equiv> 75"

record window_ticket =
  ticket_sequence :: u32
  ticket_seed :: u32
  ticket_start :: timespec
  active :: bool

record window_stats =
  window_max_in_flight :: u32
  send_eagain :: u64
  receive_eagain :: u64
  poll_wakeups :: u64
  submit_calls :: u64
  reap_calls :: u64

record windowed_phase =
  tickets :: "window_ticket list"
  phase_messages :: "sg2002_rtos_shm_slot list"
  phase_latency :: "u64 list option"
  phase_latency_sum :: u64
  phase_stats :: window_stats
  phase_submitted :: u32
  phase_completed :: u32
  phase_in_flight :: u32
  progressed :: bool

text \<open>What one run is given: the library, the handle, the clock and the arguments.\<close>

record 'w window_run =
  library :: "'w linux_env"
  handle :: "sg2002_rtos option"
  raw_time :: "'w \<Rightarrow> (int + timespec) \<times> 'w"
  request_count :: u32
  echo_bytes :: u32
  first_seed :: u32
  window_size :: u32
  use_batch :: bool

definition find_ticket :: "window_ticket list \<Rightarrow> u32 \<Rightarrow> nat option" where
  "find_ticket ts seq = find (\<lambda>i. active (ts ! i) \<and> ticket_sequence (ts ! i) = seq) [0..<64]"

definition find_free_ticket :: "window_ticket list \<Rightarrow> nat option" where
  "find_free_ticket ts = find (\<lambda>i. \<not> active (ts ! i)) [0..<64]"

definition count_stat :: "(window_stats \<Rightarrow> window_stats) \<Rightarrow> windowed_phase \<Rightarrow> windowed_phase" where
  "count_stat f ph = ph\<lparr>phase_stats := f (phase_stats ph)\<rparr>"

subsection \<open>Taking responses\<close>

definition complete_response ::
  "'w window_run \<Rightarrow> sg2002_rtos_shm_slot \<Rightarrow> windowed_phase \<Rightarrow> 'w \<Rightarrow> (int \<times> windowed_phase \<times> 'w) option" where
  "complete_response run m ph w = (case raw_time run w of
       (Inl e, w) \<Rightarrow> Some (- e, ph, w)
     | (Inr end, w) \<Rightarrow> (case find_ticket (tickets ph) (sequence m) of
         None \<Rightarrow> Some (- EPROTO, ph, w)
       | Some i \<Rightarrow> do {
           let ticket = tickets ph ! i;
           ret \<leftarrow> validate_response (payload m) (slot_length m) (echo_bytes run) (ticket_seed ticket);
           if ret \<noteq> 0 then Some (ret, ph, w)
           else do {
             ph \<leftarrow> (case phase_latency ph of None \<Rightarrow> Some ph
               | Some ls \<Rightarrow>
                   let n = unat (phase_completed ph); taken = elapsed_ns (ticket_start ticket) end
                   in if n < length ls
                      then Some (ph\<lparr>phase_latency := Some (ls[n := taken]), phase_latency_sum := phase_latency_sum ph + taken\<rparr>)
                      else None);
             Some (0, ph\<lparr>tickets := (tickets ph)[i := ticket\<lparr>active := False\<rparr>],
               phase_in_flight := phase_in_flight ph - 1, phase_completed := phase_completed ph + 1\<rparr>, w)
           }
         }))"

text \<open>The loop over the messages that were reaped, with the indices that remain.\<close>

fun complete_responses ::
  "'w window_run \<Rightarrow> nat list \<Rightarrow> windowed_phase \<Rightarrow> 'w \<Rightarrow> (int \<times> windowed_phase \<times> 'w) option" where
  "complete_responses run [] ph w = Some (0, ph, w)"
| "complete_responses run (index # is) ph w =
     (if index \<ge> length (phase_messages ph) then None
      else do {
        (ret, ph, w) \<leftarrow> complete_response run (phase_messages ph ! index) ph w;
        if ret \<noteq> 0 then Some (ret, ph, w) else complete_responses run is ph w
      })"

text \<open>One call of the library for responses: result and number of messages.\<close>

definition reap_some ::
  "'x client_world_scheme window_run \<Rightarrow> windowed_phase \<Rightarrow> 'x client_world_scheme \<Rightarrow>
    (int \<times> u16 \<times> windowed_phase \<times> 'x client_world_scheme) option" where
  "reap_some run ph w =
     (if use_batch run then do {
        (ret, reaped, messages, w) \<leftarrow> sg2002_rtos_message_reap_batch (library run) (handle run) (Some (phase_messages ph))
           (ucast (phase_in_flight ph)) (Some 0) 0 w;
        reaped \<leftarrow> reaped;
        messages \<leftarrow> messages;
        Some (ret, reaped, ph\<lparr>phase_messages := messages\<rparr>, w)
      } else (case phase_messages ph of [] \<Rightarrow> None
        | m # ms \<Rightarrow> do {
            (ret, cells, w) \<leftarrow> sg2002_rtos_message_receive (library run) (handle run) (Some (payload m))
               (of_nat SG2002_RTOS_SHM_PAYLOAD_SIZE) (Some (slot_length m)) (Some (sequence m)) 0 w;
            m \<leftarrow> (case cells of None \<Rightarrow> Some m
              | Some c \<Rightarrow> do {
                  p \<leftarrow> cell_response c;
                  s \<leftarrow> cell_sequence c;
                  Some \<lparr>sequence = s, slot_length = cell_length c, payload = p\<rparr>
                });
            Some (ret, if ret = 0 then 1 else 0, ph\<lparr>phase_messages := m # ms\<rparr>, w)
          }))"

text \<open>The loops answer \<open>Inl ret\<close> where the code goes to \<^verbatim>\<open>out\<close>.\<close>

partial_function (option) reap_loop ::
  "'x client_world_scheme window_run \<Rightarrow> windowed_phase \<Rightarrow> 'x client_world_scheme \<Rightarrow>
    ((int + unit) \<times> windowed_phase \<times> 'x client_world_scheme) option" where
  "reap_loop run ph w =
     (if \<not> phase_in_flight ph > 0 then Some (Inr (), ph, w)
      else do {
        (ret, reaped, ph, w) \<leftarrow> reap_some run (count_stat (\<lambda>st. st\<lparr>reap_calls := reap_calls st + 1\<rparr>) ph) w;
        if ret = - EAGAIN
        then Some (Inr (), count_stat (\<lambda>st. st\<lparr>receive_eagain := receive_eagain st + 1\<rparr>) ph, w)
        else if ret \<noteq> 0 then Some (Inl ret, ph, w)
        else do {
          (ret, ph, w) \<leftarrow> complete_responses run [0..<unat reaped] ph w;
          if ret \<noteq> 0 then Some (Inl ret, ph, w) else reap_loop run (ph\<lparr>progressed := True\<rparr>) w
        }
      })"

subsection \<open>Submitting requests\<close>

fun prepare_requests :: "'w window_run \<Rightarrow> nat list \<Rightarrow> windowed_phase \<Rightarrow> windowed_phase option" where
  "prepare_requests run [] ph = Some ph"
| "prepare_requests run (index # is) ph =
     (if index \<ge> length (phase_messages ph) then None
      else do {
        (bytes, len) \<leftarrow> build_request (payload zero_slot) (echo_bytes run) (first_seed run + phase_submitted ph + of_nat index);
        prepare_requests run is (ph\<lparr>phase_messages := (phase_messages ph)[index := zero_slot\<lparr>payload := bytes, slot_length := len\<rparr>]\<rparr>)
      })"

definition submit_some ::
  "'x client_world_scheme window_run \<Rightarrow> u16 \<Rightarrow> windowed_phase \<Rightarrow> 'x client_world_scheme \<Rightarrow>
    (int \<times> u16 \<times> windowed_phase \<times> 'x client_world_scheme) option" where
  "submit_some run submit_count ph w =
     (if use_batch run then do {
        (ret, submitted_now, messages, w) \<leftarrow> sg2002_rtos_message_submit_batch (library run) (handle run)
           (Some (phase_messages ph)) submit_count (Some 0) 0 w;
        submitted_now \<leftarrow> submitted_now;
        messages \<leftarrow> messages;
        Some (ret, submitted_now, ph\<lparr>phase_messages := messages\<rparr>, w)
      } else (case phase_messages ph of [] \<Rightarrow> None
        | m # ms \<Rightarrow> do {
            (ret, seq, w) \<leftarrow> sg2002_rtos_message_send (library run) (handle run) (Some (payload m)) (slot_length m) 0
               (Some (sequence m)) w;
            seq \<leftarrow> seq;
            Some (ret, if ret = 0 then 1 else 0, ph\<lparr>phase_messages := m\<lparr>sequence := seq\<rparr> # ms\<rparr>, w)
          }))"

text \<open>The loop that gives each accepted request a ticket.\<close>

fun record_tickets :: "'w window_run \<Rightarrow> timespec \<Rightarrow> nat list \<Rightarrow> windowed_phase \<Rightarrow> ((int + unit) \<times> windowed_phase) option" where
  "record_tickets run start [] ph = Some (Inr (), ph)"
| "record_tickets run start (index # is) ph =
     (if index \<ge> length (phase_messages ph) then None
      else let seq = sequence (phase_messages ph ! index) in
        if find_ticket (tickets ph) seq \<noteq> None then Some (Inl (- EPROTO), ph)
        else case find_free_ticket (tickets ph) of None \<Rightarrow> Some (Inl (- EOVERFLOW), ph)
        | Some i \<Rightarrow> record_tickets run start is (ph\<lparr>tickets := (tickets ph)[i :=
            \<lparr>ticket_sequence = seq, ticket_seed = first_seed run + phase_submitted ph + of_nat index, ticket_start = start,
              active = True\<rparr>]\<rparr>))"

definition submit_size :: "'w window_run \<Rightarrow> windowed_phase \<Rightarrow> u16" where
  "submit_size run ph =
     (let submit_count = (if use_batch run then ucast (window_size run - phase_in_flight ph) else 1) :: u16;
          remaining = request_count run - phase_submitted ph
      in if ucast submit_count > remaining then ucast remaining else submit_count)"

partial_function (option) submit_loop ::
  "'x client_world_scheme window_run \<Rightarrow> windowed_phase \<Rightarrow> 'x client_world_scheme \<Rightarrow>
    ((int + unit) \<times> windowed_phase \<times> 'x client_world_scheme) option" where
  "submit_loop run ph w =
     (if \<not> (phase_submitted ph < request_count run \<and> phase_in_flight ph < window_size run) then Some (Inr (), ph, w)
      else do {
        let submit_count = submit_size run ph;
        ph \<leftarrow> prepare_requests run [0..<unat submit_count] ph;
        (case raw_time run w of
           (Inl e, w) \<Rightarrow> Some (Inl (- e), ph, w)
         | (Inr start, w) \<Rightarrow> do {
             (ret, submitted_now, ph, w) \<leftarrow> submit_some run submit_count
                (count_stat (\<lambda>st. st\<lparr>submit_calls := submit_calls st + 1\<rparr>) ph) w;
             if ret = - EAGAIN then Some (Inr (), count_stat (\<lambda>st. st\<lparr>send_eagain := send_eagain st + 1\<rparr>) ph, w)
             else if ret \<noteq> 0 then Some (Inl ret, ph, w)
             else do {
               (res, ph) \<leftarrow> record_tickets run start [0..<unat submitted_now] ph;
               (case res of Inl ret \<Rightarrow> Some (Inl ret, ph, w)
                | Inr _ \<Rightarrow>
                    let ph = ph\<lparr>phase_submitted := phase_submitted ph + ucast submitted_now,
                          phase_in_flight := phase_in_flight ph + ucast submitted_now\<rparr>;
                        ph = count_stat (\<lambda>st. st\<lparr>window_max_in_flight :=
                          (if phase_in_flight ph > window_max_in_flight st then phase_in_flight ph else window_max_in_flight st)\<rparr>) ph
                    in submit_loop run (ph\<lparr>progressed := True\<rparr>) w)
             }
           })
      })"

subsection \<open>The phase\<close>

definition window_events :: "'w window_run \<Rightarrow> windowed_phase \<Rightarrow> 16 word" where
  "window_events run ph = (if phase_in_flight ph > 0 then POLLIN else 0) OR
     (if phase_submitted ph < request_count run \<and> phase_in_flight ph < window_size run then POLLOUT else 0)"

definition wait_window ::
  "'x client_world_scheme window_run \<Rightarrow> windowed_phase \<Rightarrow> 'x client_world_scheme \<Rightarrow>
    ((int + unit) \<times> windowed_phase \<times> 'x client_world_scheme) option" where
  "wait_window run ph w =
     (let events = window_events run ph in
      if events = 0 then Some (Inl (- EDEADLK), ph, w)
      else do {
        (ret, revents, w) \<leftarrow> sg2002_rtos_wait (library run) (handle run) events (Some 0) (ucast SG2002_RTOS_DEFAULT_TIMEOUT_MS) w;
        revents \<leftarrow> revents;
        let woken = count_stat (\<lambda>st. st\<lparr>poll_wakeups := poll_wakeups st + 1\<rparr>) ph;
        Some (if ret < 0 then (if ret = - EINTR then (Inr (), ph, w) else (Inl ret, ph, w))
              else if ret = 0 then (Inl (- ETIMEDOUT), ph, w)
              else if revents AND POLLNVAL \<noteq> 0 then (Inl (- EBADF), woken, w)
              else if revents AND (POLLERR OR POLLHUP) \<noteq> 0 then (Inl (- ENOTCONN), woken, w)
              else if revents AND events = 0 then (Inl (- EIO), woken, w)
              else (Inr (), woken, w))
      })"

partial_function (option) window_loop ::
  "'x client_world_scheme window_run \<Rightarrow> windowed_phase \<Rightarrow> 'x client_world_scheme \<Rightarrow>
    (int \<times> windowed_phase \<times> 'x client_world_scheme) option" where
  "window_loop run ph w =
     (if \<not> phase_completed ph < request_count run then Some (0, ph, w)
      else do {
        (res, ph, w) \<leftarrow> reap_loop run (ph\<lparr>progressed := False\<rparr>) w;
        (case res of Inl ret \<Rightarrow> Some (ret, ph, w)
         | Inr _ \<Rightarrow> do {
             (res, ph, w) \<leftarrow> submit_loop run ph w;
             (case res of Inl ret \<Rightarrow> Some (ret, ph, w)
              | Inr _ \<Rightarrow>
                  if phase_completed ph = request_count run then Some (0, ph, w)
                  else if progressed ph then window_loop run ph w
                  else do {
                    (res, ph, w) \<leftarrow> wait_window run ph w;
                    (case res of Inl ret \<Rightarrow> Some (ret, ph, w) | Inr _ \<Rightarrow> window_loop run ph w)
                  })
           })
      })"

text \<open>The phase starts with empty tickets and messages; \<open>outputs\<close> says that no result pointer is null. The
  completed count and the statistics are in the state that is returned.\<close>

definition no_ticket :: window_ticket where
  "no_ticket = \<lparr>ticket_sequence = 0, ticket_seed = 0, ticket_start = \<lparr>tv_sec = 0, tv_nsec = 0\<rparr>, active = False\<rparr>"

definition new_window :: "u64 list option \<Rightarrow> windowed_phase" where
  "new_window latency = \<lparr>tickets = replicate 64 no_ticket, phase_messages = replicate 64 zero_slot, phase_latency = latency,
     phase_latency_sum = 0,
     phase_stats = \<lparr>window_max_in_flight = 0, send_eagain = 0, receive_eagain = 0, poll_wakeups = 0, submit_calls = 0, reap_calls = 0\<rparr>,
     phase_submitted = 0, phase_completed = 0, phase_in_flight = 0, progressed = False\<rparr>"

definition run_windowed_phase ::
  "'x client_world_scheme window_run \<Rightarrow> u64 list option \<Rightarrow> bool \<Rightarrow> 'x client_world_scheme \<Rightarrow>
    (int \<times> windowed_phase \<times> 'x client_world_scheme) option" where
  "run_windowed_phase run latency outputs w =
     (if \<not> outputs then Some (- EINVAL, new_window latency, w) else window_loop run (new_window latency) w)"

subsection \<open>The invariant\<close>

definition active_tickets :: "windowed_phase \<Rightarrow> nat set" where
  "active_tickets ph = {i. i < 64 \<and> active (tickets ph ! i)}"

text \<open>The counters, which also hold when the phase ends with an error.\<close>

definition window_bounds :: "'w window_run \<Rightarrow> windowed_phase \<Rightarrow> bool" where
  "window_bounds run ph \<longleftrightarrow>
     unat (phase_submitted ph) = unat (phase_completed ph) + unat (phase_in_flight ph) \<and>
     phase_submitted ph \<le> request_count run \<and> phase_in_flight ph \<le> window_size run \<and>
     window_max_in_flight (phase_stats ph) \<le> window_size run \<and>
     (\<forall>ls. phase_latency ph = Some ls \<longrightarrow> length ls = unat (request_count run) \<and>
        phase_latency_sum ph = sum_list (take (unat (phase_completed ph)) ls))"

text \<open>The tickets: \<open>k\<close> requests have one already and are not counted as in flight yet.\<close>

definition window_ok :: "'w window_run \<Rightarrow> nat \<Rightarrow> windowed_phase \<Rightarrow> bool" where
  "window_ok run k ph \<longleftrightarrow> window_bounds run ph \<and> length (tickets ph) = 64 \<and>
     card (active_tickets ph) = unat (phase_in_flight ph) + k \<and>
     inj_on (\<lambda>i. ticket_sequence (tickets ph ! i)) (active_tickets ph)"

definition run_ok :: "'x client_world_scheme window_run \<Rightarrow> bool" where
  "run_ok run \<longleftrightarrow> errno_positive (library run) \<and> (\<forall>w e w'. raw_time run w = (Inl e, w') \<longrightarrow> e > 0) \<and>
     0 < window_size run \<and> window_size run \<le> 64"

lemma finite_active [simp]: "finite (active_tickets ph)"
  by (rule finite_subset [of _ "{..<64}"]) (auto simp: active_tickets_def)

lemma window_okD:
  assumes "window_ok run k ph"
  shows "window_bounds run ph" "length (tickets ph) = 64" "card (active_tickets ph) = unat (phase_in_flight ph) + k"
    "inj_on (\<lambda>i. ticket_sequence (tickets ph ! i)) (active_tickets ph)"
    "unat (phase_submitted ph) = unat (phase_completed ph) + unat (phase_in_flight ph)"
    "unat (phase_submitted ph) \<le> unat (request_count run)" "unat (phase_in_flight ph) \<le> unat (window_size run)"
  using assms by (simp_all add: window_ok_def window_bounds_def word_le_nat_alt)

lemma window_unaffected [simp]:
  "window_ok run k (ph\<lparr>phase_messages := ms\<rparr>) = window_ok run k ph"
  "window_ok run k (ph\<lparr>progressed := b\<rparr>) = window_ok run k ph"
  "window_bounds run (ph\<lparr>phase_messages := ms\<rparr>) = window_bounds run ph"
  "(\<And>st. window_max_in_flight (f st) = window_max_in_flight st) \<Longrightarrow> window_ok run k (count_stat f ph) = window_ok run k ph"
  "(\<And>st. window_max_in_flight (f st) = window_max_in_flight st) \<Longrightarrow> window_bounds run (count_stat f ph) = window_bounds run ph"
  by (simp_all add: window_ok_def window_bounds_def active_tickets_def count_stat_def)

lemma find_range:
  "find P [0..<n] = Some i \<Longrightarrow> i < n \<and> P i" "find P [0..<n] = None \<Longrightarrow> \<forall>i<n. \<not> P i"
  by (auto simp: find_Some_iff find_None_iff)

lemma active_update:
  assumes "length (tickets ph) = 64" "i < 64"
  shows "active_tickets (ph\<lparr>tickets := (tickets ph)[i := t]\<rparr>) =
    (if active t then insert i (active_tickets ph) else active_tickets ph - {i})"
  using assms by (auto simp: active_tickets_def nth_list_update)

lemma unat_plus_bounded: 
  fixes a b c :: u32
  assumes "unat a + unat b \<le> unat c"
  shows "unat (a + b) = unat a + unat b"
  using assms unat_u32_less [of c] unfolding unat_word_ariths by (intro mod_less) (simp del: unat_u32_less)

text \<open>Completing a response: an active ticket becomes free, its latency is stored, and the counters move with it.\<close>

lemma sum_list_take_update:
  "n < length ls \<Longrightarrow> sum_list (take (Suc n) (ls[n := v])) = sum_list (take n ls) + (v :: 'a :: comm_monoid_add)"
  by (simp add: take_Suc_conv_app_nth)

lemma window_ok_free:
  assumes "window_ok run 0 ph" "i < 64" "active (tickets ph ! i)" "\<not> active t"
    and l: "(phase_latency ph = None \<and> latency = None) \<or>
      (\<exists>ls. phase_latency ph = Some ls \<and> latency = Some (ls[unat (phase_completed ph) := v]) \<and> lsum = phase_latency_sum ph + v)"
  shows "window_ok run 0 (ph\<lparr>phase_latency := latency, phase_latency_sum := lsum, tickets := (tickets ph)[i := t],
    phase_in_flight := phase_in_flight ph - 1, phase_completed := phase_completed ph + 1\<rparr>)" (is "window_ok run 0 ?ph")
proof -
  note d = window_okD [OF assms(1)]
  have a: "active_tickets ?ph = active_tickets ph - {i}"
    using active_update [OF d(2) assms(2), of t] assms(4) by (simp add: active_tickets_def)
  have i: "i \<in> active_tickets ph" using assms(2,3) by (simp add: active_tickets_def)
  then have "0 < card (active_tickets ph)" by (auto simp: card_gt_0_iff)
  then have f: "0 < unat (phase_in_flight ph)" using d(3) by simp
  then have u: "unat (phase_in_flight ph - 1) = unat (phase_in_flight ph) - 1" by (simp add: unat_gt_0 unat_minus_one)
  have less: "unat (phase_completed ph) < unat (request_count run)" using d(5,6) f by linarith
  then have c: "unat (phase_completed ph + 1) = Suc (unat (phase_completed ph))"
    using unat_plus_bounded [of "phase_completed ph" 1 "request_count run"] by simp
  have "card (active_tickets ?ph) = unat (phase_in_flight ?ph)" using a i d(3) u by (simp add: card_Diff_singleton)
  moreover have "inj_on (\<lambda>j. ticket_sequence (tickets ?ph ! j)) (active_tickets ?ph)"
    using d(4) a by (auto simp: inj_on_def)
  moreover have "window_bounds run ?ph"
    using d(1,5,6,7) u c f l less by (auto simp: window_bounds_def word_le_nat_alt sum_list_take_update)
  ultimately show ?thesis using d(2) by (simp add: window_ok_def)
qed

lemma complete_response_ok:
  assumes "window_ok run 0 ph" "complete_response run m ph w = Some (ret, ph', w')"
  shows "window_ok run 0 ph'"
proof (cases "raw_time run w")
  case (Pair r w1)
  show ?thesis
  proof (cases r)
    case (Inl e)
    then show ?thesis using assms Pair by (simp add: complete_response_def)
  next
    case (Inr now)
    show ?thesis
    proof (cases "find_ticket (tickets ph) (sequence m)")
      case None
      then show ?thesis using assms Pair Inr by (simp add: complete_response_def)
    next
      case (Some i)
      then have i: "i < 64" "active (tickets ph ! i)"
        using find_range(1) [of _ 64 i] by (auto simp: find_ticket_def)
      let ?t = "(tickets ph ! i)\<lparr>active := False\<rparr>" and ?v = "elapsed_ns (ticket_start (tickets ph ! i)) now"
      note free = window_ok_free [where i = i and t = ?t and v = ?v, OF assms(1) i]
      show ?thesis
      proof (cases "phase_latency ph")
        case l: None
        have keep: "ph\<lparr>phase_latency := None, phase_latency_sum := phase_latency_sum ph\<rparr> = ph" using l by simp
        show ?thesis
          using assms Pair Inr Some l free [where latency = None and lsum = "phase_latency_sum ph", unfolded keep]
          by (auto simp: complete_response_def Let_def split: Option.bind_split_asm if_split_asm)
      next
        case l: (Some ls)
        show ?thesis
          using assms Pair Inr Some l
            free [where latency = "Some (ls[unat (phase_completed ph) := ?v])" and lsum = "phase_latency_sum ph + ?v"]
          by (auto simp: complete_response_def Let_def split: Option.bind_split_asm if_split_asm)
      qed
    qed
  qed
qed

lemma complete_responses_ok:
  "window_ok run 0 ph \<Longrightarrow> complete_responses run is ph w = Some (ret, ph', w') \<Longrightarrow> window_ok run 0 ph'"
  by (induction run "is" ph w rule: complete_responses.induct)
    (auto split: if_split_asm Option.bind_split_asm dest: complete_response_ok)

lemma reap_some_ok:
  "window_ok run k ph \<Longrightarrow> reap_some run ph w = Some (ret, n, ph', w') \<Longrightarrow> window_ok run k ph'"
  by (auto simp: reap_some_def split: if_split_asm Option.bind_split_asm prod.split_asm list.split_asm option.split_asm)

lemma reap_loop_ok:
  assumes "reap_loop run ph w = Some (res, ph', w')" "window_ok run 0 ph"
  shows "window_ok run 0 ph' \<and> res \<noteq> Inl 0"
proof -
  let ?P = "\<lambda>run ph w y. window_ok run 0 ph \<longrightarrow> window_ok run 0 (fst (snd y)) \<and> fst y \<noteq> Inl 0"
  have "?P run ph w (res, ph', w')"
  proof (rule reap_loop.raw_induct [where P = ?P, OF _ assms(1)], intro impI, goal_cases)
    case (1 loop run ph w y)
    let ?ph = "count_stat (\<lambda>st. st\<lparr>reap_calls := reap_calls st + 1\<rparr>) ph"
    show ?case
    proof (cases "phase_in_flight ph > 0")
      case False
      then show ?thesis using 1 by auto
    next
      case True
      then obtain ret n ph1 w1 where r: "reap_some run ?ph w = Some (ret, n, ph1, w1)"
        using 1(2) by (auto split: Option.bind_split_asm)
      then have ok1: "window_ok run 0 ph1" using reap_some_ok [of run 0 ?ph w] 1(3) by simp
      show ?thesis
      proof (cases "ret = 0")
        case False
        then show ?thesis using 1(2) True r ok1 by (auto split: if_split_asm)
      next
        case ret: True
        then obtain ret2 ph2 w2 where c: "complete_responses run [0..<unat n] ph1 w1 = Some (ret2, ph2, w2)"
          using 1(2) True r by (auto split: Option.bind_split_asm)
        note ok2 = complete_responses_ok [OF ok1 c]
        show ?thesis using 1(1,2) True r ret c ok2 by (auto split: if_split_asm)
      qed
    qed
  qed
  with assms(2) show ?thesis by simp
qed


subsection \<open>Submitting keeps it\<close>

lemma prepare_requests_messages:
  "prepare_requests run is ph = Some ph' \<Longrightarrow> \<exists>ms. ph' = ph\<lparr>phase_messages := ms\<rparr>"
proof (induction run "is" ph rule: prepare_requests.induct)
  case (1 run ph)
  then show ?case by (intro exI [of _ "phase_messages ph"]) simp
next
  case (2 run index "is" ph)
  then show ?case by (fastforce split: if_split_asm Option.bind_split_asm)
qed

lemma submit_some_report:
  assumes "run_ok run" "0 < c" "submit_some run c ph w = Some (ret, n, ph', w')"
  shows "n \<le> c \<and> (\<exists>ms. ph' = ph\<lparr>phase_messages := ms\<rparr>)"
proof (cases "use_batch run")
  case True
  then obtain completed ms where b: "sg2002_rtos_message_submit_batch (library run) (handle run)
      (Some (phase_messages ph)) c (Some 0) 0 w = Some (ret, Some n, ms, w')" "ph' = ph\<lparr>phase_messages := the ms\<rparr>"
    using assms(3) by (auto simp: submit_some_def split: Option.bind_split_asm)
  have "batch_report c ret n" using submit_batch_report [OF _ b(1)] assms(1) by (auto simp: run_ok_def)
  then show ?thesis using b(2) by (auto simp: batch_report_def)
next
  case False
  then show ?thesis
    using assms(2,3)
    by (auto simp: submit_some_def word_le_nat_alt word_less_nat_alt split: list.split_asm Option.bind_split_asm if_split_asm)
qed

lemma unat_ucast_u16: "unat (ucast (n :: u16) :: u32) = unat n"
  using unat_u16_less [of n] by (simp add: unsigned_ucast_eq take_bit_nat_eq_self del: unat_u16_less)

lemma submit_size_bounds:
  assumes "window_bounds run ph" "phase_submitted ph < request_count run" "phase_in_flight ph < window_size run" "run_ok run"
  shows "0 < submit_size run ph"
    "unat (submit_size run ph) \<le> unat (window_size run) - unat (phase_in_flight ph)"
    "unat (submit_size run ph) \<le> unat (request_count run) - unat (phase_submitted ph)"
proof -
  let ?room = "window_size run - phase_in_flight ph" and ?left = "request_count run - phase_submitted ph"
  have room: "unat ?room = unat (window_size run) - unat (phase_in_flight ph)"
    using assms(3) by (intro unat_sub) simp
  have left: "unat ?left = unat (request_count run) - unat (phase_submitted ph)"
    using assms(2) by (intro unat_sub) simp
  have r: "0 < unat ?room" "unat ?room \<le> 64"
    using room assms(3,4) by (auto simp: run_ok_def word_less_nat_alt word_le_nat_alt)
  have l: "0 < unat ?left" using left assms(2) by (simp add: word_less_nat_alt)
  have "unat (ucast ?room :: u16) = unat ?room" using r(2) by (simp add: unsigned_ucast_eq take_bit_nat_eq_self)
  moreover have "unat (ucast ?left :: u16) = unat ?left" if "unat ?left < 65536" using that by (simp add: unsigned_ucast_eq take_bit_nat_eq_self)
  ultimately show "0 < submit_size run ph"
    "unat (submit_size run ph) \<le> unat (window_size run) - unat (phase_in_flight ph)"
    "unat (submit_size run ph) \<le> unat (request_count run) - unat (phase_submitted ph)"
    using r l room left by (auto simp: submit_size_def Let_def word_less_nat_alt unat_ucast_u16)
qed

lemma window_ok_take:
  assumes "window_ok run k ph" "i < 64" "\<not> active (tickets ph ! i)" "active t" "find_ticket (tickets ph) (ticket_sequence t) = None"
  shows "window_ok run (Suc k) (ph\<lparr>tickets := (tickets ph)[i := t]\<rparr>)" (is "window_ok run _ ?ph")
proof -
  note d = window_okD [OF assms(1)]
  have a: "active_tickets ?ph = insert i (active_tickets ph)"
    using active_update [OF d(2) assms(2), of t] assms(4) by simp
  have i: "i \<notin> active_tickets ph" using assms(3) by (simp add: active_tickets_def)
  have new: "\<forall>j<64. \<not> (active (tickets ph ! j) \<and> ticket_sequence (tickets ph ! j) = ticket_sequence t)"
    using assms(5) unfolding find_ticket_def by (rule find_range(2))
  have "inj_on (\<lambda>j. ticket_sequence (tickets ?ph ! j)) (active_tickets ?ph)"
    unfolding a using d(2,4) i new assms(2)
    by (auto simp: inj_on_def active_tickets_def nth_list_update)
  then show ?thesis
    using d(1,2,3) a i by (simp add: window_ok_def window_bounds_def)
qed

text \<open>There is always a free ticket: the error for a full table is never reported here.\<close>

lemma record_tickets_ok:
  assumes "window_ok run k ph" "unat (phase_in_flight ph) + k + length is \<le> 64"
    "record_tickets run start is ph = Some (res, ph')"
  shows "window_bounds run ph' \<and> phase_submitted ph' = phase_submitted ph \<and> phase_in_flight ph' = phase_in_flight ph \<and>
    (case res of Inl e \<Rightarrow> e = - EPROTO | Inr _ \<Rightarrow> window_ok run (k + length is) ph')"
  using assms
proof (induction "is" arbitrary: k ph)
  case Nil
  then show ?case by (auto dest: window_okD)
next
  case (Cons index "is")
  let ?seq = "sequence (phase_messages ph ! index)"
  note d = window_okD [OF Cons.prems(1)]
  have r: "index < length (phase_messages ph)" using Cons.prems(3) by (auto split: if_split_asm)
  show ?case
  proof (cases "find_ticket (tickets ph) ?seq")
    case (Some j)
    then show ?thesis using Cons.prems r d(1) by auto
  next
    case None
    have "find_free_ticket (tickets ph) \<noteq> None"
    proof
      assume "find_free_ticket (tickets ph) = None"
      then have "\<forall>i<64. \<not> \<not> active (tickets ph ! i)" unfolding find_free_ticket_def by (rule find_range(2))
      then have "active_tickets ph = {..<64}" by (auto simp: active_tickets_def)
      then show False using d(3) Cons.prems(2) by simp
    qed
    then obtain i where i: "find_free_ticket (tickets ph) = Some i" by auto
    then have free: "i < 64" "\<not> active (tickets ph ! i)"
      using find_range(1) [of _ 64 i] by (auto simp: find_free_ticket_def)
    let ?t = "\<lparr>ticket_sequence = ?seq, ticket_seed = first_seed run + phase_submitted ph + of_nat index, ticket_start = start,
      active = True\<rparr>"
    let ?ph = "ph\<lparr>tickets := (tickets ph)[i := ?t]\<rparr>"
    have "window_ok run (Suc k) ?ph" using window_ok_take [OF Cons.prems(1) free, of ?t] None by simp
    moreover have "record_tickets run start is ?ph = Some (res, ph')"
      using Cons.prems(3) r None i by (simp add: Let_def)
    ultimately show ?thesis using Cons.IH [of "Suc k" ?ph] Cons.prems(2) by (simp split: sum.splits)
  qed
qed

lemma window_ok_count:
  fixes ph :: windowed_phase and n :: u32
  defines "new \<equiv> ph\<lparr>phase_submitted := phase_submitted ph + n, phase_in_flight := phase_in_flight ph + n\<rparr>"
  assumes "window_ok run (unat n) ph" "unat (phase_submitted ph) + unat n \<le> unat (request_count run)"
    "unat (phase_in_flight ph) + unat n \<le> unat (window_size run)"
  shows "window_ok run 0 (count_stat (\<lambda>st. st\<lparr>window_max_in_flight :=
      (if phase_in_flight new > window_max_in_flight st then phase_in_flight new else window_max_in_flight st)\<rparr>) new)"
  using assms(2-) window_okD [OF assms(2)] unat_plus_bounded [OF assms(3)] unat_plus_bounded [OF assms(4)]
  by (simp add: new_def window_ok_def window_bounds_def active_tickets_def count_stat_def word_le_nat_alt)

definition submit_outcome :: "'w window_run \<Rightarrow> (int + unit) \<times> windowed_phase \<times> 'v \<Rightarrow> bool" where
  "submit_outcome run y \<longleftrightarrow> window_bounds run (fst (snd y)) \<and>
     (case fst y of Inl e \<Rightarrow> e \<noteq> 0 | Inr _ \<Rightarrow> window_ok run 0 (fst (snd y)))"

lemma submit_loop_ok:
  assumes "submit_loop run ph w = Some y" "run_ok run" "window_ok run 0 ph"
  shows "submit_outcome run y"
proof -
  let ?P = "\<lambda>r ph w y. r = run \<longrightarrow> window_ok run 0 ph \<longrightarrow> submit_outcome run y"
  have "?P run ph w y"
  proof (rule submit_loop.raw_induct [where P = ?P, OF _ assms(1)], intro impI, goal_cases)
    case (1 loop r ph w y)
    note IH = 1(1) [rule_format, OF _ 1(3), unfolded 1(3)] and body = 1(2) [unfolded 1(3)] and ok = 1(4)
    note d = window_okD [OF ok]
    show ?case
    proof (cases "phase_submitted ph < request_count run \<and> phase_in_flight ph < window_size run")
      case False
      then show ?thesis using body ok d(1) by (auto simp: submit_outcome_def)
    next
      case more: True
      note size = submit_size_bounds [OF d(1) more [THEN conjunct1] more [THEN conjunct2] assms(2)]
      obtain ms where p: "prepare_requests run [0..<unat (submit_size run ph)] ph = Some (ph\<lparr>phase_messages := ms\<rparr>)"
        using body more prepare_requests_messages by (fastforce simp: Let_def split: Option.bind_split_asm)
      let ?ph = "ph\<lparr>phase_messages := ms\<rparr>"
      have okm: "window_ok run 0 ?ph" using ok by simp
      show ?thesis
      proof (cases "raw_time run w")
        case (Pair t w1)
        show ?thesis
        proof (cases t)
          case (Inl e)
          then have "e > 0" using Pair assms(2) unfolding run_ok_def by blast
          then show ?thesis using body more p Pair Inl d(1) by (auto simp: submit_outcome_def Let_def)
        next
          case (Inr start)
          let ?phc = "count_stat (\<lambda>st. st\<lparr>submit_calls := submit_calls st + 1\<rparr>) ?ph"
          obtain ret n phs w2 where s: "submit_some run (submit_size run ph) ?phc w1 = Some (ret, n, phs, w2)"
            using body more p Pair Inr by (auto simp: Let_def split: Option.bind_split_asm)
          obtain ms2 where n: "n \<le> submit_size run ph" and phs: "phs = ?phc\<lparr>phase_messages := ms2\<rparr>"
            using submit_some_report [OF assms(2) size(1) s] by blast
          have oks: "window_ok run 0 phs" unfolding phs using okm by simp
          have same: "phase_submitted phs = phase_submitted ph" "phase_in_flight phs = phase_in_flight ph"
            unfolding phs by (simp_all add: count_stat_def)
          show ?thesis
          proof (cases "ret = 0")
            case False
            then show ?thesis using body more p Pair Inr s oks window_okD(1) [OF oks]
              by (auto simp: submit_outcome_def Let_def split: if_split_asm)
          next
            case ret: True
            obtain res ph2 where t: "record_tickets run start [0..<unat n] phs = Some (res, ph2)"
              using body more p Pair Inr s ret by (auto simp: Let_def split: Option.bind_split_asm)
            have nn: "unat n \<le> unat (window_size run) - unat (phase_in_flight ph)"
              "unat n \<le> unat (request_count run) - unat (phase_submitted ph)"
              using n size(2,3) by (auto simp: word_le_nat_alt)
            have w64: "unat (window_size run) \<le> 64" using assms(2) by (auto simp: run_ok_def word_le_nat_alt)
            have fits: "unat (phase_in_flight phs) + 0 + length [0..<unat n] \<le> 64"
              using nn(1) w64 d(7) same by simp
            have rec: "window_bounds run ph2 \<and> phase_submitted ph2 = phase_submitted ph \<and>
                phase_in_flight ph2 = phase_in_flight ph \<and>
                (case res of Inl e \<Rightarrow> e = - EPROTO | Inr _ \<Rightarrow> window_ok run (unat n) ph2)"
              using record_tickets_ok [OF oks fits t] same by (cases res) simp_all
            show ?thesis
            proof (cases res)
              case (Inl e)
              then show ?thesis using body more p Pair Inr s ret t rec by (auto simp: submit_outcome_def Let_def)
            next
              case res: (Inr _)
              have sums: "unat (phase_submitted ph2) + unat (ucast n :: u32) \<le> unat (request_count run)"
                "unat (phase_in_flight ph2) + unat (ucast n :: u32) \<le> unat (window_size run)"
                using rec nn d(6,7) by (simp_all add: unat_ucast_u16)
              have "window_ok run (unat (ucast n :: u32)) ph2" using rec res by (simp add: unat_ucast_u16)
              note counted = window_ok_count [OF this sums]
              show ?thesis using body more p Pair Inr s ret t res IH counted by (simp add: Let_def)
            qed
          qed
        qed
      qed
    qed
  qed
  with assms(3) show ?thesis by simp
qed

subsection \<open>The whole phase\<close>

text \<open>While requests are missing there is something to wait for, so the deadlock error is never reported here.\<close>

lemma window_events_nonzero:
  assumes "window_bounds run ph" "0 < window_size run" "phase_completed ph < request_count run"
  shows "window_events run ph \<noteq> 0"
proof (cases "phase_in_flight ph > 0")
  case True
  then show ?thesis by (auto simp: window_events_def)
next
  case False
  then have "phase_submitted ph = phase_completed ph" "phase_in_flight ph = 0"
    using assms(1) by (auto simp: window_bounds_def word_unat_eq_iff word_gt_0)
  then show ?thesis using assms(2,3) by (simp add: window_events_def)
qed

lemma wait_window_ok:
  assumes "window_ok run 0 ph" "run_ok run" "phase_completed ph < request_count run"
    "wait_window run ph w = Some (res, ph', w')"
  shows "window_ok run 0 ph' \<and> res \<noteq> Inl 0"
proof -
  have "window_events run ph \<noteq> 0"
    using assms window_okD(1) [OF assms(1)] by (intro window_events_nonzero) (auto simp: run_ok_def)
  then show ?thesis
    using assms(1,4) by (auto simp: wait_window_def Let_def split: Option.bind_split_asm if_split_asm)
qed

definition phase_outcome :: "'w window_run \<Rightarrow> int \<times> windowed_phase \<times> 'v \<Rightarrow> bool" where
  "phase_outcome run y \<longleftrightarrow> window_bounds run (fst (snd y)) \<and>
     (fst y = 0 \<longrightarrow> window_ok run 0 (fst (snd y)) \<and> phase_completed (fst (snd y)) = request_count run)"

lemma window_loop_ok:
  assumes "window_loop run ph w = Some y" "run_ok run" "window_ok run 0 ph"
  shows "phase_outcome run y"
proof -
  let ?P = "\<lambda>r ph w y. r = run \<longrightarrow> window_ok run 0 ph \<longrightarrow> phase_outcome run y"
  have "?P run ph w y"
  proof (rule window_loop.raw_induct [where P = ?P, OF _ assms(1)], intro impI, goal_cases)
    case (1 loop r ph w y)
    note IH = 1(1) [rule_format, OF _ 1(3), unfolded 1(3)] and body = 1(2) [unfolded 1(3)] and ok = 1(4)
    have finished: "phase_outcome run (0, ph, v)"
      if "window_ok run 0 ph" "\<not> phase_completed ph < request_count run" for ph v
      using that window_okD(1,5,6) [OF that(1)]
      by (auto simp: phase_outcome_def word_le_nat_alt word_less_nat_alt word_unat_eq_iff)
    have failed: "phase_outcome run (e, ph, v)" if "window_bounds run ph" "e \<noteq> 0" for e ph v
      using that by (simp add: phase_outcome_def)
    show ?case
    proof (cases "phase_completed ph < request_count run")
      case False
      then show ?thesis using body finished [OF ok] by auto
    next
      case more: True
      obtain res1 ph1 w1 where r: "reap_loop run (ph\<lparr>progressed := False\<rparr>) w = Some (res1, ph1, w1)"
        using body more by (auto split: Option.bind_split_asm)
      have ok1: "window_ok run 0 ph1" "res1 \<noteq> Inl 0" using reap_loop_ok [OF r] ok by simp_all
      show ?thesis
      proof (cases res1)
        case (Inl e)
        then show ?thesis using body more r failed [OF window_okD(1) [OF ok1(1)]] ok1(2) by auto
      next
        case (Inr _)
        then obtain res2 ph2 w2 where s: "submit_loop run ph1 w1 = Some (res2, ph2, w2)"
          using body more r by (auto split: Option.bind_split_asm)
        note out = submit_loop_ok [OF s assms(2) ok1(1)]
        show ?thesis
        proof (cases res2)
          case Inl2: (Inl e)
          then show ?thesis using body more r Inr s out failed by (auto simp: submit_outcome_def)
        next
          case Inr2: (Inr _)
          then have ok2: "window_ok run 0 ph2" using out by (auto simp: submit_outcome_def)
          show ?thesis
          proof (cases "phase_completed ph2 = request_count run")
            case True
            then show ?thesis using body more r Inr s Inr2 finished [OF ok2] by auto
          next
            case left: False
            have more2: "phase_completed ph2 < request_count run"
              using left window_okD(5,6) [OF ok2] by (auto simp: word_less_nat_alt word_unat_eq_iff)
            show ?thesis
            proof (cases "progressed ph2")
              case True
              then show ?thesis using body more r Inr s Inr2 left IH ok2 by auto
            next
              case False
              then obtain res3 ph3 w3 where p: "wait_window run ph2 w2 = Some (res3, ph3, w3)"
                using body more r Inr s Inr2 left by (auto split: Option.bind_split_asm)
              have ok3: "window_ok run 0 ph3" "res3 \<noteq> Inl 0" using wait_window_ok [OF ok2 assms(2) more2 p] by simp_all
              show ?thesis
                using body more r Inr s Inr2 left False p IH ok3 failed [OF window_okD(1) [OF ok3(1)]]
                by (cases res3) auto
            qed
          qed
        qed
      qed
    qed
  qed
  with assms(3) show ?thesis by simp
qed

lemma window_ok_new:
  assumes "\<forall>ls. latency = Some ls \<longrightarrow> length ls = unat (request_count run)"
  shows "window_ok run 0 (new_window latency)"
proof -
  have "active_tickets (new_window latency) = {}" by (auto simp: active_tickets_def new_window_def no_ticket_def)
  then show ?thesis using assms by (auto simp: window_ok_def window_bounds_def new_window_def)
qed

text \<open>Property C39: for any answers of the driver and any arguments the programs accept, a phase never has more requests
  outstanding than its window, never counts a response twice or more requests than it was asked for,
  and its latency total is the sum of the latencies of the completed requests; when it ends without an error
  every request was completed and no ticket is left.\<close>

theorem window_phase_result:
  assumes "errno_positive (library run)" "\<forall>w e w'. raw_time run w = (Inl e, w') \<longrightarrow> e > 0"
    and "0 < window_size run" "window_size run \<le> 64"
    and "\<forall>ls. latency = Some ls \<longrightarrow> length ls = unat (request_count run)"
    and "run_windowed_phase run latency True w = Some (ret, ph, w')"
  shows "phase_completed ph \<le> request_count run \<and> phase_in_flight ph \<le> window_size run \<and>
    unat (phase_submitted ph) = unat (phase_completed ph) + unat (phase_in_flight ph) \<and>
    phase_submitted ph \<le> request_count run \<and> window_max_in_flight (phase_stats ph) \<le> window_size run \<and>
    (\<forall>ls. phase_latency ph = Some ls \<longrightarrow> length ls = unat (request_count run) \<and>
      phase_latency_sum ph = sum_list (take (unat (phase_completed ph)) ls)) \<and>
    (ret = 0 \<longrightarrow> phase_completed ph = request_count run \<and> phase_in_flight ph = 0 \<and>
      (\<forall>i<64. \<not> active (tickets ph ! i)))"
proof -
  have "run_ok run" using assms(1-4) by (simp add: run_ok_def)
  then have out: "phase_outcome run (ret, ph, w')"
    using assms(6) window_loop_ok window_ok_new [OF assms(5)] by (simp add: run_windowed_phase_def)
  then have b: "window_bounds run ph" by (simp add: phase_outcome_def)
  have "phase_in_flight ph = 0 \<and> (\<forall>i<64. \<not> active (tickets ph ! i))" if "ret = 0"
  proof -
    have ok: "window_ok run 0 ph" "phase_completed ph = request_count run" using out that by (auto simp: phase_outcome_def)
    note d = window_okD [OF ok(1)]
    have "unat (phase_in_flight ph) = 0" using d(5,6) ok(2) by simp
    then have "phase_in_flight ph = 0" "active_tickets ph = {}" using d(3) by (simp_all add: word_unat_eq_iff)
    then show ?thesis by (auto simp: active_tickets_def)
  qed
  with out b show ?thesis by (auto simp: phase_outcome_def window_bounds_def word_le_nat_alt)
qed

subsection \<open>A run\<close>

text \<open>One request to a driver that answers it at once. The loops are evaluated a turn at a time.\<close>

definition single_request :: "sim_world window_run" where
  "single_request = \<lparr>library = answering_env, handle = one_handle, raw_time = (\<lambda>w. (Inr \<lparr>tv_sec = 0, tv_nsec = 0\<rparr>, w)),
     request_count = 1, echo_bytes = 0, first_seed = 0x13579bdf, window_size = 1, use_batch = False\<rparr>"

lemma bind_as_case: "Option.bind x f = (case x of None \<Rightarrow> None | Some y \<Rightarrow> f y)"
  by (cases x) simp_all

lemmas message_send_loop_turn [code] = message_send_loop.simps [unfolded bind_as_case]
lemmas message_receive_loop_turn [code] = message_receive_loop.simps [unfolded bind_as_case]
lemmas pending_event_consume_turn [code] = pending_event_consume.simps [unfolded bind_as_case]

lemma holds_in_some: "(case x of None \<Rightarrow> False | Some y \<Rightarrow> P y) \<longleftrightarrow> (\<exists>y. x = Some y \<and> P y)"
  by (simp split: option.split)

lemma one_exchange:
  "case build_request (payload zero_slot) 0 0x13579bdf of None \<Rightarrow> False | Some (b, len) \<Rightarrow>
    (case sg2002_rtos_message_send answering_env one_handle (Some b) len 0 (Some 0) (sim_start [] []) of
      None \<Rightarrow> False
    | Some (ret, seq, w) \<Rightarrow> ret = 0 \<and> seq = Some 7 \<and>
      (case sg2002_rtos_message_receive answering_env one_handle (Some b) 1018 (Some len) (Some 7) 0 w of
        None \<Rightarrow> False
      | Some (ret, cells, w) \<Rightarrow> ret = 0 \<and> (case cells of None \<Rightarrow> False | Some c \<Rightarrow> cell_sequence c = Some 7 \<and>
          (case cell_response c of None \<Rightarrow> False
           | Some p \<Rightarrow> validate_response p (cell_length c) 0 0x13579bdf = Some 0))))"
  by code_simp

lemma single_request_ends:
  "\<exists>ph w'. run_windowed_phase single_request (Some [0]) True (sim_start [] []) = Some (0, ph, w')"
proof -
  obtain b len w1 cells w2 p where
    b: "build_request (payload zero_slot) 0 0x13579bdf = Some (b, len)" and
    s: "sg2002_rtos_message_send answering_env one_handle (Some b) len 0 (Some 0) (sim_start [] []) = Some (0, Some 7, w1)" and
    r: "sg2002_rtos_message_receive answering_env one_handle (Some b) 1018 (Some len) (Some 7) 0 w1 = Some (0, Some cells, w2)"
      "cell_sequence cells = Some 7" "cell_response cells = Some p" "validate_response p (cell_length cells) 0 0x13579bdf = Some 0"
    using one_exchange by (simp only: holds_in_some split_paired_Ex prod.case) blast
  let ?t = "\<lparr>ticket_sequence = 7, ticket_seed = 0x13579bdf, ticket_start = \<lparr>tv_sec = 0, tv_nsec = 0\<rparr>, active = True\<rparr>"
  have f: "find_ticket (replicate 64 no_ticket) 7 = None" "find_free_ticket (replicate 64 no_ticket) = Some 0"
    "find_ticket ((replicate 64 no_ticket)[0 := ?t]) 7 = Some 0"
    by code_simp+
  define z where "z = sim_start [] []"
  note s = s [folded z_def]
  have m64: "replicate 64 zero_slot = zero_slot # replicate 63 zero_slot" using replicate_Suc [of 63 zero_slot] by simp
  note eval = single_request_def submit_size_def Let_def submit_some_def count_stat_def reap_some_def complete_response_def
  have upt: "[0..<1] = [0 :: nat]" by simp
  have zs: "sequence zero_slot = 0" by (simp add: zero_slot_def)
  show ?thesis
    unfolding z_def [symmetric]
    apply (simp add: run_windowed_phase_def new_window_def m64)
    apply (subst window_loop.simps)
    apply (subst reap_loop.simps)
    apply (subst submit_loop.simps)
    apply (simp add: eval b s f upt zs)
    apply (subst submit_loop.simps)
    apply (simp add: eval)
    apply (subst window_loop.simps)
    apply (subst reap_loop.simps)
    apply (simp add: eval b s f upt zs r)
    apply (subst reap_loop.simps)
    apply (simp add: eval)
    apply (subst submit_loop.simps)
    apply (simp add: eval)
    done
qed

lemma single_request_accepted:
  "errno_positive answering_env" "raw_time single_request w \<noteq> (Inl e, w')"
  by (simp_all add: errno_positive_def answering_env_def sim_env_def single_request_def)

theorem window_phase_result_witness:
  "\<exists>ph w'. run_windowed_phase single_request (Some [0]) True (sim_start [] []) = Some (0, ph, w') \<and>
    phase_completed ph = 1 \<and> phase_in_flight ph = 0 \<and> (\<forall>i<64. \<not> active (tickets ph ! i)) \<and>
    (\<forall>ls. phase_latency ph = Some ls \<longrightarrow> length ls = 1 \<and> phase_latency_sum ph = sum_list (take 1 ls))"
proof -
  obtain ph w' where run: "run_windowed_phase single_request (Some [0]) True (sim_start [] []) = Some (0, ph, w')"
    using single_request_ends by blast
  have arguments: "errno_positive (library single_request)" "0 < window_size single_request" "window_size single_request \<le> 64"
    "\<forall>w e w'. raw_time single_request w = (Inl e, w') \<longrightarrow> e > 0"
    "\<forall>ls. Some [0] = Some ls \<longrightarrow> length ls = unat (request_count single_request)" "request_count single_request = 1"
    using single_request_accepted by (simp_all add: single_request_def)
  show ?thesis
    using run window_phase_result [OF arguments(1,4,2,3,5) run] arguments(6) by simp
qed

end
