(* ===== verification/Rtos_System.thy ===== *)
theory Rtos_System
  imports Linux_Calls Kernel_Firmware
begin

section \<open>Client library, driver and firmware together\<close>

text \<open>
  The whole way of a message: the client library of \<^verbatim>\<open>Linux_Messages\<close> on the driver of \<^verbatim>\<open>Kernel_Driver\<close> and the
  firmware of \<^verbatim>\<open>Shm_Transport\<close>. The system calls on the device run the driver; while the process sleeps
  in \<^verbatim>\<open>poll\<close>, the firmware answers its doorbell. What is left of the operating system (locks, event
  descriptors, the clock, opening files) is a parameter. The theorems say what a caller of the library
  gets from the application on the other processor.
\<close>

subsection \<open>The machine\<close>

record 'io rtos_world = client_world +
  driver :: kernel_world
  firmware :: "fw_mem transport"
  data_cache :: shm_region
  registers :: 'io

record ('io, 'x) platform =
  os :: "('io, 'x) rtos_world_scheme linux_env"
  kernel :: "kernel_world kernel_env"
  cache_invalidate :: "unit dcache_range"
  cache_clean :: "unit dcache_range"
  gpio_block :: "'io mmio_ops"
  device_fd :: int
  device_file :: file_ptr
  other_events :: "int \<Rightarrow> ('io, 'x) rtos_world_scheme \<Rightarrow> 16 word"

text \<open>One command to the driver. The system call answers the negated error.\<close>

definition driver_command ::
  "('io, 'x) platform \<Rightarrow> shm_command \<Rightarrow> ('io, 'x) rtos_world_scheme \<Rightarrow> (shm_answer \<times> ('io, 'x) rtos_world_scheme) option" where
  "driver_command p command w = do {
     (answer, k) \<leftarrow> sg2002_rtos_shm_linux_ioctl (kernel p) (device_file p) command (driver w);
     Some (answer, w\<lparr>driver := k\<rparr>)
   }"

text \<open>The system calls are total; the last equation of each stands for a command that does not return, and for
  answers of another kind. The client library passes a timeout of zero, with which the driver does not wait.\<close>

definition transfer_ioctl ::
  "('io, 'x) platform \<Rightarrow> shm_command \<Rightarrow> ('io, 'x) rtos_world_scheme \<Rightarrow>
    (int + sg2002_rtos_shm_transfer) \<times> ('io, 'x) rtos_world_scheme" where
  "transfer_ioctl p command w = (case driver_command p command w of
       Some (Transfer_answer t, w) \<Rightarrow> (Inr t, w)
     | Some (Error_answer ret, w) \<Rightarrow> (Inl (- ret), w)
     | _ \<Rightarrow> (Inl EINTR, w))"

text \<open>The descriptor the library fills has the address of the slots, no flags and zero reserved words.\<close>

definition user_batch_at :: "u64 \<Rightarrow> sg2002_rtos_shm_batch \<Rightarrow> user_batch" where
  "user_batch_at slots b = sg2002_rtos_shm_batch.extend b
     \<lparr>batch_slots_ptr = slots, batch_flags = 0, batch_reserved = (0, 0)\<rparr>"

definition batch_ioctl ::
  "('io, 'x) platform \<Rightarrow> shm_command \<Rightarrow> sg2002_rtos_shm_slot list \<Rightarrow> ('io, 'x) rtos_world_scheme \<Rightarrow>
    (int + sg2002_rtos_shm_batch) \<times> sg2002_rtos_shm_slot list \<times> ('io, 'x) rtos_world_scheme" where
  "batch_ioctl p command messages w = (case driver_command p command w of
       Some (Batch_answer ret b messages, w) \<Rightarrow>
         (if ret = 0 then Inr (sg2002_rtos_shm_batch.truncate b) else Inl (- ret), messages, w)
     | Some (Error_answer ret, w) \<Rightarrow> (Inl (- ret), messages, w)
     | _ \<Rightarrow> (Inl EINTR, messages, w))"

definition info_ioctl ::
  "('io, 'x) platform \<Rightarrow> ('io, 'x) rtos_world_scheme \<Rightarrow> (int + sg2002_rtos_shm_info) \<times> ('io, 'x) rtos_world_scheme" where
  "info_ioctl p w = (case driver_command p SG2002_RTOS_SHM_ACQUIRE w of
       Some (Info_answer info, w) \<Rightarrow> (Inr info, w)
     | Some (Error_answer ret, w) \<Rightarrow> (Inl (- ret), w)
     | _ \<Rightarrow> (Inl EINTR, w))"

text \<open>The firmware answers a doorbell: one call of the transport on the RAM of the region, through the
  data cache.\<close>

definition firmware_turn :: "('io, 'x) platform \<Rightarrow> ('io, 'x) rtos_world_scheme \<Rightarrow> ('io, 'x) rtos_world_scheme" where
  "firmware_turn p w =
     (case sg2002_rtos_shm_process (cache_invalidate p) (cache_clean p) (gpio_block p) (Some 0) (firmware w)
         \<lparr>view = data_cache w, ram = shm_base (driver w)\<rparr> (registers w) of
        None \<Rightarrow> w
      | Some (_, _, fw, mem, io) \<Rightarrow>
          w\<lparr>firmware := fw, data_cache := view mem, registers := io, driver := (driver w)\<lparr>shm_base := ram mem\<rparr>\<rparr>)"

text \<open>A poll answers at once when a descriptor is ready; when none is and it may sleep, the firmware
  runs meanwhile.\<close>

definition descriptor_events ::
  "('io, 'x) platform \<Rightarrow> ('io, 'x) rtos_world_scheme \<Rightarrow> int \<times> 16 word \<Rightarrow> 16 word" where
  "descriptor_events p w = (\<lambda>(descriptor, events).
     (if descriptor = device_fd p then ucast (sg2002_rtos_shm_linux_poll (device_file p) (driver w))
      else other_events p descriptor w) AND (events OR POLLERR OR POLLHUP))"

definition system_poll ::
  "('io, 'x) platform \<Rightarrow> (int \<times> 16 word) list \<Rightarrow> int \<Rightarrow> ('io, 'x) rtos_world_scheme \<Rightarrow>
    (int + int \<times> 16 word list) \<times> ('io, 'x) rtos_world_scheme" where
  "system_poll p descriptors timeout w =
     (let w = (if timeout \<noteq> 0 \<and> list_all (\<lambda>d. descriptor_events p w d = 0) descriptors then firmware_turn p w else w);
          revents = map (descriptor_events p w) descriptors
      in (Inr (int (length (filter (\<lambda>r. r \<noteq> 0) revents)), revents), w))"

definition system_env :: "('io, 'x) platform \<Rightarrow> u64 \<Rightarrow> ('io, 'x) rtos_world_scheme linux_env" where
  "system_env p slots = (os p)\<lparr>
     ioctl_acquire := (\<lambda>_. info_ioctl p),
     ioctl_send := (\<lambda>_ t. transfer_ioctl p (SG2002_RTOS_SHM_SEND t)),
     ioctl_receive := (\<lambda>_ t. transfer_ioctl p (SG2002_RTOS_SHM_RECEIVE t)),
     ioctl_submit_batch := (\<lambda>_ b messages. batch_ioctl p (SG2002_RTOS_SHM_SUBMIT_BATCH (user_batch_at slots b) messages) messages),
     ioctl_reap_batch := (\<lambda>_ b messages. batch_ioctl p (SG2002_RTOS_SHM_REAP_BATCH (user_batch_at slots b) messages) messages),
     sys_poll := system_poll p\<rparr>"

subsection \<open>What is assumed of the operating system\<close>

text \<open>Locks are granted; locks, event descriptors and the clock leave the device alone; the event descriptor
  counts; the driver's locks and copies succeed. \<open>evc\<close> is the counter of the event descriptor, \<open>readings\<close> how often the
  clock has been read.\<close>

definition hardware :: "('io, 'x) rtos_world_scheme \<Rightarrow> kernel_world \<times> fw_mem transport \<times> shm_region \<times> 'io" where
  "hardware w = (driver w, firmware w, data_cache w, registers w)"

definition same_process ::
  "(('io, 'x) rtos_world_scheme \<Rightarrow> nat) \<Rightarrow> (('io, 'x) rtos_world_scheme \<Rightarrow> nat) \<Rightarrow> ('io, 'x) rtos_world_scheme \<Rightarrow>
    ('io, 'x) rtos_world_scheme \<Rightarrow> bool" where
  "same_process evc readings w w' \<longleftrightarrow> priv w' = priv w \<and> evc w' = evc w \<and> readings w' = readings w"

definition platform_ok ::
  "('io, 'x) platform \<Rightarrow> (('io, 'x) rtos_world_scheme \<Rightarrow> nat) \<Rightarrow> (('io, 'x) rtos_world_scheme \<Rightarrow> nat) \<Rightarrow> bool" where
  "platform_ok p evc readings \<longleftrightarrow> eventfd_ok (os p) evc \<and> quiet_env (kernel p) \<and> granting_env (kernel p) \<and>
     (\<forall>w k fw c io. same_process evc readings w (w\<lparr>firmware := fw, data_cache := c, registers := io, driver := k\<rparr>)) \<and>
     (\<forall>w u. readings (w\<lparr>priv := u\<rparr>) = readings w) \<and>
     (\<forall>l w. fst (mutex_lock (os p) l w) = 0 \<and> hardware (snd (mutex_lock (os p) l w)) = hardware w \<and>
        same_process evc readings w (snd (mutex_lock (os p) l w))) \<and>
     (\<forall>l w. hardware (mutex_unlock (os p) l w) = hardware w \<and> same_process evc readings w (mutex_unlock (os p) l w)) \<and>
     (\<forall>w. let v = snd (clock_gettime (os p) w) in hardware v = hardware w \<and> priv v = priv w \<and> evc v = evc w \<and>
        readings v \<le> readings w + 1) \<and>
     (\<forall>f x w. let v = snd (event_write (os p) f x w) in hardware v = hardware w \<and> readings v = readings w) \<and>
     (\<forall>f w. let v = snd (event_read (os p) f w) in hardware v = hardware w \<and> readings v = readings w)"

text \<open>Until the clock has been read \<open>limit\<close> times it stays before the deadline that a call computes from its first
  reading, or the call has no timeout.\<close>

definition in_time ::
  "('io, 'x) platform \<Rightarrow> (('io, 'x) rtos_world_scheme \<Rightarrow> nat) \<Rightarrow> nat \<Rightarrow> u32 \<Rightarrow> u64 \<Rightarrow> bool" where
  "in_time p readings limit timeout_ms start \<longleftrightarrow> timeout_ms \<noteq> 0 \<and> (timeout_ms = UINT32_MAX \<or>
     unat start + unat timeout_ms < 2 ^ 64 \<and>
     (\<forall>w. readings w < limit \<longrightarrow> unat (fst (monotonic_milliseconds (os p) w)) < unat start + unat timeout_ms))"

text \<open>The channel is open and served: the driver is ready for its owner, the firmware can be attached, the rings
  are well formed and every message in them has a sequence.\<close>

definition in_service :: "('io, 'x) platform \<Rightarrow> ('io, 'x) rtos_world_scheme \<Rightarrow> bool" where
  "in_service p w \<longleftrightarrow> rtos_ready (driver w) \<and> is_owner (device_file p) (driver w) \<and>
     rings_ok (shm_base (driver w)) \<and> linux_ready (generation (driver w)) (shm_base (driver w)) \<and>
     transport_ok (cache_invalidate p) (cache_clean p) (firmware w) \<and> region_wf (data_cache w) \<and>
     0 \<notin> sequence ` set (requests (shm_base (driver w))) \<and> 0 \<notin> sequence ` set (responses (shm_base (driver w)))"

abbreviation queued_requests :: "('io, 'x) rtos_world_scheme \<Rightarrow> sg2002_rtos_shm_slot list" where
  "queued_requests w \<equiv> requests (shm_base (driver w))"

abbreviation queued_responses :: "('io, 'x) rtos_world_scheme \<Rightarrow> sg2002_rtos_shm_slot list" where
  "queued_responses w \<equiv> responses (shm_base (driver w))"

subsection \<open>The device as the library sees it\<close>

lemma system_env_fields [simp]:
  "mutex_lock (system_env p a) = mutex_lock (os p)" "mutex_unlock (system_env p a) = mutex_unlock (os p)"
  "clock_gettime (system_env p a) = clock_gettime (os p)" "event_write (system_env p a) = event_write (os p)"
  "event_read (system_env p a) = event_read (os p)" "sys_poll (system_env p a) = system_poll p"
  "ioctl_send (system_env p a) d t = transfer_ioctl p (SG2002_RTOS_SHM_SEND t)"
  "ioctl_receive (system_env p a) d t = transfer_ioctl p (SG2002_RTOS_SHM_RECEIVE t)"
  by (simp_all add: system_env_def)

lemma monotonic_system [simp]: "monotonic_milliseconds (system_env p a) = monotonic_milliseconds (os p)"
  by (rule ext) (simp add: monotonic_milliseconds_def)

lemma eventfd_ok_system [simp]: "eventfd_ok (system_env p a) evc = eventfd_ok (os p) evc"
  by (simp add: eventfd_ok_def)

lemma platform_rules:
  assumes "platform_ok p evc readings"
  shows "eventfd_ok (os p) evc" "quiet_env (kernel p)" "granting_env (kernel p)"
    "same_process evc readings w (w\<lparr>driver := k\<rparr>)"
    "same_process evc readings w (w\<lparr>firmware := fw, data_cache := c, registers := io, driver := k\<rparr>)"
    "mutex_lock (os p) l w = (r, w') \<Longrightarrow> r = 0 \<and> hardware w' = hardware w \<and> same_process evc readings w w'"
    "hardware (mutex_unlock (os p) l w) = hardware w \<and> same_process evc readings w (mutex_unlock (os p) l w)"
    "clock_gettime (os p) w = (t, w') \<Longrightarrow> hardware w' = hardware w \<and> priv w' = priv w \<and> evc w' = evc w \<and> readings w' \<le> readings w + 1"
    "event_write (os p) f v w = (x, w') \<Longrightarrow> hardware w' = hardware w \<and> readings w' = readings w"
    "event_read (os p) f w = (y, w') \<Longrightarrow> hardware w' = hardware w \<and> readings w' = readings w"
    "readings (w\<lparr>priv := q\<rparr>) = readings w"
proof -
  show s: "eventfd_ok (os p) evc" "quiet_env (kernel p)" "granting_env (kernel p)"
    "same_process evc readings w (w\<lparr>firmware := fw, data_cache := c, registers := io, driver := k\<rparr>)"
    "hardware (mutex_unlock (os p) l w) = hardware w \<and> same_process evc readings w (mutex_unlock (os p) l w)"
    "readings (w\<lparr>priv := q\<rparr>) = readings w" for fw c io
    using assms unfolding platform_ok_def by blast+
  from s(4) [where fw = "firmware w" and c = "data_cache w" and io = "registers w"]
  show "same_process evc readings w (w\<lparr>driver := k\<rparr>)" by simp
  show "mutex_lock (os p) l w = (r, w') \<Longrightarrow> r = 0 \<and> hardware w' = hardware w \<and> same_process evc readings w w'"
    "clock_gettime (os p) w = (t, w') \<Longrightarrow> hardware w' = hardware w \<and> priv w' = priv w \<and> evc w' = evc w \<and> readings w' \<le> readings w + 1"
    "event_write (os p) f v w = (x, w') \<Longrightarrow> hardware w' = hardware w \<and> readings w' = readings w"
    "event_read (os p) f w = (y, w') \<Longrightarrow> hardware w' = hardware w \<and> readings w' = readings w"
    using assms unfolding platform_ok_def Let_def by (metis fst_conv snd_conv)+
qed

lemma hardwareD:
  assumes "hardware w' = hardware w"
  shows "driver w' = driver w" "firmware w' = firmware w" "data_cache w' = data_cache w" "registers w' = registers w"
    "in_service p w' = in_service p w"
  using assms by (simp_all add: hardware_def in_service_def)

lemma in_serviceD:
  assumes "in_service p w"
  shows "rtos_ready (driver w)" "is_owner (device_file p) (driver w)" "rings_ok (shm_base (driver w))"
    "linux_ready (generation (driver w)) (shm_base (driver w))"
    "transport_ok (cache_invalidate p) (cache_clean p) (firmware w)" "region_wf (data_cache w)"
    "0 \<notin> sequence ` set (queued_requests w)" "0 \<notin> sequence ` set (queued_responses w)"
    "rings_counted (shm_base (driver w))" "\<not> shutting_down (driver w)"
    "length (queued_requests w) \<le> 64" "length (queued_responses w) \<le> 64"
proof -
  show s: "rtos_ready (driver w)" "is_owner (device_file p) (driver w)" "rings_ok (shm_base (driver w))"
    "linux_ready (generation (driver w)) (shm_base (driver w))"
    "transport_ok (cache_invalidate p) (cache_clean p) (firmware w)" "region_wf (data_cache w)"
    "0 \<notin> sequence ` set (queued_requests w)" "0 \<notin> sequence ` set (queued_responses w)"
    using assms by (simp_all add: in_service_def)
  show "rings_counted (shm_base (driver w))" by (rule rings_ok_counted [OF s(3)])
  then show "length (queued_requests w) \<le> 64" "length (queued_responses w) \<le> 64" by (rule rings_counted_lengths)+
  show "\<not> shutting_down (driver w)" using s(1) by (simp add: rtos_ready_def)
qed

text \<open>A change of the rings that leaves the control pages alone keeps the channel in service.\<close>

lemma in_service_rings:
  assumes "in_service p w" "core k = core ((driver w)\<lparr>next_sequence := n, shm_base := m\<rparr>)"
    and "rings_ok m" "layout m = layout (shm_base (driver w))" "linux_peer m = linux_peer (shm_base (driver w))"
    and "rtos_peer m = rtos_peer (shm_base (driver w))"
    and "0 \<notin> sequence ` set (requests m)" "0 \<notin> sequence ` set (responses m)"
  shows "in_service p (w\<lparr>driver := k\<rparr>)"
proof -
  note c = core_fields [OF assms(2), simplified] and i = in_serviceD [OF assms(1)]
  have "rtos_ready k" "is_owner (device_file p) k" "linux_ready (generation k) m"
    using c i(1,2,4) assms(4-6)
    by (simp_all add: rtos_ready_def layout_valid_def is_owner_def linux_ready_def layout_is_valid_def)
  then show ?thesis using assms(3,7,8) i(5,6) c(1) by (simp add: in_service_def)
qed

subsection \<open>Sending, receiving and the turn of the firmware\<close>

text \<open>What is left alone by an operation on the device: the process, and the part of the hardware named.\<close>

lemma send_ioctl:
  assumes "platform_ok p evc readings" "in_service p w" "length (queued_requests w) < 64"
    and "message_ok (message t)" "transfer_timeout_ms t = 0"
    and "s = fresh_sequence (next_sequence (driver w))" "msg = tag s (message t)"
  shows "\<exists>k. transfer_ioctl p (SG2002_RTOS_SHM_SEND t) w = (Inr (t\<lparr>message := msg\<rparr>), w\<lparr>driver := k\<rparr>) \<and>
    in_service p (w\<lparr>driver := k\<rparr>) \<and> requests (shm_base k) = queued_requests w @ [msg] \<and>
    responses (shm_base k) = queued_responses w"
proof -
  note i = in_serviceD [OF assms(2)] and q = platform_rules(2,3) [OF assms(1)]
  have len: "slot_length (message t) \<le> SG2002_RTOS_SHM_PAYLOAD_SIZE" "message_ok msg"
    using assms(4,7) by (simp add: message_ok_def, simp)
  obtain k where k: "send_message (kernel p) (device_file p) t (driver w) = Some (Inr (t\<lparr>message := msg\<rparr>), k)"
    "core k = core ((driver w)\<lparr>next_sequence := s + 1, shm_base := push_request msg (shm_base (driver w))\<rparr>)"
    using send_message_now [OF q i(9,1,2) len(1) assms(5-7) refl] assms(3) by auto
  note r = push_request_rings [OF i(3) assms(3) len(2)]
  have z: "sequence msg \<noteq> 0" using assms(6,7) by simp
  then have "in_service p (w\<lparr>driver := k\<rparr>)"
    using in_service_rings [OF assms(2) k(2) r(1,4-6)] r(2,3) i(7,8) by (auto simp del: length_ring_contents)
  moreover have "shm_base k = push_request msg (shm_base (driver w))" using core_fields(1) [OF k(2)] by simp
  ultimately show ?thesis
    using k(1) i(10) r(2,3)
    by (intro exI [of _ k]) (simp add: transfer_ioctl_def driver_command_def sg2002_rtos_shm_linux_ioctl_def transfer_answer_def)
qed

lemma send_ioctl_full:
  assumes "platform_ok p evc readings" "in_service p w" "length (queued_requests w) = 64"
    and "message_ok (message t)" "transfer_timeout_ms t = 0"
  shows "\<exists>k. transfer_ioctl p (SG2002_RTOS_SHM_SEND t) w = (Inl EAGAIN, w\<lparr>driver := k\<rparr>) \<and> core k = core (driver w)"
proof -
  note i = in_serviceD [OF assms(2)] and q = platform_rules(2,3) [OF assms(1)]
  have len: "slot_length (message t) \<le> SG2002_RTOS_SHM_PAYLOAD_SIZE" using assms(4) by (simp add: message_ok_def)
  obtain k where "send_message (kernel p) (device_file p) t (driver w) = Some (Inl (- EAGAIN), k)" "core k = core (driver w)"
    using send_message_now [OF q i(9,1,2) len assms(5) refl refl refl] assms(3) by auto
  then show ?thesis using i(10)
    by (intro exI [of _ k]) (simp add: transfer_ioctl_def driver_command_def sg2002_rtos_shm_linux_ioctl_def transfer_answer_def)
qed

lemma receive_ioctl:
  assumes "platform_ok p evc readings" "in_service p w" "transfer_timeout_ms t = 0" "queued_responses w = msg # rest"
  shows "\<exists>k. transfer_ioctl p (SG2002_RTOS_SHM_RECEIVE t) w = (Inr (t\<lparr>message := msg\<rparr>), w\<lparr>driver := k\<rparr>) \<and>
    in_service p (w\<lparr>driver := k\<rparr>) \<and> requests (shm_base k) = queued_requests w \<and>
    responses (shm_base k) = rest \<and> next_sequence k = next_sequence (driver w)"
proof -
  note i = in_serviceD [OF assms(2)] and q = platform_rules(2,3) [OF assms(1)]
  let ?m = "shm_base (driver w)"
  have "message_ok msg" using i(3) assms(4) by (simp add: rings_ok_def ring_contents_ok_def)
  then have len: "\<not> slot_length msg > SG2002_RTOS_SHM_PAYLOAD_SIZE" by (simp add: message_ok_def leD)
  obtain k where k: "receive_message (kernel p) (device_file p) t (driver w) = Some (Inr (t\<lparr>message := msg\<rparr>), k)"
    "core k = core ((driver w)\<lparr>shm_base := pop_response ?m\<rparr>)"
    using receive_message_now [OF q i(9,1,2) assms(3) refl refl] assms(4) len by auto
  have ne: "responses ?m \<noteq> []" using assms(4) by simp
  note r = pop_response_rings [OF i(9) ne]
  have "rings_ok (pop_response ?m)"
    using r(1-3) i(3) assms(4) by (simp add: rings_ok_def ring_contents_ok_def rings_counted_def)
  then have "in_service p (w\<lparr>driver := k\<rparr>)"
    using in_service_rings [OF assms(2), where k = k and n = "next_sequence (driver w)" and m = "pop_response ?m"] k(2) r(2-6) i(7,8) assms(4)
    by (auto simp del: length_ring_contents)
  moreover have "shm_base k = pop_response ?m" "next_sequence k = next_sequence (driver w)"
    using core_fields(1,5) [OF k(2)] by simp_all
  ultimately show ?thesis
    using k(1) i(10) r(2,3) assms(4)
    by (intro exI [of _ k]) (simp add: transfer_ioctl_def driver_command_def sg2002_rtos_shm_linux_ioctl_def transfer_answer_def)
qed

lemma receive_ioctl_empty:
  assumes "platform_ok p evc readings" "in_service p w" "transfer_timeout_ms t = 0" "queued_responses w = []"
  shows "\<exists>k. transfer_ioctl p (SG2002_RTOS_SHM_RECEIVE t) w = (Inl EAGAIN, w\<lparr>driver := k\<rparr>) \<and> core k = core (driver w)"
proof -
  note i = in_serviceD [OF assms(2)] and q = platform_rules(2,3) [OF assms(1)]
  obtain k where "receive_message (kernel p) (device_file p) t (driver w) = Some (Inl (- EAGAIN), k)" "core k = core (driver w)"
    using receive_message_now [OF q i(9,1,2) assms(3) refl refl] assms(4) by auto
  then show ?thesis using i(10)
    by (intro exI [of _ k]) (simp add: transfer_ioctl_def driver_command_def sg2002_rtos_shm_linux_ioctl_def transfer_answer_def)
qed

lemma in_service_core:
  assumes "in_service p w" "core k = core (driver w)"
  shows "in_service p (w\<lparr>driver := k\<rparr>)"
  using core_fields [OF assms(2)] core_predicates [OF assms(2)] assms(1) by (simp add: in_service_def)

text \<open>With no response waiting, the firmware answers every request.\<close>

lemma firmware_turn_serves:
  assumes "platform_ok p evc readings" "in_service p w" "queued_responses w = []"
    and "served = serve_all (gpio_block p) (queued_requests w) (registers w)"
  shows "in_service p (firmware_turn p w) \<and> queued_requests (firmware_turn p w) = [] \<and>
    queued_responses (firmware_turn p w) = fst served \<and> registers (firmware_turn p w) = snd served \<and>
    same_process evc readings w (firmware_turn p w) \<and> next_sequence (driver (firmware_turn p w)) = next_sequence (driver w)"
proof -
  note i = in_serviceD [OF assms(2)]
  let ?m = "\<lparr>view = data_cache w, ram = shm_base (driver w)\<rparr>" and ?n = "length (queued_requests w)"
  have wf: "mem_wf ?m" using i(3,6) by (simp add: mem_wf_def rings_ok_def ring_contents_ok_def ring_ok_def)
  have b: "?n = batch_size (ram ?m)" using assms(3) i(11) by (simp add: batch_size_def del: length_ring_contents)
  have g: "linux_ready (generation (driver w)) (ram ?m)" "rings_ok (ram ?m)" using i(3,4) by simp_all
  have s: "served = serve_all (gpio_block p) (take ?n (requests (ram ?m))) (registers w)" using assms(4) by simp
  obtain fw mem where f: "sg2002_rtos_shm_process (cache_invalidate p) (cache_clean p) (gpio_block p) (Some 0) (firmware w) ?m
      (registers w) = Some (SG2002_RTOS_SHM_PROCESS_OK, map_option (\<lambda>_. of_nat ?n) (Some (0 :: u32)), fw, mem, snd served)"
    "requests (ram mem) = drop ?n (requests (ram ?m))" "responses (ram mem) = responses (ram ?m) @ fst served"
    "map sequence (fst served) = map sequence (take ?n (requests (ram ?m)))"
    "rtos_peer (ram mem) = (if active_generation (firmware w) = generation (driver w) then rtos_peer (ram ?m)
      else \<lparr>peer_state = SG2002_RTOS_SHM_STATE_READY, peer_generation = generation (driver w)\<rparr>)"
    "transport_ok (cache_invalidate p) (cache_clean p) fw" "mem_wf mem" "linux_ready (generation (driver w)) (ram mem)"
    "rings_ok (ram mem)"
    using process_serves_any [OF i(5) wf g b s, of "Some 0"] by blast
  have r: "requests (ram mem) = []" "responses (ram mem) = fst served" using f(2,3) assms(3) by simp_all
  have peer: "rtos_peer (ram mem) = rtos_peer (shm_base (driver w)) \<or>
      rtos_peer (ram mem) = \<lparr>peer_state = SG2002_RTOS_SHM_STATE_READY, peer_generation = generation (driver w)\<rparr>"
    using f(5) by (simp split: if_splits)
  have z: "0 \<notin> sequence ` set (fst served)"
    using f(4) i(7) by (simp del: length_ring_contents) (metis list.set_map)
  have t: "firmware_turn p w = w\<lparr>firmware := fw, data_cache := view mem, registers := snd served,
      driver := (driver w)\<lparr>shm_base := ram mem\<rparr>\<rparr>"
    using f(1) by (simp add: firmware_turn_def)
  have "rtos_ready ((driver w)\<lparr>shm_base := ram mem\<rparr>)" by (rule served_region_ready [OF i(1) f(8) peer])
  moreover have "region_wf (view mem)" using f(7) by (simp add: mem_wf_def)
  ultimately have "in_service p (firmware_turn p w)"
    using i(2) f(6,8,9) r z by (simp add: t in_service_def is_owner_def)
  moreover have "same_process evc readings w (firmware_turn p w)"
    unfolding t by (rule platform_rules(5) [OF assms(1)])
  ultimately show ?thesis using r by (simp add: t)
qed

subsection \<open>States on the way of a call\<close>

text \<open>The channel is open and in service with these requests and responses queued, the registers and the retained
  responses are these, the driver numbers from \<open>n\<close>, and the clock has been read at most \<open>u\<close> times.\<close>

definition at_state ::
  "('io, 'x) platform \<Rightarrow> (('io, 'x) rtos_world_scheme \<Rightarrow> nat) \<Rightarrow> (('io, 'x) rtos_world_scheme \<Rightarrow> nat) \<Rightarrow> nat \<Rightarrow> u32 \<Rightarrow>
    sg2002_rtos_shm_slot list \<Rightarrow> sg2002_rtos_shm_slot list \<Rightarrow>
    'io \<Rightarrow> sg2002_rtos_shm_slot list \<Rightarrow> ('io, 'x) rtos_world_scheme \<Rightarrow> bool" where
  "at_state p evc readings u n qs rs io held w \<longleftrightarrow> in_service p w \<and> pending_inv evc w \<and> next_sequence (driver w) = n \<and>
     queued_requests w = qs \<and> queued_responses w = rs \<and> registers w = io \<and> pending (priv w) = held \<and>
     shared_memory_enabled (priv w) \<and> readings w \<le> u"

lemma at_stateD:
  assumes "at_state p evc readings u n qs rs io held w"
  shows "in_service p w" "pending_inv evc w" "next_sequence (driver w) = n" "queued_requests w = qs"
    "queued_responses w = rs" "registers w = io" "pending (priv w) = held" "length qs \<le> 64" "length rs \<le> 64" "length held \<le> 64" "readings w \<le> u"
  using assms in_serviceD(11,12) [of p w] by (auto simp: at_state_def pending_inv_def)

lemma at_state_later: "at_state p evc readings u n qs rs io held w \<Longrightarrow> u \<le> u' \<Longrightarrow> at_state p evc readings u' n qs rs io held w"
  by (simp add: at_state_def)

lemma at_state_same:
  assumes "at_state p evc readings u n qs rs io held w" "hardware w' = hardware w" "same_process evc readings w w'"
  shows "at_state p evc readings u n qs rs io held w'"
  using assms hardwareD [OF assms(2)] by (auto simp: at_state_def same_process_def pending_inv_def)

lemma at_state_driver:
  assumes "platform_ok p evc readings" "at_state p evc readings u n qs rs io held w" "in_service p (w\<lparr>driver := k\<rparr>)"
  shows "at_state p evc readings u (next_sequence k) (requests (shm_base k)) (responses (shm_base k)) io held (w\<lparr>driver := k\<rparr>)"
  using assms platform_rules(4) [OF assms(1), of w k] by (auto simp: at_state_def pending_inv_def same_process_def)

lemma clock_state:
  assumes "platform_ok p evc readings" "at_state p evc readings u n qs rs io held w" "monotonic_milliseconds (os p) w = (now, v)"
  shows "at_state p evc readings (u + 1) n qs rs io held v"
proof -
  obtain t where "clock_gettime (os p) w = (t, v)"
    using assms(3) by (auto simp: monotonic_milliseconds_def split: prod.splits option.splits)
  from platform_rules(8) [OF assms(1) this] hardwareD [of v w] assms(2) show ?thesis
    by (auto simp: at_state_def pending_inv_def)
qed

lemma lock_state:
  assumes "platform_ok p evc readings" "at_state p evc readings u n qs rs io held w"
  shows "\<exists>v. mutex_lock (os p) l w = (0, v) \<and> at_state p evc readings u n qs rs io held v"
    "at_state p evc readings u n qs rs io held (mutex_unlock (os p) l w)"
proof -
  obtain r v where l: "mutex_lock (os p) l w = (r, v)" by fastforce
  from platform_rules(6) [OF assms(1) l] l show "\<exists>v. mutex_lock (os p) l w = (0, v) \<and> at_state p evc readings u n qs rs io held v"
    by (auto intro: at_state_same [OF assms(2)])
  from platform_rules(7) [OF assms(1), of l w] show "at_state p evc readings u n qs rs io held (mutex_unlock (os p) l w)"
    by (auto intro: at_state_same [OF assms(2)])
qed

lemma take_absent:
  assumes "at_state p evc readings u n qs rs io held w" "seq \<notin> sequence ` set held"
  shows "take_pending_sequence env seq msg w = Some (0, msg, w)"
proof -
  have "find (\<lambda>i. sequence (pending (priv w) ! i) = seq) [0..<length (pending (priv w))] = None"
    using assms(2) at_stateD(7) [OF assms(1)] by (auto simp: find_None_iff)
  then show ?thesis by (simp add: take_pending_sequence_def)
qed

lemma retain_state:
  assumes "platform_ok p evc readings" "at_state p evc readings u n qs rs io held w" "length held < 64"
  shows "\<exists>v. retain_pending (system_env p a) m w = Some (0, v) \<and> at_state p evc readings u n qs rs io (held @ [m]) v"
proof -
  note s = at_stateD [OF assms(2)]
  have ev: "eventfd_ok (system_env p a) evc" using platform_rules(1) [OF assms(1)] by simp
  let ?v = "set_pending (pending (priv w) @ [m]) w"
  obtain v where v: "retain_pending (system_env p a) m w = Some (0, v)" "pending (priv v) = held @ [m]" "pending_inv evc v"
    using retain_pending_room [OF ev s(2)] s(7) assms(3) by auto
  obtain v' where v': "event_write (os p) (pending_fd (priv ?v)) 1 ?v = (Inr 8, v')" "priv v' = priv ?v"
    using eventfd_rules(1) [OF platform_rules(1) [OF assms(1)]] by blast
  then have "pending_event_signal (system_env p a) ?v = Some (0, v')" by (subst pending_event_signal.simps) simp
  then have eq: "v' = v" using v(1) s(7) assms(3) by (simp add: retain_pending_def)
  then have "hardware v = hardware ?v" "readings v = readings ?v" using platform_rules(9) [OF assms(1) v'(1)] by simp_all
  then have "hardware v = hardware w" "readings v = readings w"
    using platform_rules(11) [OF assms(1)] by (simp_all add: hardware_def set_pending_def)
  moreover have "shared_memory_enabled (priv v)" using v'(2) eq assms(2) by (simp add: at_state_def set_pending_def)
  ultimately show ?thesis using hardwareD [of v w] v s by (simp add: at_state_def)
qed

lemma receive_state:
  assumes "platform_ok p evc readings" "at_state p evc readings u n qs (m # rs) io held w"
  shows "\<exists>v. receive_from_kernel_locked (system_env p a) r msg 0 w = (0, m, v) \<and> at_state p evc readings u n qs rs io held v"
proof -
  note s = at_stateD [OF assms(2)]
  obtain k where k: "transfer_ioctl p (SG2002_RTOS_SHM_RECEIVE \<lparr>transfer_timeout_ms = 0, message = zero_slot\<rparr>) w =
      (Inr \<lparr>transfer_timeout_ms = 0, message = m\<rparr>, w\<lparr>driver := k\<rparr>)" "in_service p (w\<lparr>driver := k\<rparr>)"
    "requests (shm_base k) = qs" "responses (shm_base k) = rs" "next_sequence k = n"
    using receive_ioctl [OF assms(1) s(1), of "\<lparr>transfer_timeout_ms = 0, message = zero_slot\<rparr>"] s(3-5) by auto
  have "message_ok m" "sequence m \<noteq> 0"
    using in_serviceD(3,8) [OF s(1)] s(5) by (auto simp: rings_ok_def ring_contents_ok_def)
  then show ?thesis
    using k(1) at_state_driver [OF assms(1,2) k(2)] k(3-5) by (simp add: receive_from_kernel_locked_def message_ok_def leD)
qed

lemma receive_state_empty:
  assumes "platform_ok p evc readings" "at_state p evc readings u n qs [] io held w"
  shows "\<exists>v. receive_from_kernel_locked (system_env p a) r msg 0 w = (- EAGAIN, msg, v) \<and> at_state p evc readings u n qs [] io held v"
proof -
  note s = at_stateD [OF assms(2)]
  obtain k where k: "transfer_ioctl p (SG2002_RTOS_SHM_RECEIVE \<lparr>transfer_timeout_ms = 0, message = zero_slot\<rparr>) w =
      (Inl EAGAIN, w\<lparr>driver := k\<rparr>)" "core k = core (driver w)"
    using receive_ioctl_empty [OF assms(1) s(1) _ s(5), of "\<lparr>transfer_timeout_ms = 0, message = zero_slot\<rparr>"] by auto
  then show ?thesis
    using at_state_driver [OF assms(1,2) in_service_core [OF s(1) k(2)]] core_fields(1,5) [OF k(2)] s(3-5)
    by (simp add: receive_from_kernel_locked_def)
qed

subsection \<open>Waiting while the firmware runs\<close>

lemma device_events:
  assumes "in_service p w"
  shows "descriptor_events p w (device_fd p, POLLIN) = (if queued_responses w = [] then 0 else 1)"
    "descriptor_events p w (device_fd p, POLLIN OR POLLOUT) =
      (if queued_responses w = [] then 0 else 1) OR (if length (queued_requests w) = 64 then 0 else 4)"
proof -
  note i = in_serviceD [OF assms]
  let ?nr = "length (queued_responses w)" and ?nq = "length (queued_requests w)"
  have "(of_nat ?nr :: u32) > 0 \<longleftrightarrow> ?nr > 0" "(of_nat ?nq :: u32) < 64 \<longleftrightarrow> ?nq < 64"
    using i(11,12) by (simp_all only: word_less_nat_alt unat_of_nat_u32) simp_all
  moreover have "?nq < 64 \<longleftrightarrow> ?nq \<noteq> 64" using i(11) by linarith
  ultimately have "sg2002_rtos_shm_linux_poll (device_file p) (driver w) =
      (if queued_responses w = [] then 0 else 0x41) OR (if ?nq = 64 then 0 else 0x104)"
    using i(1,2,10) by (simp add: sg2002_rtos_shm_linux_poll_def occupancies [OF i(9)] del: length_ring_contents)
  then show "descriptor_events p w (device_fd p, POLLIN) = (if queued_responses w = [] then 0 else 1)"
    "descriptor_events p w (device_fd p, POLLIN OR POLLOUT) =
      (if queued_responses w = [] then 0 else 1) OR (if ?nq = 64 then 0 else 4)"
    by (simp_all add: descriptor_events_def del: length_ring_contents)
qed

end
