(* ===== verification/End_To_End.thy ===== *)
theory End_To_End
  imports Rtos_System
begin

section \<open>Calls from end to end\<close>

text \<open>
  What a caller of the client library gets from the application on the other processor, through the driver, the
  rings, the cache and the firmware of \<^verbatim>\<open>Rtos_System\<close>: the loops of \<^verbatim>\<open>sg2002_rtos_message_call\<close> step by step, and the
  typed calls on top of it.
\<close>

subsection \<open>Waiting within the timeout\<close>

definition deadline_of :: "u32 \<Rightarrow> u64 \<Rightarrow> u64" where
  "deadline_of timeout_ms start = (if timeout_ms = UINT32_MAX then 0 else start + ucast timeout_ms)"

lemma in_timeD:
  assumes "in_time p readings limit timeout_ms start" "timeout_ms \<noteq> UINT32_MAX" "monotonic_milliseconds (os p) w = (now, w')"
    and "readings w < limit"
  shows "now < deadline_of timeout_ms start" "deadline_of timeout_ms start - now \<noteq> 0" "deadline_of timeout_ms start \<noteq> 0"
proof -
  have t: "unat start + unat timeout_ms < 2 ^ 64" "unat now < unat start + unat timeout_ms"
    using assms by (simp_all add: in_time_def) (metis fst_conv)+
  have "unat timeout_ms < 2 ^ LENGTH(64)" by (rule less_le_trans [OF unsigned_less]) simp
  then have u: "unat (ucast timeout_ms :: u64) = unat timeout_ms"
    by (simp only: unsigned_ucast_eq take_bit_nat_eq_self)
  have d: "unat (deadline_of timeout_ms start) = unat start + unat timeout_ms"
    using t(1) assms(2) u by (simp add: deadline_of_def unat_word_ariths)
  show l: "now < deadline_of timeout_ms start" using t(2) d by (simp only: word_less_nat_alt)
  show "deadline_of timeout_ms start - now \<noteq> 0" "deadline_of timeout_ms start \<noteq> 0" using l by auto
qed

lemma update_remaining_state:
  assumes "platform_ok p evc readings" "at_state p evc readings u n qs rs io held w" "in_time p readings limit timeout_ms start"
    and "u < limit"
  shows "\<exists>rem' v. update_remaining (system_env p a) timeout_ms (deadline_of timeout_ms start) rem w = (0, rem', v) \<and>
    poll_timeout rem' \<noteq> 0 \<and> at_state p evc readings (u + 1) n qs rs io held v"
proof (cases "timeout_ms = UINT32_MAX")
  case True
  then show ?thesis using at_state_later [OF assms(2), of "u + 1"] by (simp add: update_remaining_def poll_timeout_def)
next
  case False
  obtain now v where c: "monotonic_milliseconds (os p) w = (now, v)" by fastforce
  have "readings w < limit" using at_stateD(11) [OF assms(2)] assms(4) by simp
  note t = in_timeD [OF assms(3) False c this]
  note v = clock_state [OF assms(1,2) c]
  let ?d = "deadline_of timeout_ms start - now"
  have "remaining_of ?d \<noteq> 0"
  proof (cases "?d \<ge> UINT32_MAX")
    case True
    then show ?thesis by (simp add: remaining_of_def)
  next
    case False
    then have "unat ?d < 2 ^ 32" by (simp add: word_le_nat_alt)
    then have "unat (ucast ?d :: u32) = unat ?d" by (simp add: unsigned_ucast_eq take_bit_nat_eq_self)
    moreover have "0 < unat ?d" using t(2) by (simp only: unat_gt_0) simp
    ultimately have "ucast ?d \<noteq> (0 :: u32)" by (metis less_irrefl unat_0)
    then show ?thesis using False by (simp add: remaining_of_def)
  qed
  then have "uint (remaining_of ?d) \<noteq> 0" by (simp only: word_uint_eq_iff) simp
  then have "poll_timeout (remaining_of ?d) \<noteq> 0" by (simp only: poll_timeout_def split: if_splits) simp
  then show ?thesis using False c t(1) v by (simp add: update_remaining_def)
qed

text \<open>A poll with nothing ready lets the firmware answer every request.\<close>

lemma wait_state:
  assumes "platform_ok p evc readings" "at_state p evc readings u n qs [] io held w" "in_time p readings limit timeout_ms start"
    and "qs \<noteq> []" "ev = POLLIN \<or> ev = POLLIN OR POLLOUT \<and> length qs = 64" "fd r = device_fd p"
    and "served = serve_all (gpio_block p) qs io" "u < limit"
  shows "\<exists>rem' v. wait_for_kernel_events (system_env p a) r ev timeout_ms (deadline_of timeout_ms start) rem w = Some (0, rem', v) \<and>
    at_state p evc readings (u + 1) n [] (fst served) (snd served) held v"
proof -
  obtain rem' v where u: "update_remaining (system_env p a) timeout_ms (deadline_of timeout_ms start) rem w = (0, rem', v)"
    "poll_timeout rem' \<noteq> 0" "at_state p evc readings (u + 1) n qs [] io held v"
    using update_remaining_state [OF assms(1-3,8)] by blast
  note s = at_stateD [OF u(3)]
  let ?v = "firmware_turn p v"
  have f: "in_service p ?v" "queued_requests ?v = []" "queued_responses ?v = fst served" "registers ?v = snd served"
    "same_process evc readings v ?v" "next_sequence (driver ?v) = n"
    using firmware_turn_serves [OF assms(1) s(1,5), of served] s(3,4,6) assms(7) by simp_all
  have ne: "fst served \<noteq> []" using assms(4,7) serve_all_sequences [of "gpio_block p" qs io] by auto
  have "descriptor_events p v (device_fd p, ev) = 0" "descriptor_events p ?v (device_fd p, ev) \<noteq> 0"
    using assms(5) device_events [OF s(1)] device_events [OF f(1)] s(4,5) f(2,3) ne by auto
  then have "system_poll p [(device_fd p, ev)] (poll_timeout rem') v = (Inr (1, [descriptor_events p ?v (device_fd p, ev)]), ?v)"
    using u(2) by (simp add: system_poll_def Let_def)
  then have "wait_for_kernel_events (system_env p a) r ev timeout_ms (deadline_of timeout_ms start) rem w = Some (0, rem', ?v)"
    using assms(3,6) u(1) by (simp add: wait_for_kernel_events_def in_time_def) (subst wait_for_kernel_loop.simps, simp)
  moreover have "at_state p evc readings (u + 1) n [] (fst served) (snd served) held ?v"
    using f u(3) by (auto simp: at_state_def same_process_def pending_inv_def)
  ultimately show ?thesis by blast
qed

subsection \<open>The loops of a call\<close>

text \<open>The loop that waits for a response retains the ones of others, until none is left in the ring.\<close>

lemma match_drains:
  assumes "platform_ok p evc readings" "in_time p readings limit timeout_ms start" "at_state p evc readings u n qs (others @ rs) io held w"
    and "seq \<notin> sequence ` set held" "seq \<notin> sequence ` set others" "length held + length others \<le> 64"
    and "u + length others \<le> limit"
  shows "\<exists>rem' v. call_match_loop (system_env p a) r timeout_ms (deadline_of timeout_ms start) rem seq w =
      call_match_loop (system_env p a) r timeout_ms (deadline_of timeout_ms start) rem' seq v \<and>
    at_state p evc readings (u + length others) n qs rs io (held @ others) v"
  using assms(3-7)
proof (induction others arbitrary: held rem w u)
  case (Cons m others)
  let ?loop = "call_match_loop (system_env p a) r timeout_ms (deadline_of timeout_ms start)"
  obtain w1 where 1: "receive_from_kernel_locked (system_env p a) r zero_slot 0 w = (0, m, w1)"
    "at_state p evc readings u n qs (others @ rs) io held w1"
    using receive_state [OF assms(1)] Cons.prems(1) by fastforce
  have l: "length held < 64" using Cons.prems(4) by simp
  obtain w2 where 2: "retain_pending (system_env p a) m w1 = Some (0, w2)"
    "at_state p evc readings u n qs (others @ rs) io (held @ [m]) w2" using retain_state [OF assms(1) 1(2) l] by blast
  obtain now w3 where c: "monotonic_milliseconds (os p) w2 = (now, w3)" by fastforce
  note 3 = clock_state [OF assms(1) 2(2) c]
  have early: "readings w2 < limit" using at_stateD(11) [OF 2(2)] Cons.prems(5) by simp
  have m: "sequence m \<noteq> seq" using Cons.prems(3) by auto
  note absent = take_absent [OF Cons.prems(1,2)]
  have "\<exists>rem1 v. ?loop rem seq w = ?loop rem1 seq v \<and> at_state p evc readings (u + 1) n qs (others @ rs) io (held @ [m]) v"
  proof (cases "timeout_ms = UINT32_MAX")
    case True
    then have "?loop rem seq w = ?loop rem seq w2"
      using m by (subst call_match_loop.simps) (simp add: absent 1(1) 2(1) deadline_of_def)
    then show ?thesis using at_state_later [OF 2(2), of "u + 1"] by auto
  next
    case False
    note t = in_timeD [OF assms(2) False c early]
    have "?loop rem seq w = ?loop (ucast (deadline_of timeout_ms start - now)) seq w3"
      using m t(1,3) by (subst call_match_loop.simps) (simp add: absent 1(1) 2(1) c not_le [symmetric])
    then show ?thesis using 3 by blast
  qed
  then obtain rem1 v where v: "?loop rem seq w = ?loop rem1 seq v" "at_state p evc readings (u + 1) n qs (others @ rs) io (held @ [m]) v"
    by blast
  have "seq \<notin> sequence ` set (held @ [m])" "seq \<notin> sequence ` set others" "length (held @ [m]) + length others \<le> 64"
    "u + 1 + length others \<le> limit"
    using Cons.prems(2-5) m by auto
  from Cons.IH [OF v(2) this] v(1) show ?case by auto
qed auto

lemma match_finds:
  assumes "platform_ok p evc readings" "in_time p readings limit timeout_ms start" "at_state p evc readings u n qs (others @ m # rs) io held w"
    and "seq \<notin> sequence ` set held" "seq \<notin> sequence ` set others" "sequence m = seq" "length held + length others \<le> 64"
    and "u + length others \<le> limit"
  shows "\<exists>v. call_match_loop (system_env p a) r timeout_ms (deadline_of timeout_ms start) rem seq w = Some (Inr m, v) \<and>
    at_state p evc readings (u + length others) n qs rs io (held @ others) v"
proof -
  obtain rem' v where v: "call_match_loop (system_env p a) r timeout_ms (deadline_of timeout_ms start) rem seq w =
      call_match_loop (system_env p a) r timeout_ms (deadline_of timeout_ms start) rem' seq v"
    "at_state p evc readings (u + length others) n qs (m # rs) io (held @ others) v"
    using match_drains [OF assms(1-5,7,8)] by blast
  obtain v' where v': "receive_from_kernel_locked (system_env p a) r zero_slot 0 v = (0, m, v')"
    "at_state p evc readings (u + length others) n qs rs io (held @ others) v'"
    using receive_state [OF assms(1) v(2)] by blast
  have "seq \<notin> sequence ` set (held @ others)" using assms(4,5) by auto
  from take_absent [OF v(2) this] v' v(1) assms(6) show ?thesis
    by (subst (asm) (2) call_match_loop.simps) auto
qed

text \<open>The loop finds its response among the answers the firmware gives while it waits.\<close>

lemma match_waits_and_finds:
  assumes "platform_ok p evc readings" "in_time p readings limit timeout_ms start" "at_state p evc readings u n qs rs io held w" "fd r = device_fd p"
    and "serve_all (gpio_block p) qs io = (before @ m # after, io')"
    and "seq \<notin> sequence ` set held" "seq \<notin> sequence ` set rs" "seq \<notin> sequence ` set before" "sequence m = seq"
    and "length held + length rs + length before \<le> 64"
    and "u + length rs + 1 + length before \<le> limit"
  shows "\<exists>v. call_match_loop (system_env p a) r timeout_ms (deadline_of timeout_ms start) rem seq w = Some (Inr m, v) \<and>
    at_state p evc readings (u + length rs + 1 + length before) n [] after io' (held @ rs @ before) v"
proof -
  let ?loop = "call_match_loop (system_env p a) r timeout_ms (deadline_of timeout_ms start)"
  have "at_state p evc readings u n qs (rs @ []) io held w" "length held + length rs \<le> 64" "u + length rs \<le> limit"
    using assms(3,10,11) by simp_all
  then obtain rem1 v where 1: "?loop rem seq w = ?loop rem1 seq v" "at_state p evc readings (u + length rs) n qs [] io (held @ rs) v"
    using match_drains [OF assms(1,2) _ assms(6,7)] by blast
  obtain v1 where 2: "receive_from_kernel_locked (system_env p a) r zero_slot 0 v = (- EAGAIN, zero_slot, v1)"
    "at_state p evc readings (u + length rs) n qs [] io (held @ rs) v1" using receive_state_empty [OF assms(1) 1(2)] by blast
  have "qs \<noteq> []" "u + length rs < limit" using assms(5,11) by auto
  then obtain rem2 v2 where 3: "wait_for_kernel_events (system_env p a) r POLLIN timeout_ms (deadline_of timeout_ms start) rem1 v1 =
      Some (0, rem2, v2)" "at_state p evc readings (u + length rs + 1) n [] (before @ m # after) io' (held @ rs) v2"
    using wait_state [OF assms(1) 2(2) assms(2) _ _ assms(4) assms(5) [symmetric], where ev = POLLIN and rem = rem1 and a = a] by auto
  have s: "seq \<notin> sequence ` set (held @ rs)" using assms(6,7) by auto
  have "?loop rem1 seq v = ?loop rem2 seq v2"
    by (subst call_match_loop.simps) (simp add: take_absent [OF 1(2) s] 2(1) 3(1))
  moreover have "length (held @ rs) + length before \<le> 64"
    "u + length rs + 1 + length before \<le> limit" using assms(10,11) by simp_all
  ultimately show ?thesis
    using match_finds [OF assms(1,2) 3(2) s assms(8,9)] 1(1) by simp
qed

text \<open>The loop that submits the request: it finds a place, or waits until the firmware has made one.\<close>

lemma slot_of_bytes_ok:
  assumes "length bs \<le> SG2002_RTOS_SHM_PAYLOAD_SIZE"
  shows "message_ok (slot_of_bytes s bs)" "slot_bytes (slot_of_bytes s bs) = bs"
    "slot_length (slot_of_bytes s bs) = of_nat (length bs)" "unat (slot_length (slot_of_bytes s bs)) = length bs"
proof -
  show u: "unat (slot_length (slot_of_bytes s bs)) = length bs"
    using assms by (simp add: slot_of_bytes_def unat_of_nat_u16)
  then show "message_ok (slot_of_bytes s bs)" "slot_bytes (slot_of_bytes s bs) = bs"
    using assms by (simp_all add: message_ok_def slot_wf_def slot_bytes_def slot_of_bytes_def word_le_nat_alt)
qed (simp add: slot_of_bytes_def)

text \<open>The transfer the library fills for a request.\<close>

lemma message_send_locked_transfer:
  assumes "unat len \<le> length req" "len \<le> SG2002_RTOS_SHM_PAYLOAD_SIZE"
  shows "message_send_locked env r (Some req) len t (Some seq) w =
    (case ioctl_send env (fd r) \<lparr>transfer_timeout_ms = t, message = slot_of_bytes 0 (take (unat len) req)\<rparr> w of
       (Inl e, w) \<Rightarrow> Some (- e, Some seq, w)
     | (Inr transfer, w) \<Rightarrow> if sequence (message transfer) = 0 then Some (- EPROTO, Some seq, w)
         else Some (0, Some (sequence (message transfer)), w))"
proof -
  have n: "unat len \<le> 1018" using assms(2) by (simp add: word_le_nat_alt)
  have m: "\<lparr>sequence = 0, slot_length = len, payload = take (unat len) req @ replicate (1018 - unat len) 0\<rparr> =
      slot_of_bytes 0 (take (unat len) req)"
    using assms(1) by (simp add: slot_of_bytes_def)
  show ?thesis
  proof (cases "len > 0")
    case True
    then show ?thesis using assms n m
      by (simp add: message_send_locked_def Let_def read_bytes_def write_bytes_def leD)
  next
    case False
    then have z: "len = 0" by (simp add: word_less_nat_alt word_unat_eq_iff)
    then show ?thesis using m by (simp add: message_send_locked_def Let_def)
  qed
qed

lemma send_locked_state:
  assumes "platform_ok p evc readings" "at_state p evc readings u n qs rs io held w" "length qs < 64"
    and "unat len \<le> length req" "len \<le> SG2002_RTOS_SHM_PAYLOAD_SIZE" "s = fresh_sequence n"
  shows "\<exists>v. message_send_locked (system_env p a) r (Some req) len 0 (Some seq) w = Some (0, Some s, v) \<and>
    at_state p evc readings u (next_sequence (driver v)) (qs @ [slot_of_bytes s (take (unat len) req)]) rs io held v"
proof -
  note st = at_stateD [OF assms(2)]
  let ?t = "\<lparr>transfer_timeout_ms = 0, message = slot_of_bytes 0 (take (unat len) req)\<rparr>"
  let ?q = "slot_of_bytes s (take (unat len) req)"
  have "length (take (unat len) req) \<le> SG2002_RTOS_SHM_PAYLOAD_SIZE" using assms(5) by (simp add: word_le_nat_alt)
  note ok = slot_of_bytes_ok(1) [OF this, of 0]
  have q: "tag s (message ?t) = ?q" by (simp add: slot_of_bytes_def)
  obtain k where k: "transfer_ioctl p (SG2002_RTOS_SHM_SEND ?t) w = (Inr (?t\<lparr>message := ?q\<rparr>), w\<lparr>driver := k\<rparr>)"
    "in_service p (w\<lparr>driver := k\<rparr>)" "requests (shm_base k) = qs @ [?q]" "responses (shm_base k) = rs"
    using send_ioctl [OF assms(1) st(1), of ?t s ?q] assms(3,6) ok st(3-5) q by auto
  then show ?thesis
    using at_state_driver [OF assms(1,2) k(2)] assms(6)
    by (simp add: message_send_locked_transfer [OF assms(4,5)])
qed

lemma send_locked_full:
  assumes "platform_ok p evc readings" "at_state p evc readings u n qs rs io held w" "length qs = 64"
    and "unat len \<le> length req" "len \<le> SG2002_RTOS_SHM_PAYLOAD_SIZE"
  shows "\<exists>v. message_send_locked (system_env p a) r (Some req) len 0 (Some seq) w = Some (- EAGAIN, Some seq, v) \<and>
    at_state p evc readings u n qs rs io held v"
proof -
  note st = at_stateD [OF assms(2)]
  let ?t = "\<lparr>transfer_timeout_ms = 0, message = slot_of_bytes 0 (take (unat len) req)\<rparr>"
  have "length (take (unat len) req) \<le> SG2002_RTOS_SHM_PAYLOAD_SIZE" using assms(5) by (simp add: word_le_nat_alt)
  note ok = slot_of_bytes_ok(1) [OF this, of 0]
  obtain k where k: "transfer_ioctl p (SG2002_RTOS_SHM_SEND ?t) w = (Inl EAGAIN, w\<lparr>driver := k\<rparr>)" "core k = core (driver w)"
    using send_ioctl_full [OF assms(1) st(1), of ?t] assms(3) ok st(4) by auto
  then show ?thesis
    using at_state_driver [OF assms(1,2) in_service_core [OF st(1) k(2)]] core_fields(1,5) [OF k(2)] st(3-5)
    by (simp add: message_send_locked_transfer [OF assms(4,5)])
qed

lemma submit_state:
  assumes "platform_ok p evc readings" "at_state p evc readings u n qs rs io held w" "length qs < 64"
    and "unat len \<le> length req" "len \<le> SG2002_RTOS_SHM_PAYLOAD_SIZE" "s = fresh_sequence n"
  shows "\<exists>n' v. call_submit_loop (system_env p a) r (Some req) len timeout_ms d rem seq w = Some (Inr (s, rem), v) \<and>
    at_state p evc readings u n' (qs @ [slot_of_bytes s (take (unat len) req)]) rs io held v"
proof -
  obtain w1 where 1: "mutex_lock (os p) Rx_lock w = (0, w1)" "at_state p evc readings u n qs rs io held w1"
    using lock_state(1) [OF assms(1,2)] by blast
  obtain w2 where 2: "mutex_lock (os p) Tx_lock w1 = (0, w2)" "at_state p evc readings u n qs rs io held w2"
    using lock_state(1) [OF assms(1) 1(2)] by blast
  obtain w3 where 3: "message_send_locked (system_env p a) r (Some req) len 0 (Some seq) w2 = Some (0, Some s, w3)"
    "at_state p evc readings u (next_sequence (driver w3)) (qs @ [slot_of_bytes s (take (unat len) req)]) rs io held w3"
    using send_locked_state [OF assms(1) 2(2) assms(3-6)] by blast
  have "call_submit_loop (system_env p a) r (Some req) len timeout_ms d rem seq w =
      Some (Inr (s, rem), mutex_unlock (os p) Tx_lock w3)"
    by (subst call_submit_loop.simps) (simp add: 1(1) 2(1) 3(1))
  then show ?thesis using lock_state(2) [OF assms(1) 3(2)] by blast
qed

lemma submit_full:
  assumes "platform_ok p evc readings" "in_time p readings limit timeout_ms start" "at_state p evc readings u n qs [] io held w" "length qs = 64"
    and "unat len \<le> length req" "len \<le> SG2002_RTOS_SHM_PAYLOAD_SIZE" "fd r = device_fd p"
    and "served = serve_all (gpio_block p) qs io" "u < limit"
  shows "\<exists>rem' v. call_submit_loop (system_env p a) r (Some req) len timeout_ms (deadline_of timeout_ms start) rem seq w =
      call_submit_loop (system_env p a) r (Some req) len timeout_ms (deadline_of timeout_ms start) rem' seq v \<and>
    at_state p evc readings (u + 1) n [] (fst served) (snd served) held v"
proof -
  obtain w1 where 1: "mutex_lock (os p) Rx_lock w = (0, w1)" "at_state p evc readings u n qs [] io held w1"
    using lock_state(1) [OF assms(1,3)] by blast
  obtain w2 where 2: "mutex_lock (os p) Tx_lock w1 = (0, w2)" "at_state p evc readings u n qs [] io held w2"
    using lock_state(1) [OF assms(1) 1(2)] by blast
  obtain w3 where 3: "message_send_locked (system_env p a) r (Some req) len 0 (Some seq) w2 = Some (- EAGAIN, Some seq, w3)"
    "at_state p evc readings u n qs [] io held w3"
    using send_locked_full [OF assms(1) 2(2) assms(4-6)] by blast
  note 4 = lock_state(2) [OF assms(1) 3(2), of Tx_lock]
  obtain w5 where 5: "receive_from_kernel_locked (system_env p a) r zero_slot 0 (mutex_unlock (os p) Tx_lock w3) = (- EAGAIN, zero_slot, w5)"
    "at_state p evc readings u n qs [] io held w5" using receive_state_empty [OF assms(1) 4] by blast
  note 6 = lock_state(2) [OF assms(1) 5(2), of Rx_lock]
  have "qs \<noteq> []" using assms(4) by auto
  then obtain rem' v where 7: "wait_for_kernel_events (system_env p a) r (POLLIN OR POLLOUT) timeout_ms (deadline_of timeout_ms start) rem
      (mutex_unlock (os p) Rx_lock w5) = Some (0, rem', v)" "at_state p evc readings (u + 1) n [] (fst served) (snd served) held v"
    using wait_state [OF assms(1) 6 assms(2) _ _ assms(7,8,9), where ev = "POLLIN OR POLLOUT" and rem = rem and a = a] assms(4) by auto
  have "call_submit_loop (system_env p a) r (Some req) len timeout_ms (deadline_of timeout_ms start) rem seq w =
      call_submit_loop (system_env p a) r (Some req) len timeout_ms (deadline_of timeout_ms start) rem' seq v"
    by (subst call_submit_loop.simps) (use 7(1) in \<open>simp add: 1(1) 2(1) 3(1) 5(1)\<close>)
  then show ?thesis using 7(2) by blast
qed

lemma serve_all_append:
  "serve_all mm (qs @ qs') io = (let (rs, io) = serve_all mm qs io; (rs', io) = serve_all mm qs' io in (rs @ rs', io))"
  by (induction qs arbitrary: io) (simp_all add: Let_def split_def)

lemma response_to_fields:
  assumes "response_to mm q io = (m, io')"
  shows "message_ok m" "sequence m = sequence q" "slot_bytes m =
    (case fst (app_reply mm (slot_bytes q) SG2002_RTOS_SHM_PAYLOAD_SIZE io) of None \<Rightarrow> [] | Some bs \<Rightarrow> bs)"
    "unat (slot_length m) = length (slot_bytes m)"
proof -
  obtain reply where r: "app_reply mm (slot_bytes q) SG2002_RTOS_SHM_PAYLOAD_SIZE io = (reply, io')"
    "m = slot_of_bytes (sequence q) (case reply of None \<Rightarrow> [] | Some bs \<Rightarrow> bs)"
    using assms by (auto simp: response_to_def split: prod.splits)
  have l: "length (case reply of None \<Rightarrow> [] | Some bs \<Rightarrow> bs) \<le> SG2002_RTOS_SHM_PAYLOAD_SIZE"
    using r(1) app_reply_length by (cases reply) auto
  show "message_ok m" "sequence m = sequence q" "slot_bytes m =
    (case fst (app_reply mm (slot_bytes q) SG2002_RTOS_SHM_PAYLOAD_SIZE io) of None \<Rightarrow> [] | Some bs \<Rightarrow> bs)"
    "unat (slot_length m) = length (slot_bytes m)"
    using slot_of_bytes_ok [OF l, of "sequence q"] r by simp_all
qed

subsection \<open>A call from end to end\<close>

text \<open>The reply of the application to a message, for a process that gets no bytes when it is not handled.\<close>

abbreviation reply_to :: "'io mmio_ops \<Rightarrow> bytes \<Rightarrow> 'io \<Rightarrow> bytes" where
  "reply_to mm bs io \<equiv> (case fst (app_reply mm bs SG2002_RTOS_SHM_PAYLOAD_SIZE io) of None \<Rightarrow> [] | Some reply \<Rightarrow> reply)"

lemma call_loops:
  assumes "platform_ok p evc readings" "in_time p readings limit timeout_ms start" "at_state p evc readings u n qs rs io held w" "fd r = device_fd p"
    and "unat len \<le> length req" "len \<le> SG2002_RTOS_SHM_PAYLOAD_SIZE" "s = fresh_sequence n"
    and "s \<notin> sequence ` set (held @ rs @ qs)" "length held + length rs + length qs \<le> 64"
    and "served = serve_all (gpio_block p) qs io"
    and "response_to (gpio_block p) (slot_of_bytes s (take (unat len) req)) (snd served) = (m, io')"
    and "u + 66 \<le> limit"
  shows "\<exists>rem' v v' n'. call_submit_loop (system_env p a) r (Some req) len timeout_ms (deadline_of timeout_ms start) rem seq w =
      Some (Inr (s, rem'), v) \<and>
    call_match_loop (system_env p a) r timeout_ms (deadline_of timeout_ms start) rem' s v = Some (Inr m, v') \<and>
    at_state p evc readings (u + 66) n' [] [] io' (held @ rs @ fst served) v'"
proof -
  let ?q = "slot_of_bytes s (take (unat len) req)"
  note m = response_to_fields [OF assms(11)]
  have ms: "sequence m = s" using m(2) by simp
  have sq: "sequence ` set (fst served) = sequence ` set qs"
    using serve_all_sequences [of "gpio_block p" qs io] assms(10) by (metis list.set_map)
  have sl: "length (fst served) = length qs"
    using serve_all_sequences [of "gpio_block p" qs io] assms(10) by (metis length_map)
  have fresh: "s \<notin> sequence ` set held" "s \<notin> sequence ` set rs" "s \<notin> sequence ` set (fst served)"
    using assms(8) sq by auto
  show ?thesis
  proof (cases "length qs < 64")
    case True
    obtain n' v where v: "call_submit_loop (system_env p a) r (Some req) len timeout_ms (deadline_of timeout_ms start) rem seq w =
        Some (Inr (s, rem), v)" "at_state p evc readings u n' (qs @ [?q]) rs io held v"
      using submit_state [OF assms(1,3) True assms(5-7)] by blast
    have sv: "serve_all (gpio_block p) (qs @ [?q]) io = (fst served @ m # [], io')"
      using assms(10,11) by (simp add: serve_all_append Let_def split_def)
    have "length held + length rs + length (fst served) \<le> 64" "u + length rs + 1 + length (fst served) \<le> limit"
      using assms(9,12) sl by simp_all
    with fresh obtain v' where "call_match_loop (system_env p a) r timeout_ms (deadline_of timeout_ms start) rem s v =
        Some (Inr m, v')" and later: "at_state p evc readings (u + length rs + 1 + length (fst served)) n' [] [] io' (held @ rs @ fst served) v'"
      using match_waits_and_finds [OF assms(1,2) v(2) assms(4) sv _ _ _ ms] by blast
    moreover have "u + length rs + 1 + length (fst served) \<le> u + 66" using assms(9) sl by simp
    ultimately show ?thesis using v(1) at_state_later [OF later] by blast
  next
    case False
    then have "length qs = 64 \<and> length rs = 0 \<and> length held = 0" using assms(9) by linarith
    then have full: "length qs = 64" "rs = []" "held = []" by simp_all
    have w: "at_state p evc readings u n qs [] io [] w" and early: "u < limit" using assms(3,12) full by simp_all
    obtain rem1 v where v: "call_submit_loop (system_env p a) r (Some req) len timeout_ms (deadline_of timeout_ms start) rem seq w =
        call_submit_loop (system_env p a) r (Some req) len timeout_ms (deadline_of timeout_ms start) rem1 seq v"
      "at_state p evc readings (u + 1) n [] (fst served) (snd served) [] v"
      using submit_full [OF assms(1,2) w full(1) assms(5,6,4,10) early] by blast
    obtain n' v1 where v1: "call_submit_loop (system_env p a) r (Some req) len timeout_ms (deadline_of timeout_ms start) rem1 seq v =
        Some (Inr (s, rem1), v1)" "at_state p evc readings (u + 1) n' ([] @ [?q]) (fst served) (snd served) [] v1"
      using submit_state [OF assms(1) v(2) _ assms(5-7), where r = r and a = a and rem = rem1 and seq = seq and
          timeout_ms = timeout_ms and d = "deadline_of timeout_ms start"] by auto
    have sv: "serve_all (gpio_block p) ([] @ [?q]) (snd served) = ([] @ m # [], io')" using assms(11) by simp
    have none: "s \<notin> sequence ` set []" by simp
    have room: "length [] + length (fst served) + length [] \<le> 64" "u + 1 + length (fst served) + 1 + length [] \<le> limit"
      and total: "u + 1 + length (fst served) + 1 + length [] = u + 66"
      using sl full(1) assms(12) by simp_all
    obtain v' where "call_match_loop (system_env p a) r timeout_ms (deadline_of timeout_ms start) rem1 s v1 =
        Some (Inr m, v')" "at_state p evc readings (u + 66) n' [] [] io' ([] @ fst served @ []) v'"
      using match_waits_and_finds [OF assms(1,2) v1(2) assms(4) sv none fresh(3) none ms room, of a rem1] unfolding total by blast
    then show ?thesis using v(1) v1(1) full by auto
  qed
qed

lemma timeout_deadline_state:
  assumes "platform_ok p evc readings" "at_state p evc readings u n qs rs io held w" "timeout_ms \<noteq> 0"
    and "start = fst (monotonic_milliseconds (os p) w)"
  shows "\<exists>v. timeout_deadline (system_env p a) timeout_ms w = (deadline_of timeout_ms start, v) \<and> at_state p evc readings (u + 1) n qs rs io held v"
proof (cases "timeout_ms = UINT32_MAX")
  case True
  then show ?thesis using at_state_later [OF assms(2), of "u + 1"] by (simp add: timeout_deadline_def deadline_of_def)
next
  case False
  obtain now v where c: "monotonic_milliseconds (os p) w = (now, v)" by fastforce
  then show ?thesis using False assms(3,4) clock_state [OF assms(1,2) c] by (simp add: timeout_deadline_def deadline_of_def)
qed

lemma message_call_state:
  assumes "platform_ok p evc readings" "start = fst (monotonic_milliseconds (os p) w)" "in_time p readings limit timeout_ms start"
    and "at_state p evc readings u n qs rs io held w" "shared_memory_enabled (priv w)"
    and "fd r = device_fd p" "0 \<le> fd r" "private_data r"
    and "unat len \<le> length req" "len \<le> SG2002_RTOS_SHM_PAYLOAD_SIZE" "unat capacity \<le> length buf"
    and "s = fresh_sequence n" "s \<notin> sequence ` set (held @ rs @ qs)" "length held + length rs + length qs \<le> 64"
    and "served = serve_all (gpio_block p) qs io"
    and "reply = reply_to (gpio_block p) (take (unat len) req) (snd served)"
    and "io' = snd (app_reply (gpio_block p) (take (unat len) req) SG2002_RTOS_SHM_PAYLOAD_SIZE (snd served))"
    and "u + 67 \<le> limit"
  shows "\<exists>n' v. sg2002_rtos_message_call (system_env p a) (Some r) (Some req) len (Some buf) capacity (Some l) timeout_ms w =
      (if length reply \<le> unat capacity then Some (0, Some (reply @ drop (length reply) buf), Some (of_nat (length reply)), v)
       else Some (- EMSGSIZE, Some buf, Some (of_nat (length reply)), v)) \<and>
    at_state p evc readings (u + 67) n' [] [] io' (held @ rs @ fst served) v"
proof -
  let ?bs = "take (unat len) req"
  have bs: "length ?bs \<le> SG2002_RTOS_SHM_PAYLOAD_SIZE" using assms(10) by (simp add: word_le_nat_alt)
  obtain m where m: "response_to (gpio_block p) (slot_of_bytes s ?bs) (snd served) = (m, io')"
    using slot_of_bytes_ok(2) [OF bs, of s] assms(17) by (simp add: response_to_def split_def)
  note f = response_to_fields [OF m]
  have reply: "slot_bytes m = reply" using f(3) slot_of_bytes_ok(2) [OF bs, of s] assms(16) by simp
  obtain v where v: "timeout_deadline (system_env p a) timeout_ms w = (deadline_of timeout_ms start, v)"
    "at_state p evc readings (u + 1) n qs rs io held v"
    using timeout_deadline_state [OF assms(1,4) _ assms(2), of timeout_ms a] assms(3) by (auto simp: in_time_def)
  have limit: "u + 1 + 66 \<le> limit" using assms(18) by simp
  obtain rem' v1 v2 n' where c: "call_submit_loop (system_env p a) r (Some req) len timeout_ms (deadline_of timeout_ms start) timeout_ms 0 v =
      Some (Inr (s, rem'), v1)"
    "call_match_loop (system_env p a) r timeout_ms (deadline_of timeout_ms start) rem' s v1 = Some (Inr m, v2)"
    "at_state p evc readings (u + 1 + 66) n' [] [] io' (held @ rs @ fst served) v2"
    using call_loops [OF assms(1,3) v(2) assms(6,9,10,12-15) m limit] by blast
  have fits: "slot_length m \<le> capacity \<longleftrightarrow> length reply \<le> unat capacity" "slot_length m = of_nat (length reply)"
    using f(4) reply by (simp add: word_le_nat_alt) (metis f(4) of_nat_unat reply ucast_id)
  have ok: "slot_wf m" "slot_length m \<le> SG2002_RTOS_SHM_PAYLOAD_SIZE" using f(1) by (simp_all add: message_ok_def)
  have "copy_message m (Some buf) capacity None =
      Some (if length reply \<le> unat capacity then (0, Some (reply @ drop (length reply) buf), of_nat (length reply), None)
        else (- EMSGSIZE, Some buf, of_nat (length reply), None))"
    using copy_message_exact [OF ok assms(11), of None, unfolded f(4) fits(1) reply] fits(2) reply f(4)
    by (simp add: slot_bytes_def)
  then have "sg2002_rtos_message_call (system_env p a) (Some r) (Some req) len (Some buf) capacity (Some l) timeout_ms w =
      (if length reply \<le> unat capacity
       then Some (0, Some (reply @ drop (length reply) buf), Some (of_nat (length reply)), mutex_unlock (os p) Rx_lock v2)
       else Some (- EMSGSIZE, Some buf, Some (of_nat (length reply)), mutex_unlock (os p) Rx_lock v2))"
    using assms(5,7,8) v(1) c(1,2)
    by (simp add: sg2002_rtos_message_call_def sg2002_rtos_shared_memory_available_def)
  moreover have "at_state p evc readings (u + 67) n' [] [] io' (held @ rs @ fst served) v2"
    using at_state_later [OF c(3), of "u + 67"] by simp
  note lock_state(2) [OF assms(1) this, of Rx_lock]
  ultimately show ?thesis by auto
qed

text \<open>A process with an open handle on a channel in service.\<close>

definition channel_open ::
  "('io, 'x) platform \<Rightarrow> (('io, 'x) rtos_world_scheme \<Rightarrow> nat) \<Rightarrow> sg2002_rtos \<Rightarrow> ('io, 'x) rtos_world_scheme \<Rightarrow> bool" where
  "channel_open p evc r w \<longleftrightarrow> in_service p w \<and> pending_inv evc w \<and> shared_memory_enabled (priv w) \<and>
     fd r = device_fd p \<and> 0 \<le> fd r \<and> private_data r"

text \<open>What other threads of the process have under way: retained and queued responses, and queued requests.
  A call needs space to retain all their responses, and a sequence none of them has.\<close>

definition others_fit :: "('io, 'x) rtos_world_scheme \<Rightarrow> bool" where
  "others_fit w \<longleftrightarrow> length (pending (priv w)) + length (queued_responses w) + length (queued_requests w) \<le> 64 \<and>
     fresh_sequence (next_sequence (driver w)) \<notin> sequence ` set (pending (priv w) @ queued_responses w @ queued_requests w)"

text \<open>The channel after a call: open, with nothing queued, every other response retained in order.\<close>

definition settled ::
  "('io, 'x) platform \<Rightarrow> (('io, 'x) rtos_world_scheme \<Rightarrow> nat) \<Rightarrow> sg2002_rtos \<Rightarrow> ('io, 'x) rtos_world_scheme \<Rightarrow>
    ('io, 'x) rtos_world_scheme \<Rightarrow> bool" where
  "settled p evc r w v \<longleftrightarrow> channel_open p evc r v \<and> queued_requests v = [] \<and> queued_responses v = [] \<and>
     pending (priv v) = pending (priv w) @ queued_responses w @
       fst (serve_all (gpio_block p) (queued_requests w) (registers w))"

lemma channel_open_state:
  assumes "channel_open p evc r w"
  shows "at_state p evc readings (readings w) (next_sequence (driver w)) (queued_requests w) (queued_responses w) (registers w) (pending (priv w)) w"
    "shared_memory_enabled (priv w)" "fd r = device_fd p" "0 \<le> fd r" "private_data r"
  using assms by (simp_all add: channel_open_def at_state_def)

lemma settled_state:
  assumes "channel_open p evc r w" "served = serve_all (gpio_block p) (queued_requests w) (registers w)"
    and "at_state p evc readings u n' [] [] io' (pending (priv w) @ queued_responses w @ fst served) v"
  shows "settled p evc r w v \<and> registers v = io'"
  using assms by (simp add: settled_def channel_open_def at_state_def)

text \<open>The typed calls send a value message with the default timeout.\<close>

lemma value_call:
  assumes "platform_ok p evc readings" "in_time p readings (readings w + 67) (ucast t) (fst (monotonic_milliseconds (os p) w))" "t \<noteq> 0"
    and "channel_open p evc r w" "others_fit w"
    and "SG2002_RTOS_CMD_FIRST \<le> c" "c \<le> SG2002_RTOS_CMD_LAST" "c \<noteq> SG2002_RTOS_CMD_ECHO"
    and "command_value (gpio_block p) c x (snd (serve_all (gpio_block p) (queued_requests w) (registers w))) = (y, io')"
  shows "\<exists>v. sg2002_rtos_call (system_env p a) (Some r) c x t (Some cell) w = Some (0, Some y, v) \<and>
    settled p evc r w v \<and> registers v = io'"
proof -
  define served where served: "served = serve_all (gpio_block p) (queued_requests w) (registers w)"
  note st = channel_open_state [OF assms(4)]
  have reply: "app_reply (gpio_block p) (take (unat (5 :: u16)) (c # le32 x)) SG2002_RTOS_SHM_PAYLOAD_SIZE (snd served) =
      (Some (value_message c y), io')"
    using assms(6-9) by (simp add: app_reply_def not_less served)
  obtain n' v where v: "sg2002_rtos_message_call (system_env p a) (Some r) (Some (c # le32 x)) 5 (Some (replicate 5 0)) 5 (Some 0)
      (ucast t) w = Some (0, Some (value_message c y), Some 5, v)"
    "at_state p evc readings (readings w + 67) n' [] [] io' (pending (priv w) @ queued_responses w @ fst served) v"
    using message_call_state [OF assms(1) refl assms(2) st(1-5), of 5 "c # le32 x" 5 "replicate 5 0" _ served, OF _ _ _ refl
        _ _ served refl refl, of a 0] reply assms(5) by (auto simp: others_fit_def)
  have "read_bytes (value_message c y) 1 4 = Some (le32 y)" "read_byte (value_message c y) 0 = Some c"
    by (simp_all add: value_message_def read_bytes_def read_byte_def)
  then have "sg2002_rtos_call (system_env p a) (Some r) c x t (Some cell) w = Some (0, Some y, v)"
    using v(1) st(2,4,5) assms(3,6,7) by (simp add: sg2002_rtos_call_def not_less Let_def)
  then show ?thesis using settled_state [OF assms(4) served v(2)] by blast
qed

subsection \<open>A concrete machine\<close>

text \<open>A channel that has just been opened: plain registers, a simulated cache, an event descriptor that counts, and
  a clock that advances by a millisecond with every reading.\<close>

record demo_system = "(u32 \<Rightarrow> u32) rtos_world" +
  demo_events :: nat
  demo_clock :: nat

definition demo_os :: "demo_system linux_env" where
  "demo_os = \<lparr>sys_open = (\<lambda>w. (Inr 3, w)), sys_close = (\<lambda>f w. w), ioctl_acquire = (\<lambda>f w. (Inl EOPNOTSUPP, w)),
     ioctl_send = (\<lambda>f t w. (Inl ENOTTY, w)), ioctl_receive = (\<lambda>f t w. (Inl ENOTTY, w)),
     ioctl_submit_batch = (\<lambda>f b ms w. (Inl ENOTTY, ms, w)), ioctl_reap_batch = (\<lambda>f b ms w. (Inl ENOTTY, ms, w)),
     ioctl_send_wait = (\<lambda>f c w. (Inl ENOTTY, w)), sys_poll = (\<lambda>ds t w. (Inl EINTR, w)),
     event_write = (\<lambda>f v w. (Inr 8, w\<lparr>demo_events := demo_events w + 1\<rparr>)),
     event_read = (\<lambda>f w. if demo_events w = 0 then (Inl EAGAIN, w)
        else (Inr (8, 1), w\<lparr>demo_events := demo_events w - 1\<rparr>)),
     clock_gettime = (\<lambda>w. (Some (of_nat (demo_clock w div 1000), of_nat (demo_clock w mod 1000 * 1000000)),
        w\<lparr>demo_clock := demo_clock w + 1\<rparr>)), calloc_private = (\<lambda>w. (True, w)), free_private = (\<lambda>w. w),
     mutex_init = (\<lambda>l w. (0, w)), mutex_destroy = (\<lambda>l w. w), mutex_lock = (\<lambda>l w. (0, w)),
     mutex_unlock = (\<lambda>l w. w), eventfd_create = (\<lambda>w. (Inr 4, w))\<rparr>"

definition demo_platform where
  "demo_platform = \<lparr>os = demo_os, kernel = still_env, cache_invalidate = sim_inv, cache_clean = sim_clean,
     gpio_block = plain_mmio, device_fd = 3, device_file = 7, other_events = (\<lambda>d w. 0)\<rparr>"

definition demo_machine :: demo_system where
  "demo_machine = \<lparr>priv = \<lparr>pending_fd = 4, shared_memory_enabled = True, submit_batch_supported = 0,
       reap_batch_supported = 0, private_generation = 1, pending = []\<rparr>,
     driver = owned_world new_region, firmware = demo_transport, data_cache = blank_region,
     registers = (\<lambda>a. if a = 0x03020050 then 0x20000000 else 0), demo_events = 0, demo_clock = 0\<rparr>"

abbreviation demo_handle :: sg2002_rtos where
  "demo_handle \<equiv> \<lparr>fd = 3, private_data = True\<rparr>"

lemma demo_platform_ok: "platform_ok demo_platform demo_events demo_clock"
  by (simp add: platform_ok_def demo_platform_def demo_os_def eventfd_ok_def same_process_def hardware_def)

lemma demo_in_time:
  "in_time demo_platform demo_clock (demo_clock demo_machine + 67) 3000 (fst (monotonic_milliseconds (os demo_platform) demo_machine))"
proof -
  have m: "unat (fst (monotonic_milliseconds (os demo_platform) v)) = demo_clock v" if "demo_clock v < 67" for v
  proof -
    have "demo_clock v div 1000 = 0" "demo_clock v mod 1000 = demo_clock v" using that by simp_all
    moreover have "unat (of_nat (demo_clock v * 1000000) :: u64) = demo_clock v * 1000000"
      using that by (simp only: unat_of_nat) (simp add: take_bit_nat_eq_self)
    ultimately show ?thesis
      by (simp add: monotonic_milliseconds_def demo_platform_def demo_os_def unat_div del: of_nat_mult of_nat_numeral)
  qed
  have "demo_clock demo_machine = 0" by (simp add: demo_machine_def)
  then show ?thesis using m by (simp add: in_time_def)
qed

lemma demo_machine_open:
  "channel_open demo_platform demo_events demo_handle demo_machine" "others_fit demo_machine"
  "queued_requests demo_machine = []" "registers demo_machine = (\<lambda>a. if a = 0x03020050 then 0x20000000 else 0)"
proof -
  note n = new_channel_ok
  have "in_service demo_platform demo_machine"
    using n region_wf_blank by (simp add: in_service_def demo_platform_def demo_machine_def)
  then show "channel_open demo_platform demo_events demo_handle demo_machine"
    by (simp add: channel_open_def pending_inv_def demo_machine_def demo_platform_def)
  show "others_fit demo_machine" "queued_requests demo_machine = []" using n by (simp_all add: others_fit_def demo_machine_def)
qed (simp add: demo_machine_def)

subsection \<open>Properties\<close>

text \<open>Property C1: a call from end to end. On an open channel, whatever requests and responses of other threads are on
  their way, a message sent with \<^verbatim>\<open>sg2002_rtos_message_call\<close> reaches the application through the driver and the
  firmware, and the caller gets the reply of the application to that message in its buffer, with its
  length, after at most 67 readings of the clock; when the buffer is too small it gets the length and an error. The application has run on the requests of
  the others first and then on this one, once. No response of the others is lost: all are retained, in order, and the channel is
  open for the next call.\<close>

theorem call_end_to_end:
  assumes "platform_ok p evc readings" "in_time p readings (readings w + 67) timeout_ms (fst (monotonic_milliseconds (os p) w))"
    and "channel_open p evc r w" "others_fit w"
    and "unat len \<le> length req" "len \<le> SG2002_RTOS_SHM_PAYLOAD_SIZE" "unat capacity \<le> length buf"
    and "served = serve_all (gpio_block p) (queued_requests w) (registers w)"
    and "app_reply (gpio_block p) (take (unat len) req) SG2002_RTOS_SHM_PAYLOAD_SIZE (snd served) = (reply, io')"
    and "bytes = (case reply of None \<Rightarrow> [] | Some bs \<Rightarrow> bs)"
  shows "\<exists>v. sg2002_rtos_message_call (system_env p a) (Some r) (Some req) len (Some buf) capacity (Some l) timeout_ms w =
      Some (if length bytes \<le> unat capacity then 0 else - EMSGSIZE,
        Some (if length bytes \<le> unat capacity then bytes @ drop (length bytes) buf else buf), Some (of_nat (length bytes)), v) \<and>
    settled p evc r w v \<and> registers v = io' \<and> readings v \<le> readings w + 67"
proof -
  note st = channel_open_state [OF assms(3)]
  have b: "bytes = reply_to (gpio_block p) (take (unat len) req) (snd served)"
    "io' = snd (app_reply (gpio_block p) (take (unat len) req) SG2002_RTOS_SHM_PAYLOAD_SIZE (snd served))"
    using assms(9,10) by simp_all
  have f: "fresh_sequence (next_sequence (driver w)) \<notin> sequence ` set (pending (priv w) @ queued_responses w @ queued_requests w)"
    "length (pending (priv w)) + length (queued_responses w) + length (queued_requests w) \<le> 64"
    using assms(4) unfolding others_fit_def by blast+
  obtain n' v where "sg2002_rtos_message_call (system_env p a) (Some r) (Some req) len (Some buf) capacity (Some l) timeout_ms w =
      (if length bytes \<le> unat capacity then Some (0, Some (bytes @ drop (length bytes) buf), Some (of_nat (length bytes)), v)
       else Some (- EMSGSIZE, Some buf, Some (of_nat (length bytes)), v))"
    "at_state p evc readings (readings w + 67) n' [] [] io' (pending (priv w) @ queued_responses w @ fst served) v"
    using message_call_state [OF assms(1) refl assms(2) st assms(5-7) refl f assms(8) b order_refl] by blast
  then show ?thesis using settled_state [OF assms(3,8)] at_stateD(11) by fastforce
qed

text \<open>The typed calls from end to end.\<close>

lemma gpio_set_through:
  assumes "platform_ok p evc readings" "in_time p readings (readings w + 67) 3000 (fst (monotonic_milliseconds (os p) w))"
    and "channel_open p evc r w" "others_fit w"
    and "io = snd (serve_all (gpio_block p) (queued_requests w) (registers w))"
  shows "\<exists>v. sg2002_rtos_gpio_set (system_env p a) (Some r) pin (of_bool level) w =
      Some (if gpio_is_valid (uint pin) then 0 else - EINVAL, v) \<and> settled p evc r w v \<and>
      registers v = (if gpio_is_valid (uint pin) then gpio_direction_output (gpio_block p) (uint pin) (of_bool level) io else io)"
proof -
  let ?mm = "gpio_block p" and ?pin = "ucast pin :: u32" and ?ok = "gpio_is_valid (uint pin)"
  let ?served = "serve_all ?mm (queued_requests w) (registers w)"
  have u: "uint ?pin = uint pin" "uint ?pin < 65536"
    using uint_lt2p [of pin] by (simp_all add: unsigned_ucast_eq take_bit_int_eq_self)
  have l: "(word_of_int (of_bool level) :: u32) = of_bool level" by (cases level) simp_all
  note call = value_call [OF assms(1) _ _ assms(3,4), of 3000]
  have "command_value ?mm SG2002_RTOS_CMD_GPIO_SET (SG2002_RTOS_GPIO_ENCODE ?pin (of_bool level)) (snd ?served) =
      (if ?ok then of_bool level else SG2002_RTOS_RESPONSE_INVALID_ARGUMENT,
       if ?ok then gpio_direction_output ?mm (uint pin) (of_bool level) io else io)"
    using gpio_set_value [OF u(2), of ?mm level io] u(1) assms(5) by simp
  from call [OF _ _ _ _ _ this, of a 0] obtain v where v: "sg2002_rtos_call (system_env p a) (Some r) SG2002_RTOS_CMD_GPIO_SET
      (SG2002_RTOS_GPIO_ENCODE ?pin (of_bool level)) 3000 (Some 0) w =
      Some (0, Some (if ?ok then of_bool level else SG2002_RTOS_RESPONSE_INVALID_ARGUMENT), v)"
    "settled p evc r w v" "registers v = (if ?ok then gpio_direction_output ?mm (uint pin) (of_bool level) io else io)"
    using assms(2) by auto
  have "sg2002_rtos_gpio_set (system_env p a) (Some r) pin (of_bool level) w = Some (if ?ok then 0 else - EINVAL, v)"
    using v(1) l by (cases level) (simp_all add: sg2002_rtos_gpio_set_def)
  then show ?thesis using v by blast
qed

lemma gpio_get_through:
  assumes "platform_ok p evc readings" "in_time p readings (readings w + 67) 3000 (fst (monotonic_milliseconds (os p) w))"
    and "channel_open p evc r w" "others_fit w" "gpio_block_ok (gpio_block p) reg"
    and "io = snd (serve_all (gpio_block p) (queued_requests w) (registers w))"
  shows "\<exists>v. sg2002_rtos_gpio_get (system_env p a) (Some r) pin (Some c) w =
      Some (if gpio_is_valid (uint pin) then 0 else - EINVAL,
        Some (if gpio_is_valid (uint pin)
          then of_bool (bit (reg io (gpio_base_from_pin (uint pin) + 0x50)) (nat (uint pin mod 256))) else c), v) \<and>
      settled p evc r w v \<and> registers v = io"
proof -
  let ?mm = "gpio_block p" and ?pin = "ucast pin :: u32" and ?ok = "gpio_is_valid (uint pin)"
  let ?served = "serve_all ?mm (queued_requests w) (registers w)"
  have u: "uint ?pin = uint pin" "uint ?pin < 65536"
    using uint_lt2p [of pin] by (simp_all add: unsigned_ucast_eq take_bit_int_eq_self)
  note call = value_call [OF assms(1) _ _ assms(3,4), of 3000]
  have "command_value ?mm SG2002_RTOS_CMD_GPIO_GET (SG2002_RTOS_GPIO_ENCODE ?pin 0) (snd ?served) =
      (if ?ok then of_bool (bit (reg io (gpio_base_from_pin (uint pin) + 0x50)) (nat (uint pin mod 256)))
       else SG2002_RTOS_RESPONSE_INVALID_ARGUMENT, io)"
    using gpio_get_value_reply [OF u(2) assms(5), of 0 io] u(1) assms(6) by simp
  from call [OF _ _ _ _ _ this, of a 0] obtain v' where v': "sg2002_rtos_call (system_env p a) (Some r) SG2002_RTOS_CMD_GPIO_GET
      (SG2002_RTOS_GPIO_ENCODE ?pin 0) 3000 (Some 0) w =
      Some (0, Some (if ?ok then of_bool (bit (reg io (gpio_base_from_pin (uint pin) + 0x50)) (nat (uint pin mod 256)))
       else SG2002_RTOS_RESPONSE_INVALID_ARGUMENT), v')"
    "settled p evc r w v'" "registers v' = io"
    using assms(2) by auto
  then show ?thesis by (auto simp: sg2002_rtos_gpio_get_def)
qed

lemma ping_through:
  assumes "platform_ok p evc readings" "in_time p readings (readings w + 67) 3000 (fst (monotonic_milliseconds (os p) w))"
    and "channel_open p evc r w" "others_fit w"
    and "io = snd (serve_all (gpio_block p) (queued_requests w) (registers w))"
  shows "\<exists>v. sg2002_rtos_ping (system_env p a) (Some r) x (Some c) w = Some (0, Some (x XOR SG2002_RTOS_PING_XOR), v) \<and>
      settled p evc r w v \<and> registers v = io"
  using value_call [OF assms(1) _ _ assms(3,4) _ _ _ command_values(1) [of _ x], of 3000 a c] assms(2,5)
  by (simp add: sg2002_rtos_ping_def)

lemma info_through:
  assumes "platform_ok p evc readings" "in_time p readings (readings w + 67) 3000 (fst (monotonic_milliseconds (os p) w))"
    and "channel_open p evc r w" "others_fit w"
    and "io = snd (serve_all (gpio_block p) (queued_requests w) (registers w))"
  shows "\<exists>v. sg2002_rtos_get_info (system_env p a) (Some r) (Some c) w = Some (0, Some SG2002_RTOS_INFO_VALUE, v) \<and>
      settled p evc r w v \<and> registers v = io"
proof -
  have "SG2002_RTOS_INFO_IS_VALID SG2002_RTOS_INFO_VALUE" by (simp add: SG2002_RTOS_INFO_VALUE_def info_encode_valid)
  then show ?thesis
    using value_call [OF assms(1) _ _ assms(3,4) _ _ _ command_values(2) [of _ 0], of 3000 a 0] assms(2,5)
    by (auto simp: sg2002_rtos_get_info_def)
qed

text \<open>Driving and reading a pin from Linux. \<^verbatim>\<open>sg2002_rtos_gpio_set\<close> answers 0 exactly for the pins of the
  four banks, and then the registers have gone through \<^verbatim>\<open>gpio_direction_output\<close> with that pin and level, once; for
  any other pin it answers \<open>-EINVAL\<close> and no register is touched. \<^verbatim>\<open>sg2002_rtos_gpio_get\<close> reads the level of a
  valid pin without changing a register and refuses the others the same way.\<close>

theorem gpio_end_to_end:
  assumes "platform_ok p evc readings" "in_time p readings (readings w + 67) 3000 (fst (monotonic_milliseconds (os p) w))"
    and "channel_open p evc r w" "others_fit w" "gpio_block_ok (gpio_block p) reg"
    and "io = snd (serve_all (gpio_block p) (queued_requests w) (registers w))"
  shows "(\<exists>v. sg2002_rtos_gpio_set (system_env p a) (Some r) pin (of_bool level) w =
      Some (if gpio_is_valid (uint pin) then 0 else - EINVAL, v) \<and> settled p evc r w v \<and>
      registers v = (if gpio_is_valid (uint pin) then gpio_direction_output (gpio_block p) (uint pin) (of_bool level) io else io)) \<and>
    (\<exists>v. sg2002_rtos_gpio_get (system_env p a) (Some r) pin (Some c) w =
      Some (if gpio_is_valid (uint pin) then 0 else - EINVAL,
        Some (if gpio_is_valid (uint pin)
          then of_bool (bit (reg io (gpio_base_from_pin (uint pin) + 0x50)) (nat (uint pin mod 256))) else c), v) \<and>
      settled p evc r w v \<and> registers v = io)"
  using gpio_set_through [OF assms(1-4,6)] gpio_get_through [OF assms] by blast

text \<open>The health checks from Linux. \<^verbatim>\<open>sg2002_rtos_ping\<close> answers its input with the mask of the protocol flipped,
  \<^verbatim>\<open>sg2002_rtos_get_info\<close> a valid information word with the version and capabilities of the
  firmware, and neither touches a register of its own.\<close>

theorem health_checks_end_to_end:
  assumes "platform_ok p evc readings" "in_time p readings (readings w + 67) 3000 (fst (monotonic_milliseconds (os p) w))"
    and "channel_open p evc r w" "others_fit w"
    and "io = snd (serve_all (gpio_block p) (queued_requests w) (registers w))"
  shows "(\<exists>v. sg2002_rtos_ping (system_env p a) (Some r) x (Some c) w = Some (0, Some (x XOR SG2002_RTOS_PING_XOR), v) \<and>
      settled p evc r w v \<and> registers v = io) \<and>
    (\<exists>v. sg2002_rtos_get_info (system_env p a) (Some r) (Some c) w = Some (0, Some SG2002_RTOS_INFO_VALUE, v) \<and>
      settled p evc r w v \<and> registers v = io)"
  using ping_through [OF assms] info_through [OF assms] by blast

theorem call_end_to_end_witness:
  "\<exists>v. sg2002_rtos_message_call (system_env demo_platform 4096) (Some demo_handle) (Some [0x64, 1, 2]) 3
      (Some [0, 0, 0, 9]) 4 (Some 0) 3000 demo_machine = Some (0, Some [0x64, 1, 2, 9], Some 3, v) \<and>
    settled demo_platform demo_events demo_handle demo_machine v"
proof -
  have "app_reply (gpio_block demo_platform) (take (unat (3 :: u16)) [0x64, 1, 2]) SG2002_RTOS_SHM_PAYLOAD_SIZE
      (snd (serve_all (gpio_block demo_platform) (queued_requests demo_machine) (registers demo_machine))) =
      (Some [0x64, 1, 2], registers demo_machine)"
    by (simp add: demo_machine_open(3) app_reply_def)
  from call_end_to_end [OF demo_platform_ok demo_in_time demo_machine_open(1,2) _ _ _ refl this refl, of 4 "[0, 0, 0, 9]" 4096 0]
  show ?thesis by auto
qed

theorem gpio_end_to_end_witness:
  "(\<exists>v. sg2002_rtos_gpio_set (system_env demo_platform 4096) (Some demo_handle) 0xA1A 1 demo_machine = Some (0, v) \<and>
      registers v = gpio_direction_output plain_mmio 0xA1A 1 (registers demo_machine)) \<and>
   (\<exists>v. sg2002_rtos_gpio_get (system_env demo_platform 4096) (Some demo_handle) 0xA1D (Some 7) demo_machine = Some (0, Some 1, v))"
proof -
  have mm: "gpio_block_ok (gpio_block demo_platform) (\<lambda>f. f)" "gpio_block demo_platform = plain_mmio"
    using gpio_block_ok_plain by (simp_all add: demo_platform_def)
  have v: "gpio_is_valid 0xA1A" "gpio_is_valid 0xA1D" by (simp_all add: gpio_is_valid_alt)
  note t = gpio_end_to_end [OF demo_platform_ok demo_in_time demo_machine_open(1,2) mm(1) refl, where a = 4096 and level = True]
  from t [where pin = "0xA1A"] t [where pin = "0xA1D" and c = 7] v show ?thesis
    by (auto simp: demo_machine_open mm(2) gpio_base_from_pin_def int_drop_8)
qed

theorem health_checks_end_to_end_witness:
  "\<exists>v. sg2002_rtos_ping (system_env demo_platform 4096) (Some demo_handle) 7 (Some 0) demo_machine = Some (0, Some 0xa5a55a5d, v)"
  using health_checks_end_to_end [OF demo_platform_ok demo_in_time demo_machine_open(1,2) refl, of 4096 7 0] by auto

end
