(* ===== verification/Tool_Args.thy ===== *)
theory Tool_Args
  imports Prelude
begin

section \<open>Arguments of the command-line tools\<close>

text \<open>
  The parsers of numeric arguments in \<^verbatim>\<open>tools/rtos-cmd.c\<close>, \<^verbatim>\<open>tools/rtos-bench.c\<close> and
  \<^verbatim>\<open>tools/rtos-thread-bench.c\<close>, over \<^verbatim>\<open>strtoul\<close> of the C library with base 0 and a 64-bit
  \<^verbatim>\<open>unsigned long\<close>, as on the big core. \<^const>\<open>None\<close> stands for the message and \<^verbatim>\<open>exit(2)\<close>. The lemmas give the exact
  language the tools accept and the value of each text.
\<close>

subsection \<open>strtoul\<close>

definition c_isspace :: "char \<Rightarrow> bool" where
  "c_isspace c \<longleftrightarrow> of_char c = (32 :: nat) \<or> of_char c \<in> {9 .. 13 :: nat}"

definition digit_of :: "char \<Rightarrow> nat option" where
  "digit_of c = (let n = of_char c in
     if n \<in> {48 .. 57} then Some (n - 48)
     else if n \<in> {97 .. 122} then Some (n - 87)
     else if n \<in> {65 .. 90} then Some (n - 55) else None)"

definition is_digit :: "nat \<Rightarrow> char \<Rightarrow> bool" where
  "is_digit b c \<longleftrightarrow> (case digit_of c of None \<Rightarrow> False | Some d \<Rightarrow> d < b)"

text \<open>The number that digits stand for, after digits of value \<open>acc\<close>.\<close>

definition digits_value :: "nat \<Rightarrow> nat \<Rightarrow> string \<Rightarrow> nat" where
  "digits_value b acc ds = foldl (\<lambda>a c. a * b + the (digit_of c)) acc ds"

text \<open>Sign and base: an optional sign, then \<^verbatim>\<open>0x\<close> before a hexadecimal digit, or a leading zero.\<close>

definition split_sign :: "string \<Rightarrow> bool \<times> string" where
  "split_sign s = (case s of [] \<Rightarrow> (False, s)
     | c # cs \<Rightarrow> if c = CHR ''-'' then (True, cs) else if c = CHR ''+'' then (False, cs) else (False, s))"

definition split_base :: "string \<Rightarrow> nat \<times> string" where
  "split_base s = (case s of
       z # x # h # cs \<Rightarrow> if z = CHR ''0'' \<and> (x = CHR ''x'' \<or> x = CHR ''X'') \<and> is_digit 16 h then (16, h # cs)
         else if z = CHR ''0'' then (8, s) else (10, s)
     | z # cs \<Rightarrow> if z = CHR ''0'' then (8, s) else (10, s)
     | [] \<Rightarrow> (10, s))"

text \<open>The value and what is left at \<^verbatim>\<open>end\<close>; without a digit \<^verbatim>\<open>end\<close> is the text itself. A number that does not fit
  gives \<^verbatim>\<open>ULONG_MAX\<close>, a minus sign negates modulo \<open>2 ^ 64\<close>.\<close>

definition strtoul :: "string \<Rightarrow> u64 \<times> string" where
  "strtoul text =
     (let (neg, s) = split_sign (dropWhile c_isspace text);
          (b, s) = split_base s;
          ds = takeWhile (is_digit b) s;
          n = digits_value b 0 ds
      in if ds = [] then (0, text)
         else (if n \<ge> 2 ^ 64 then - 1 else if neg then - of_nat n else of_nat n, dropWhile (is_digit b) s))"

subsection \<open>The parsers\<close>

definition parse_u32 :: "string \<Rightarrow> u32 option" where
  "parse_u32 text = (let (v, rest) = strtoul text in
     if text = [] \<or> rest \<noteq> [] \<or> v > 0xffffffff then None else Some (ucast v))"

definition parse_count :: "string \<Rightarrow> u32 option" where
  "parse_count text = (let (v, rest) = strtoul text in
     if text = [] \<or> rest \<noteq> [] \<or> v = 0 \<or> v > 1000000 then None else Some (ucast v))"

definition parse_payload_size :: "string \<Rightarrow> u32 option" where
  "parse_payload_size text = (let (v, rest) = strtoul text in
     if text = [] \<or> rest \<noteq> [] \<or> v > 1017 then None else Some (ucast v))"

definition parse_window :: "string \<Rightarrow> u32 option" where
  "parse_window text = (let (v, rest) = strtoul text in
     if text = [] \<or> rest \<noteq> [] \<or> v = 0 \<or> v > 64 then None else Some (ucast v))"

definition parse_range :: "string \<Rightarrow> u32 \<Rightarrow> u32 \<Rightarrow> u32 option" where
  "parse_range text minimum maximum = (let (v, rest) = strtoul text in
     if text = [] \<or> rest \<noteq> [] \<or> v < ucast minimum \<or> v > ucast maximum then None else Some (ucast v))"

text \<open>They all are ranges.\<close>

lemma parsers_are_ranges:
  "parse_u32 text = parse_range text 0 0xffffffff"
  "parse_count text = parse_range text 1 1000000"
  "parse_payload_size text = parse_range text 0 1017"
  "parse_window text = parse_range text 1 64"
  by (auto simp: parse_u32_def parse_count_def parse_payload_size_def parse_window_def parse_range_def Let_def
      split: prod.splits)

subsection \<open>What the parsers accept\<close>

text \<open>The texts of a number: spaces, a sign, the prefix of the base, and at least one digit.\<close>

definition numeral_text :: "bool \<Rightarrow> nat \<Rightarrow> string \<Rightarrow> bool" where
  "numeral_text neg n text \<longleftrightarrow> (\<exists>spaces sign prefix ds b.
     text = spaces @ sign @ prefix @ ds \<and> list_all c_isspace spaces \<and>
     sign \<in> (if neg then {''-''} else {'''', ''+''}) \<and>
     (b = 16 \<and> prefix \<in> {''0x'', ''0X''} \<or> prefix = [] \<and> b = (if ds \<noteq> [] \<and> hd ds = CHR ''0'' then 8 else 10)) \<and>
     ds \<noteq> [] \<and> list_all (is_digit b) ds \<and> n = digits_value b 0 ds)"

lemma digit_of_char:
  "\<not> c_isspace CHR ''+''" "\<not> c_isspace CHR ''-''" "\<not> c_isspace CHR ''0''"
  "digit_of CHR ''+'' = None" "digit_of CHR ''-'' = None" "digit_of CHR ''0'' = Some 0"
  "digit_of CHR ''x'' = Some 33" "digit_of CHR ''X'' = Some 33"
  by (simp_all add: c_isspace_def digit_of_def)

lemma digit_not_space: "is_digit b c \<Longrightarrow> \<not> c_isspace c"
  by (auto simp: is_digit_def digit_of_def c_isspace_def Let_def split: if_splits)

lemma digit_not_sign: "is_digit b c \<Longrightarrow> c \<noteq> CHR ''+'' \<and> c \<noteq> CHR ''-''"
  by (auto simp: is_digit_def digit_of_char)

lemma octal_not_x: "\<not> is_digit 8 CHR ''x''" "\<not> is_digit 8 CHR ''X''"
  by (simp_all add: is_digit_def digit_of_char)

lemma split_sign_parts:
  "split_sign s = (neg, r) \<Longrightarrow> \<exists>sign. s = sign @ r \<and> sign \<in> (if neg then {''-''} else {'''', ''+''})"
  by (auto simp: split_sign_def split: list.split_asm if_split_asm)

lemma split_sign_join:
  assumes "sign \<in> (if neg then {''-''} else {'''', ''+''})" "r = c # cs" "c \<noteq> CHR ''+''" "c \<noteq> CHR ''-''"
  shows "split_sign (sign @ r) = (neg, r)"
  using assms by (auto simp: split_sign_def split: if_splits)

abbreviation base_prefix :: "nat \<Rightarrow> string \<Rightarrow> string \<Rightarrow> bool" where
  "base_prefix b prefix ds \<equiv>
     b = 16 \<and> prefix \<in> {''0x'', ''0X''} \<or> prefix = [] \<and> b = (if ds \<noteq> [] \<and> hd ds = CHR ''0'' then 8 else 10)"

lemma split_base_parts: "split_base s = (b, r) \<Longrightarrow> \<exists>prefix. s = prefix @ r \<and> base_prefix b prefix r"
  by (auto simp: split_base_def split: list.split_asm if_split_asm)

lemma split_base_join:
  assumes "base_prefix b prefix ds" "ds \<noteq> []" "list_all (is_digit b) ds"
  shows "split_base (prefix @ ds) = (b, ds)"
proof -
  obtain c cs where ds: "ds = c # cs" using assms(2) by (cases ds) auto
  show ?thesis
  proof (cases "prefix = []")
    case True
    then show ?thesis using assms ds octal_not_x by (auto simp: split_base_def split: list.split if_splits)
  next
    case False
    then show ?thesis using assms ds by (auto simp: split_base_def)
  qed
qed

text \<open>The value of an accepted text as an \<^verbatim>\<open>unsigned long\<close>.\<close>

definition text_value :: "bool \<Rightarrow> nat \<Rightarrow> u64" where
  "text_value neg n = (if n \<ge> 2 ^ 64 then - 1 else if neg then - of_nat n else of_nat n)"

lemma strtoul_numeral:
  assumes "numeral_text neg n text"
  shows "text \<noteq> [] \<and> strtoul text = (text_value neg n, [])"
proof -
  obtain spaces sign prefix ds b where t: "text = spaces @ sign @ prefix @ ds" "list_all c_isspace spaces"
      "sign \<in> (if neg then {''-''} else {'''', ''+''})" "base_prefix b prefix ds"
      "ds \<noteq> []" "list_all (is_digit b) ds" "n = digits_value b 0 ds"
    using assms unfolding numeral_text_def by blast
  obtain d cs where ds: "ds = d # cs" using t(5) by (cases ds) auto
  have d: "is_digit b d" using t(6) ds by simp
  obtain c r where c: "prefix @ ds = c # r" "\<not> c_isspace c" "c \<noteq> CHR ''+''" "c \<noteq> CHR ''-''"
    using t(4) ds digit_not_space [OF d] digit_not_sign [OF d] digit_of_char(3) by (cases "prefix = []") auto
  have "sign @ prefix @ ds \<noteq> []" "\<not> c_isspace (hd (sign @ prefix @ ds))"
    using t(3) c(1,2) digit_of_char(1,2) by (auto split: if_split_asm)
  then have "dropWhile c_isspace text = sign @ prefix @ ds"
    using t(1,2) by (cases "sign @ prefix @ ds") (simp_all add: dropWhile_append2 list_all_iff)
  moreover have "split_sign (sign @ prefix @ ds) = (neg, prefix @ ds)" using split_sign_join [OF t(3) c(1,3,4)] .
  moreover have all: "takeWhile (is_digit b) ds = ds" "dropWhile (is_digit b) ds = []"
    using t(6) by (simp_all add: takeWhile_eq_all_conv dropWhile_eq_Nil_conv list_all_iff)
  ultimately show ?thesis
    using split_base_join [OF t(4-6)] t(1,5,7) by (simp add: strtoul_def text_value_def Let_def all)
qed

lemma strtoul_accepts:
  assumes "text \<noteq> []" "strtoul text = (v, [])"
  shows "\<exists>neg n. numeral_text neg n text \<and> v = text_value neg n"
proof -
  obtain neg s where s: "split_sign (dropWhile c_isspace text) = (neg, s)" by fastforce
  obtain b ds where ds: "split_base s = (b, ds)" by fastforce
  obtain sign prefix where p: "dropWhile c_isspace text = sign @ s" "sign \<in> (if neg then {''-''} else {'''', ''+''})"
      "s = prefix @ ds" "base_prefix b prefix ds"
    using split_sign_parts [OF s] split_base_parts [OF ds] by blast
  have r: "takeWhile (is_digit b) ds \<noteq> []" "dropWhile (is_digit b) ds = []"
    "v = text_value neg (digits_value b 0 (takeWhile (is_digit b) ds))"
    using assms s ds by (auto simp: strtoul_def text_value_def Let_def split: if_split_asm)
  then have a: "takeWhile (is_digit b) ds = ds" "list_all (is_digit b) ds" "ds \<noteq> []"
    by (auto simp: takeWhile_eq_all_conv dropWhile_eq_Nil_conv list_all_iff)
  have "text = takeWhile c_isspace text @ sign @ prefix @ ds" using p(1,3) takeWhile_dropWhile_id [of c_isspace "text"] by simp
  moreover have "list_all c_isspace (takeWhile c_isspace text)" by (auto simp: list_all_iff dest: set_takeWhileD)
  ultimately have "numeral_text neg (digits_value b 0 ds) text"
    unfolding numeral_text_def using p(2,4) a(2,3) by blast
  then show ?thesis using r(3) a(1) by auto
qed

lemma text_value_unat:
  "n < 2 ^ 64 \<Longrightarrow> unat (text_value neg n) = (if neg then (2 ^ 64 - n) mod 2 ^ 64 else n)"
  "\<not> n < 2 ^ 64 \<Longrightarrow> unat (text_value neg n) = 2 ^ 64 - 1"
proof -
  assume n: "n < 2 ^ 64"
  have u: "unat (of_nat n :: u64) = n" using n by (simp add: unat_of_nat)
  have "(of_nat (2 ^ 64 - n) :: u64) = of_nat (2 ^ 64) - of_nat n" using n by (intro of_nat_diff) simp
  moreover have "(of_nat (2 ^ 64) :: u64) = 0" by simp
  ultimately have "- (of_nat n :: u64) = of_nat (2 ^ 64 - n)" by simp
  then have "unat (- (of_nat n :: u64)) = (2 ^ 64 - n) mod 2 ^ 64" by (simp only: unat_of_nat) simp
  with u show "unat (text_value neg n) = (if neg then (2 ^ 64 - n) mod 2 ^ 64 else n)"
    using n by (simp add: text_value_def)
next
  assume "\<not> n < 2 ^ 64"
  then show "unat (text_value neg n) = 2 ^ 64 - 1"
    by (simp add: text_value_def unsigned_minus_1_eq_mask mask_eq_exp_minus_1)
qed

lemma unat_ucast_u32_u64: "unat (ucast (x :: u32) :: u64) = unat x"
proof -
  have "unat x < 2 ^ 64" by (rule less_le_trans [OF unat_u32_less]) simp
  then show ?thesis by (simp add: unsigned_ucast_eq take_bit_nat_eq_self del: unat_u32_less)
qed

lemma parse_range_exact:
  "parse_range text minimum maximum = Some v \<longleftrightarrow>
    (\<exists>neg n. numeral_text neg n text \<and> n < 2 ^ 64 \<and>
      unat minimum \<le> (if neg then (2 ^ 64 - n) mod 2 ^ 64 else n) \<and>
      (if neg then (2 ^ 64 - n) mod 2 ^ 64 else n) \<le> unat maximum \<and>
      unat v = (if neg then (2 ^ 64 - n) mod 2 ^ 64 else n))"
  (is "?accepted \<longleftrightarrow> (\<exists>neg n. ?in_range neg n)")
proof -
  have range: "?accepted \<longleftrightarrow>
    text \<noteq> [] \<and> (\<exists>x. strtoul text = (x, []) \<and> unat minimum \<le> unat x \<and> unat x \<le> unat maximum \<and> unat v = unat x)"
  proof (cases "strtoul text")
    case (Pair x rest)
    have u: "unat (ucast x :: u32) = unat x" if "unat x \<le> unat maximum"
      using that unat_u32_less [of maximum] by (simp add: unsigned_ucast_eq take_bit_nat_eq_self del: unat_u32_less)
    have v: "ucast x = v \<longleftrightarrow> unat v = unat x" if "unat x \<le> unat maximum"
      using u [OF that] by (auto simp: word_unat_eq_iff)
    have l: "x < ucast minimum \<longleftrightarrow> \<not> unat minimum \<le> unat x" "x > ucast maximum \<longleftrightarrow> \<not> unat x \<le> unat maximum"
      by (simp_all add: word_less_nat_alt not_le unat_ucast_u32_u64)
    have "?accepted \<longleftrightarrow> \<not> (text = [] \<or> rest \<noteq> [] \<or> x < ucast minimum \<or> x > ucast maximum) \<and> ucast x = v"
      using Pair by (auto simp: parse_range_def)
    then show ?thesis unfolding l Pair using v by blast
  qed
  show ?thesis
  proof
    assume ?accepted
    then obtain x where x: "text \<noteq> []" "strtoul text = (x, [])" "unat minimum \<le> unat x" "unat x \<le> unat maximum" "unat v = unat x"
      unfolding range by blast
    then obtain neg n where n: "numeral_text neg n text" "x = text_value neg n" using strtoul_accepts by blast
    have "n < 2 ^ 64" using x(4) n(2) text_value_unat(2) [of n neg] unat_u32_less [of maximum] by (cases "n < 2 ^ 64") auto
    then have "?in_range neg n" using n x(3-5) by (simp only: text_value_unat(1) n(1) simp_thms)
    then show "\<exists>neg n. ?in_range neg n" by blast
  next
    assume "\<exists>neg n. ?in_range neg n"
    then obtain neg n where n: "?in_range neg n" by blast
    then have "unat (text_value neg n) = (if neg then (2 ^ 64 - n) mod 2 ^ 64 else n)" using text_value_unat(1) by blast
    moreover have "text \<noteq> []" "strtoul text = (text_value neg n, [])" using n strtoul_numeral by blast+
    ultimately show ?accepted unfolding range using n by (intro conjI exI [of _ "text_value neg n"]) simp_all
  qed
qed

text \<open>Property C19: which arguments the tools accept, and as what. The numeric parsers accept exactly the texts of a
  decimal, octal or hexadecimal number, after optional spaces and a sign, whose value lies in the range they
  were given, and return it; the other parsers are the ranges of their tool. A minus sign counts modulo \<open>2 ^ 64\<close>: of the negative numbers exactly those close to
  \<open>- 2 ^ 64\<close> are in the range.\<close>

theorem range_arguments_exact:
  "(parse_range text minimum maximum = Some v \<longleftrightarrow>
    (\<exists>neg n. numeral_text neg n text \<and> n < 2 ^ 64 \<and>
      unat minimum \<le> (if neg then (2 ^ 64 - n) mod 2 ^ 64 else n) \<and>
      (if neg then (2 ^ 64 - n) mod 2 ^ 64 else n) \<le> unat maximum \<and>
      unat v = (if neg then (2 ^ 64 - n) mod 2 ^ 64 else n))) \<and>
   parse_u32 text = parse_range text 0 0xffffffff \<and> parse_count text = parse_range text 1 1000000 \<and>
   parse_payload_size text = parse_range text 0 1017 \<and> parse_window text = parse_range text 1 64"
  by (simp only: parse_range_exact parsers_are_ranges simp_thms)

subsection \<open>Printing numbers\<close>

text \<open>The digits of a number in a base up to 16.\<close>

definition digit_char :: "nat \<Rightarrow> char" where
  "digit_char d = char_of (if d < 10 then d + 48 else d + 87)"

fun digits_of :: "nat \<Rightarrow> nat \<Rightarrow> string" where
  "digits_of b n = (if n < b \<or> b < 2 then [digit_char n] else digits_of b (n div b) @ [digit_char (n mod b)])"

declare digits_of.simps [simp del]

lemma digit_of_digit_char: "d < 16 \<Longrightarrow> digit_of (digit_char d) = Some d"
  by (auto simp: digit_of_def digit_char_def Let_def)

lemma digit_char_zero: "d < 16 \<Longrightarrow> digit_char d = CHR ''0'' \<longleftrightarrow> d = 0"
proof -
  assume d: "d < 16"
  have "digit_char 0 = CHR ''0''" by code_simp
  then show ?thesis using digit_of_digit_char [OF d] digit_of_char(6) by auto
qed

lemma digits_of_digits:
  assumes "1 < b" "b \<le> 16"
  shows "list_all (is_digit b) (digits_of b n) \<and> digits_value b 0 (digits_of b n) = n \<and> digits_of b n \<noteq> [] \<and>
    (hd (digits_of b n) = CHR ''0'' \<longleftrightarrow> n = 0)"
  using assms
proof (induction b n rule: digits_of.induct)
  case (1 b n)
  show ?case
  proof (cases "n < b")
    case True
    then show ?thesis
      using 1(2,3) digit_of_digit_char [of n] digit_char_zero [of n]
      by (subst (1 2 3 4) digits_of.simps) (simp add: is_digit_def digits_value_def)
  next
    case False
    then have "0 < n div b" using 1(2) by (simp add: div_greater_zero_iff)
    moreover have "n mod b < b" using 1(2) by simp
    moreover have "digit_of (digit_char (n mod b)) = Some (n mod b)"
      using digit_of_digit_char [of "n mod b"] 1(2,3) calculation(2) by simp
    moreover from this have "is_digit b (digit_char (n mod b))" using calculation(2) by (simp add: is_digit_def)
    ultimately show ?thesis
      using 1 False by (subst (1 2 3 4) digits_of.simps) (simp add: digits_value_def)
  qed
qed

text \<open>Every number in range can be given in decimal, hexadecimal and octal notation.\<close>

theorem numbers_parse_back:
  assumes "minimum \<le> x" "x \<le> maximum"
  shows "parse_range (digits_of 10 (unat x)) minimum maximum = Some x \<and>
    parse_range (''0x'' @ digits_of 16 (unat x)) minimum maximum = Some x \<and>
    parse_range (''0'' @ digits_of 8 (unat x)) minimum maximum = Some x"
proof -
  have accept: "parse_range text minimum maximum = Some x" if "numeral_text False (unat x) text" for "text"
  proof -
    have x: "unat x < 2 ^ 64" by (rule less_le_trans [OF unat_u32_less]) simp
    have "of_nat (unat x) = (ucast x :: u64)" by (simp add: word_unat_eq_iff unat_ucast_u32_u64 unat_of_nat x)
    then have "strtoul text = (ucast x, [])" "text \<noteq> []"
      using strtoul_numeral [OF that] x by (simp_all add: text_value_def not_le)
    moreover have "ucast (ucast x :: u64) = x"
      by (simp add: word_unat_eq_iff unsigned_ucast_eq [where 'b = 64] unat_ucast_u32_u64 take_bit_nat_eq_self)
    ultimately show ?thesis
      using assms by (simp add: parse_range_def word_less_nat_alt word_le_nat_alt unat_ucast_u32_u64 not_less)
  qed
  have d: "list_all (is_digit b) (digits_of b (unat x))" "digits_value b 0 (digits_of b (unat x)) = unat x"
    "digits_of b (unat x) \<noteq> []" "hd (digits_of b (unat x)) = CHR ''0'' \<longleftrightarrow> unat x = 0" if "b \<in> {8, 10, 16}" for b
    using digits_of_digits [of b "unat x"] that by auto
  have "numeral_text False (unat x) (digits_of 10 (unat x))"
  proof (cases "unat x = 0")
    case True
    have "digits_of 10 0 = ''0''" by code_simp
    then show ?thesis
      unfolding numeral_text_def True
      by (intro exI [of _ "''''"] exI [of _ "''0''"] exI [of _ 8]) (simp add: is_digit_def digit_of_char digits_value_def)
  next
    case False
    then show ?thesis
      unfolding numeral_text_def
      by (intro exI [of _ "''''"] exI [of _ "digits_of 10 (unat x)"] exI [of _ 10]) (simp add: d)
  qed
  then have "parse_range (digits_of 10 (unat x)) minimum maximum = Some x" by (rule accept)
  moreover have "numeral_text False (unat x) (''0x'' @ digits_of 16 (unat x))"
    unfolding numeral_text_def
    by (intro exI [of _ "''''"] exI [of _ "''0x''"] exI [of _ "digits_of 16 (unat x)"] exI [of _ 16]) (simp add: d)
  then have "parse_range (''0x'' @ digits_of 16 (unat x)) minimum maximum = Some x" by (rule accept)
  moreover have "numeral_text False (unat x) (''0'' @ digits_of 8 (unat x))"
    unfolding numeral_text_def
    by (intro exI [of _ "''''"] exI [of _ "''0'' @ digits_of 8 (unat x)"] exI [of _ 8])
      (use d [of 8] in \<open>simp add: is_digit_def digit_of_char digits_value_def\<close>)
  then have "parse_range (''0'' @ digits_of 8 (unat x)) minimum maximum = Some x" by (rule accept)
  ultimately show ?thesis by blast
qed

theorem numbers_parse_back_witness:
  "parse_range (digits_of 10 (unat (64 :: u32))) 1 64 = Some 64 \<and>
    parse_range (''0x'' @ digits_of 16 (unat (64 :: u32))) 1 64 = Some 64 \<and>
    parse_range (''0'' @ digits_of 8 (unat (64 :: u32))) 1 64 = Some 64"
  by (rule numbers_parse_back) simp_all

text \<open>Equations that evaluate a parser.\<close>

lemmas parse_eval = parse_u32_def parse_window_def parse_count_def strtoul_def split_sign_def split_base_def c_isspace_def
  is_digit_def digit_of_def digits_value_def Let_def

text \<open>Some texts: spaces before the number are skipped, spaces after it are not; a negative number is out of range
  unless it is close to \<open>- 2 ^ 64\<close>.\<close>

lemma argument_examples:
  "parse_u32 '' +0x1F'' = Some 31" "parse_u32 ''017'' = Some 15" "parse_u32 ''4294967296'' = None"
  "parse_u32 '''' = None" "parse_u32 ''12 '' = None" "parse_u32 ''0x'' = None" "parse_u32 ''-1'' = None"
  "parse_u32 ''-18446744073709551615'' = Some 1" "parse_window ''65'' = None" "parse_count ''0'' = None"
  by (simp_all add: parse_eval)

end
