(* ===== verification/Rtos_Cmd.thy ===== *)
theory Rtos_Cmd
  imports End_To_End Tool_Args
begin

section \<open>The command-line tool for single commands\<close>

text \<open>
  \<^verbatim>\<open>tools/rtos-cmd.c\<close>: \<^verbatim>\<open>main\<close> over the client library. What it prints is a list of lines with the values that are
  printed; the exit status comes first. \<^const>\<open>None\<close> means that a call of the library does not return. On the
  system of \<^verbatim>\<open>End_To_End\<close> the texts of the command line reach the registers of the GPIO block.
\<close>

subsection \<open>Definitions\<close>

datatype tool_line =
  Usage_text
| Invalid_value string
| Failed string int
| Info_line (info_major: u32) (info_minor: u32) (info_capabilities: u32) (info_raw: u32)
| Ping_line (ping_id: u8) (ping_input: u32) (ping_result: u32) (ping_expected: u32)
| Pin_line (line_pin: u16) (line_value: int)

definition SG2002_RTOS_DEVICE_PATH :: string where
  "SG2002_RTOS_DEVICE_PATH = ''/dev/cvi-rtos-cmdqu''"

definition SG2002_RTOS_INITIALIZER :: sg2002_rtos where
  "SG2002_RTOS_INITIALIZER = \<lparr>fd = -1, private_data = False\<rparr>"

text \<open>A branch of \<^verbatim>\<open>main\<close> ends the process with status 2, or leaves the result of its command and what it printed.\<close>

datatype branch_end = Exit_2 tool_line | Command_result int "tool_line list"

text \<open>A numeric argument, or the message of \<^verbatim>\<open>parse_u32\<close> and its exit.\<close>

definition with_u32 :: "string \<Rightarrow> (u32 \<Rightarrow> (branch_end \<times> 'w) option) \<Rightarrow> 'w \<Rightarrow> (branch_end \<times> 'w) option" where
  "with_u32 text k w = (case parse_u32 text of None \<Rightarrow> Some (Exit_2 (Invalid_value text), w) | Some v \<Rightarrow> k v)"

definition info_command ::
  "'x client_world_scheme linux_env \<Rightarrow> sg2002_rtos option \<Rightarrow> string list \<Rightarrow> 'x client_world_scheme \<Rightarrow>
    (branch_end \<times> 'x client_world_scheme) option" where
  "info_command env rtos argv w =
     (if length argv \<noteq> 2 then Some (Exit_2 Usage_text, w)
      else do {
        (ret, info, w) \<leftarrow> sg2002_rtos_get_info env rtos (Some 0) w;
        info \<leftarrow> info;
        Some (Command_result ret (if ret = 0 then
          [Info_line (SG2002_RTOS_INFO_MAJOR info) (SG2002_RTOS_INFO_MINOR info) (SG2002_RTOS_INFO_CAPABILITIES info) info]
          else []), w)
      })"

definition ping_command ::
  "'x client_world_scheme linux_env \<Rightarrow> sg2002_rtos option \<Rightarrow> string list \<Rightarrow> 'x client_world_scheme \<Rightarrow>
    (branch_end \<times> 'x client_world_scheme) option" where
  "ping_command env rtos argv w =
     (if length argv \<noteq> 3 then Some (Exit_2 Usage_text, w)
      else with_u32 (argv ! 2) (\<lambda>input. do {
        (ret, result, w) \<leftarrow> sg2002_rtos_ping env rtos input (Some 0) w;
        result \<leftarrow> result;
        let ret = (if ret = 0 \<and> result \<noteq> input XOR SG2002_RTOS_PING_XOR then - EPROTO else ret);
        Some (Command_result ret (if ret = 0 then
          [Ping_line SG2002_RTOS_CMD_PING input result (input XOR SG2002_RTOS_PING_XOR)] else []), w)
      }) w)"

definition gpio_set_command ::
  "'x client_world_scheme linux_env \<Rightarrow> sg2002_rtos option \<Rightarrow> string list \<Rightarrow> 'x client_world_scheme \<Rightarrow>
    (branch_end \<times> 'x client_world_scheme) option" where
  "gpio_set_command env rtos argv w =
     (if length argv \<noteq> 4 then Some (Exit_2 Usage_text, w)
      else with_u32 (argv ! 2) (\<lambda>n. if n > 65535 then Some (Exit_2 Usage_text, w)
        else with_u32 (argv ! 3) (\<lambda>v. let pin = ucast n; value = sint v in do {
          (ret, w) \<leftarrow> sg2002_rtos_gpio_set env rtos pin value w;
          Some (Command_result ret (if ret = 0 then [Pin_line pin value] else []), w)
        }) w) w)"

definition gpio_get_command ::
  "'x client_world_scheme linux_env \<Rightarrow> sg2002_rtos option \<Rightarrow> string list \<Rightarrow> 'x client_world_scheme \<Rightarrow>
    (branch_end \<times> 'x client_world_scheme) option" where
  "gpio_get_command env rtos argv w =
     (if length argv \<noteq> 3 then Some (Exit_2 Usage_text, w)
      else with_u32 (argv ! 2) (\<lambda>n. if n > 65535 then Some (Exit_2 Usage_text, w)
        else let pin = ucast n in do {
          (ret, value, w) \<leftarrow> sg2002_rtos_gpio_get env rtos pin (Some 0) w;
          value \<leftarrow> value;
          Some (Command_result ret (if ret = 0 then [Pin_line pin value] else []), w)
        }) w)"

definition rtos_cmd ::
  "'x client_world_scheme linux_env \<Rightarrow> string list \<Rightarrow> 'x client_world_scheme \<Rightarrow>
    (int \<times> tool_line list \<times> 'x client_world_scheme) option" where
  "rtos_cmd env argv w =
     (if length argv < 2 then Some (2, [Usage_text], w)
      else case sg2002_rtos_open env (Some SG2002_RTOS_INITIALIZER) w of (ret, rtos, w) \<Rightarrow>
        if ret \<noteq> 0 then Some (1, [Failed (''open '' @ SG2002_RTOS_DEVICE_PATH) ret], w)
        else do {
          (outcome, w) \<leftarrow>
            (if argv ! 1 = ''info'' then info_command env rtos argv w
             else if argv ! 1 = ''ping'' then ping_command env rtos argv w
             else if argv ! 1 = ''gpio-set'' then gpio_set_command env rtos argv w
             else if argv ! 1 = ''gpio-get'' then gpio_get_command env rtos argv w
             else Some (Exit_2 Usage_text, w));
          (case outcome of Exit_2 line \<Rightarrow> Some (2, [line], w)
           | Command_result ret lines \<Rightarrow>
               let w = snd (sg2002_rtos_close env rtos w)
               in Some (if ret \<noteq> 0 then (1, lines @ [Failed (argv ! 1) ret], w) else (0, lines, w)))
        })"

subsection \<open>What the exit status means\<close>

text \<open>The command lines of the usage text.\<close>

definition pin_text :: "string \<Rightarrow> bool" where
  "pin_text t \<longleftrightarrow> (\<exists>n. parse_u32 t = Some n \<and> n \<le> 65535)"

definition arguments_ok :: "string list \<Rightarrow> bool" where
  "arguments_ok argv \<longleftrightarrow> (case argv of
     [_, command] \<Rightarrow> command = ''info''
   | [_, command, t] \<Rightarrow> command = ''ping'' \<and> parse_u32 t \<noteq> None \<or> command = ''gpio-get'' \<and> pin_text t
   | [_, command, t, l] \<Rightarrow> command = ''gpio-set'' \<and> pin_text t \<and> parse_u32 l \<noteq> None
   | _ \<Rightarrow> False)"

definition complaint :: "tool_line \<Rightarrow> bool" where
  "complaint line \<longleftrightarrow> line = Usage_text \<or> (\<exists>t. line = Invalid_value t)"

definition result_line :: "tool_line \<Rightarrow> bool" where
  "result_line line \<longleftrightarrow> \<not> complaint line \<and> (\<forall>operation e. line \<noteq> Failed operation e)"

text \<open>How a branch ends: with a complaint about bad arguments and nothing done, or with one line of results, or
  with an error and none.\<close>

definition branch_ok :: "bool \<Rightarrow> 'w \<Rightarrow> branch_end \<Rightarrow> 'w \<Rightarrow> bool" where
  "branch_ok good w outcome w' \<longleftrightarrow> (case outcome of
     Exit_2 line \<Rightarrow> \<not> good \<and> w' = w \<and> complaint line
   | Command_result ret lines \<Rightarrow> good \<and> (if ret = 0 then \<exists>line. lines = [line] \<and> result_line line else lines = []))"

lemma commands_end:
  "info_command env rtos argv w = Some (outcome, w') \<Longrightarrow> branch_ok (length argv = 2) w outcome w'"
  "ping_command env rtos argv w = Some (outcome, w') \<Longrightarrow> branch_ok (length argv = 3 \<and> parse_u32 (argv ! 2) \<noteq> None) w outcome w'"
  "gpio_set_command env rtos argv w = Some (outcome, w') \<Longrightarrow>
    branch_ok (length argv = 4 \<and> pin_text (argv ! 2) \<and> parse_u32 (argv ! 3) \<noteq> None) w outcome w'"
  "gpio_get_command env rtos argv w = Some (outcome, w') \<Longrightarrow> branch_ok (length argv = 3 \<and> pin_text (argv ! 2)) w outcome w'"
  by (auto simp: info_command_def ping_command_def gpio_set_command_def gpio_get_command_def with_u32_def Let_def not_less
      branch_ok_def pin_text_def result_line_def complaint_def split: if_split_asm Option.bind_split_asm option.split_asm)

definition run_branch where
  "run_branch env rtos argv w =
     (if argv ! 1 = ''info'' then info_command env rtos argv w
      else if argv ! 1 = ''ping'' then ping_command env rtos argv w
      else if argv ! 1 = ''gpio-set'' then gpio_set_command env rtos argv w
      else if argv ! 1 = ''gpio-get'' then gpio_get_command env rtos argv w
      else Some (Exit_2 Usage_text, w))"

lemma run_branch_end:
  assumes "run_branch env rtos argv w = Some (outcome, w')" "2 \<le> length argv"
  shows "branch_ok (arguments_ok argv) w outcome w'"
proof -
  have good: "arguments_ok argv \<longleftrightarrow>
    (if argv ! 1 = ''info'' then length argv = 2
     else if argv ! 1 = ''ping'' then length argv = 3 \<and> parse_u32 (argv ! 2) \<noteq> None
     else if argv ! 1 = ''gpio-set'' then length argv = 4 \<and> pin_text (argv ! 2) \<and> parse_u32 (argv ! 3) \<noteq> None
     else if argv ! 1 = ''gpio-get'' then length argv = 3 \<and> pin_text (argv ! 2) else False)"
    using assms(2) by (auto simp: arguments_ok_def split: list.split)
  have unknown: "branch_ok False w (Exit_2 Usage_text) w" by (simp add: branch_ok_def complaint_def)
  show ?thesis
    using assms(1) commands_end [of env rtos argv w outcome w'] unknown
    unfolding good by (auto simp: run_branch_def split: if_split_asm)
qed

text \<open>Property C18: the exit status. Status 2 is the answer to a command line that does not fit the usage text, and then nothing
  but the opening of the device has been done; status 1 comes with one line that names what failed and a
  non-zero error; status 0 with exactly one line of results. No other status occurs.\<close>

theorem rtos_cmd_status:
  assumes "sg2002_rtos_open env (Some SG2002_RTOS_INITIALIZER) w = (ret, rtos, opened)"
    and "rtos_cmd env argv w = Some (status, lines, w')"
  shows "(status = 2 \<longleftrightarrow> length argv < 2 \<or> ret = 0 \<and> \<not> arguments_ok argv) \<and>
    (status = 2 \<longrightarrow> w' = (if length argv < 2 then w else opened) \<and> (\<exists>line. lines = [line] \<and> complaint line)) \<and>
    (status = 1 \<longrightarrow> (\<exists>operation e. lines = [Failed operation e] \<and> e \<noteq> 0)) \<and>
    (status = 0 \<longrightarrow> (\<exists>line. lines = [line] \<and> result_line line)) \<and> status \<in> {0, 1, 2}"
proof (cases "length argv < 2 \<or> ret \<noteq> 0")
  case True
  then show ?thesis using assms by (auto simp: rtos_cmd_def complaint_def split: if_split_asm)
next
  case False
  then obtain outcome v where b: "run_branch env rtos argv opened = Some (outcome, v)"
    using assms by (auto simp: rtos_cmd_def run_branch_def split: Option.bind_split_asm)
  note e = run_branch_end [OF this]
  have "rtos_cmd env argv w = (case outcome of Exit_2 line \<Rightarrow> Some (2, [line], v)
      | Command_result ret lines \<Rightarrow> let w = snd (sg2002_rtos_close env rtos v)
        in Some (if ret \<noteq> 0 then (1, lines @ [Failed (argv ! 1) ret], w) else (0, lines, w)))"
    using assms(1) False b by (simp add: rtos_cmd_def run_branch_def not_less)
  then show ?thesis
    using assms(2) e False by (cases outcome) (auto simp: branch_ok_def Let_def split: if_split_asm)
qed

subsection \<open>From the command line to the registers\<close>

lemma rtos_cmd_opened:
  assumes "sg2002_rtos_open env (Some SG2002_RTOS_INITIALIZER) w = (0, rtos, opened)" "2 \<le> length argv"
    and "run_branch env rtos argv opened = Some (Command_result ret lines, v)"
  shows "rtos_cmd env argv w = Some (if ret = 0 then (0, lines, snd (sg2002_rtos_close env rtos v))
    else (1, lines @ [Failed (argv ! 1) ret], snd (sg2002_rtos_close env rtos v)))"
  using assms by (simp add: rtos_cmd_def run_branch_def)

lemma u16_in_u32: "\<not> (ucast (x :: u16) :: u32) > 65535" "ucast (ucast x :: u32) = x"
proof -
  have u: "unat (ucast x :: u32) = unat x"
    using unat_u16_less [of x] by (simp add: unsigned_ucast_eq take_bit_nat_eq_self del: unat_u16_less)
  then show "\<not> (ucast x :: u32) > 65535" using unat_u16_less [of x] by (simp add: word_less_nat_alt del: unat_u16_less)
  show "ucast (ucast x :: u32) = x"
    by transfer simp
qed

text \<open>Property C7: GPIO from the command line. When the device can be opened, \<^verbatim>\<open>rtos-cmd gpio-set PIN LEVEL\<close>, the two
  given in any notation, drives the pin through library, driver, ring, firmware and application and
  prints it, with status 0, exactly for the pins of the four banks; for another pin it reports \<open>-EINVAL\<close> with status 1 and no register
  changes. \<^verbatim>\<open>rtos-cmd gpio-get PIN\<close> prints the level that is read and changes no register.\<close>

theorem rtos_cmd_gpio:
  assumes "platform_ok p evc readings" "in_time p readings (readings w + 67) 3000 (fst (monotonic_milliseconds (os p) w))"
    and "sg2002_rtos_open (system_env p a) (Some SG2002_RTOS_INITIALIZER) w0 = (0, Some r, w)"
    and "channel_open p evc r w" "others_fit w" "gpio_block_ok (gpio_block p) reg"
    and "io = snd (serve_all (gpio_block p) (queued_requests w) (registers w))"
    and "parse_u32 pin_arg = Some (ucast pin)" "parse_u32 level_arg = Some (of_bool level)"
  shows "(\<exists>v. settled p evc r w v \<and>
      registers v = (if gpio_is_valid (uint pin) then gpio_direction_output (gpio_block p) (uint pin) (of_bool level) io else io) \<and>
      rtos_cmd (system_env p a) [name, ''gpio-set'', pin_arg, level_arg] w0 =
        Some (if gpio_is_valid (uint pin) then 0 else 1,
          if gpio_is_valid (uint pin) then [Pin_line pin (of_bool level)] else [Failed ''gpio-set'' (- EINVAL)],
          snd (sg2002_rtos_close (system_env p a) (Some r) v))) \<and>
    (\<exists>v. settled p evc r w v \<and> registers v = io \<and>
      rtos_cmd (system_env p a) [name, ''gpio-get'', pin_arg] w0 =
        Some (if gpio_is_valid (uint pin) then 0 else 1,
          if gpio_is_valid (uint pin)
          then [Pin_line pin (of_bool (bit (reg io (gpio_base_from_pin (uint pin) + 0x50)) (nat (uint pin mod 256))))]
          else [Failed ''gpio-get'' (- EINVAL)],
          snd (sg2002_rtos_close (system_env p a) (Some r) v)))"
proof -
  let ?env = "system_env p a" and ?ok = "gpio_is_valid (uint pin)"
  have pin: "\<not> (ucast pin :: u32) > 65535" "ucast (ucast pin :: u32) = pin"
    using u16_in_u32 by blast+
  have level: "sint (of_bool level :: u32) = of_bool level" by (cases level) simp_all
  obtain v where v: "sg2002_rtos_gpio_set ?env (Some r) pin (of_bool level) w = Some (if ?ok then 0 else - EINVAL, v)"
      "settled p evc r w v"
      "registers v = (if ?ok then gpio_direction_output (gpio_block p) (uint pin) (of_bool level) io else io)"
    using gpio_set_through [OF assms(1,2,4,5,7)] by blast
  then have "run_branch ?env (Some r) [name, ''gpio-set'', pin_arg, level_arg] w =
      Some (Command_result (if ?ok then 0 else - EINVAL) (if ?ok then [Pin_line pin (of_bool level)] else []), v)"
    using assms(8,9) pin level by (simp add: run_branch_def gpio_set_command_def with_u32_def Let_def)
  note set = rtos_cmd_opened [OF assms(3) _ this]
  obtain v' where v': "sg2002_rtos_gpio_get ?env (Some r) pin (Some 0) w = Some (if ?ok then 0 else - EINVAL,
        Some (if ?ok then of_bool (bit (reg io (gpio_base_from_pin (uint pin) + 0x50)) (nat (uint pin mod 256))) else 0), v')"
      "settled p evc r w v'" "registers v' = io"
    using gpio_get_through [OF assms(1,2,4-7)] by blast
  then have "run_branch ?env (Some r) [name, ''gpio-get'', pin_arg] w =
      Some (Command_result (if ?ok then 0 else - EINVAL)
        (if ?ok then [Pin_line pin (of_bool (bit (reg io (gpio_base_from_pin (uint pin) + 0x50)) (nat (uint pin mod 256))))]
         else []), v')"
    using assms(8) pin by (simp add: run_branch_def gpio_get_command_def with_u32_def Let_def)
  note get = rtos_cmd_opened [OF assms(3) _ this]
  show ?thesis using v(2,3) v'(2,3) set get by auto
qed

text \<open>Property C25: the health checks from the command line. \<^verbatim>\<open>rtos-cmd ping VALUE\<close> prints the value with the mask of the protocol
  flipped, the answer it expects, and \<^verbatim>\<open>rtos-cmd info\<close> the version and the capabilities the firmware was built with; both end
  with status 0 and touch no register of their own.\<close>

theorem rtos_cmd_health:
  assumes "platform_ok p evc readings" "in_time p readings (readings w + 67) 3000 (fst (monotonic_milliseconds (os p) w))"
    and "sg2002_rtos_open (system_env p a) (Some SG2002_RTOS_INITIALIZER) w0 = (0, Some r, w)"
    and "channel_open p evc r w" "others_fit w"
    and "io = snd (serve_all (gpio_block p) (queued_requests w) (registers w))"
    and "parse_u32 value_arg = Some x"
  shows "(\<exists>v. settled p evc r w v \<and> registers v = io \<and> rtos_cmd (system_env p a) [name, ''ping'', value_arg] w0 =
        Some (0, [Ping_line 0x60 x (x XOR 0xa5a55a5a) (x XOR 0xa5a55a5a)], snd (sg2002_rtos_close (system_env p a) (Some r) v))) \<and>
    (\<exists>v. settled p evc r w v \<and> registers v = io \<and> rtos_cmd (system_env p a) [name, ''info''] w0 =
        Some (0, [Info_line 1 0 3 SG2002_RTOS_INFO_VALUE], snd (sg2002_rtos_close (system_env p a) (Some r) v)))"
proof -
  let ?env = "system_env p a"
  obtain v where v: "sg2002_rtos_ping ?env (Some r) x (Some 0) w = Some (0, Some (x XOR SG2002_RTOS_PING_XOR), v)"
      "settled p evc r w v" "registers v = io"
    using ping_through [OF assms(1,2,4-6)] by blast
  then have "run_branch ?env (Some r) [name, ''ping'', value_arg] w =
      Some (Command_result 0 [Ping_line 0x60 x (x XOR 0xa5a55a5a) (x XOR 0xa5a55a5a)], v)"
    using assms(7) by (simp add: run_branch_def ping_command_def with_u32_def Let_def)
  note ping = rtos_cmd_opened [OF assms(3) _ this]
  obtain v' where v': "sg2002_rtos_get_info ?env (Some r) (Some 0) w = Some (0, Some SG2002_RTOS_INFO_VALUE, v')"
      "settled p evc r w v'" "registers v' = io"
    using info_through [OF assms(1,2,4-6)] by blast
  have "SG2002_RTOS_INFO_MAJOR SG2002_RTOS_INFO_VALUE = 1" "SG2002_RTOS_INFO_MINOR SG2002_RTOS_INFO_VALUE = 0"
    "SG2002_RTOS_INFO_CAPABILITIES SG2002_RTOS_INFO_VALUE = 3" by code_simp+
  then have "run_branch ?env (Some r) [name, ''info''] w = Some (Command_result 0 [Info_line 1 0 3 SG2002_RTOS_INFO_VALUE], v')"
    using v'(1) by (simp add: run_branch_def info_command_def)
  note info = rtos_cmd_opened [OF assms(3) _ this]
  show ?thesis using v(2,3) v'(2,3) ping info by auto
qed

subsection \<open>A concrete machine\<close>

text \<open>The machine of \<^verbatim>\<open>End_To_End\<close> with a kernel whose waits see the condition at once, so that the device can be opened again by the
  file that owns it.\<close>

definition prompt_platform where
  "prompt_platform = demo_platform\<lparr>kernel := still_env\<lparr>wait_event := (\<lambda>c t w. (if c w then 1 else 0, w))\<rparr>\<rparr>"

lemma prompt_platform_fields:
  "os prompt_platform = os demo_platform" "gpio_block prompt_platform = plain_mmio" "device_fd prompt_platform = 3"
  "device_file prompt_platform = 7" "cache_invalidate prompt_platform = sim_inv" "cache_clean prompt_platform = sim_clean"
  by (simp_all add: prompt_platform_def demo_platform_def)

lemma prompt_platform_ok: "platform_ok prompt_platform demo_events demo_clock"
proof -
  have "quiet_env (kernel prompt_platform)" "granting_env (kernel prompt_platform)"
    using still_env_ok by (simp_all add: prompt_platform_def quiet_env_def granting_env_def)
  then show ?thesis using demo_platform_ok by (simp add: platform_ok_def prompt_platform_fields(1))
qed

lemma prompt_machine_open:
  "in_time prompt_platform demo_clock (demo_clock demo_machine + 67) 3000 (fst (monotonic_milliseconds (os prompt_platform) demo_machine))"
  "channel_open prompt_platform demo_events demo_handle demo_machine"
  "sg2002_rtos_open (system_env prompt_platform 4096) (Some SG2002_RTOS_INITIALIZER) demo_machine = (0, Some demo_handle, demo_machine)"
proof -
  show "in_time prompt_platform demo_clock (demo_clock demo_machine + 67) 3000 (fst (monotonic_milliseconds (os prompt_platform) demo_machine))"
    using demo_in_time by (simp add: in_time_def prompt_platform_fields(1))
  show "channel_open prompt_platform demo_events demo_handle demo_machine"
    using demo_machine_open(1)
    by (simp add: channel_open_def in_service_def prompt_platform_fields demo_platform_def)
  have d: "driver demo_machine = owned_world new_region" by (simp add: demo_machine_def)
  have "acquire (kernel prompt_platform) 7 (owned_world new_region) = (Inr (fill_info (owned_world new_region)), owned_world new_region)"
    using new_channel_ok(5,6)
    by (simp add: acquire_def prompt_platform_def still_env_def is_owner_def Let_def)
  moreover have i: "\<not> shutting_down (owned_world new_region)" "info_is_valid (fill_info (owned_world new_region))"
    "info_generation (fill_info (owned_world new_region)) = 1"
    by (simp_all add: owned_world_def fill_info_def info_is_valid_def)
  ultimately have a: "info_ioctl prompt_platform demo_machine = (Inr (fill_info (owned_world new_region)), demo_machine)"
    by (simp add: info_ioctl_def driver_command_def sg2002_rtos_shm_linux_ioctl_def prompt_platform_fields d)
  have o: "sys_open demo_os w = (Inr 3, w)" "calloc_private demo_os w = (True, w)" "mutex_init demo_os l w = (0, w)"
    "eventfd_create demo_os w = (Inr 4, w)" "os demo_platform = demo_os" for l w
    by (simp_all add: demo_os_def demo_platform_def)
  have "demo_machine\<lparr>priv := \<lparr>pending_fd = 4, shared_memory_enabled = True, submit_batch_supported = 0,
       reap_batch_supported = 0, private_generation = 1, pending = []\<rparr>\<rparr> = demo_machine"
    by (simp add: demo_machine_def)
  then show "sg2002_rtos_open (system_env prompt_platform 4096) (Some SG2002_RTOS_INITIALIZER) demo_machine = (0, Some demo_handle, demo_machine)"
    using a i by (simp add: sg2002_rtos_open_def SG2002_RTOS_INITIALIZER_def system_env_def open_private_def prompt_platform_fields o)
qed

theorem rtos_cmd_gpio_witness:
  "(\<exists>v. rtos_cmd (system_env prompt_platform 4096) [''rtos-cmd'', ''gpio-set'', ''0xA1A'', ''1''] demo_machine =
      Some (0, [Pin_line 0xA1A 1], v)) \<and>
    (\<exists>v. rtos_cmd (system_env prompt_platform 4096) [''rtos-cmd'', ''gpio-get'', ''0xA1D''] demo_machine =
      Some (0, [Pin_line 0xA1D 1], v))"
proof -
  have v: "gpio_is_valid 0xA1A" "gpio_is_valid 0xA1D" by (simp_all add: gpio_is_valid_alt)
  have p: "parse_u32 ''0xA1A'' = Some (ucast (0xA1A :: u16))" "parse_u32 ''0xA1D'' = Some (ucast (0xA1D :: u16))"
    "parse_u32 ''1'' = Some (of_bool True)"
    by (simp_all add: parse_eval)
  have mm: "gpio_block_ok (gpio_block prompt_platform) (\<lambda>f. f)"
    using gpio_block_ok_plain by (simp add: prompt_platform_fields)
  note t = rtos_cmd_gpio [OF prompt_platform_ok prompt_machine_open(1,3,2) demo_machine_open(2) mm refl _ p(3)]
  from t [OF p(1)] t [OF p(2)] v show ?thesis
    by (auto simp: demo_machine_open gpio_base_from_pin_def int_drop_8)
qed

theorem rtos_cmd_health_witness:
  "\<exists>v. rtos_cmd (system_env prompt_platform 4096) [''rtos-cmd'', ''ping'', ''7''] demo_machine =
      Some (0, [Ping_line 0x60 7 0xa5a55a5d 0xa5a55a5d], v)"
proof -
  have p: "parse_u32 ''7'' = Some 7"
    by (simp add: parse_eval)
  show ?thesis
    using rtos_cmd_health [OF prompt_platform_ok prompt_machine_open(1,3,2) demo_machine_open(2) refl p] by auto
qed

theorem rtos_cmd_status_witness:
  "\<exists>line v. rtos_cmd (system_env prompt_platform 4096) [''rtos-cmd'', ''gpio-get'', ''65536''] demo_machine = Some (2, [line], v) \<and>
    v = demo_machine \<and> complaint line"
proof -
  have "parse_u32 ''65536'' = Some 65536"
    by (simp add: parse_eval)
  then have "rtos_cmd (system_env prompt_platform 4096) [''rtos-cmd'', ''gpio-get'', ''65536''] demo_machine =
      Some (2, [Usage_text], demo_machine)"
    using prompt_machine_open(3) by (simp add: rtos_cmd_def gpio_get_command_def with_u32_def)
  with rtos_cmd_status [OF prompt_machine_open(3) this] show ?thesis by auto
qed

end
