(* ===== verification/Bench_Main.thy ===== *)
theory Bench_Main
  imports Window_Bench Rtos_Cmd
begin

section \<open>The benchmark program\<close>

text \<open>
  The rest of \<^verbatim>\<open>tools/rtos-bench.c\<close>: a synchronous transaction, and \<^verbatim>\<open>main\<close> from the command line to the report and the
  exit status. What it prints is a list of messages; the report has the numbers that are printed, without the
  quotients in floating point, whose operands it has. The memory the stack holds before it is written, the answer of
  \<^verbatim>\<open>calloc\<close>, the library and the raw clock are parameters. \<^const>\<open>None\<close> is a call that does not return or an access
  out of range.
\<close>

subsection \<open>Parameters and arguments\<close>

record 'w tool_env =
  bench_library :: "'w linux_env"
  bench_clock :: "'w \<Rightarrow> (int + timespec) \<times> 'w"
  calloc_latency :: "u32 \<Rightarrow> 'w \<Rightarrow> bool \<times> 'w"
  stack_request :: bytes
  stack_response :: bytes
  stack_length :: u16
  stack_time :: timespec

record bench_options =
  requested :: u32
  warmup :: u32
  echo_data :: u32
  window :: u32
  batch_mode :: bool

record latency_report =
  latency_min :: u64
  latency_total :: u64
  p50 :: u64
  p95 :: u64
  p99 :: u64
  latency_max :: u64

record bench_report =
  report_path :: string
  report_transport :: string
  report_mode :: string
  batch_backend :: string
  window_requested :: u32
  max_in_flight_observed :: u32
  report_stats :: window_stats
  transport_bytes_per_round_trip :: u32
  message_bytes_per_round_trip :: u32
  application_bytes_per_round_trip :: u32
  echo_data_bytes_each_direction :: u32
  report_warmup :: u32
  samples_requested :: u32
  samples_completed :: u32
  failures :: u32
  report_elapsed_ns :: u64
  latency_ns :: "latency_report option"

datatype bench_line =
  Bench_usage
| Invalid_argument string
| Calloc_failed
| Bench_open_failed int
| Echo_needs_shared_memory
| Window_needs_shared_memory
| Windowed_warmup_failed u32 u32 int
| Warmup_failed u32 int u32
| Windowed_failed u32 u32 int
| Batch_unresolved int
| Report bench_report

text \<open>The arguments are read in order; the first that is refused ends the program.\<close>

definition argument :: "(string \<Rightarrow> u32 option) \<Rightarrow> u32 \<Rightarrow> nat \<Rightarrow> string list \<Rightarrow> bench_line + u32" where
  "argument parse preset i argv =
     (if length argv \<le> i then Inr preset
      else case parse (argv ! i) of None \<Rightarrow> Inl (Invalid_argument (argv ! i)) | Some v \<Rightarrow> Inr v)"

definition window_mode :: "string list \<Rightarrow> bench_line + bool" where
  "window_mode argv =
     (if length argv \<noteq> 6 then Inr False
      else if argv ! 5 = ''batch'' then Inr True
      else if argv ! 5 \<noteq> ''split'' then Inl (Invalid_argument (argv ! 5)) else Inr False)"

definition bench_arguments :: "string list \<Rightarrow> bench_line + bench_options" where
  "bench_arguments argv =
     (if length argv > 6 then Inl Bench_usage
      else case argument parse_count 2000 1 argv of Inl e \<Rightarrow> Inl e | Inr n \<Rightarrow>
        (case argument parse_count 100 2 argv of Inl e \<Rightarrow> Inl e | Inr m \<Rightarrow>
        (case argument parse_payload_size 0 3 argv of Inl e \<Rightarrow> Inl e | Inr bytes \<Rightarrow>
        (case argument parse_window 0 4 argv of Inl e \<Rightarrow> Inl e | Inr k \<Rightarrow>
        (case window_mode argv of Inl e \<Rightarrow> Inl e | Inr mode \<Rightarrow>
          Inr \<lparr>requested = n, warmup = m, echo_data = bytes, window = k, batch_mode = mode\<rparr>)))))"

subsection \<open>A transaction\<close>

definition run_transaction ::
  "'x client_world_scheme tool_env \<Rightarrow> sg2002_rtos option \<Rightarrow> u32 \<Rightarrow> u32 \<Rightarrow> u32 \<Rightarrow> 'x client_world_scheme \<Rightarrow>
    (int \<times> u32 \<times> 'x client_world_scheme) option" where
  "run_transaction b rtos echo_data_bytes seed answer w =
     (if echo_data_bytes = 0 then do {
        (ret, result, w) \<leftarrow> sg2002_rtos_ping (bench_library b) rtos seed (Some answer) w;
        answer \<leftarrow> result;
        Some (if ret \<noteq> 0 then ret else if answer = seed XOR SG2002_RTOS_PING_XOR then 0 else - EPROTO, answer, w)
      } else let request_length = ucast (echo_data_bytes + 1) in do {
        request \<leftarrow> write_bytes (stack_request b) 0 [SG2002_RTOS_CMD_ECHO];
        request \<leftarrow> fill_pattern [1..<unat request_length] seed request;
        (ret, response, response_length, w) \<leftarrow> sg2002_rtos_message_call (bench_library b) rtos (Some request) request_length
           (Some (stack_response b)) (of_nat SG2002_RTOS_SHM_PAYLOAD_SIZE) (Some (stack_length b)) (ucast SG2002_RTOS_DEFAULT_TIMEOUT_MS) w;
        if ret \<noteq> 0 then Some (ret, answer, w)
        else do {
          response \<leftarrow> response;
          response_length \<leftarrow> response_length;
          if response_length \<noteq> request_length then Some (- EPROTO, answer, w)
          else do {
            sent \<leftarrow> read_bytes request 0 (unat request_length);
            received \<leftarrow> read_bytes response 0 (unat request_length);
            Some (if sent \<noteq> received then (- EPROTO, answer, w) else (0, 0, w))
          }
        }
      })"

subsection \<open>Warming up\<close>

text \<open>The loop of the synchronous mode, with the indices that remain; the second component is \<^verbatim>\<open>result\<close>.\<close>

fun warm_up_loop ::
  "'x client_world_scheme tool_env \<Rightarrow> sg2002_rtos option \<Rightarrow> u32 \<Rightarrow> nat list \<Rightarrow> u32 \<Rightarrow> 'x client_world_scheme \<Rightarrow>
    (bench_line option \<times> u32 \<times> 'x client_world_scheme) option" where
  "warm_up_loop b rtos echo_data_bytes [] result w = Some (None, result, w)"
| "warm_up_loop b rtos echo_data_bytes (i # is) result w = do {
     (ret, result, w) \<leftarrow> run_transaction b rtos echo_data_bytes (0x13579bdf + of_nat i) result w;
     if ret \<noteq> 0 then Some (Some (Warmup_failed (of_nat i) ret result), result, w)
     else warm_up_loop b rtos echo_data_bytes is result w
   }"

definition windowed_run ::
  "'w tool_env \<Rightarrow> sg2002_rtos option \<Rightarrow> bench_options \<Rightarrow> u32 \<Rightarrow> u32 \<Rightarrow> 'w window_run" where
  "windowed_run b rtos args n seed = \<lparr>library = bench_library b, handle = rtos, raw_time = bench_clock b,
     request_count = n, echo_bytes = echo_data args, first_seed = seed, window_size = window args,
     use_batch = batch_mode args\<rparr>"

definition warm_up ::
  "'x client_world_scheme tool_env \<Rightarrow> sg2002_rtos option \<Rightarrow> bench_options \<Rightarrow> 'x client_world_scheme \<Rightarrow>
    (bench_line option \<times> u32 \<times> 'x client_world_scheme) option" where
  "warm_up b rtos args w =
     (if window args > 0 then do {
        (ret, ph, w) \<leftarrow> run_windowed_phase (windowed_run b rtos args (warmup args) 0x13579bdf) None True w;
        Some (if ret \<noteq> 0 \<or> phase_completed ph \<noteq> warmup args then Some (Windowed_warmup_failed (phase_completed ph) (warmup args) ret) else None, 0, w)
      } else warm_up_loop b rtos (echo_data args) [0..<unat (warmup args)] 0 w)"

subsection \<open>Measuring\<close>

text \<open>A reading of the clock whose error is ignored leaves the variable as it was.\<close>

definition read_clock :: "'w tool_env \<Rightarrow> timespec \<Rightarrow> 'w \<Rightarrow> timespec \<times> 'w" where
  "read_clock b old w = (case bench_clock b w of (Inl e, w) \<Rightarrow> (old, w) | (Inr t, w) \<Rightarrow> (t, w))"

record samples =
  sample_latency :: "u64 list"
  sample_sum :: u64
  sample_completed :: u32
  sample_failed :: u32
  sample_start :: timespec
  sample_end :: timespec
  sample_lines :: "bench_line list"

definition no_samples :: "'w tool_env \<Rightarrow> bench_options \<Rightarrow> samples" where
  "no_samples b args = \<lparr>sample_latency = replicate (unat (requested args)) 0, sample_sum = 0, sample_completed = 0,
     sample_failed = 0, sample_start = stack_time b, sample_end = stack_time b, sample_lines = []\<rparr>"

fun sample_loop ::
  "'x client_world_scheme tool_env \<Rightarrow> sg2002_rtos option \<Rightarrow> u32 \<Rightarrow> nat list \<Rightarrow> u32 \<Rightarrow> samples \<Rightarrow> 'x client_world_scheme \<Rightarrow>
    (samples \<times> 'x client_world_scheme) option" where
  "sample_loop b rtos echo_data_bytes [] result s w = Some (s, w)"
| "sample_loop b rtos echo_data_bytes (i # is) result s w =
     (case read_clock b (sample_start s) w of (start, w) \<Rightarrow> do {
        (ret, result, w) \<leftarrow> run_transaction b rtos echo_data_bytes (0x2468ace0 + of_nat i) result w;
        (case read_clock b (sample_end s) w of (end, w) \<Rightarrow>
          let s = s\<lparr>sample_start := start, sample_end := end\<rparr>; n = unat (sample_completed s); taken = elapsed_ns start end
          in if ret \<noteq> 0 then Some (s\<lparr>sample_failed := sample_failed s + 1\<rparr>, w)
             else if n \<ge> length (sample_latency s) then None
             else sample_loop b rtos echo_data_bytes is result
               (s\<lparr>sample_latency := (sample_latency s)[n := taken], sample_sum := sample_sum s + taken,
                  sample_completed := sample_completed s + 1\<rparr>) w)
      })"

definition no_window_stats :: window_stats where
  "no_window_stats = \<lparr>window_max_in_flight = 0, send_eagain = 0, receive_eagain = 0, poll_wakeups = 0, submit_calls = 0, reap_calls = 0\<rparr>"

definition measure_samples ::
  "'x client_world_scheme tool_env \<Rightarrow> sg2002_rtos option \<Rightarrow> bench_options \<Rightarrow> u32 \<Rightarrow> 'x client_world_scheme \<Rightarrow>
    (samples \<times> window_stats \<times> 'x client_world_scheme) option" where
  "measure_samples b rtos args result w =
     (if window args > 0 then do {
        (ret, ph, w) \<leftarrow> run_windowed_phase (windowed_run b rtos args (requested args) 0x2468ace0)
           (Some (sample_latency (no_samples b args))) True w;
        latency \<leftarrow> phase_latency ph;
        Some ((no_samples b args)\<lparr>sample_latency := latency, sample_sum := phase_latency_sum ph, sample_completed := phase_completed ph,
            sample_failed := (if ret \<noteq> 0 then 1 else 0),
            sample_lines := (if ret \<noteq> 0 then [Windowed_failed (phase_completed ph) (requested args) ret] else [])\<rparr>, phase_stats ph, w)
      } else do {
        (s, w) \<leftarrow> sample_loop b rtos (echo_data args) [0..<unat (requested args)] result (no_samples b args) w;
        Some (s, no_window_stats, w)
      })"

subsection \<open>The report\<close>

text \<open>\<^verbatim>\<open>qsort\<close> with a comparison of numbers sorts the completed part of the array; it is read only when a
  sample was completed.\<close>

definition latency_of :: "u64 list \<Rightarrow> u64 \<Rightarrow> u32 \<Rightarrow> latency_report option" where
  "latency_of latency latency_sum completed = do {
     half \<leftarrow> percentile latency completed 50;
     most \<leftarrow> percentile latency completed 95;
     nearly_all \<leftarrow> percentile latency completed 99;
     let top = unat (completed - 1);
     if top \<ge> length latency then None
     else Some \<lparr>latency_min = latency ! 0, latency_total = latency_sum, p50 = half, p95 = most, p99 = nearly_all, latency_max = latency ! top\<rparr>
   }"

definition sort_samples :: "u64 list \<Rightarrow> u32 \<Rightarrow> u64 list" where
  "sort_samples latency completed =
     (if completed > 0 then sort (take (unat completed) latency) @ drop (unat completed) latency else latency)"

definition report_of ::
  "bench_options \<Rightarrow> bool \<Rightarrow> int \<Rightarrow> samples \<Rightarrow> window_stats \<Rightarrow> u64 \<Rightarrow> bench_report option" where
  "report_of args shared_memory native_batch s stats total_ns =
     (let completed = sample_completed s; latency = sort_samples (sample_latency s) completed; echo = echo_data args in do {
        summary \<leftarrow> (if completed > 0 then map_option Some (latency_of latency (sample_sum s) completed) else Some None);
        Some \<lparr>report_path =
            (if window args > 0 then ''userspace_wait_shared_memory_windowed_'' @
               (if batch_mode args then (if native_batch = 1 then ''batch_native''
                  else if native_batch = 0 then ''batch_compat'' else ''batch_unknown'') else ''split'') @ ''_freertos_round_trip''
             else ''userspace_ioctl_'' @ (if shared_memory then ''shared_memory'' else ''cmdqu'') @ ''_freertos_round_trip''),
          report_transport = (if shared_memory then ''shared_memory'' else ''cmdqu''),
          report_mode = (if window args = 0 then ''synchronous'' else if batch_mode args then ''windowed_batch'' else ''windowed_split''),
          batch_backend = (if \<not> batch_mode args then ''not_requested'' else if native_batch = 1 then ''native_ioctl''
            else if native_batch = 0 then ''single_ioctl_fallback'' else ''unknown''),
          window_requested = window args,
          max_in_flight_observed = (if window args > 0 then window_max_in_flight stats else if completed > 0 then 1 else 0),
          report_stats = stats,
          transport_bytes_per_round_trip = (if shared_memory then of_nat SG2002_RTOS_SHM_SLOT_SIZE * 2 else 16),
          message_bytes_per_round_trip =
            (if shared_memory then (if echo > 0 then (echo + 1) * 2 else of_nat SG2002_RTOS_VALUE_MESSAGE_SIZE * 2) else 8),
          application_bytes_per_round_trip = (if echo > 0 then echo * 2 else 8),
          echo_data_bytes_each_direction = echo, report_warmup = warmup args, samples_requested = requested args,
          samples_completed = completed, failures = sample_failed s, report_elapsed_ns = total_ns, latency_ns = summary\<rparr>
      })"

subsection \<open>The program\<close>

text \<open>From the open handle to the report. The batch capability is asked for only after a batch run without a failure.\<close>

definition bench_measured ::
  "'x client_world_scheme tool_env \<Rightarrow> sg2002_rtos option \<Rightarrow> bench_options \<Rightarrow> bool \<Rightarrow> u32 \<Rightarrow> 'x client_world_scheme \<Rightarrow>
    (int \<times> bench_line list \<times> 'x client_world_scheme) option" where
  "bench_measured b rtos args shared_memory result w =
     (case read_clock b (stack_time b) w of (total_start, w) \<Rightarrow> do {
        (s, stats, w) \<leftarrow> measure_samples b rtos args result w;
        (case read_clock b (stack_time b) w of (total_end, w) \<Rightarrow>
          let ask = (window args > 0 \<and> batch_mode args \<and> sample_failed s = 0);
              (native_batch, w) = (if ask then sg2002_rtos_native_batch_available (bench_library b) rtos w else (- EAGAIN, w));
              s = (if ask \<and> native_batch < 0
                   then s\<lparr>sample_failed := sample_failed s + 1, sample_lines := sample_lines s @ [Batch_unresolved native_batch]\<rparr>
                   else s);
              w = snd (sg2002_rtos_close (bench_library b) rtos w)
          in do {
            report \<leftarrow> report_of args shared_memory native_batch s stats (elapsed_ns total_start total_end);
            Some (if sample_failed s = 0 \<and> sample_completed s = requested args then 0 else 1, sample_lines s @ [Report report], w)
          })
      })"

definition rtos_bench ::
  "'x client_world_scheme tool_env \<Rightarrow> string list \<Rightarrow> 'x client_world_scheme \<Rightarrow>
    (int \<times> bench_line list \<times> 'x client_world_scheme) option" where
  "rtos_bench b argv w = (case bench_arguments argv of
       Inl line \<Rightarrow> Some (2, [line], w)
     | Inr args \<Rightarrow> (case calloc_latency b (requested args) w of (allocated, w) \<Rightarrow>
         if \<not> allocated then Some (1, [Calloc_failed], w)
         else (case sg2002_rtos_open (bench_library b) (Some SG2002_RTOS_INITIALIZER) w of (ret, rtos, w) \<Rightarrow>
           if ret \<noteq> 0 then Some (1, [Bench_open_failed ret], w)
           else let shared_memory = sg2002_rtos_shared_memory_available rtos w; close = (\<lambda>w. snd (sg2002_rtos_close (bench_library b) rtos w))
           in if echo_data args > 0 \<and> \<not> shared_memory then Some (1, [Echo_needs_shared_memory], close w)
              else if window args > 0 \<and> \<not> shared_memory then Some (1, [Window_needs_shared_memory], close w)
              else do {
                (failure, result, w) \<leftarrow> warm_up b rtos args w;
                (case failure of Some line \<Rightarrow> Some (1, [line], close w)
                 | None \<Rightarrow> bench_measured b rtos args shared_memory result w)
              })))"

subsection \<open>What the arguments can be\<close>

lemma parse_range_bounds:
  assumes "parse_range text lo hi = Some v"
  shows "lo \<le> v" "v \<le> hi"
proof -
  obtain u rest where u: "strtoul text = (u, rest)" by fastforce
  have b: "ucast lo \<le> u" "u \<le> ucast hi" "v = ucast u"
    using assms u by (auto simp: parse_range_def Let_def not_less split: if_splits)
  have c: "unat (ucast x :: u64) = unat x" for x :: u32
    using unat_u32_less [of x] by (simp add: unsigned_ucast_eq take_bit_nat_eq_self del: unat_u32_less)
  have "unat u \<le> unat hi" using b(2) c by (simp add: word_le_nat_alt)
  then have "unat v = unat u" using b(3) unat_u32_less [of hi]
    by (simp add: unsigned_ucast_eq take_bit_nat_eq_self del: unat_u32_less)
  then show "lo \<le> v" "v \<le> hi" using b c by (simp_all add: word_le_nat_alt)
qed

lemma bench_arguments_range:
  assumes "bench_arguments argv = Inr args"
  shows "1 \<le> requested args" "requested args \<le> 1000000" "window args \<le> 64" "echo_data args \<le> 1017"
proof -
  have a: "v = preset \<or> parse (argv ! i) = Some v" if "argument parse preset i argv = Inr v" for parse preset i v
    using that by (simp add: argument_def split: if_splits option.splits)
  obtain n m bytes k mode where
    p: "argument parse_count 2000 1 argv = Inr n" "argument parse_payload_size 0 3 argv = Inr bytes"
       "argument parse_window 0 4 argv = Inr k" and
    args: "args = \<lparr>requested = n, warmup = m, echo_data = bytes, window = k, batch_mode = mode\<rparr>"
    using assms by (simp add: bench_arguments_def split: if_splits sum.splits) (metis One_nat_def)
  have "n = 2000 \<or> parse_range (argv ! 1) 1 1000000 = Some n" using a [OF p(1)] by (simp only: parsers_are_ranges)
  then show "1 \<le> requested args" "requested args \<le> 1000000" using parse_range_bounds [of "argv ! 1" 1 1000000 n] by (auto simp: args)
  have "bytes = 0 \<or> parse_range (argv ! 3) 0 1017 = Some bytes" using a [OF p(2)] by (simp only: parsers_are_ranges)
  then show "echo_data args \<le> 1017" using parse_range_bounds [of "argv ! 3" 0 1017 bytes] by (auto simp: args)
  have "k = 0 \<or> parse_range (argv ! 4) 1 64 = Some k" using a [OF p(3)] by (simp only: parsers_are_ranges)
  then show "window args \<le> 64" using parse_range_bounds [of "argv ! 4" 1 64 k] by (auto simp: args)
qed

subsection \<open>What is measured\<close>

definition samples_ok :: "bench_options \<Rightarrow> samples \<Rightarrow> bool" where
  "samples_ok args s \<longleftrightarrow> length (sample_latency s) = unat (requested args) \<and> sample_completed s \<le> requested args \<and>
     sample_sum s = sum_list (take (unat (sample_completed s)) (sample_latency s))"

text \<open>The outcome of the measurement: a run without a failure has all samples.\<close>

definition measured_ok :: "bench_options \<Rightarrow> samples \<Rightarrow> bool" where
  "measured_ok args s \<longleftrightarrow> samples_ok args s \<and> sample_failed s \<le> 1 \<and>
     (sample_failed s = 0 \<longrightarrow> sample_completed s = requested args) \<and> (\<forall>r. Report r \<notin> set (sample_lines s)) \<and>
     (sample_failed s = 0 \<longrightarrow> sample_lines s = [])"

lemma sample_loop_ok:
  assumes "sample_loop b rtos echo is result s w = Some (s', w')"
    and "samples_ok args s" "sample_failed s = 0" "sample_lines s = []"
    and "unat (sample_completed s) + length is = unat (requested args)"
  shows "measured_ok args s'"
  using assms
proof (induction "is" arbitrary: result s w)
  case Nil
  then show ?case by (auto simp: measured_ok_def word_unat_eq_iff word_le_nat_alt)
next
  case (Cons i "is")
  obtain start w1 where c1: "read_clock b (sample_start s) w = (start, w1)" by fastforce
  obtain ret result' w2 where t: "run_transaction b rtos echo (0x2468ace0 + of_nat i) result w1 = Some (ret, result', w2)"
    using Cons.prems(1) c1 by (auto split: Option.bind_split_asm)
  obtain "end" w3 where c2: "read_clock b (sample_end s) w2 = (end, w3)" by fastforce
  let ?s = "s\<lparr>sample_start := start, sample_end := end\<rparr>"
  let ?n = "unat (sample_completed s)" and ?taken = "elapsed_ns start end"
  show ?case
  proof (cases "ret = 0")
    case False
    then have "s' = ?s\<lparr>sample_failed := sample_failed s + 1\<rparr>" using Cons.prems(1) c1 t c2 by (simp add: Let_def)
    then show ?thesis using Cons.prems(2-4) by (simp add: measured_ok_def samples_ok_def)
  next
    case True
    have n: "?n < length (sample_latency s)" "?n < unat (requested args)"
      using Cons.prems(2,5) by (simp_all add: samples_ok_def)
    let ?s' = "?s\<lparr>sample_latency := (sample_latency s)[?n := ?taken], sample_sum := sample_sum s + ?taken,
      sample_completed := sample_completed s + 1\<rparr>"
    have u: "unat (sample_completed s + 1) = ?n + 1"
      using n(2) unat_u32_less [of "requested args"] by (simp add: unat_word_ariths del: unat_u32_less)
    have "samples_ok args ?s'"
      using Cons.prems(2) n u by (simp add: samples_ok_def word_le_nat_alt sum_list_take_update)
    moreover have "sample_loop b rtos echo is result' ?s' w3 = Some (s', w')"
      using Cons.prems(1) c1 t c2 True n(1) by (simp add: Let_def)
    ultimately show ?thesis using Cons.IH [of result' ?s' w3] Cons.prems(3-5) u by simp
  qed
qed

lemma measure_samples_ok:
  assumes "errno_positive (bench_library b)" "\<forall>w e w'. bench_clock b w = (Inl e, w') \<longrightarrow> e > 0"
    and "bench_arguments argv = Inr args" "measure_samples b rtos args result w = Some (s, stats, w')"
  shows "measured_ok args s \<and> window_max_in_flight stats \<le> window args"
proof (cases "window args > 0")
  case True
  let ?run = "windowed_run b rtos args (requested args) 0x2468ace0"
  let ?latency = "Some (sample_latency (no_samples b args))"
  have "run_ok ?run" using assms(1,2) True bench_arguments_range(3) [OF assms(3)] by (simp add: run_ok_def windowed_run_def)
  moreover have "window_ok ?run 0 (new_window ?latency)"
    by (rule window_ok_new) (simp add: windowed_run_def no_samples_def)
  moreover obtain ret ph latency where p: "run_windowed_phase ?run ?latency True w = Some (ret, ph, w')"
    "phase_latency ph = Some latency" "stats = phase_stats ph"
    "s = (no_samples b args)\<lparr>sample_latency := latency, sample_sum := phase_latency_sum ph, sample_completed := phase_completed ph,
       sample_failed := (if ret \<noteq> 0 then 1 else 0),
       sample_lines := (if ret \<noteq> 0 then [Windowed_failed (phase_completed ph) (requested args) ret] else [])\<rparr>"
    using assms(4) True by (auto simp: measure_samples_def split: Option.bind_split_asm)
  ultimately have out: "phase_outcome ?run (ret, ph, w')"
    using window_loop_ok by (simp add: run_windowed_phase_def)
  then have "window_bounds ?run ph" "ret = 0 \<longrightarrow> phase_completed ph = requested args"
    by (simp_all add: phase_outcome_def windowed_run_def)
  then show ?thesis
    using p by (auto simp: window_bounds_def measured_ok_def samples_ok_def windowed_run_def word_le_nat_alt)
next
  case False
  obtain w1 where l: "sample_loop b rtos (echo_data args) [0..<unat (requested args)] result (no_samples b args) w = Some (s, w1)"
    "stats = no_window_stats"
    using assms(4) False by (auto simp: measure_samples_def split: Option.bind_split_asm)
  have "measured_ok args s"
    by (rule sample_loop_ok [OF l(1)]) (simp_all add: no_samples_def samples_ok_def)
  then show ?thesis using l(2) by (simp add: no_window_stats_def)
qed

subsection \<open>The latency summary\<close>

definition summary_of :: "u64 list \<Rightarrow> latency_report \<Rightarrow> bool" where
  "summary_of ls l \<longleftrightarrow> latency_min l = Min (set ls) \<and> latency_max l = Max (set ls) \<and> latency_total l = sum_list ls \<and>
     latency_min l \<le> p50 l \<and> p50 l \<le> p95 l \<and> p95 l \<le> p99 l \<and> p99 l \<le> latency_max l"

lemma percentile_prefix: "percentile xs n p = Some x \<Longrightarrow> percentile (xs @ ys) n p = Some x"
  by (auto simp: percentile_def Let_def nth_append split: if_splits)

lemma percentile_mono:
  assumes "sorted xs" "xs \<noteq> []" "length xs \<le> 1000000" "0 < p" "p \<le> q" "q \<le> 100"
    and "percentile xs (of_nat (length xs)) p = Some x" "percentile xs (of_nat (length xs)) q = Some y"
  shows "x \<le> y"
proof (rule ccontr)
  assume "\<not> x \<le> y"
  then have lt: "y < x" by simp
  have "p \<le> 100" using assms(5,6) by simp
  from percentile_nearest_rank [OF assms(1-3) this] assms(4,7) lt
  have "100 * length (filter (\<lambda>s. s \<le> y) xs) < unat p * length xs" by auto
  also have "\<dots> \<le> unat q * length xs" using assms(5) by (simp add: word_le_nat_alt)
  also have "\<dots> \<le> 100 * length (filter (\<lambda>s. s \<le> y) xs)"
    using percentile_nearest_rank [OF assms(1-3,6)] assms(8) by auto
  finally show False by simp
qed

lemma sorted_ends:
  assumes "sorted xs" "xs \<noteq> []"
  shows "xs ! 0 = Min (set xs)" "xs ! (length xs - 1) = Max (set xs)"
proof -
  have i: "xs ! 0 \<in> set xs" "xs ! (length xs - 1) \<in> set xs" using assms(2) by simp_all
  have "xs ! 0 \<le> y \<and> y \<le> xs ! (length xs - 1)" if y: "y \<in> set xs" for y
  proof -
    obtain i where "i < length xs" "y = xs ! i" using y by (auto simp: in_set_conv_nth)
    then show ?thesis using sorted_nth_mono [OF assms(1), of 0 i] sorted_nth_mono [OF assms(1), of i "length xs - 1"] by simp
  qed
  then show "xs ! 0 = Min (set xs)" "xs ! (length xs - 1) = Max (set xs)"
    using i by (auto intro!: Min_eqI [symmetric] Max_eqI [symmetric])
qed

lemma latency_of_sorted:
  assumes "0 < n" "unat n \<le> length latency" "n \<le> 1000000" "ls = take (unat n) latency"
  shows "\<exists>l. latency_of (sort_samples latency n) (sum_list ls) n = Some l \<and> summary_of ls l"
proof -
  let ?xs = "sort ls"
  have n: "unat n \<le> 1000000" "0 < unat n" using assms(1,3) by (simp_all add: word_le_nat_alt unat_gt_0)
  have len: "length ls = unat n" using assms(2,4) by simp
  then have ne: "?xs \<noteq> []" using n(2) length_sort [of "\<lambda>x. x" ls] by (metis list.size(3) less_irrefl)
  have xs: "sorted ?xs" "length ?xs \<le> 1000000" "n = of_nat (length ?xs)" using n len by simp_all
  have ss: "sort_samples latency n = ?xs @ drop (unat n) latency" using assms(1,4) by (simp add: sort_samples_def)
  note rank = percentile_nearest_rank [OF xs(1) ne xs(2)]
  obtain x50 x95 x99 where x: "percentile ?xs n 50 = Some x50" "percentile ?xs n 95 = Some x95" "percentile ?xs n 99 = Some x99"
    "x50 \<in> set ls" "x99 \<in> set ls"
    using rank [of 50] rank [of 95] rank [of 99] xs(3) by auto
  have mono: "x50 \<le> x95" "x95 \<le> x99"
    using percentile_mono [OF xs(1) ne xs(2), of 50 95] percentile_mono [OF xs(1) ne xs(2), of 95 99] x(1-3) xs(3) by auto
  have u: "unat (n - 1) = unat n - 1" using n(2) by (simp add: unat_sub word_le_nat_alt)
  have lt: "unat n - 1 < length ?xs" using n(2) len by simp
  have "?xs ! 0 = Min (set ls)" "?xs ! (unat n - 1) = Max (set ls)"
    using sorted_ends [OF xs(1) ne] len by simp_all
  then show ?thesis
    using x mono u lt len
    by (simp add: latency_of_def ss percentile_prefix summary_of_def nth_append Let_def)
qed

subsection \<open>Properties\<close>

text \<open>A report of a run with the given arguments.\<close>

definition report_ok :: "bench_options \<Rightarrow> bench_report \<Rightarrow> bool" where
  "report_ok args r \<longleftrightarrow> samples_requested r = requested args \<and> samples_completed r \<le> requested args \<and>
     (failures r = 0 \<longrightarrow> samples_completed r = requested args) \<and> max_in_flight_observed r \<le> max 1 (window args) \<and>
     (case latency_ns r of None \<Rightarrow> samples_completed r = 0
      | Some l \<Rightarrow> \<exists>ls. length ls = unat (samples_completed r) \<and> summary_of ls l)"

lemma report_of_ok:
  assumes "report_of args shared native s stats total_ns = Some r" "samples_ok args s" "requested args \<le> 1000000"
    and "sample_failed s = 0 \<longrightarrow> sample_completed s = requested args" "window_max_in_flight stats \<le> window args"
  shows "report_ok args r \<and> failures r = sample_failed s \<and> samples_completed r = sample_completed s"
proof -
  let ?n = "sample_completed s" and ?ls = "take (unat (sample_completed s)) (sample_latency s)"
  have n: "unat ?n \<le> length (sample_latency s)" "?n \<le> 1000000" "sample_sum s = sum_list ?ls"
    using assms(2,3) by (auto simp: samples_ok_def word_le_nat_alt)
  have f: "samples_requested r = requested args" "samples_completed r = ?n" "failures r = sample_failed s"
    "max_in_flight_observed r \<le> max 1 (window args)"
    using assms(1,5) by (auto simp: report_of_def Let_def max_def split: Option.bind_split_asm)
  show ?thesis
  proof (cases "?n > 0")
    case True
    obtain l where l: "latency_of (sort_samples (sample_latency s) ?n) (sum_list ?ls) ?n = Some l" "summary_of ?ls l"
      using latency_of_sorted [OF True n(1,2) refl] by blast
    have "latency_ns r = Some l" using assms(1) True l(1) n(3) by (auto simp: report_of_def Let_def)
    moreover have "length ?ls = unat ?n" using n(1) by simp
    ultimately have "\<exists>ls. length ls = unat (samples_completed r) \<and> summary_of ls l" "latency_ns r = Some l" using f(2) l(2) by metis+
    then show ?thesis using f assms(2,4) by (simp add: report_ok_def samples_ok_def)
  next
    case False
    have "latency_ns r = None" using assms(1) False by (auto simp: report_of_def Let_def)
    moreover have "?n = 0" using False by (simp add: word_gt_0)
    ultimately show ?thesis using f assms(2,4) by (auto simp: report_ok_def samples_ok_def)
  qed
qed

lemma bench_measured_ok:
  assumes "errno_positive (bench_library b)" "\<forall>w e w'. bench_clock b w = (Inl e, w') \<longrightarrow> e > 0"
    and "bench_arguments argv = Inr args" "bench_measured b rtos args shared result w = Some (status, lines, w')"
  shows "\<exists>r before. lines = before @ [Report r] \<and> (\<forall>r'. Report r' \<notin> set before) \<and> report_ok args r \<and>
    status = (if failures r = 0 then 0 else 1) \<and> (failures r = 0 \<longrightarrow> before = [])"
proof -
  obtain start w1 where c1: "read_clock b (stack_time b) w = (start, w1)" by fastforce
  obtain s stats w2 where m: "measure_samples b rtos args result w1 = Some (s, stats, w2)"
    using assms(4) c1 by (auto simp: bench_measured_def split: Option.bind_split_asm)
  obtain "end" w3 where c2: "read_clock b (stack_time b) w2 = (end, w3)" by fastforce
  note ok = measure_samples_ok [OF assms(1-3) m]
  define ask where "ask = (window args > 0 \<and> batch_mode args \<and> sample_failed s = 0)"
  obtain native w4 where nb: "(if ask then sg2002_rtos_native_batch_available (bench_library b) rtos w3 else (- EAGAIN, w3)) = (native, w4)"
    by fastforce
  define s' where "s' = (if ask \<and> native < 0
    then s\<lparr>sample_failed := sample_failed s + 1, sample_lines := sample_lines s @ [Batch_unresolved native]\<rparr> else s)"
  obtain report where r: "report_of args shared native s' stats (elapsed_ns start end) = Some report"
    "lines = sample_lines s' @ [Report report]"
    "status = (if sample_failed s' = 0 \<and> sample_completed s' = requested args then 0 else 1)"
    using assms(4) c1 m c2 nb
    by (auto simp: bench_measured_def s'_def ask_def Let_def split: Option.bind_split_asm)
  have s': "samples_ok args s'" "sample_failed s' = 0 \<longrightarrow> sample_completed s' = requested args"
    "\<forall>r. Report r \<notin> set (sample_lines s')" "sample_failed s' = 0 \<longrightarrow> sample_lines s' = []"
    using ok by (auto simp: s'_def ask_def measured_ok_def samples_ok_def)
  from report_of_ok [OF r(1) s'(1) bench_arguments_range(2) [OF assms(3)] s'(2)] ok r s' show ?thesis by auto
qed

lemma warm_up_line:
  "warm_up b rtos args w = Some (Some line, result, w') \<Longrightarrow> \<forall>r. line \<noteq> Report r"
proof -
  have "warm_up_loop b rtos echo is result w = Some (Some line, result', w') \<Longrightarrow> \<forall>r. line \<noteq> Report r" for echo "is" result result' w
    by (induction "is" arbitrary: result w) (auto split: Option.bind_split_asm if_split_asm)
  then show "warm_up b rtos args w = Some (Some line, result, w') \<Longrightarrow> \<forall>r. line \<noteq> Report r"
    by (auto simp: warm_up_def split: Option.bind_split_asm if_split_asm)
qed


subsection \<open>A run over the mailbox\<close>

text \<open>A driver without shared memory whose firmware answers pings.\<close>

definition mailbox_tool :: "sim_world tool_env" where
  "mailbox_tool = \<lparr>bench_library = sim_env\<lparr>ioctl_send_wait := (\<lambda>f c w.
       (Inr (c\<lparr>param_ptr := param_ptr c XOR SG2002_RTOS_PING_XOR, linux_valid := 0, rtos_valid := 1\<rparr>), w))\<rparr>,
     bench_clock = (\<lambda>w. (Inr \<lparr>tv_sec = 0, tv_nsec = 0\<rparr>, w)), calloc_latency = (\<lambda>n w. (True, w)),
     stack_request = replicate 1018 0, stack_response = replicate 1018 0, stack_length = 0,
     stack_time = \<lparr>tv_sec = 0, tv_nsec = 0\<rparr>\<rparr>"

lemma mailbox_tool_steps:
  "run_transaction mailbox_tool (Some \<lparr>fd = 3, private_data = False\<rparr>) 0 seed cell w = Some (0, seed XOR SG2002_RTOS_PING_XOR, w)"
  "read_clock mailbox_tool old w = (\<lparr>tv_sec = 0, tv_nsec = 0\<rparr>, w)"
  "sg2002_rtos_open (bench_library mailbox_tool) (Some SG2002_RTOS_INITIALIZER) w = (0, Some \<lparr>fd = 3, private_data = False\<rparr>, w)"
  "calloc_latency mailbox_tool n w = (True, w)"
  "snd (sg2002_rtos_close (bench_library mailbox_tool) (Some \<lparr>fd = 3, private_data = False\<rparr>) w) = w"
  "errno_positive (bench_library mailbox_tool)" "bench_clock mailbox_tool w \<noteq> (Inl e, w')"
  by (simp_all add: run_transaction_def sg2002_rtos_ping_def sg2002_rtos_call_def mailbox_tool_def sim_env_def read_clock_def
      sg2002_rtos_open_def SG2002_RTOS_INITIALIZER_def sg2002_rtos_close_def errno_positive_def)

abbreviation mailbox_handle :: "sg2002_rtos option" where
  "mailbox_handle \<equiv> Some \<lparr>fd = 3, private_data = False\<rparr>"

lemma mailbox_warm_up:
  "\<exists>result'. warm_up_loop mailbox_tool mailbox_handle 0 is result w = Some (None, result', w)"
  by (induction "is" arbitrary: result) (simp_all add: mailbox_tool_steps)

lemma mailbox_samples:
  assumes "unat (sample_completed s) + length is \<le> length (sample_latency s)" "length (sample_latency s) \<le> 1000000"
  shows "\<exists>s'. sample_loop mailbox_tool mailbox_handle 0 is result s w = Some (s', w) \<and> sample_failed s' = sample_failed s"
  using assms
proof (induction "is" arbitrary: result s)
  case (Cons i "is")
  then have u: "unat (sample_completed s + 1) = unat (sample_completed s) + 1" by (simp add: unat_word_ariths)
  let ?t = "\<lparr>tv_sec = 0, tv_nsec = 0\<rparr>"
  let ?s = "s\<lparr>sample_start := ?t, sample_end := ?t, sample_latency := (sample_latency s)[unat (sample_completed s) := elapsed_ns ?t ?t],
    sample_sum := sample_sum s + elapsed_ns ?t ?t, sample_completed := sample_completed s + 1\<rparr>"
  show ?case
    using Cons.IH [of ?s "0x2468ace0 + of_nat i XOR SG2002_RTOS_PING_XOR"] Cons.prems u
    by (simp add: mailbox_tool_steps Let_def)
qed simp

lemma mailbox_run: "\<exists>r. rtos_bench mailbox_tool [''rtos-bench''] w = Some (0, [Report r], w)"
proof -
  let ?args = "\<lparr>requested = 2000, warmup = 100, echo_data = 0, window = 0, batch_mode = False\<rparr>"
  have a: "bench_arguments [''rtos-bench''] = Inr ?args"
    by (simp add: bench_arguments_def argument_def window_mode_def)
  obtain result where u: "warm_up mailbox_tool mailbox_handle ?args w = Some (None, result, w)"
    using mailbox_warm_up [of "[0..<100]" 0 w] by (auto simp: warm_up_def)
  have n: "unat (sample_completed (no_samples mailbox_tool ?args)) + length [0..<2000] \<le> length (sample_latency (no_samples mailbox_tool ?args))"
    "length (sample_latency (no_samples mailbox_tool ?args)) \<le> 1000000"
    by (simp_all add: no_samples_def)
  obtain s where s: "sample_loop mailbox_tool mailbox_handle 0 [0..<2000] result (no_samples mailbox_tool ?args) w = Some (s, w)"
    "sample_failed s = 0"
    using mailbox_samples [OF n, of result w] by (auto simp: no_samples_def)
  have m: "measured_ok ?args s"
    by (rule sample_loop_ok [OF s(1)]) (simp_all add: no_samples_def samples_ok_def)
  then have ok: "samples_ok ?args s" "sample_completed s = 2000" "sample_lines s = []" using s(2) by (simp_all add: measured_ok_def)
  obtain l where l: "latency_of (sort_samples (sample_latency s) 2000) (sample_sum s) 2000 = Some l"
    using latency_of_sorted [of 2000 "sample_latency s" "take 2000 (sample_latency s)"] ok(1,2) by (auto simp: samples_ok_def)
  have "\<exists>r. report_of ?args False (- EAGAIN) s no_window_stats 0 = Some r"
    using ok(2) l by (simp add: report_of_def Let_def)
  then obtain r where "report_of ?args False (- EAGAIN) s no_window_stats 0 = Some r" by blast
  moreover have "elapsed_ns \<lparr>tv_sec = 0, tv_nsec = 0\<rparr> \<lparr>tv_sec = 0, tv_nsec = 0\<rparr> = 0" by (simp add: elapsed_ns_def)
  moreover have "measure_samples mailbox_tool mailbox_handle ?args result w = Some (s, no_window_stats, w)"
    using s(1) by (simp add: measure_samples_def)
  ultimately have "bench_measured mailbox_tool mailbox_handle ?args False result w = Some (0, [Report r], w)"
    using s(2) ok(2,3) by (simp add: bench_measured_def mailbox_tool_steps)
  then show ?thesis
    using a u by (simp add: rtos_bench_def mailbox_tool_steps sg2002_rtos_shared_memory_available_def)
qed


end
