(* ===== verification/Board_Init.thy ===== *)
theory Board_Init
  imports Gpio
begin

section \<open>Initialisation of the boards\<close>

text \<open>
  \<^verbatim>\<open>cvi_board_init.c\<close> of the three boards under \<^verbatim>\<open>src/configs\<close>: pin multiplexing, and on the LicheeRV Nano the reset
  pulse of the wireless chip and the pins of the display. Register accesses, the macro \<^verbatim>\<open>PINMUX_CONFIG\<close> of
  U-Boot and the console are parameters, and so is what happens in the machine while the processor
  spends one round of the waiting loop.
\<close>

subsection \<open>Definitions\<close>

record 'io board_ops =
  board_mmio :: "'io mmio_ops"
  PINMUX_CONFIG :: "string \<Rightarrow> string \<Rightarrow> 'io \<Rightarrow> 'io"
  print_line :: "string \<Rightarrow> 'io \<Rightarrow> 'io"
  loop_round :: "'io \<Rightarrow> 'io"

text \<open>The divisions of a round have no result that is used.\<close>

function suck_rounds :: "('io \<Rightarrow> 'io) \<Rightarrow> u64 \<Rightarrow> 'io \<Rightarrow> 'io" where
  "suck_rounds round loop io = (if loop > 0 then suck_rounds round (loop - 1) (round io) else io)"
  by pat_completeness auto

termination
  by (relation "measure (\<lambda>(round, loop, io). unat loop)") (auto intro: word_less_nat_alt [THEN iffD1] measure_unat simp: word_gt_0)

declare suck_rounds.simps [simp del]

definition suck_loop :: "'io board_ops \<Rightarrow> u64 \<Rightarrow> 'io \<Rightarrow> 'io" where
  "suck_loop b loop io = suck_rounds (loop_round b) (loop * 50 * 100) io"

text \<open>Setting and clearing bits of a register.\<close>

definition set_bits :: "'io board_ops \<Rightarrow> u32 \<Rightarrow> u32 \<Rightarrow> 'io \<Rightarrow> 'io" where
  "set_bits b a m io = (let (val, io) = mmio_read_32 (board_mmio b) a io in mmio_write_32 (board_mmio b) a (val OR m) io)"

definition clear_bits :: "'io board_ops \<Rightarrow> u32 \<Rightarrow> u32 \<Rightarrow> 'io \<Rightarrow> 'io" where
  "clear_bits b a m io = (let (val, io) = mmio_read_32 (board_mmio b) a io in mmio_write_32 (board_mmio b) a (val AND NOT m) io)"

definition write_all :: "'io board_ops \<Rightarrow> (u32 \<times> u32) list \<Rightarrow> 'io \<Rightarrow> 'io" where
  "write_all b ws io = fold (\<lambda>(a, v). mmio_write_32 (board_mmio b) a v) ws io"

text \<open>The LicheeRV Nano: the wireless chip is reset by a low pulse on GPIOA 26.\<close>

definition wifi_reset_low :: "'io board_ops \<Rightarrow> 'io \<Rightarrow> 'io" where
  "wifi_reset_low b io =
     (let io = mmio_write_32 (board_mmio b) 0x0300104C 0x3 io;
          io = set_bits b 0x03020004 (push_bit 26 1) io
      in clear_bits b 0x03020000 (push_bit 26 1) io)"

definition wifi_reset_high :: "'io board_ops \<Rightarrow> 'io \<Rightarrow> 'io" where
  "wifi_reset_high b io = set_bits b 0x03020000 (push_bit 26 1) io"

definition sdio_pins :: "(u32 \<times> u32) list" where
  "sdio_pins = [(0x030010D0, 0), (0x030010D4, 0), (0x030010D8, 0), (0x030010DC, 0), (0x030010E0, 0), (0x030010E4, 0)]"

definition camera_and_touch_pins :: "(u32 \<times> u32) list" where
  "camera_and_touch_pins = [(0x0300116C, 5), (0x03001090, 5), (0x03001098, 5), (0x03001084, 3), (0x03001088, 3),
     (0x05027078, 0x11), (0x0502707C, 0x11)]"

definition maixcam_pins :: "(u32 \<times> u32) list" where
  "maixcam_pins = [(0x0300105C, 3), (0x03001060, 3)]"

definition licheervnano_board_init :: "bool \<Rightarrow> 'io board_ops \<Rightarrow> 'io \<Rightarrow> int \<times> 'io" where
  "licheervnano_board_init MAIXCAM b io =
     (let io = wifi_reset_low b io;
          io = suck_loop b 200 io;
          io = wifi_reset_high b io;
          io = write_all b sdio_pins io;
          io = PINMUX_CONFIG b ''SD0_PWR_EN'' ''XGPIOA_14'' io;
          io = mmio_write_32 (board_mmio b) 0x030010A4 0x0 io;
          io = mmio_write_32 (board_mmio b) 0x030010EC 0x3 io;
          io = set_bits b 0x03021004 (push_bit 0 1) io;
          io = set_bits b 0x03021000 (push_bit 0 1) io;
          io = write_all b camera_and_touch_pins io;
          io = (if MAIXCAM then write_all b maixcam_pins io else io)
      in (0, suck_loop b 100 io))"

text \<open>The Milk-V Duo S and Duo 256M: pads and their functions.\<close>

definition configure_pins :: "'io board_ops \<Rightarrow> (string \<times> string) list \<Rightarrow> 'io \<Rightarrow> 'io" where
  "configure_pins b pins io = fold (\<lambda>(pad, f). PINMUX_CONFIG b pad f) pins io"

definition duos_pins :: "(string \<times> string) list" where
  "duos_pins =
    [(''CAM_MCLK0'', ''CAM_MCLK0''), (''IIC3_SCL'', ''IIC3_SCL''), (''IIC3_SDA'', ''IIC3_SDA''),
     (''PAD_MIPIRX4P'', ''XGPIOC_3''), (''PAD_MIPIRX4N'', ''XGPIOC_2''), (''IIC0_SDA'', ''XGPIOA_29''),
     (''VIVO_D8'', ''SPI3_SDO''), (''VIVO_D7'', ''SPI3_SDI''), (''VIVO_D6'', ''SPI3_SCK''),
     (''VIVO_D5'', ''SPI3_CS_X''), (''USB_VBUS_EN'', ''XGPIOB_5''), (''AUX0'', ''XGPIOA_30''),
     (''CLK32K'', ''PWR_GPIO_10''), (''UART2_RX'', ''UART4_RX''), (''UART2_TX'', ''UART4_TX''),
     (''UART2_CTS'', ''UART4_CTS''), (''UART2_RTS'', ''UART4_RTS''), (''JTAG_CPU_TCK'', ''XGPIOA_18''),
     (''JTAG_CPU_TMS'', ''XGPIOA_19''), (''JTAG_CPU_TRST'', ''XGPIOA_20''), (''IIC0_SCL'', ''XGPIOA_28''),
     (''PWR_WAKEUP0'', ''PWR_GPIO_6''), (''PWR_BUTTON1'', ''PWR_GPIO_8'')]"

definition set_rtc_register_for_power :: "'io board_ops \<Rightarrow> 'io \<Rightarrow> 'io" where
  "set_rtc_register_for_power b io =
     mmio_write_32 (board_mmio b) 0x050260D0 0x7 (print_line b ''set_rtc_register_for_power'' io)"

definition duos_board_init :: "'io board_ops \<Rightarrow> 'io \<Rightarrow> int \<times> 'io" where
  "duos_board_init b io = (0, set_rtc_register_for_power b (configure_pins b duos_pins io))"

definition duo256_pins :: "(string \<times> string) list" where
  "duo256_pins =
    [(''PAD_MIPI_TXM1'', ''IIC2_SDA''), (''PAD_MIPI_TXP1'', ''IIC2_SCL''), (''PAD_MIPI_TXP0'', ''CAM_MCLK0''),
     (''PAD_MIPI_TXP2'', ''XGPIOC_17''), (''IIC0_SCL'', ''UART1_TX''), (''IIC0_SDA'', ''UART1_RX''),
     (''JTAG_CPU_TMS'', ''PWM_7''), (''JTAG_CPU_TCK'', ''PWM_6''), (''SD1_D2'', ''IIC1_SCL''),
     (''SD1_D1'', ''IIC1_SDA''), (''SD1_CLK'', ''SPI2_SCK''), (''SD1_CMD'', ''SPI2_SDO''),
     (''SD1_D0'', ''SPI2_SDI''), (''SD1_D3'', ''SPI2_CS_X''), (''SD0_PWR_EN'', ''XGPIOA_14''),
     (''SPK_EN'', ''XGPIOA_15''), (''EMMC_CMD'', ''XGPIOA_23''), (''EMMC_DAT1'', ''XGPIOA_24''),
     (''EMMC_CLK'', ''XGPIOA_22''), (''EMMC_DAT0'', ''XGPIOA_25''), (''EMMC_DAT3'', ''XGPIOA_27''),
     (''EMMC_DAT2'', ''XGPIOA_26''), (''PWR_SEQ2'', ''PWR_GPIO_4''), (''PWR_GPIO2'', ''PWR_GPIO_2''),
     (''ADC1'', ''XGPIOB_3''), (''USB_VBUS_DET'', ''XGPIOB_6'')]"

definition duo256_board_init :: "'io board_ops \<Rightarrow> 'io \<Rightarrow> int \<times> 'io" where
  "duo256_board_init b io = (0, configure_pins b duo256_pins io)"

subsection \<open>What the registers promise\<close>

text \<open>The registers the LicheeRV Nano uses hold the value last written, for \<open>reg\<close>; \<^verbatim>\<open>PINMUX_CONFIG\<close> and the time that passes
  leave them alone.\<close>

definition licheervnano_pins :: "bool \<Rightarrow> (u32 \<times> u32) list" where
  "licheervnano_pins MAIXCAM = (0x0300104C, 3) # (0x030010A4, 0) # (0x030010EC, 3) # sdio_pins @ camera_and_touch_pins @
     (if MAIXCAM then maixcam_pins else [])"

definition board_regs :: "u32 set" where
  "board_regs = {0x03020000, 0x03020004, 0x03021000, 0x03021004} \<union> set (map fst (licheervnano_pins True))"

definition board_ok :: "'io board_ops \<Rightarrow> ('io \<Rightarrow> u32 \<Rightarrow> u32) \<Rightarrow> bool" where
  "board_ok b reg \<longleftrightarrow> (\<forall>a\<in>board_regs. \<forall>io. mmio_read_32 (board_mmio b) a io = (reg io a, io)) \<and>
     (\<forall>a\<in>board_regs. \<forall>a'\<in>board_regs. \<forall>v io. reg (mmio_write_32 (board_mmio b) a v io) a' = (if a' = a then v else reg io a')) \<and>
     (\<forall>a\<in>board_regs. \<forall>io. reg (loop_round b io) a = reg io a) \<and>
     (\<forall>a\<in>board_regs. \<forall>pad f io. reg (PINMUX_CONFIG b pad f io) a = reg io a)"

subsection \<open>Lemmas\<close>

lemma suck_rounds_power: "suck_rounds round loop io = (round ^^ unat loop) io"
proof (induction round loop io rule: suck_rounds.induct)
  case (1 round loop io)
  show ?case
  proof (cases "loop > 0")
    case True
    then have "loop \<noteq> 0" by auto
    then have "unat loop = Suc (unat (loop - 1))" using unat_gt_0 [of loop] unat_minus_one [of loop] by simp
    then have "(round ^^ unat loop) io = (round ^^ unat (loop - 1)) (round io)" by (simp only: funpow_Suc_right comp_apply)
    then show ?thesis using 1 [OF True] True by (subst suck_rounds.simps) simp
  next
    case False
    then have "unat loop = 0" by (simp add: word_less_nat_alt)
    then show ?thesis using False by (subst suck_rounds.simps) (simp only: if_False funpow.simps id_apply)
  qed
qed

lemma board_rules:
  assumes "board_ok b reg" "a \<in> board_regs"
  shows "mmio_read_32 (board_mmio b) a io = (reg io a, io)"
    "a' \<in> board_regs \<Longrightarrow> reg (mmio_write_32 (board_mmio b) a v io) a' = (if a' = a then v else reg io a')"
    "reg ((loop_round b ^^ k) io) a = reg io a" "reg (suck_loop b n io) a = reg io a"
    "reg (PINMUX_CONFIG b pad f io) a = reg io a"
    "a' \<in> board_regs \<Longrightarrow> reg (set_bits b a m io) a' = (if a' = a then reg io a OR m else reg io a')"
    "a' \<in> board_regs \<Longrightarrow> reg (clear_bits b a m io) a' = (if a' = a then reg io a AND NOT m else reg io a')"
proof -
  show r: "mmio_read_32 (board_mmio b) a io = (reg io a, io)" for io using assms by (simp add: board_ok_def)
  show w: "a' \<in> board_regs \<Longrightarrow> reg (mmio_write_32 (board_mmio b) a v io) a' = (if a' = a then v else reg io a')" for v io
    using assms by (simp add: board_ok_def)
  show k: "reg ((loop_round b ^^ k) io) a = reg io a" for k
    using assms by (induction k) (simp_all add: board_ok_def)
  show "reg (suck_loop b n io) a = reg io a" by (simp add: suck_loop_def suck_rounds_power k)
  show "reg (PINMUX_CONFIG b pad f io) a = reg io a" using assms by (simp add: board_ok_def)
  show "a' \<in> board_regs \<Longrightarrow> reg (set_bits b a m io) a' = (if a' = a then reg io a OR m else reg io a')"
    "a' \<in> board_regs \<Longrightarrow> reg (clear_bits b a m io) a' = (if a' = a then reg io a AND NOT m else reg io a')"
    by (simp_all add: set_bits_def clear_bits_def r w)
qed

lemma reg_write_all:
  assumes "board_ok b reg" "a \<in> board_regs" "set (map fst ws) \<subseteq> board_regs" "distinct (map fst ws)"
  shows "reg (write_all b ws io) a = (case map_of ws a of None \<Rightarrow> reg io a | Some v \<Rightarrow> v)"
  using assms(3,4)
proof (induction ws arbitrary: io)
  case (Cons w ws)
  obtain a' v where w: "w = (a', v)" by fastforce
  have "map_of ws a = None" if "a = a'" using Cons.prems(2) w that by (simp add: map_of_eq_None_iff)
  moreover have "reg (write_all b ws (mmio_write_32 (board_mmio b) a' v io)) a =
      (case map_of ws a of None \<Rightarrow> reg (mmio_write_32 (board_mmio b) a' v io) a | Some v \<Rightarrow> v)"
    using Cons w by simp
  moreover have "a' \<in> board_regs" using Cons.prems(1) w by simp
  ultimately show ?case
    using w board_rules(2) [OF assms(1) _ assms(2), of a'] by (auto simp: write_all_def split: option.splits)
qed (simp add: write_all_def)

lemma pins_in_regs:
  "set (map fst sdio_pins) \<subseteq> board_regs" "set (map fst camera_and_touch_pins) \<subseteq> board_regs" "set (map fst maixcam_pins) \<subseteq> board_regs"
  "distinct (map fst sdio_pins)" "distinct (map fst camera_and_touch_pins)" "distinct (map fst maixcam_pins)"
  by (auto simp: board_regs_def licheervnano_pins_def sdio_pins_def camera_and_touch_pins_def maixcam_pins_def)

lemma fixed_regs:
  "0x0300104C \<in> board_regs" "0x030010A4 \<in> board_regs" "0x030010EC \<in> board_regs"
  "0x03020000 \<in> board_regs" "0x03020004 \<in> board_regs" "0x03021000 \<in> board_regs" "0x03021004 \<in> board_regs"
  by (simp_all add: board_regs_def licheervnano_pins_def)

lemma bit_26:
  "bit (x OR 67108864 :: u32) i = (bit x i \<or> i = 26)" "bit (x AND - 67108865 :: u32) i = (bit x i \<and> i \<noteq> 26)"
proof -
  have m: "bit (67108864 :: u32) i \<longleftrightarrow> i = 26"
  proof -
    have "(67108864 :: u32) = push_bit 26 1" by simp
    then show ?thesis by (simp only: bit_push_bit_iff bit_1_iff) auto
  qed
  then show "bit (x OR 67108864) i = (bit x i \<or> i = 26)" by (simp add: bit_or_iff)
  have "(- 67108865 :: u32) = NOT 67108864" by simp
  then have "bit (x AND - 67108865) i = (bit x i \<and> bit (NOT 67108864 :: u32) i)" by (simp only: bit_and_iff)
  then show "bit (x AND - 67108865) i = (bit x i \<and> i \<noteq> 26)" using m bit_imp_le_length [of x i] by (simp only: bit_not_iff) auto
qed

subsection \<open>Properties\<close>


text \<open>After the initialisation of the LicheeRV Nano the registers are as configured: the pads it writes have their
  functions (the two of the MaixCAM only when it is built for that), GPIOA 26 and GPIOB 0 are outputs driven
  high, the other pins of both banks are as before, and the function returns 0.\<close>

theorem licheervnano_registers:
  assumes "board_ok b reg" "a \<in> board_regs" "licheervnano_board_init MAIXCAM b io = (ret, io')"
  shows "ret = 0 \<and> reg io' a = (case map_of (licheervnano_pins MAIXCAM) a of Some v \<Rightarrow> v
    | None \<Rightarrow> reg io a OR (if a \<in> {0x03020000, 0x03020004} then push_bit 26 1
        else if a \<in> {0x03021000, 0x03021004} then 1 else 0))"
proof -
  note r = board_rules [OF assms(1)] and f = fixed_regs
  have o: "((x :: u32) AND NOT m) OR m = x OR m" for x m by (rule bit_eqI) (auto simp: bit_simps)
  have w: "reg (write_all b ws io) a = (case map_of ws a of None \<Rightarrow> reg io a | Some v \<Rightarrow> v)"
    if "ws \<in> {sdio_pins, camera_and_touch_pins, maixcam_pins}" for ws io
    using that pins_in_regs by (intro reg_write_all [OF assms(1,2)]) auto
  let ?m = "push_bit 26 1 :: u32"
  define s1 where "s1 = wifi_reset_high b (suck_loop b 200 (wifi_reset_low b io))"
  define s2 where "s2 = PINMUX_CONFIG b ''SD0_PWR_EN'' ''XGPIOA_14'' (write_all b sdio_pins s1)"
  define s3 where "s3 = mmio_write_32 (board_mmio b) 0x030010EC 0x3 (mmio_write_32 (board_mmio b) 0x030010A4 0x0 s2)"
  define s4 where "s4 = set_bits b 0x03021000 (push_bit 0 1) (set_bits b 0x03021004 (push_bit 0 1) s3)"
  define s5 where "s5 = write_all b camera_and_touch_pins s4"
  define s6 where "s6 = (if MAIXCAM then write_all b maixcam_pins s5 else s5)"
  have 1: "reg s1 a = (if a = 0x0300104C then 3 else if a \<in> {0x03020000, 0x03020004} then reg io a OR ?m else reg io a)"
    using assms(2) f by (simp add: s1_def wifi_reset_high_def wifi_reset_low_def Let_def r o del: push_bit_of_1)
  have 2: "reg s2 a = (case map_of sdio_pins a of Some v \<Rightarrow> v | None \<Rightarrow> reg s1 a)"
    using assms(2) w [of sdio_pins s1] by (simp add: s2_def r split: option.splits)
  have 3: "reg s3 a = (if a = 0x030010EC then 3 else if a = 0x030010A4 then 0 else reg s2 a)"
    using assms(2) f by (simp add: s3_def r)
  have 4: "reg s4 a = (if a \<in> {0x03021000, 0x03021004} then reg s3 a OR 1 else reg s3 a)"
    using assms(2) f by (simp add: s4_def r)
  have 5: "reg s5 a = (case map_of camera_and_touch_pins a of Some v \<Rightarrow> v | None \<Rightarrow> reg s4 a)"
    using w [of camera_and_touch_pins s4] by (simp add: s5_def split: option.splits)
  have 6: "reg s6 a = (case map_of (if MAIXCAM then maixcam_pins else []) a of Some v \<Rightarrow> v | None \<Rightarrow> reg s5 a)"
    using w [of maixcam_pins s5] by (simp add: s6_def split: option.splits)
  have "licheervnano_board_init MAIXCAM b io = (0, suck_loop b 100 s6)"
    by (simp add: licheervnano_board_init_def Let_def s1_def s2_def s3_def s4_def s5_def s6_def)
  then have "ret = 0" "reg io' a = reg s6 a" using assms(2,3) by (simp_all add: r)
  moreover have "reg s6 a = (case map_of (licheervnano_pins MAIXCAM) a of Some v \<Rightarrow> v
    | None \<Rightarrow> reg io a OR (if a \<in> {0x03020000, 0x03020004} then ?m else if a \<in> {0x03021000, 0x03021004} then 1 else 0))"
    unfolding 6 5 4 3 2 1
    by (simp add: licheervnano_pins_def sdio_pins_def camera_and_touch_pins_def maixcam_pins_def)
  ultimately show ?thesis by simp
qed

text \<open>On the Duo S and the Duo 256M no pad is configured twice and no two pads get the same function.\<close>

theorem board_pads_unambiguous:
  "distinct (map fst duos_pins) \<and> distinct (map snd duos_pins) \<and>
   distinct (map fst duo256_pins) \<and> distinct (map snd duo256_pins)"
  by code_simp

definition demo_board :: "(u32 \<Rightarrow> u32) board_ops" where
  "demo_board = \<lparr>board_mmio = plain_mmio, PINMUX_CONFIG = (\<lambda>_ _ io. io), print_line = (\<lambda>_ io. io), loop_round = (\<lambda>io. io)\<rparr>"

lemma demo_board_ok: "board_ok demo_board (\<lambda>f. f)"
  by (simp add: board_ok_def demo_board_def plain_mmio_def)


theorem licheervnano_registers_witness:
  "fst (licheervnano_board_init True demo_board (\<lambda>_. 8)) = 0 \<and>
    snd (licheervnano_board_init True demo_board (\<lambda>_. 8)) 0x03021000 = 9 \<and>
    snd (licheervnano_board_init True demo_board (\<lambda>_. 8)) 0x03001060 = 3"
proof -
  obtain ret io' where r: "licheervnano_board_init True demo_board (\<lambda>_. 8) = (ret, io')" by fastforce
  have m: "0x03021000 \<in> board_regs" "0x03001060 \<in> board_regs"
    by (simp_all add: board_regs_def licheervnano_pins_def maixcam_pins_def)
  from licheervnano_registers [OF demo_board_ok m(1) r] licheervnano_registers [OF demo_board_ok m(2) r] r show ?thesis
    by (simp add: licheervnano_pins_def sdio_pins_def camera_and_touch_pins_def maixcam_pins_def)
qed

end
