(* ===== verification/Comm_Task.thy ===== *)
theory Comm_Task
  imports Comm_Main "HOL-Library.Multiset"
begin

section \<open>The firmware from boot to its task loop\<close>

text \<open>
  The rest of \<^verbatim>\<open>comm_main.c\<close> and \<^verbatim>\<open>sg2002_rtos_mailbox_init\<close>: the table of tasks, the boot sequence \<^verbatim>\<open>main_cvirtos\<close>
  up to the start of the scheduler, and the endless loop of \<^verbatim>\<open>prvCmdQuRunTask\<close>, one round of which waits for a
  command or, when none comes in time, scans the mailbox. The firmware at work is a labelled step relation:
  Linux posts commands and takes replies, the interrupt handler runs, the task makes a round, in any order.
  Creating queues and tasks, requesting the interrupt, the lock of the SDK and the boot trace are
  parameters.
\<close>

subsection \<open>The table of tasks\<close>

text \<open>A function of the task is named; \<^verbatim>\<open>NULL\<close> is \<^const>\<open>None\<close>. The stack size is in multiples of
  \<^verbatim>\<open>configMINIMAL_STACK_SIZE\<close>, the priority relative to \<^verbatim>\<open>tskIDLE_PRIORITY\<close>. A queue is known by the
  index of its entry.\<close>

record TASK_CTX_S =
  task_name :: string
  stack_multiple :: nat
  priority_above_idle :: nat
  runTask :: "string option"
  queLength :: u8
  queHandle :: "queue_handle option"

definition task_entry :: "string \<Rightarrow> nat \<Rightarrow> nat \<Rightarrow> string option \<Rightarrow> u8 \<Rightarrow> TASK_CTX_S" where
  "task_entry n st p f len = \<lparr>task_name = n, stack_multiple = st, priority_above_idle = p, runTask = f, queLength = len, queHandle = None\<rparr>"

definition gTaskCtx :: "TASK_CTX_S list" where
  "gTaskCtx =
    [task_entry ''ISP'' 8 3 None 1,
     task_entry ''VCODEC'' 1 3 None 1,
     task_entry ''VI'' 1 3 None 1,
     task_entry ''CAMERA'' 1 3 None 1,
     task_entry ''RGN'' 1 3 (Some ''prvRGNRunTask'') 10,
     task_entry ''CMDQU'' 1 1 (Some ''prvCmdQuRunTask'') 30,
     task_entry ''AUDIO'' 15 3 (Some ''prvAudioRunTask'') 10]"

definition queue_handles :: "queue_handle list" where
  "queue_handles = [E_QUEUE_ISP, E_QUEUE_VCODEC, E_QUEUE_VI, E_QUEUE_CAMERA, E_QUEUE_RGN, E_QUEUE_CMDQU, E_QUEUE_AUDIO]"

definition main_GetMODHandle :: "TASK_CTX_S list \<Rightarrow> nat \<Rightarrow> queue_handle option" where
  "main_GetMODHandle table handle_idx = (if handle_idx \<ge> 7 then None else queHandle (table ! handle_idx))"

subsection \<open>Parameters\<close>

record 'w boot_env =
  xQueueCreate :: "queue_handle \<Rightarrow> u8 \<Rightarrow> 'w \<Rightarrow> bool \<times> 'w"
  xTaskCreate :: "string \<Rightarrow> string \<Rightarrow> nat \<Rightarrow> nat \<Rightarrow> 'w \<Rightarrow> 'w"
  request_mailbox_irq :: "'w \<Rightarrow> int \<times> 'w"
  cvi_spinlock_init :: "'w \<Rightarrow> 'w"
  vTaskStartScheduler :: "'w \<Rightarrow> 'w"
  boot_trace_init_diagnostics :: "u32 \<Rightarrow> u32 \<Rightarrow> u32 \<Rightarrow> u32 \<Rightarrow> u32 \<Rightarrow> u32 \<Rightarrow> 'w \<Rightarrow> 'w"
  boot_trace_irq_result :: "u32 \<Rightarrow> 'w \<Rightarrow> 'w"
  boot_trace_irq_ready :: "'w \<Rightarrow> 'w"
  boot_trace_cmdqu_task :: "'w \<Rightarrow> 'w"
  boot_trace_task_ready :: "u32 \<Rightarrow> 'w \<Rightarrow> 'w"
  set_mcu_status_running :: "'w \<Rightarrow> 'w"
  conf_magic :: u32
  C906_MAGIC_HEADER :: u32
  CA53_MAGIC_HEADER :: u32
  SEND_TO_CPU0 :: nat
  SEND_TO_CPU1 :: nat
  xQueueReceive :: "queue_handle \<Rightarrow> 'w \<Rightarrow> cmdqu_t option \<times> 'w"

subsection \<open>Boot\<close>

text \<open>The macro \<^verbatim>\<open>TASK_INIT\<close> for the entries that remain.\<close>

primrec init_tasks :: "'w boot_env \<Rightarrow> (queue_handle \<times> TASK_CTX_S) list \<Rightarrow> 'w \<Rightarrow> TASK_CTX_S list \<times> 'w" where
  "init_tasks b [] w = ([], w)"
| "init_tasks b (e # es) w =
     (let (q, t) = e;
          (created, w) = xQueueCreate b q (queLength t) w;
          w = (case runTask t of
                 Some f \<Rightarrow> if created then xTaskCreate b f (task_name t) (stack_multiple t) (priority_above_idle t) w else w
               | None \<Rightarrow> w);
          (ts, w) = init_tasks b es w
      in (t\<lparr>queHandle := (if created then Some q else None)\<rparr> # ts, w))"

definition main_create_tasks :: "'w boot_env \<Rightarrow> TASK_CTX_S list \<Rightarrow> 'w \<Rightarrow> TASK_CTX_S list \<times> 'w" where
  "main_create_tasks b table w = init_tasks b (zip queue_handles table) w"

text \<open>Setting the two base pointers leaves the lock to initialise.\<close>

definition sg2002_rtos_mailbox_init :: "'w boot_env \<Rightarrow> 'w \<Rightarrow> 'w" where
  "sg2002_rtos_mailbox_init b w = cvi_spinlock_init b w"

definition main_cvirtos ::
  "'x mbox_mem_scheme boot_env \<Rightarrow> 'x mbox_mem_scheme comm_env \<Rightarrow> 'x mbox_mem_scheme mbox_hw \<Rightarrow> 'io mmio_ops \<Rightarrow>
    ('x mbox_mem_scheme, 'm, 'io) comm_state \<Rightarrow> TASK_CTX_S list \<times> int \<times> ('x mbox_mem_scheme, 'm, 'io) comm_state" where
  "main_cvirtos b env hw mm s =
     (let w = sg2002_rtos_mailbox_init b (comm_mbox s);
          s = s\<lparr>comm_transport := sg2002_rtos_shm_transport_init (comm_transport s)\<rparr>;
          (d, w) = sg2002_rtos_mailbox_get_diagnostics hw (Some (initial_mailbox_diagnostics s)) w;
          s = s\<lparr>initial_mailbox_diagnostics := the d\<rparr>;
          w = sg2002_rtos_mailbox_enable_receiver hw w;
          (table, w) = main_create_tasks b gTaskCtx w;
          (irq_ret, w) = (if main_GetMODHandle table 5 = None then (- 1, w) else request_mailbox_irq b w);
          (ready, w) = sg2002_rtos_mailbox_get_diagnostics hw (Some blank_diagnostics) w;
          (plic_state, io) = prvPlicDiagnostics env mm (comm_io s);
          w = boot_trace_init_diagnostics b (prvPackMailboxDiagnostics (initial_mailbox_diagnostics s))
                (prvPackMailboxDiagnostics (the ready)) plic_state (prvCsrDiagnostics env)
                (mailbox_irq_count s) (mailbox_recovery_count s) w;
          w = boot_trace_irq_result b (push_bit 16 (MBOX_INT_C906_2ND env AND 0xffff) OR (word_of_int irq_ret AND 0xffff)) w;
          w = boot_trace_irq_ready b w
      in (table, irq_ret, s\<lparr>comm_mbox := vTaskStartScheduler b w, comm_io := io\<rparr>))"

subsection \<open>The task\<close>

text \<open>What the task does before its loop: the CPU its replies go to.\<close>

definition task_prologue :: "'w boot_env \<Rightarrow> 'w mbox_hw \<Rightarrow> 'w \<Rightarrow> nat \<times> 'w" where
  "task_prologue b hw w =
     (let w = set_mcu_status_running b (boot_trace_cmdqu_task b w);
          send_to_cpu = (if conf_magic b = C906_MAGIC_HEADER b then SEND_TO_CPU1 b
                         else if conf_magic b = CA53_MAGIC_HEADER b then SEND_TO_CPU0 b else SEND_TO_CPU1 b)
      in (send_to_cpu, boot_trace_task_ready b
            (push_bit 16 (of_nat (RECEIVE_CPU hw) AND 0xffff) OR (of_nat send_to_cpu AND 0xffff)) w))"

text \<open>One round of the loop, and the command it ran.\<close>

definition cmdqu_round ::
  "'x mbox_mem_scheme boot_env \<Rightarrow> 'x mbox_mem_scheme comm_env \<Rightarrow> 'x mbox_mem_scheme mbox_hw \<Rightarrow> 'io mmio_ops \<Rightarrow>
    'y dcache_range \<Rightarrow> 'y dcache_range \<Rightarrow> nat \<Rightarrow> ('x mbox_mem_scheme, 'y fw_mem_scheme, 'io) comm_state \<Rightarrow>
    (cmdqu_t option \<times> ('x mbox_mem_scheme, 'y fw_mem_scheme, 'io) comm_state) option" where
  "cmdqu_round b env hw mm inv_dcache_range clean_dcache_range send_to_cpu s =
     (case xQueueReceive b E_QUEUE_CMDQU (comm_mbox s) of
        (None, w) \<Rightarrow> Some (None, prvRecoverMailbox env hw mm (s\<lparr>comm_mbox := w\<rparr>))
      | (Some c, w) \<Rightarrow> do {
          s \<leftarrow> run_command env hw mm inv_dcache_range clean_dcache_range send_to_cpu c (s\<lparr>comm_mbox := w\<rparr>);
          Some (Some c, s)
        })"

subsection \<open>The firmware at work\<close>

datatype firmware_event = Posts nat cmdqu_t | Takes_reply nat | Interrupt | Runs cmdqu_t | Scans

inductive firmware_step ::
  "'x mbox_mem_scheme boot_env \<Rightarrow> 'x mbox_mem_scheme comm_env \<Rightarrow> 'x mbox_mem_scheme mbox_hw \<Rightarrow> 'io mmio_ops \<Rightarrow>
    'y dcache_range \<Rightarrow> 'y dcache_range \<Rightarrow> nat \<Rightarrow> ('x mbox_mem_scheme, 'y fw_mem_scheme, 'io) comm_state \<Rightarrow>
    firmware_event \<Rightarrow> ('x mbox_mem_scheme, 'y fw_mem_scheme, 'io) comm_state \<Rightarrow> bool"
  for b env hw mm iv cl cpu where
  post: "ctx = mailbox_context (comm_mbox s) \<Longrightarrow> slot < length ctx \<Longrightarrow> slot_is_free (ctx ! slot) \<Longrightarrow>
    owned_by_linux (u64_of_cmdqu c) \<Longrightarrow>
    firmware_step b env hw mm iv cl cpu s (Posts slot c)
      (s\<lparr>comm_mbox := (comm_mbox s)\<lparr>mailbox_context := ctx[slot := u64_of_cmdqu c]\<rparr>\<rparr>)"
| take: "ctx = mailbox_context (comm_mbox s) \<Longrightarrow> slot < length ctx \<Longrightarrow> \<not> owned_by_linux (ctx ! slot) \<Longrightarrow>
    firmware_step b env hw mm iv cl cpu s (Takes_reply slot)
      (s\<lparr>comm_mbox := (comm_mbox s)\<lparr>mailbox_context := ctx[slot := 0]\<rparr>\<rparr>)"
| interrupt: "firmware_step b env hw mm iv cl cpu s Interrupt (prvMailboxISR env hw mm s)"
| run: "cmdqu_round b env hw mm iv cl cpu s = Some (Some c, s') \<Longrightarrow> firmware_step b env hw mm iv cl cpu s (Runs c) s'"
| scan: "cmdqu_round b env hw mm iv cl cpu s = Some (None, s') \<Longrightarrow> firmware_step b env hw mm iv cl cpu s Scans s'"

inductive firmware_run ::
  "'x mbox_mem_scheme boot_env \<Rightarrow> 'x mbox_mem_scheme comm_env \<Rightarrow> 'x mbox_mem_scheme mbox_hw \<Rightarrow> 'io mmio_ops \<Rightarrow>
    'y dcache_range \<Rightarrow> 'y dcache_range \<Rightarrow> nat \<Rightarrow> ('x mbox_mem_scheme, 'y fw_mem_scheme, 'io) comm_state \<Rightarrow>
    firmware_event list \<Rightarrow> ('x mbox_mem_scheme, 'y fw_mem_scheme, 'io) comm_state \<Rightarrow> bool"
  for b env hw mm iv cl cpu s where
  start: "firmware_run b env hw mm iv cl cpu s [] s"
| step: "firmware_run b env hw mm iv cl cpu s es s' \<Longrightarrow> firmware_step b env hw mm iv cl cpu s' e s'' \<Longrightarrow>
    firmware_run b env hw mm iv cl cpu s (es @ [e]) s''"

subsection \<open>What receiving and dumping promise\<close>

text \<open>Receiving takes the oldest command of a queue and answers \<^const>\<open>None\<close> only when the queue is empty; the
  dump of the UART is not part of a queue or of the mailbox.\<close>

definition receive_ok :: "'x mbox_mem_scheme boot_env \<Rightarrow> ('x mbox_mem_scheme \<Rightarrow> queue_handle \<Rightarrow> cmdqu_t list) \<Rightarrow> bool" where
  "receive_ok b qs \<longleftrightarrow> (\<forall>q w.
     fst (xQueueReceive b q w) = (case qs w q of [] \<Rightarrow> None | c # _ \<Rightarrow> Some c) \<and>
     qs (snd (xQueueReceive b q w)) = (qs w)(q := tl (qs w q)) \<and>
     mailbox_context (snd (xQueueReceive b q w)) = mailbox_context w)"

definition dump_ok :: "'x mbox_mem_scheme comm_env \<Rightarrow> ('x mbox_mem_scheme \<Rightarrow> queue_handle \<Rightarrow> cmdqu_t list) \<Rightarrow> bool" where
  "dump_ok env qs \<longleftrightarrow> keeps qs (dump_uart_enable env) \<and> keeps qs (dump_uart_disable env) \<and>
     keeps qs (\<lambda>w. snd (dump_uart_msg env w))"

lemma receive_okD:
  assumes "receive_ok b qs" "xQueueReceive b q w = (r, w')"
  shows "r = (case qs w q of [] \<Rightarrow> None | c # _ \<Rightarrow> Some c)" "qs w' = (qs w)(q := tl (qs w q))"
    "mailbox_context w' = mailbox_context w"
  using assms unfolding receive_ok_def by (metis fst_conv snd_conv)+

lemma dump_okD:
  assumes "dump_ok env qs"
  shows "qs (dump_uart_enable env w) = qs w" "qs (dump_uart_disable env w) = qs w" "qs (snd (dump_uart_msg env w)) = qs w"
    "mailbox_context (dump_uart_enable env w) = mailbox_context w" "mailbox_context (dump_uart_disable env w) = mailbox_context w"
    "mailbox_context (snd (dump_uart_msg env w)) = mailbox_context w"
  using assms by (simp_all add: dump_ok_def keeps_def)

subsection \<open>The commands waiting in the mailbox\<close>

lemma posted_commands_filter: "posted_commands ctx = map cmdqu_of_u64 (filter owned_by_linux ctx)"
proof -
  have "filter owned_by_linux ctx = filter owned_by_linux (map ((!) ctx) [0..<length ctx])"
    by (simp add: map_nth)
  then show ?thesis by (simp add: posted_commands_def owned_slots_def filter_map comp_def)
qed

definition waiting :: "u64 list \<Rightarrow> cmdqu_t multiset" where
  "waiting ctx = mset (filter (\<lambda>c. ip_id c = IP_SYSTEM) (posted_commands ctx))"

lemma not_owned_by_linux [simp]:
  "\<not> owned_by_linux 0" "slot_is_free x \<Longrightarrow> \<not> owned_by_linux x"
  "rtos_valid c = 1 \<Longrightarrow> \<not> owned_by_linux (u64_of_cmdqu c)"
  by (simp_all add: owned_by_linux_def slot_is_free_def) (simp add: cmdqu_of_u64_def)

lemma waiting_alt:
  "waiting ctx = {#c \<in># image_mset cmdqu_of_u64 {#x \<in># mset ctx. owned_by_linux x#}. ip_id c = IP_SYSTEM#}"
  by (simp add: waiting_def posted_commands_filter)

lemma waiting_update:
  assumes "i < length ctx" "\<not> owned_by_linux (ctx ! i)"
  shows "waiting (ctx[i := x]) =
    (if owned_by_linux x \<and> ip_id (cmdqu_of_u64 x) = IP_SYSTEM then add_mset (cmdqu_of_u64 x) (waiting ctx) else waiting ctx)"
  using assms by (auto simp: waiting_alt mset_update)

lemma waiting_clear: "waiting (clear_slots (owned_slots ctx) ctx) = {#}"
  by (auto simp: waiting_def posted_commands_def owned_slots_def clear_slots_def)

subsection \<open>What running a command leaves alone\<close>

lemma post_reply_queues:
  "queues_ok env hw qs cap \<Longrightarrow> qs (snd (post_reply hw reply cpu slots w)) = qs w"
  by (induction slots) (auto simp: queues_frame Let_def split: prod.splits)

lemma send_queues:
  "queues_ok env hw qs cap \<Longrightarrow> qs (snd (sg2002_rtos_mailbox_send hw (Some c) cpu w)) = qs w"
  by (auto simp: sg2002_rtos_mailbox_send_def post_reply_queues queues_frame(11) queues_lock Let_def split_def)

text \<open>A reply lands in a free slot and is the firmware's, so it neither overwrites nor looks like a command of Linux.\<close>

definition same_work :: "('x mbox_mem_scheme \<Rightarrow> queue_handle \<Rightarrow> cmdqu_t list) \<Rightarrow> 'x mbox_mem_scheme \<Rightarrow> 'x mbox_mem_scheme \<Rightarrow> bool" where
  "same_work qs w w' \<longleftrightarrow> qs w' E_QUEUE_CMDQU = qs w E_QUEUE_CMDQU \<and> waiting (mailbox_context w') = waiting (mailbox_context w) \<and>
     length (mailbox_context w') = length (mailbox_context w)"

lemma send_reply_same_work:
  assumes "hw_frame hw" "queues_ok env hw qs cap" "length (mailbox_context (comm_mbox s)) = MAILBOX_MAX_NUM hw"
  shows "same_work qs (comm_mbox s) (comm_mbox (send_reply hw cpu c s))"
proof -
  let ?w = "comm_mbox s"
  obtain r w' where x: "sg2002_rtos_mailbox_send hw (Some c) cpu ?w = (r, w')" by fastforce
  have q: "qs w' = qs ?w" using send_queues [OF assms(2), of c cpu ?w] x by simp
  have "mailbox_context w' = mailbox_context ?w \<or>
    (\<exists>i y. i < length (mailbox_context ?w) \<and> \<not> owned_by_linux (mailbox_context ?w ! i) \<and> \<not> owned_by_linux y \<and>
      mailbox_context w' = (mailbox_context ?w)[i := y])"
  proof (cases "fst (spin_lock_irqsave hw ?w) = MAILBOX_LOCK_FAILED hw")
    case True
    then show ?thesis using mailbox_send_cases [OF assms(1,3) x] by simp
  next
    case False
    let ?free = "filter (\<lambda>i. slot_is_free (mailbox_context ?w ! i)) [0..<length (mailbox_context ?w)]"
    show ?thesis
    proof (cases ?free)
      case Nil
      then show ?thesis using mailbox_send_cases [OF assms(1,3) x] False by simp
    next
      case (Cons i rest)
      have "i \<in> set ?free" by (simp only: Cons list.set_intros)
      then have "i < length (mailbox_context ?w)" "slot_is_free (mailbox_context ?w ! i)" by simp_all
      then show ?thesis
        using mailbox_send_cases [OF assms(1,3) x] False Cons
        by (intro disjI2 exI [of _ i] exI [of _ "u64_of_cmdqu (c\<lparr>linux_valid := 0, rtos_valid := 1\<rparr>)"]) simp
    qed
  qed
  then show ?thesis using q x by (auto simp: same_work_def send_reply_def waiting_update)
qed

lemma queue_to_same_work:
  assumes "queues_ok env hw qs cap" "q \<noteq> E_QUEUE_CMDQU"
  shows "same_work qs (comm_mbox s) (comm_mbox (queue_to env q c s))"
  using queues_okD(1) [OF assms(1) surjective_pairing, of q c "comm_mbox s"] assms(2)
  by (auto simp: same_work_def queue_to_def enqueue_def)

lemma system_command_same_work:
  assumes "hw_frame hw" "queues_ok env hw qs cap" "dump_ok env qs" "length (mailbox_context (comm_mbox s)) = MAILBOX_MAX_NUM hw"
  shows "same_work qs (comm_mbox s) (comm_mbox (system_command env hw cpu c s))"
proof -
  have r: "same_work qs (comm_mbox s) (comm_mbox (send_reply hw cpu c' t))" if "comm_mbox t = comm_mbox s" for c' t
    using send_reply_same_work [OF assms(1,2), of t cpu c'] that assms(4) by simp
  have d: "same_work qs (comm_mbox s) (comm_mbox (send_reply hw cpu c' (s\<lparr>comm_mbox := snd (dump_uart_msg env (comm_mbox s))\<rparr>)))" for c'
    using send_reply_same_work [OF assms(1,2), of "s\<lparr>comm_mbox := snd (dump_uart_msg env (comm_mbox s))\<rparr>" cpu c'] assms(4)
    by (simp add: dump_okD [OF assms(3)] same_work_def)
  have q: "same_work qs (comm_mbox s) (comm_mbox (queue_to env q c' t))"
    if "comm_mbox t = comm_mbox s" "q \<noteq> E_QUEUE_CMDQU" for q c' t
    using queue_to_same_work [OF assms(2) that(2), of t c'] that by simp
  have i: "same_work qs (comm_mbox s) (comm_mbox s)"
    "same_work qs (comm_mbox s) (dump_uart_enable env (comm_mbox s))" "same_work qs (comm_mbox s) (dump_uart_disable env (comm_mbox s))"
    by (simp_all add: same_work_def dump_okD [OF assms(3)])
  show ?thesis by (simp add: system_command_def r d q i Let_def split_def)
qed

lemma run_command_same_work:
  assumes "hw_frame hw" "queues_ok env hw qs cap" "dump_ok env qs" "length (mailbox_context (comm_mbox s)) = MAILBOX_MAX_NUM hw"
    and "run_command env hw mm iv cl cpu c s = Some s'"
  shows "same_work qs (comm_mbox s) (comm_mbox s')"
proof -
  have r: "same_work qs (comm_mbox s) (comm_mbox (send_reply hw cpu c' t))" if "comm_mbox t = comm_mbox s" for c' t
    using send_reply_same_work [OF assms(1,2), of t cpu c'] that assms(4) by simp
  have y: "same_work qs (comm_mbox s) (comm_mbox (system_command env hw cpu c' t))" if "comm_mbox t = comm_mbox s" for c' t
    using system_command_same_work [OF assms(1-3), of t cpu c'] that assms(4) by simp
  show ?thesis using assms(5) by (auto simp: run_command_def r y Let_def split: if_splits option.splits prod.splits)
qed

subsection \<open>Scans\<close>

text \<open>A scan behaves as the interrupt handler does, or, the lock refused, changes no slot and no queue.\<close>

lemma delivered_work:
  assumes "mailbox_context w' = clear_slots (owned_slots (mailbox_context w)) (mailbox_context w)"
    and "qs w' = deliver env cap (posted_commands (mailbox_context w)) (qs w)"
  shows "waiting (mailbox_context w') = {#} \<and> length (mailbox_context w') = length (mailbox_context w) \<and>
    mset (qs w' E_QUEUE_CMDQU) \<subseteq># mset (qs w E_QUEUE_CMDQU) + waiting (mailbox_context w) \<and>
    (queue_created env E_QUEUE_CMDQU \<and> length (qs w E_QUEUE_CMDQU) + size (waiting (mailbox_context w)) \<le> cap E_QUEUE_CMDQU \<longrightarrow>
      mset (qs w' E_QUEUE_CMDQU) = mset (qs w E_QUEUE_CMDQU) + waiting (mailbox_context w))"
proof -
  let ?cs = "filter (\<lambda>c. ip_id c = IP_SYSTEM \<and> queue_created env E_QUEUE_CMDQU) (posted_commands (mailbox_context w))"
  have t: "(task_of_ip ip = Some E_QUEUE_CMDQU) = (ip = IP_SYSTEM)" for ip
    by (simp add: task_of_ip_def)
  have q: "qs w' E_QUEUE_CMDQU = qs w E_QUEUE_CMDQU @ take (cap E_QUEUE_CMDQU - length (qs w E_QUEUE_CMDQU)) ?cs"
    by (simp add: assms(2) deliver_def t)
  have "mset (take k ?cs) \<subseteq># waiting (mailbox_context w)" for k
  proof -
    have "mset (take k ?cs) \<subseteq># mset ?cs" by (metis append_take_drop_id mset_append mset_subset_eq_add_left)
    also have "mset ?cs \<subseteq># waiting (mailbox_context w)" by (cases "queue_created env E_QUEUE_CMDQU") (simp_all add: waiting_def)
    finally show ?thesis .
  qed
  then have "mset (qs w' E_QUEUE_CMDQU) \<subseteq># mset (qs w E_QUEUE_CMDQU) + waiting (mailbox_context w)" by (simp add: q)
  moreover have "mset (qs w' E_QUEUE_CMDQU) = mset (qs w E_QUEUE_CMDQU) + waiting (mailbox_context w)"
    if "queue_created env E_QUEUE_CMDQU" "length (qs w E_QUEUE_CMDQU) + size (waiting (mailbox_context w)) \<le> cap E_QUEUE_CMDQU"
  proof -
    have "mset ?cs = waiting (mailbox_context w)" using that(1) by (simp add: waiting_def)
    moreover have "take (cap E_QUEUE_CMDQU - length (qs w E_QUEUE_CMDQU)) ?cs = ?cs"
      using that by (intro take_all) (simp add: waiting_def flip: mset_filter)
    ultimately show ?thesis by (simp add: q)
  qed
  ultimately show ?thesis by (simp add: assms(1) waiting_clear) (simp add: clear_slots_def)
qed

lemma interrupt_work:
  assumes "hw_frame hw" "queues_ok env hw qs cap" "length (mailbox_context (comm_mbox s)) = 8" "MAILBOX_MAX_NUM hw = 8"
    and "s' = prvMailboxISR env hw mm s \<or> s' = prvRecoverMailbox env hw mm s"
  shows "same_work qs (comm_mbox s) (comm_mbox s') \<or>
    (mailbox_context (comm_mbox s') =
       clear_slots (owned_slots (mailbox_context (comm_mbox s))) (mailbox_context (comm_mbox s)) \<and>
     qs (comm_mbox s') = deliver env cap (posted_commands (mailbox_context (comm_mbox s))) (qs (comm_mbox s)))"
  using assms(5)
proof
  assume "s' = prvMailboxISR env hw mm s"
  then show ?thesis using prvMailboxISR_spec [OF assms(1-4) refl, of s' mm] by simp
next
  assume "s' = prvRecoverMailbox env hw mm s"
  then show ?thesis using prvRecoverMailbox_cases [OF assms(1-4) refl, of mm]
    by (auto simp: same_work_def split: if_splits)
qed

subsection \<open>Accounts of the firmware at work\<close>

definition posted_system :: "firmware_event list \<Rightarrow> cmdqu_t list" where
  "posted_system es = concat (map (\<lambda>e. case e of Posts slot c \<Rightarrow> if ip_id c = IP_SYSTEM then [c] else [] | _ \<Rightarrow> []) es)"

definition commands_run :: "firmware_event list \<Rightarrow> cmdqu_t list" where
  "commands_run es = concat (map (\<lambda>e. case e of Runs c \<Rightarrow> [c] | _ \<Rightarrow> []) es)"

text \<open>Never more than \<open>n\<close> system commands are posted and not yet run.\<close>

definition outstanding_within :: "nat \<Rightarrow> firmware_event list \<Rightarrow> bool" where
  "outstanding_within n es \<longleftrightarrow>
     (\<forall>k\<le>length es. length (posted_system (take k es)) \<le> length (commands_run (take k es)) + n)"

lemma account_simps [simp]:
  "posted_system [] = []" "commands_run [] = []"
  "posted_system (es @ es') = posted_system es @ posted_system es'"
  "commands_run (es @ es') = commands_run es @ commands_run es'"
  "posted_system [Posts slot c] = (if ip_id c = IP_SYSTEM then [c] else [])" "commands_run [Posts slot c] = []"
  "posted_system [Takes_reply slot] = []" "commands_run [Takes_reply slot] = []"
  "posted_system [Interrupt] = []" "commands_run [Interrupt] = []"
  "posted_system [Runs c] = []" "commands_run [Runs c] = [c]"
  "posted_system [Scans] = []" "commands_run [Scans] = []"
  by (simp_all add: posted_system_def commands_run_def)

lemma outstanding_within_butlast: "outstanding_within n (es @ [e]) \<Longrightarrow> outstanding_within n es"
  unfolding outstanding_within_def by (metis butlast_snoc length_append_singleton le_Suc_eq take_butlast less_Suc_eq_le)

lemma outstanding_within_end: "outstanding_within n es \<Longrightarrow> length (posted_system es) \<le> length (commands_run es) + n"
  by (auto simp: outstanding_within_def)

definition pending_work :: "('x mbox_mem_scheme \<Rightarrow> queue_handle \<Rightarrow> cmdqu_t list) \<Rightarrow> 'x mbox_mem_scheme \<Rightarrow> cmdqu_t multiset" where
  "pending_work qs w = mset (qs w E_QUEUE_CMDQU) + waiting (mailbox_context w)"

definition step_accounts :: "'w comm_env \<Rightarrow> (queue_handle \<Rightarrow> nat) \<Rightarrow> cmdqu_t multiset \<Rightarrow> firmware_event \<Rightarrow> cmdqu_t multiset \<Rightarrow> bool" where
  "step_accounts env cap before e after \<longleftrightarrow>
     mset (commands_run [e]) + after \<subseteq># before + mset (posted_system [e]) \<and>
     (queue_created env E_QUEUE_CMDQU \<and> size before \<le> cap E_QUEUE_CMDQU \<longrightarrow>
       mset (commands_run [e]) + after = before + mset (posted_system [e]))"

lemma interrupt_accounts:
  assumes "hw_frame hw" "queues_ok env hw qs cap" "length (mailbox_context (comm_mbox s)) = 8" "MAILBOX_MAX_NUM hw = 8"
    and "s' = prvMailboxISR env hw mm s \<or> s' = prvRecoverMailbox env hw mm s" "commands_run [e] = []" "posted_system [e] = []"
  shows "length (mailbox_context (comm_mbox s')) = 8 \<and>
    step_accounts env cap (pending_work qs (comm_mbox s)) e (pending_work qs (comm_mbox s'))"
  using interrupt_work [OF assms(1-5)]
proof
  assume "same_work qs (comm_mbox s) (comm_mbox s')"
  then show ?thesis using assms(3,6,7) by (simp add: same_work_def step_accounts_def pending_work_def)
next
  assume "mailbox_context (comm_mbox s') =
       clear_slots (owned_slots (mailbox_context (comm_mbox s))) (mailbox_context (comm_mbox s)) \<and>
     qs (comm_mbox s') = deliver env cap (posted_commands (mailbox_context (comm_mbox s))) (qs (comm_mbox s))"
  then show ?thesis using delivered_work [of "comm_mbox s'" "comm_mbox s" qs env cap] assms(3,6,7)
    by (simp add: step_accounts_def pending_work_def)
qed

lemma round_cases:
  assumes "receive_ok b qs" "cmdqu_round b env hw mm iv cl cpu s = Some (r, s')"
  obtains w where "r = None" "qs (comm_mbox s) E_QUEUE_CMDQU = []" "qs w = qs (comm_mbox s)"
      "mailbox_context w = mailbox_context (comm_mbox s)" "s' = prvRecoverMailbox env hw mm (s\<lparr>comm_mbox := w\<rparr>)"
  | c w where "r = Some c" "qs (comm_mbox s) E_QUEUE_CMDQU = c # qs w E_QUEUE_CMDQU"
      "mailbox_context w = mailbox_context (comm_mbox s)" "run_command env hw mm iv cl cpu c (s\<lparr>comm_mbox := w\<rparr>) = Some s'"
proof -
  obtain c w where x: "xQueueReceive b E_QUEUE_CMDQU (comm_mbox s) = (c, w)" by fastforce
  note r = receive_okD [OF assms(1) x]
  show thesis
  proof (cases "qs (comm_mbox s) E_QUEUE_CMDQU")
    case Nil
    then have "qs w = qs (comm_mbox s)" using r(2) by (simp add: fun_upd_idem)
    then show thesis using that(1) [of w] Nil r(1,3) x assms(2) by (simp add: cmdqu_round_def)
  next
    case (Cons c' rest)
    then show thesis using that(2) [of c' w] r x assms(2) by (auto simp: cmdqu_round_def split: bind_splits)
  qed
qed

lemma firmware_step_accounts:
  assumes "hw_frame hw" "queues_ok env hw qs cap" "receive_ok b qs" "dump_ok env qs" "MAILBOX_MAX_NUM hw = 8"
    and "length (mailbox_context (comm_mbox s)) = 8" "firmware_step b env hw mm iv cl cpu s e s'"
  shows "length (mailbox_context (comm_mbox s')) = 8 \<and>
    step_accounts env cap (pending_work qs (comm_mbox s)) e (pending_work qs (comm_mbox s'))"
  using assms(7)
proof cases
  case (post ctx slot c)
  then show ?thesis using assms(6)
    by (simp add: step_accounts_def pending_work_def queues_frame(12) [OF assms(2)] waiting_update)
next
  case (take ctx slot)
  then show ?thesis using assms(6)
    by (simp add: step_accounts_def pending_work_def queues_frame(12) [OF assms(2)] waiting_update)
next
  case interrupt
  then show ?thesis using interrupt_accounts [OF assms(1,2,6,5), of s' mm e] by simp
next
  case (run c)
  from assms(3) run(2) show ?thesis
  proof (cases rule: round_cases)
    case (2 c' w)
    have "same_work qs w (comm_mbox s')"
      using run_command_same_work [OF assms(1,2,4) _ 2(4)] assms(5,6) 2(3) by simp
    then show ?thesis using run(1) 2 assms(6) by (simp add: same_work_def step_accounts_def pending_work_def)
  qed simp
next
  case scan
  from assms(3) scan(2) show ?thesis
  proof (cases rule: round_cases)
    case (1 w)
    have "pending_work qs (comm_mbox s) = pending_work qs w" using 1 by (simp add: pending_work_def)
    then show ?thesis
      using interrupt_accounts [OF assms(1,2) _ assms(5), of "s\<lparr>comm_mbox := w\<rparr>" s' mm e] 1(4,5) assms(6) scan(1) by simp
  qed simp
qed

lemma firmware_run_accounts:
  assumes "firmware_run b env hw mm iv cl cpu s es s'"
    and "hw_frame hw" "queues_ok env hw qs cap" "receive_ok b qs" "dump_ok env qs" "MAILBOX_MAX_NUM hw = 8"
    and "length (mailbox_context (comm_mbox s)) = 8" "pending_work qs (comm_mbox s) = {#}"
  shows "length (mailbox_context (comm_mbox s')) = 8 \<and>
    mset (commands_run es) + pending_work qs (comm_mbox s') \<subseteq># mset (posted_system es) \<and>
    (queue_created env E_QUEUE_CMDQU \<and> outstanding_within (cap E_QUEUE_CMDQU) es \<longrightarrow>
      mset (commands_run es) + pending_work qs (comm_mbox s') = mset (posted_system es))"
  using assms(1)
proof induction
  case start
  then show ?case using assms(7,8) by simp
next
  case (step es s1 e s2)
  have a: "step_accounts env cap (pending_work qs (comm_mbox s1)) e (pending_work qs (comm_mbox s2))"
    "length (mailbox_context (comm_mbox s2)) = 8"
    using firmware_step_accounts [OF assms(2-6) _ step(2)] step(3) by simp_all
  have "mset (commands_run es) + (mset (commands_run [e]) + pending_work qs (comm_mbox s2)) \<subseteq>#
      mset (commands_run es) + (pending_work qs (comm_mbox s1) + mset (posted_system [e]))"
    using a(1) by (simp add: step_accounts_def)
  also have "\<dots> \<subseteq># mset (posted_system es) + mset (posted_system [e])"
    using step(3) by (simp add: add.assoc [symmetric])
  finally have le: "mset (commands_run (es @ [e])) + pending_work qs (comm_mbox s2) \<subseteq># mset (posted_system (es @ [e]))"
    by (simp add: add.assoc)
  have "mset (commands_run (es @ [e])) + pending_work qs (comm_mbox s2) = mset (posted_system (es @ [e]))"
    if q: "queue_created env E_QUEUE_CMDQU" and o: "outstanding_within (cap E_QUEUE_CMDQU) (es @ [e])"
  proof -
    note o' = outstanding_within_butlast [OF o]
    have eq: "mset (commands_run es) + pending_work qs (comm_mbox s1) = mset (posted_system es)"
      using step(3) q o' by simp
    have "size (mset (commands_run es)) + size (pending_work qs (comm_mbox s1)) = size (mset (posted_system es))"
      using eq by (metis size_union)
    then have "size (pending_work qs (comm_mbox s1)) \<le> cap E_QUEUE_CMDQU"
      using outstanding_within_end [OF o'] by simp
    then have "mset (commands_run [e]) + pending_work qs (comm_mbox s2) = pending_work qs (comm_mbox s1) + mset (posted_system [e])"
      using a(1) q by (simp add: step_accounts_def)
    then show ?thesis using eq by (simp add: add.assoc)
  qed
  then show ?case using le a(2) by simp
qed

subsection \<open>From boot to the first command\<close>

text \<open>The boot operations leave the mailbox memory alone, and a queue is created empty.\<close>

definition boot_ok :: "'x mbox_mem_scheme boot_env \<Rightarrow> ('x mbox_mem_scheme \<Rightarrow> queue_handle \<Rightarrow> cmdqu_t list) \<Rightarrow> bool" where
  "boot_ok b qs \<longleftrightarrow> (\<forall>q n. keeps qs (\<lambda>w. snd (xQueueCreate b q n w))) \<and> (\<forall>f n st p. keeps qs (xTaskCreate b f n st p)) \<and>
     keeps qs (\<lambda>w. snd (request_mailbox_irq b w)) \<and> keeps qs (cvi_spinlock_init b) \<and> keeps qs (vTaskStartScheduler b) \<and>
     (\<forall>x1 x2 x3 x4 x5 x6. keeps qs (boot_trace_init_diagnostics b x1 x2 x3 x4 x5 x6)) \<and>
     (\<forall>v. keeps qs (boot_trace_irq_result b v)) \<and> keeps qs (boot_trace_irq_ready b)"

lemma boot_okD:
  assumes "boot_ok b qs"
  shows "qs (snd (xQueueCreate b q n w)) = qs w" "qs (xTaskCreate b f nm st p w) = qs w" "qs (snd (request_mailbox_irq b w)) = qs w"
    "qs (cvi_spinlock_init b w) = qs w" "qs (vTaskStartScheduler b w) = qs w"
    "qs (boot_trace_init_diagnostics b x1 x2 x3 x4 x5 x6 w) = qs w" "qs (boot_trace_irq_result b v w) = qs w" "qs (boot_trace_irq_ready b w) = qs w"
    "mailbox_context (snd (xQueueCreate b q n w)) = mailbox_context w" "mailbox_context (xTaskCreate b f nm st p w) = mailbox_context w"
    "mailbox_context (snd (request_mailbox_irq b w)) = mailbox_context w"
    "mailbox_context (cvi_spinlock_init b w) = mailbox_context w" "mailbox_context (vTaskStartScheduler b w) = mailbox_context w"
    "mailbox_context (boot_trace_init_diagnostics b x1 x2 x3 x4 x5 x6 w) = mailbox_context w"
    "mailbox_context (boot_trace_irq_result b v w) = mailbox_context w" "mailbox_context (boot_trace_irq_ready b w) = mailbox_context w"
  using assms by (simp_all add: boot_ok_def keeps_def)

lemma init_tasks_keeps:
  "boot_ok b qs \<Longrightarrow> qs (snd (init_tasks b es w)) = qs w \<and> mailbox_context (snd (init_tasks b es w)) = mailbox_context w"
  by (induction es arbitrary: w) (simp_all add: boot_okD Let_def split_def split: option.split)

lemma get_diagnostics_keeps:
  assumes "hw_frame hw" "queues_ok env hw qs cap"
  shows "qs (snd (sg2002_rtos_mailbox_get_diagnostics hw d w)) = qs w \<and>
    mailbox_context (snd (sg2002_rtos_mailbox_get_diagnostics hw d w)) = mailbox_context w"
proof -
  have "mailbox_context (snd (reg_read hw r w)) = mailbox_context w" for r w
    using assms(1) by (simp add: hw_frame_def)
  then show ?thesis
    by (simp add: sg2002_rtos_mailbox_get_diagnostics_def queues_frame(8) [OF assms(2)] split_def Let_def split: option.split)
qed

lemma main_cvirtos_keeps:
  assumes "hw_frame hw" "queues_ok env hw qs cap" "boot_ok b qs" "main_cvirtos b env hw mm s = (table, irq_ret, s')"
  shows "qs (comm_mbox s') = qs (comm_mbox s) \<and> mailbox_context (comm_mbox s') = mailbox_context (comm_mbox s) \<and>
    comm_transport s' = sg2002_rtos_shm_transport_init (comm_transport s) \<and> comm_mem s' = comm_mem s \<and>
    mailbox_recovery_count s' = mailbox_recovery_count s"
proof -
  have e: "qs (sg2002_rtos_mailbox_enable_receiver hw w) = qs w \<and>
    mailbox_context (sg2002_rtos_mailbox_enable_receiver hw w) = mailbox_context w" for w
    by (simp add: sg2002_rtos_mailbox_enable_receiver_def queues_frame(7) [OF assms(2)] hw_frame_simps(1) [OF assms(1)] Let_def)
  have i: "qs (snd (if x then (- 1, w) else request_mailbox_irq b w)) = qs w \<and>
    mailbox_context (snd (if x then (- 1, w) else request_mailbox_irq b w)) = mailbox_context w" for x w
    by (simp add: boot_okD [OF assms(3)])
  show ?thesis
    using assms(4)
    by (auto simp: main_cvirtos_def sg2002_rtos_mailbox_init_def main_create_tasks_def init_tasks_keeps [OF assms(3)]
        get_diagnostics_keeps [OF assms(1,2)] e i boot_okD [OF assms(3)] Let_def split_def simp del: if_split)
qed

lemma scan_then_doorbell:
  assumes "hw_frame hw" "queues_ok env hw qs cap" "receive_ok b qs" "MAILBOX_MAX_NUM hw = 8"
    and ctx: "ctx = mailbox_context (comm_mbox s)" "length ctx = 8"
    and "\<forall>w. fst (spin_lock_irqsave hw w) \<noteq> MAILBOX_LOCK_FAILED hw"
    and c: "posted_commands ctx = [c]" "ip_id c = IP_SYSTEM" "ucast (cmd_id c) = SG2002_RTOS_SHM_DOORBELL_COMMAND"
    and q: "qs (comm_mbox s) E_QUEUE_CMDQU = []" "queue_created env E_QUEUE_CMDQU" "0 < cap E_QUEUE_CMDQU"
    and t: "transport_ok iv cl (comm_transport s)" "mem_wf (comm_mem s)" "m = ram (comm_mem s)"
    and l: "linux_ready g m" "rings_ok m"
  shows "\<exists>s1 s2 i. cmdqu_round b env hw mm iv cl cpu s = Some (None, s1) \<and>
    cmdqu_round b env hw mm iv cl cpu s1 = Some (Some c, s2) \<and>
    mailbox_recovery_count s1 = mailbox_recovery_count s + 1 \<and>
    requests (ram (comm_mem s2)) = drop (batch_size m) (requests m) \<and>
    responses (ram (comm_mem s2)) = responses m @ fst (serve_all mm (take (batch_size m) (requests m)) (comm_io s1)) \<and>
    mailbox_context (comm_mbox s2) = (clear_slots (owned_slots ctx) ctx)
      [i := u64_of_cmdqu (c\<lparr>param_ptr := g, block := 0, linux_valid := 0, rtos_valid := 1\<rparr>)] \<and> slot_is_free (clear_slots (owned_slots ctx) ctx ! i)"
proof -
  let ?ctx = "clear_slots (owned_slots ctx) ctx"
  obtain r w where x: "xQueueReceive b E_QUEUE_CMDQU (comm_mbox s) = (r, w)" by fastforce
  note xr = receive_okD [OF assms(3) x]
  have w: "r = None" "qs w E_QUEUE_CMDQU = []" "mailbox_context w = ctx" using xr q(1) ctx(1) by simp_all
  let ?s = "s\<lparr>comm_mbox := w\<rparr>"
  let ?s1 = "prvRecoverMailbox env hw mm ?s"
  have r1: "cmdqu_round b env hw mm iv cl cpu s = Some (None, ?s1)" using x w(1) by (simp add: cmdqu_round_def)
  obtain d p e s0 where 1: "sample_diagnostics env hw mm ?s = (d, p, e, s0)" by (metis prod_cases4)
  have s1: "mailbox_context (comm_mbox ?s1) = ?ctx"
    "qs (comm_mbox ?s1) = deliver env cap [c] (qs w)"
    "mailbox_recovery_count ?s1 = mailbox_recovery_count s + 1"
    "comm_transport ?s1 = comm_transport s" "comm_mem ?s1 = comm_mem s"
    using prvRecoverMailbox_by_lock [OF assms(1,2) ctx(2) assms(4) _ refl 1 refl] assms(7) c(1) w(3) by simp_all
  have q1: "qs (comm_mbox ?s1) E_QUEUE_CMDQU = [c]"
    using s1(2) w(2) q(2,3) c(2) by (simp add: deliver_def task_of_ip_def)
  obtain r2 w2 where x2: "xQueueReceive b E_QUEUE_CMDQU (comm_mbox ?s1) = (r2, w2)" by fastforce
  have w2: "r2 = Some c" "mailbox_context w2 = ?ctx" using receive_okD [OF assms(3) x2] q1 s1(1) by simp_all
  have len: "length ?ctx = 8" using ctx(2) by (simp add: clear_slots_def)
  obtain j where "j \<in> set (owned_slots ctx)" using c(1) by (cases "owned_slots ctx") (auto simp: posted_commands_def)
  then have "j < length ?ctx" "slot_is_free (?ctx ! j)"
    by (auto simp: owned_slots_def clear_slots_def slot_is_free_def cmdqu_of_u64_def)
  then have "j \<in> set (filter (\<lambda>i. slot_is_free (?ctx ! i)) [0..<length ?ctx])" by simp
  then obtain i rest where f: "filter (\<lambda>i. slot_is_free (?ctx ! i)) [0..<length ?ctx] = i # rest"
    by (metis list.set_cases)
  have i: "slot_is_free (?ctx ! i)" using filter_eq_ConsD [OF f] by blast
  let ?t = "?s1\<lparr>comm_mbox := w2\<rparr>"
  have len2: "length ?ctx = MAILBOX_MAX_NUM hw" using len assms(4) by simp
  have cx: "?ctx = mailbox_context (comm_mbox ?t)" using w2(2) by simp
  obtain s2 where s2: "run_command env hw mm iv cl cpu c ?t = Some s2"
    "requests (ram (comm_mem s2)) = drop (batch_size m) (requests m)"
    "responses (ram (comm_mem s2)) = responses m @ fst (serve_all mm (take (batch_size m) (requests m)) (comm_io ?s1))"
    "mailbox_context (comm_mbox s2) = ?ctx[i := u64_of_cmdqu (c\<lparr>param_ptr := g, block := 0, linux_valid := 0, rtos_valid := 1\<rparr>)]"
    using run_doorbell [OF assms(1) cx len2 _ f c(2,3), of iv cl m g "batch_size m" _ mm env cpu] assms(7) t l s1(4,5) by auto
  have "cmdqu_round b env hw mm iv cl cpu ?s1 = Some (Some c, s2)" using x2 w2(1) s2(1) by (simp add: cmdqu_round_def)
  then show ?thesis using r1 s1(3) s2(2-4) i by blast
qed

text \<open>Queues of eight commands, all but one of which can be created, for concrete evaluations.\<close>

definition sim_boot_env :: "comm_world boot_env" where
  "sim_boot_env = \<lparr>xQueueCreate = (\<lambda>q _ w. (q \<noteq> E_QUEUE_CAMERA, w)), xTaskCreate = (\<lambda>_ _ _ _ w. w),
     request_mailbox_irq = (\<lambda>w. (-1, w)), cvi_spinlock_init = (\<lambda>w. w), vTaskStartScheduler = (\<lambda>w. w),
     boot_trace_init_diagnostics = (\<lambda>_ _ _ _ _ _ w. w), boot_trace_irq_result = (\<lambda>_ w. w), boot_trace_irq_ready = (\<lambda>w. w),
     boot_trace_cmdqu_task = (\<lambda>w. w), boot_trace_task_ready = (\<lambda>_ w. w), set_mcu_status_running = (\<lambda>w. w),
     conf_magic = 0, C906_MAGIC_HEADER = 0xc906, CA53_MAGIC_HEADER = 0xca53, SEND_TO_CPU0 = 0, SEND_TO_CPU1 = 1,
     xQueueReceive = (\<lambda>q w. (case task_queues w q of [] \<Rightarrow> None | c # _ \<Rightarrow> Some c,
       w\<lparr>task_queues := (task_queues w)(q := tl (task_queues w q))\<rparr>))\<rparr>"

lemma sim_boot_ok: "receive_ok sim_boot_env task_queues" "boot_ok sim_boot_env task_queues" "dump_ok sim_comm_env task_queues"
  by (simp_all add: receive_ok_def boot_ok_def dump_ok_def keeps_def sim_boot_env_def sim_comm_env_def)

abbreviation sim_doorbell_state :: "(comm_world, fw_mem, u32 \<Rightarrow> u32) comm_state" where
  "sim_doorbell_state \<equiv> sim_comm_state (0x17f06 # replicate 7 0) \<lparr>view = blank_region, ram = demo_region zero_slot\<rparr>"

lemma sim_doorbell:
  assumes "s = sim_doorbell_state" "c = cmdqu_of_u64 0x17f06"
  shows "mailbox_context (comm_mbox s) = 0x17f06 # replicate 7 0" "task_queues (comm_mbox s) = (\<lambda>_. [])"
    "posted_commands (0x17f06 # replicate 7 0) = [c]" "ip_id c = IP_SYSTEM" "ucast (cmd_id c) = SG2002_RTOS_SHM_DOORBELL_COMMAND"
    "dcache_ok sim_inv sim_clean" "mem_wf (comm_mem s)" "linux_ready 1 (ram (comm_mem s))" "rings_ok (ram (comm_mem s))"
    "requests (ram (comm_mem s)) = [zero_slot]" "responses (ram (comm_mem s)) = []" "batch_size (ram (comm_mem s)) = 1"
    "transport_ok sim_inv sim_clean (comm_transport s)" "\<forall>w :: comm_world. fst (spin_lock_irqsave sim_hw w) \<noteq> MAILBOX_LOCK_FAILED (sim_hw :: comm_world mbox_hw)"
proof -
  have z: "message_ok zero_slot" by (simp add: message_ok_def zero_slot_def slot_wf_def)
  note d = demo_region_ok [OF z]
  show "mailbox_context (comm_mbox s) = 0x17f06 # replicate 7 0" "task_queues (comm_mbox s) = (\<lambda>_. [])"
    "ip_id c = IP_SYSTEM" "ucast (cmd_id c) = SG2002_RTOS_SHM_DOORBELL_COMMAND"
    by (simp_all add: assms sim_comm_state_def cmdqu_of_u64_def)
  show "posted_commands (0x17f06 # replicate 7 0) = [c]"
    by (simp add: posted_commands_filter owned_by_linux_def cmdqu_of_u64_def assms(2))
  show "mem_wf (comm_mem s)" "linux_ready 1 (ram (comm_mem s))" "rings_ok (ram (comm_mem s))"
    "requests (ram (comm_mem s)) = [zero_slot]" "responses (ram (comm_mem s)) = []"
    using d by (simp_all add: assms(1) sim_comm_state_def mem_wf_def del: length_ring_contents)
  show "batch_size (ram (comm_mem s)) = 1"
    using d by (simp add: assms(1) sim_comm_state_def batch_size_def del: length_ring_contents)
  show "transport_ok sim_inv sim_clean (comm_transport s)" "dcache_ok sim_inv sim_clean"
    by (simp_all add: transport_ok_def demo_transport_def sim_comm_state_def Let_def assms(1))
  show "\<forall>w :: comm_world. fst (spin_lock_irqsave sim_hw w) \<noteq> MAILBOX_LOCK_FAILED (sim_hw :: comm_world mbox_hw)"
    by (simp add: sim_hw_def)
qed

subsection \<open>Properties\<close>

text \<open>Property C16: a doorbell rung before the firmware boots is answered. Whatever becomes of the interrupt, which
  boot clears and may fail to request: if one doorbell waits in the mailbox when \<^verbatim>\<open>main_cvirtos\<close> runs, its queue
  can be created and the hardware lock is granted, the first round of the task finds the command, counting a
  recovery, and the second round runs it: the requests Linux has queued are answered in order and the reply,
  which names the generation Linux published, is posted in a free slot.\<close>

theorem doorbell_before_boot_served:
  assumes "hw_frame hw" "queues_ok env hw qs cap" "receive_ok b qs" "boot_ok b qs" "MAILBOX_MAX_NUM hw = 8"
    and "ctx = mailbox_context (comm_mbox s0)" "length ctx = 8"
    and "\<forall>w. fst (spin_lock_irqsave hw w) \<noteq> MAILBOX_LOCK_FAILED hw"
    and "posted_commands ctx = [c]" "ip_id c = IP_SYSTEM" "ucast (cmd_id c) = SG2002_RTOS_SHM_DOORBELL_COMMAND"
    and "qs (comm_mbox s0) = (\<lambda>_. [])" "0 < cap E_QUEUE_CMDQU"
    and "dcache_ok iv cl" "mem_wf (comm_mem s0)" "m = ram (comm_mem s0)" "linux_ready g m" "rings_ok m"
    and "main_cvirtos b env hw mm s0 = (table, irq_ret, s)"
    and "main_GetMODHandle table 5 \<noteq> None" "queue_created env E_QUEUE_CMDQU = (main_GetMODHandle table 5 \<noteq> None)"
  shows "\<exists>s1 s2 i. cmdqu_round b env hw mm iv cl cpu s = Some (None, s1) \<and>
    cmdqu_round b env hw mm iv cl cpu s1 = Some (Some c, s2) \<and>
    mailbox_recovery_count s1 = mailbox_recovery_count s0 + 1 \<and>
    requests (ram (comm_mem s2)) = drop (batch_size m) (requests m) \<and>
    responses (ram (comm_mem s2)) = responses m @ fst (serve_all mm (take (batch_size m) (requests m)) (comm_io s1)) \<and>
    mailbox_context (comm_mbox s2) = (clear_slots (owned_slots ctx) ctx)
      [i := u64_of_cmdqu (c\<lparr>param_ptr := g, block := 0, linux_valid := 0, rtos_valid := 1\<rparr>)] \<and>
    slot_is_free (clear_slots (owned_slots ctx) ctx ! i)"
proof -
  have s: "qs (comm_mbox s) E_QUEUE_CMDQU = []" "ctx = mailbox_context (comm_mbox s)" "comm_mem s = comm_mem s0"
    "mailbox_recovery_count s = mailbox_recovery_count s0" "transport_ok iv cl (comm_transport s)"
    using main_cvirtos_keeps [OF assms(1,2,4,19)] assms(6,12,14)
    by (simp_all add: sg2002_rtos_shm_transport_init_def transport_ok_def)
  show ?thesis
    using scan_then_doorbell [OF assms(1-3,5) s(2) assms(7-11) s(1) _ assms(13) s(5)] assms(15-18,20,21) s(3,4) by simp
qed

text \<open>Property C8: the firmware runs no command twice and loses none it has room for. In any interleaving
  of Linux posting commands and taking replies with the interrupt handler and the rounds of the task, starting
  from an empty mailbox and an empty queue, every system command that is run was posted, and no more often.
  As long as no more commands are outstanding than the queue of the task holds, every posted command
  has been run, is in the queue or still waits in its slot, whatever interrupts and locks were lost.\<close>

theorem commands_run_once:
  assumes "firmware_run b env hw mm iv cl cpu s es s'"
    and "hw_frame hw" "queues_ok env hw qs cap" "receive_ok b qs" "dump_ok env qs" "MAILBOX_MAX_NUM hw = 8"
    and "length (mailbox_context (comm_mbox s)) = 8" "posted_commands (mailbox_context (comm_mbox s)) = []"
    and "qs (comm_mbox s) E_QUEUE_CMDQU = []"
  shows "mset (commands_run es) \<subseteq># mset (posted_system es) \<and>
    (queue_created env E_QUEUE_CMDQU \<and> outstanding_within (cap E_QUEUE_CMDQU) es \<longrightarrow>
      mset (posted_system es) = mset (commands_run es) + mset (qs (comm_mbox s') E_QUEUE_CMDQU) +
        waiting (mailbox_context (comm_mbox s')))"
proof -
  have "pending_work qs (comm_mbox s) = {#}" using assms(8,9) by (simp add: pending_work_def waiting_def)
  note a = firmware_run_accounts [OF assms(1-7) this]
  then have "mset (commands_run es) \<subseteq># mset (posted_system es)"
    using mset_subset_eq_add_left subset_mset.order_trans by blast
  then show ?thesis using a by (simp add: pending_work_def add.assoc)
qed

theorem doorbell_before_boot_served_witness:
  "\<exists>table irq_ret s s1 s2. main_cvirtos sim_boot_env sim_comm_env sim_hw plain_mmio sim_doorbell_state = (table, irq_ret, s) \<and>
    irq_ret = -1 \<and> cmdqu_round sim_boot_env sim_comm_env sim_hw plain_mmio sim_inv sim_clean 1 s = Some (None, s1) \<and>
    cmdqu_round sim_boot_env sim_comm_env sim_hw plain_mmio sim_inv sim_clean 1 s1 = Some (Some (cmdqu_of_u64 0x17f06), s2) \<and>
    requests (ram (comm_mem s2)) = [] \<and> length (responses (ram (comm_mem s2))) = 1"
proof -
  note d = sim_doorbell [OF refl refl]
  obtain table irq_ret s where b: "main_cvirtos sim_boot_env sim_comm_env sim_hw plain_mmio sim_doorbell_state = (table, irq_ret, s)"
    by (metis prod_cases3)
  then have t: "main_GetMODHandle table 5 \<noteq> None" "irq_ret = -1"
    by (auto simp: main_cvirtos_def main_create_tasks_def gTaskCtx_def queue_handles_def main_GetMODHandle_def
        task_entry_def sim_boot_env_def Let_def split_def)
  have q: "queue_created sim_comm_env E_QUEUE_CMDQU = (main_GetMODHandle table 5 \<noteq> None)"
    using t(1) by (simp add: sim_comm_env_def)
  have n: "length (0x17f06 # replicate 7 (0 :: u64)) = 8" "(0 :: nat) < (\<lambda>_. 8) E_QUEUE_CMDQU" by simp_all
  show ?thesis
    using doorbell_before_boot_served [OF sim_hw_frame sim_queues_ok sim_boot_ok(1,2) sim_hw_max d(1) [symmetric] n(1) d(14) d(3-5) d(2) n(2)
        d(6,7) refl d(8,9) b t(1) q, of 1] b t(2) d(10-12)
    by (force simp: split_def Let_def simp del: length_ring_contents)
qed

theorem commands_run_once_witness:
  "\<exists>s'. firmware_run sim_boot_env sim_comm_env sim_hw plain_mmio sim_inv sim_clean 1
      (sim_comm_state (replicate 8 0) \<lparr>view = blank_region, ram = demo_region zero_slot\<rparr>)
      [Posts 0 (cmdqu_of_u64 0x17f06), Scans, Runs (cmdqu_of_u64 0x17f06)] s' \<and>
    waiting (mailbox_context (comm_mbox s')) = {#} \<and> task_queues (comm_mbox s') E_QUEUE_CMDQU = []"
proof -
  note d = sim_doorbell [OF refl refl]
  let ?c = "cmdqu_of_u64 0x17f06"
  let ?start = "sim_comm_state (replicate 8 0) \<lparr>view = blank_region, ram = demo_region zero_slot\<rparr>"
  let ?s = sim_doorbell_state
  let ?es = "[Posts 0 ?c, Scans, Runs ?c]"
  let ?step = "firmware_step sim_boot_env sim_comm_env sim_hw plain_mmio sim_inv sim_clean 1"
  let ?run = "firmware_run sim_boot_env sim_comm_env sim_hw plain_mmio sim_inv sim_clean 1 ?start"
  have "(replicate 8 0)[0 := u64_of_cmdqu ?c] = 0x17f06 # replicate 7 (0 :: u64)" by (simp add: eval_nat_numeral)
  then have u: "?start\<lparr>comm_mbox := (comm_mbox ?start)\<lparr>mailbox_context := (replicate 8 0)[0 := u64_of_cmdqu ?c]\<rparr>\<rparr> = ?s"
    by (simp only: sim_comm_state_def) simp
  have ow: "owned_by_linux (u64_of_cmdqu ?c)" by (simp add: owned_by_linux_def) (simp add: cmdqu_of_u64_def)
  have "?step ?start (Posts 0 ?c) (?start\<lparr>comm_mbox := (comm_mbox ?start)\<lparr>mailbox_context := (replicate 8 0)[0 := u64_of_cmdqu ?c]\<rparr>\<rparr>)"
    using ow by (intro firmware_step.post [of "replicate 8 0" ?start 0 ?c])
      (simp_all add: sim_comm_state_def slot_is_free_def cmdqu_of_u64_def)
  then have p: "?step ?start (Posts 0 ?c) ?s"
    by (simp only: u)
  have n: "length (0x17f06 # replicate 7 (0 :: u64)) = 8" "(0 :: nat) < (\<lambda>_. 8) E_QUEUE_CMDQU" by simp_all
  have q: "task_queues (comm_mbox ?s) E_QUEUE_CMDQU = []" "queue_created sim_comm_env E_QUEUE_CMDQU"
    by (simp_all add: d(2)) (simp add: sim_comm_env_def)
  obtain s1 s2 where r: "cmdqu_round sim_boot_env sim_comm_env sim_hw plain_mmio sim_inv sim_clean 1 ?s = Some (None, s1)"
    "cmdqu_round sim_boot_env sim_comm_env sim_hw plain_mmio sim_inv sim_clean 1 s1 = Some (Some ?c, s2)"
    using scan_then_doorbell [OF sim_hw_frame sim_queues_ok sim_boot_ok(1) sim_hw_max d(1) [symmetric] n(1) d(14) d(3-5) q n(2)
        d(13,7) refl d(8,9)] by blast
  have "?run ([] @ [Posts 0 ?c]) ?s" using firmware_run.start p by (rule firmware_run.step)
  then have "?run (([] @ [Posts 0 ?c]) @ [Scans]) s1" using firmware_step.scan [OF r(1)] by (rule firmware_run.step)
  then have "?run ((([] @ [Posts 0 ?c]) @ [Scans]) @ [Runs ?c]) s2" using firmware_step.run [OF r(2)] by (rule firmware_run.step)
  then have run: "?run ?es s2" by simp
  have c: "length (mailbox_context (comm_mbox ?start)) = 8" "posted_commands (mailbox_context (comm_mbox ?start)) = []"
    "task_queues (comm_mbox ?start) E_QUEUE_CMDQU = []"
    by (simp_all add: sim_comm_state_def posted_commands_filter)
  have a: "posted_system ?es = [?c]" "commands_run ?es = [?c]"
    by (simp_all add: posted_system_def commands_run_def d(4))
  have "outstanding_within 8 ?es"
    by (auto simp: outstanding_within_def posted_system_def take_Cons' split: if_splits)
  then show ?thesis
    using commands_run_once [OF run sim_hw_frame sim_queues_ok sim_boot_ok(1,3) sim_hw_max c] q(2) run unfolding a by auto
qed

end
