(* ===== verification/Kernel_Types.thy ===== *)
theory Kernel_Types
  imports Kernel_Channel
begin

section \<open>The types of the kernel driver's memory\<close>

text \<open>
  The layout the driver's code relies on when it indexes memory: both rings have 64 slots, the two batch buffers
  have 64 slots each, and every slot has a payload of 1018 bytes. The invariant needs nothing of the contents of
  the region: counters, lengths and control lines may be anything, and other tasks and the firmware may do anything to
  the world that keeps the layout. So no ioctl can read or write outside a ring, a buffer or the user's
  array, whatever the firmware puts in the region.
\<close>

subsection \<open>The invariant\<close>

definition buffer_wf :: "sg2002_rtos_shm_slot list \<Rightarrow> bool" where
  "buffer_wf ms \<longleftrightarrow> length ms = SG2002_RTOS_SHM_SLOT_COUNT \<and> list_all slot_wf ms"

definition kernel_wf :: "'x kernel_world_scheme \<Rightarrow> bool" where
  "kernel_wf w \<longleftrightarrow> region_wf (shm_base w) \<and> buffer_wf (tx_batch w) \<and> buffer_wf (rx_batch w)"

text \<open>Whatever runs while the driver is in a call of the kernel keeps the layout.\<close>

definition typed_env :: "'x kernel_world_scheme kernel_env \<Rightarrow> bool" where
  "typed_env env \<longleftrightarrow> (\<forall>w. kernel_wf w \<longrightarrow>
     (\<forall>g. kernel_wf (snd (kick env g w))) \<and> (\<forall>c t. kernel_wf (snd (wait_event env c t w))) \<and> kernel_wf (wake_up env w) \<and>
     (\<forall>l. kernel_wf (snd (lock_interruptible env l w)) \<and> kernel_wf (lock_mutex env l w) \<and> kernel_wf (unlock_mutex env l w)) \<and>
     kernel_wf (snd (copy_from_user env w)) \<and> kernel_wf (snd (copy_to_user env w)) \<and> kernel_wf (cancel_kick_work env w))"

text \<open>What a user passes in: messages of the right size and, for a batch, at least the announced number of them.\<close>

definition command_wf :: "shm_command \<Rightarrow> bool" where
  "command_wf c \<longleftrightarrow> (case c of
     SG2002_RTOS_SHM_SEND t \<Rightarrow> slot_wf (message t) | SG2002_RTOS_SHM_RECEIVE t \<Rightarrow> slot_wf (message t)
   | SG2002_RTOS_SHM_SUBMIT_BATCH b slots \<Rightarrow> list_all slot_wf slots \<and> unat (batch_count b) \<le> length slots
   | SG2002_RTOS_SHM_REAP_BATCH b slots \<Rightarrow> list_all slot_wf slots \<and> unat (batch_count b) \<le> length slots
   | _ \<Rightarrow> True)"

text \<open>What the user gets back: messages of the right size, in an array of the size it had, and an answer of the kind the
  command asks for.\<close>

definition answer_wf :: "shm_command \<Rightarrow> shm_answer \<Rightarrow> bool" where
  "answer_wf c a \<longleftrightarrow> (case a of
     Error_answer e \<Rightarrow> True
   | Info_answer info \<Rightarrow> c = SG2002_RTOS_SHM_ACQUIRE
   | Transfer_answer t \<Rightarrow> slot_wf (message t) \<and> slot_length (message t) \<le> SG2002_RTOS_SHM_PAYLOAD_SIZE \<and>
       (\<exists>u. c = SG2002_RTOS_SHM_SEND u \<or> c = SG2002_RTOS_SHM_RECEIVE u)
   | Batch_answer e b slots \<Rightarrow> \<exists>ub us. (c = SG2002_RTOS_SHM_SUBMIT_BATCH ub us \<or> c = SG2002_RTOS_SHM_REAP_BATCH ub us) \<and>
       list_all slot_wf slots \<and> length slots = length us \<and> (e = 0 \<longrightarrow> batch_completed b \<le> batch_count ub))"

subsection \<open>Preservation\<close>

lemma typed_rules:
  assumes "typed_env env" "kernel_wf w"
  shows "kick env g w = (r, w') \<Longrightarrow> kernel_wf w'" "wait_event env c t w = (r, w') \<Longrightarrow> kernel_wf w'"
    "lock_interruptible env l w = (r, w') \<Longrightarrow> kernel_wf w'"
    "copy_from_user env w = (ok, w') \<Longrightarrow> kernel_wf w'" "copy_to_user env w = (ok, w') \<Longrightarrow> kernel_wf w'"
    "kernel_wf (wake_up env w)" "kernel_wf (lock_mutex env l w)" "kernel_wf (unlock_mutex env l w)" "kernel_wf (cancel_kick_work env w)"
  using assms unfolding typed_env_def by (metis snd_conv)+

lemma kernel_wf_fields [simp]:
  "kernel_wf (w\<lparr>kick_attempts := k\<rparr>) = kernel_wf w" "kernel_wf (w\<lparr>kick_work_scheduled := b\<rparr>) = kernel_wf w"
  "kernel_wf (w\<lparr>notifications := n\<rparr>) = kernel_wf w" "kernel_wf (w\<lparr>file_owner := f\<rparr>) = kernel_wf w"
  "kernel_wf (w\<lparr>generation := g\<rparr>) = kernel_wf w" "kernel_wf (w\<lparr>next_sequence := s\<rparr>) = kernel_wf w"
  "kernel_wf (w\<lparr>shutting_down := b\<rparr>) = kernel_wf w" "kernel_wf (w\<lparr>shutdown_complete := b\<rparr>) = kernel_wf w"
  "kernel_wf (w\<lparr>shm_base := (shm_base w)\<lparr>layout := l\<rparr>\<rparr>) = kernel_wf w"
  "kernel_wf (set_linux_state st w) = kernel_wf w" "kernel_wf (set_counter c v w) = kernel_wf w"
  by (simp_all add: kernel_wf_def set_linux_state_def set_counter_def)

lemma kernel_wf_initialize [simp]: "kernel_wf w \<Longrightarrow> kernel_wf (initialize_generation g w)"
  by (simp add: kernel_wf_def initialize_generation_def Let_def)

lemma slot_wf_sequence [simp]: "slot_wf (m\<lparr>sequence := s\<rparr>) = slot_wf m"
  by (simp add: slot_wf_def)

lemma slot_index_range: "slot_index c < SG2002_RTOS_SHM_SLOT_COUNT"
proof -
  have "c AND 63 \<le> 63" by (rule word_and_le1)
  then show ?thesis by (simp add: slot_index_def word_le_nat_alt)
qed

lemma kernel_wf_slots:
  assumes "kernel_wf w"
  shows "slot_wf (response_at c w)" "i < SG2002_RTOS_SHM_SLOT_COUNT \<Longrightarrow> slot_wf (tx_batch w ! i)"
    "i < SG2002_RTOS_SHM_SLOT_COUNT \<Longrightarrow> slot_wf (rx_batch w ! i)" "length (tx_batch w) = SG2002_RTOS_SHM_SLOT_COUNT"
    "length (rx_batch w) = SG2002_RTOS_SHM_SLOT_COUNT" "list_all slot_wf (take k (tx_batch w))" "list_all slot_wf (take k (rx_batch w))"
  using assms slot_index_range [of c]
  by (auto simp: kernel_wf_def buffer_wf_def region_wf_def response_at_def list_all_length)

lemma kernel_wf_write: "kernel_wf w \<Longrightarrow> slot_wf m \<Longrightarrow> kernel_wf (write_request c m w)"
  using region_wf_store_slot [of "shm_base w" m Request_slots "slot_index c"] by (simp add: kernel_wf_def write_request_def)

lemma kernel_wf_buffers:
  "kernel_wf w \<Longrightarrow> slot_wf m \<Longrightarrow> kernel_wf (w\<lparr>tx_batch := (tx_batch w)[i := m]\<rparr>)"
  "kernel_wf w \<Longrightarrow> slot_wf m \<Longrightarrow> kernel_wf (w\<lparr>rx_batch := (rx_batch w)[i := m]\<rparr>)"
  "kernel_wf w \<Longrightarrow> list_all slot_wf ms \<Longrightarrow> n \<le> length ms \<Longrightarrow> n \<le> SG2002_RTOS_SHM_SLOT_COUNT \<Longrightarrow>
    kernel_wf (w\<lparr>tx_batch := take n ms @ drop n (tx_batch w)\<rparr>)"
  by (simp_all add: kernel_wf_def buffer_wf_def list_all_update) (simp add: list_all_length nth_append)

lemma request_kick_wf: "typed_env env \<Longrightarrow> kernel_wf w \<Longrightarrow> kernel_wf (request_kick env w)"
  using typed_rules(1) [of env "w\<lparr>kick_attempts := 0\<rparr>"]
  by (auto simp: request_kick_def kick_now_def kick_generation_def Let_def split: prod.split)

lemma kick_pending_wf: "typed_env env \<Longrightarrow> kernel_wf w \<Longrightarrow> kernel_wf (kick_pending env w)"
  by (auto simp: kick_pending_def request_kick_wf split: sum.split prod.split)

lemma kick_work_wf: "typed_env env \<Longrightarrow> kernel_wf w \<Longrightarrow> kernel_wf (kick_work env w)"
  using typed_rules(1) [of env w] by (auto simp: kick_work_def kick_now_def kick_generation_def Let_def split: prod.split)

lemma notify_wf: "typed_env env \<Longrightarrow> kernel_wf w \<Longrightarrow> kernel_wf (sg2002_rtos_shm_linux_notify env w)"
  by (simp add: sg2002_rtos_shm_linux_notify_def typed_rules(6))

lemma release_wf: "typed_env env \<Longrightarrow> kernel_wf w \<Longrightarrow> kernel_wf (sg2002_rtos_shm_linux_release env f w)"
  by (simp add: sg2002_rtos_shm_linux_release_def typed_rules(6-8) Let_def split: option.split)

lemma shutdown_wf: "typed_env env \<Longrightarrow> kernel_wf w \<Longrightarrow> kernel_wf (sg2002_rtos_shm_linux_shutdown env w)"
  by (simp add: sg2002_rtos_shm_linux_shutdown_def typed_rules(6-9) Let_def)

lemma take_sequence_wf: "kernel_wf w \<Longrightarrow> take_sequence w = (s, w') \<Longrightarrow> kernel_wf w'"
  using take_sequence_result [of w s w'] by simp

lemma quiesce_wf:
  assumes "typed_env env" "kernel_wf w" "quiesce_firmware env f w = (r, w')"
  shows "kernel_wf w'"
proof -
  let ?w = "request_kick env ((set_linux_state SG2002_RTOS_SHM_STATE_OFFLINE w)
    \<lparr>shm_base := (shm_base (set_linux_state SG2002_RTOS_SHM_STATE_OFFLINE w))\<lparr>layout :=
      (layout (shm_base (set_linux_state SG2002_RTOS_SHM_STATE_OFFLINE w)))\<lparr>magic := 0\<rparr>\<rparr>, generation := 0\<rparr>)"
  obtain e v where e: "wait_event env (\<lambda>v. shutting_down v \<or> notifications v \<noteq> notifications w)
      (msecs_to_jiffies env SG2002_RTOS_SHM_DEFAULT_TIMEOUT_MS) ?w = (e, v)" by fastforce
  have "kernel_wf ?w" using assms(2) by (intro request_kick_wf [OF assms(1)]) simp
  from typed_rules(2) [OF assms(1) this e] have v: "kernel_wf v" .
  have n: "notifications (set_linux_state s w) = notifications w" for s by (simp add: set_linux_state_def)
  have "w' = v \<or> w' = unlock_mutex env Owner_lock v \<or>
      w' = sg2002_rtos_shm_linux_release env (Some f) (unlock_mutex env Owner_lock v)"
    using assms(3) e n by (auto simp: quiesce_firmware_def Let_def split: if_splits)
  then show ?thesis using typed_rules(8) [OF assms(1) v] release_wf [OF assms(1)] v by auto
qed

lemma start_generation_wf:
  assumes "typed_env env" "kernel_wf w" "start_generation env f w = (r, w')"
  shows "kernel_wf w'"
proof -
  obtain e v where e: "(if layout_valid w \<and> firmware_is_up (if layout_valid w then layout_generation (layout (shm_base w)) else 0) w
      then quiesce_firmware env f (w\<lparr>file_owner := Some f\<rparr>) else (0, w\<lparr>file_owner := Some f\<rparr>)) = (e, v)" by fastforce
  have v: "kernel_wf v"
    using e quiesce_wf [OF assms(1), of "w\<lparr>file_owner := Some f\<rparr>" f e v] assms(2) by (auto split: if_splits)
  have "w' = v \<or> (\<exists>g. w' = request_kick env (initialize_generation g v))"
    using assms(3) e by (auto simp: start_generation_def Let_def simp del: if_split split: if_split_asm prod.split_asm)
  then show ?thesis using v request_kick_wf [OF assms(1)] by auto
qed

lemma acquire_wf:
  assumes "typed_env env" "kernel_wf w" "acquire env f w = (r, w')"
  shows "kernel_wf w'"
proof -
  note typed = typed_rules [OF assms(1)]
  obtain e w1 where 1: "lock_interruptible env Owner_lock w = (e, w1)" by fastforce
  have w1: "kernel_wf w1" by (rule typed(3) [OF assms(2) 1])
  obtain e2 w2 where 2: "(if file_owner w1 = None then start_generation env f w1 else (0, w1)) = (e2, w2)" by fastforce
  have w2: "kernel_wf w2" using 2 w1 start_generation_wf [OF assms(1) w1] by (auto split: if_splits)
  let ?w2 = "unlock_mutex env Owner_lock w2"
  obtain e3 w3 where 3: "wait_event env (\<lambda>v. shutting_down v \<or> rtos_ready v) (msecs_to_jiffies env SG2002_RTOS_SHM_DEFAULT_TIMEOUT_MS) ?w2 = (e3, w3)"
    by fastforce
  have w3: "kernel_wf w3" by (rule typed(2) [OF typed(8) [OF w2] 3])
  obtain ok w4 where 4: "copy_to_user env w3 = (ok, w4)" by fastforce
  have w4: "kernel_wf w4" by (rule typed(5) [OF w3 4])
  have "w' \<in> {w1, unlock_mutex env Owner_lock w1, w2, w3, w4} \<or> w' = sg2002_rtos_shm_linux_release env (Some f) w3 \<or>
      w' = sg2002_rtos_shm_linux_release env (Some f) w4"
    using assms(3) unfolding acquire_def 1 prod.case 2 Let_def 3 4 by (auto split: if_splits)
  then show ?thesis using w1 w2 w3 w4 typed(8) release_wf [OF assms(1)] by auto
qed

subsection \<open>Waiting and transferring\<close>

lemma wait_for_space_wf:
  assumes "typed_env env" "wait_for_space env stale timeout remaining w = Some y" "kernel_wf w"
  shows "kernel_wf (snd y)"
proof -
  let ?P = "\<lambda>e st t r w y. e = env \<longrightarrow> kernel_wf w \<longrightarrow> kernel_wf (snd y)"
  have "?P env stale timeout remaining w y"
  proof (rule wait_for_space.raw_induct [where P = ?P, OF _ assms(2)], intro impI, goal_cases)
    case (1 loop e st t r w y)
    note IH = 1(1) [rule_format, OF _ 1(3), unfolded 1(3)]
    note typed = typed_rules(2) [OF assms(1) 1(4)]
    show ?case using 1(2,4) unfolding 1(3)
      by (auto split: if_split_asm sum.split_asm prod.split_asm dest!: typed IH)
  qed
  with assms(3) show ?thesis by simp
qed

lemma wait_for_response_wf:
  assumes "typed_env env" "wait_for_response env stale timeout remaining w = Some y" "kernel_wf w"
  shows "kernel_wf (snd y)"
proof -
  let ?P = "\<lambda>e st t r w y. e = env \<longrightarrow> kernel_wf w \<longrightarrow> kernel_wf (snd y)"
  have "?P env stale timeout remaining w y"
  proof (rule wait_for_response.raw_induct [where P = ?P, OF _ assms(2)], intro impI, goal_cases)
    case (1 loop e st t r w y)
    note IH = 1(1) [rule_format, OF _ 1(3), unfolded 1(3)]
    note typed = typed_rules(2) [OF assms(1) 1(4)]
    show ?case using 1(2,4) unfolding 1(3)
      by (auto split: if_split_asm sum.split_asm prod.split_asm dest!: typed IH)
  qed
  with assms(3) show ?thesis by simp
qed

text \<open>Two results of a transfer: nothing is handed out, or a message of the right size.\<close>

definition transfer_typed :: "(int + sg2002_rtos_shm_transfer) \<Rightarrow> 'x kernel_world_scheme \<Rightarrow> bool" where
  "transfer_typed r w \<longleftrightarrow> kernel_wf w \<and>
     (\<forall>t. r = Inr t \<longrightarrow> slot_wf (message t) \<and> slot_length (message t) \<le> SG2002_RTOS_SHM_PAYLOAD_SIZE)"

lemma transfer_refused: "kernel_wf w \<Longrightarrow> transfer_typed (Inl e) w"
  by (simp add: transfer_typed_def)

lemma send_message_wf:
  assumes "typed_env env" "kernel_wf w" "slot_wf (message t)" "send_message env f t w = Some (r, w')"
  shows "transfer_typed r w'"
proof -
  note typed = typed_rules [OF assms(1)]
  obtain ok w1 where 1: "copy_from_user env w = (ok, w1)" by fastforce
  note w1 = typed(4) [OF assms(2) 1]
  obtain e w2 where 2: "lock_interruptible env Transmit_lock w1 = (e, w2)" by fastforce
  note w2 = typed(3) [OF w1 2]
  show ?thesis
  proof (cases "is_owner f w \<and> ok \<and> slot_length (message t) \<le> SG2002_RTOS_SHM_PAYLOAD_SIZE \<and> e = 0")
    case False
    then show ?thesis using assms(2,4) w1 w2 by (auto simp: send_message_def 1 2 not_le transfer_refused split: if_splits)
  next
    case True
    obtain found w3 where 3: "wait_for_space env (\<lambda>_. False) (transfer_timeout_ms t) (first_wait env (transfer_timeout_ms t)) w2 =
        Some (found, w3)"
      using assms(4) True by (auto simp: send_message_def 1 2 leD split: Option.bind_split_asm)
    have w3: "kernel_wf w3" using wait_for_space_wf [OF assms(1) 3 w2] by simp
    show ?thesis
    proof (cases found)
      case (Inl e)
      then show ?thesis using assms(4) True typed(8) [OF w3] by (auto simp: send_message_def 1 2 3 leD transfer_refused)
    next
      case (Inr pair)
      obtain producer n where p: "pair = (producer, n)" by fastforce
      obtain s w4 where 4: "take_sequence w3 = (s, w4)" by fastforce
      note w4 = take_sequence_wf [OF w3 4]
      obtain ok5 w5 where 5: "copy_to_user env w4 = (ok5, w5)" by fastforce
      note w5 = typed(5) [OF w4 5]
      let ?m = "(message t)\<lparr>sequence := s\<rparr>"
      have w6: "kernel_wf (request_kick env (set_counter Request_producer (producer + 1) (write_request producer ?m w5)))"
        by (intro request_kick_wf assms(1)) (simp add: kernel_wf_write w5 assms(3))
      show ?thesis
        using assms(3,4) True typed(8) [OF w5] typed(8) [OF w6]
        by (auto simp: send_message_def 1 2 3 Inr p 4 5 leD Let_def transfer_typed_def not_less split: if_splits)
    qed
  qed
qed

lemma receive_message_wf:
  assumes "typed_env env" "kernel_wf w" "receive_message env f t w = Some (r, w')"
  shows "transfer_typed r w'"
proof -
  note typed = typed_rules [OF assms(1)]
  obtain ok w1 where 1: "copy_from_user env w = (ok, w1)" by fastforce
  note w1 = typed(4) [OF assms(2) 1]
  obtain e w2 where 2: "lock_interruptible env Receive_lock w1 = (e, w2)" by fastforce
  note w2 = typed(3) [OF w1 2]
  show ?thesis
  proof (cases "is_owner f w \<and> ok \<and> e = 0")
    case False
    then show ?thesis using assms(2,3) w1 w2 by (auto simp: receive_message_def 1 2 transfer_refused split: if_splits)
  next
    case True
    obtain found w3 where 3: "wait_for_response env (\<lambda>_. False) (transfer_timeout_ms t) (first_wait env (transfer_timeout_ms t)) w2 =
        Some (found, w3)"
      using assms(3) True by (auto simp: receive_message_def 1 2 split: Option.bind_split_asm)
    have w3: "kernel_wf w3" using wait_for_response_wf [OF assms(1) 3 w2] by simp
    show ?thesis
    proof (cases found)
      case (Inl e)
      then show ?thesis using assms(3) True typed(8) [OF w3] by (auto simp: receive_message_def 1 2 3 transfer_refused)
    next
      case (Inr pair)
      obtain consumer n where p: "pair = (consumer, n)" by fastforce
      let ?m = "response_at consumer w3"
      obtain ok4 w4 where 4: "copy_to_user env w3 = (ok4, w4)" by fastforce
      note w4 = typed(5) [OF w3 4]
      have k: "kernel_wf (kick_pending env (set_counter Response_consumer (consumer + 1) v))" if "kernel_wf v" for v
        using that by (intro kick_pending_wf assms(1)) simp
      show ?thesis
        using assms(3) True typed(8) [OF w4] typed(8) [OF k [OF w3]] typed(8) [OF k [OF w4]] kernel_wf_slots(1) [OF w3]
        by (auto simp: receive_message_def 1 2 3 Inr p 4 Let_def transfer_typed_def not_less split: if_splits)
    qed
  qed
qed

subsection \<open>Batches\<close>

lemma assign_sequences_wf: "kernel_wf w \<Longrightarrow> \<forall>i\<in>set is. i < 64 \<Longrightarrow> kernel_wf (assign_sequences is w)"
proof (induction "is" arbitrary: w)
  case (Cons i "is")
  obtain s v where t: "take_sequence w = (s, v)" by fastforce
  have v: "kernel_wf v" by (rule take_sequence_wf [OF Cons.prems(1) t])
  then have "kernel_wf (v\<lparr>tx_batch := (tx_batch v)[i := (tx_batch v ! i)\<lparr>sequence := s\<rparr>]\<rparr>)"
    using Cons.prems(2) by (intro kernel_wf_buffers) (simp_all add: kernel_wf_slots)
  then show ?case using Cons t by simp
qed simp

lemma write_requests_wf: "kernel_wf w \<Longrightarrow> \<forall>i\<in>set is. i < 64 \<Longrightarrow> kernel_wf (write_requests c is w)"
  by (induction "is" arbitrary: w) (simp_all add: kernel_wf_write kernel_wf_slots)

lemma reap_responses_wf:
  assumes "kernel_wf w" "\<forall>i\<in>set is. i \<le> completed" "reap_responses c is completed w = (k, w')"
  shows "kernel_wf w' \<and> k \<le> completed"
  using assms
proof (induction "is" arbitrary: w)
  case (Cons i "is")
  have "kernel_wf (w\<lparr>rx_batch := (rx_batch w)[i := response_at (c + of_nat i) w]\<rparr>)"
    by (intro kernel_wf_buffers Cons.prems(1) kernel_wf_slots)
  then show ?case using Cons by (auto simp: Let_def split: if_splits)
qed simp

text \<open>The answer to a batch: the user's array keeps its size and its messages theirs.\<close>

definition batch_typed ::
  "sg2002_rtos_shm_slot list \<Rightarrow> user_batch \<Rightarrow> int \<Rightarrow> user_batch \<Rightarrow> sg2002_rtos_shm_slot list \<Rightarrow> 'x kernel_world_scheme \<Rightarrow> bool" where
  "batch_typed us ub ret b slots w \<longleftrightarrow> kernel_wf w \<and> list_all slot_wf slots \<and> length slots = length us \<and>
     (ret = 0 \<longrightarrow> batch_completed b \<le> batch_count ub)"

lemma copy_batch_wf:
  assumes "typed_env env" "kernel_wf w" "copy_batch_to_user env b (take k ms) ub us w = (ok, ub', us', w')"
    and "buffer_wf ms" "list_all slot_wf us" "k \<le> length us"
  shows "kernel_wf w'" "list_all slot_wf us'" "length us' = length us" "ok \<longrightarrow> ub' = b"
proof -
  obtain ok1 w1 where 1: "copy_to_user env w = (ok1, w1)" by fastforce
  note w1 = typed_rules(5) [OF assms(1,2) 1]
  obtain ok2 w2 where 2: "copy_to_user env w1 = (ok2, w2)" by fastforce
  note w2 = typed_rules(5) [OF assms(1) w1 2]
  have "list_all slot_wf (take k ms @ drop (length (take k ms)) us)" "length (take k ms @ drop (length (take k ms)) us) = length us"
    using assms(4-6) by (auto simp: buffer_wf_def list_all_iff dest: in_set_takeD in_set_dropD)
  then show "kernel_wf w'" "list_all slot_wf us'" "length us' = length us" "ok \<longrightarrow> ub' = b"
    using assms(3,5) w1 w2 by (auto simp: copy_batch_to_user_def 1 2 Let_def split: if_splits)
qed

lemma copy_batch_from_user_wf:
  assumes "typed_env env" "kernel_wf w" "copy_batch_from_user env ub w = (r, w')"
  shows "kernel_wf w'" "r = Inr b \<Longrightarrow> batch_count b = batch_count ub \<and> unat (batch_count b) \<le> 64 \<and> batch_completed b = 0"
proof -
  obtain ok w1 where 1: "copy_from_user env w = (ok, w1)" by fastforce
  note w1 = typed_rules(4) [OF assms(1,2) 1]
  show "kernel_wf w'" "r = Inr b \<Longrightarrow> batch_count b = batch_count ub \<and> unat (batch_count b) \<le> 64 \<and> batch_completed b = 0"
    using assms(3) w1 by (auto simp: copy_batch_from_user_def 1 Let_def word_le_nat_alt not_less split: if_splits)
qed

lemma wait_error:
  "wait_for_space env stale timeout remaining w = Some (Inl e, w') \<Longrightarrow> e \<noteq> 0"
  "wait_for_response env stale timeout remaining w = Some (Inl e, w') \<Longrightarrow> e \<noteq> 0"
proof -
  have o: "request_occupancy w = Inl e \<Longrightarrow> e \<noteq> 0" "response_occupancy w = Inl e \<Longrightarrow> e \<noteq> 0" for w e
    by (auto simp: request_occupancy_def response_occupancy_def ring_occupancy_def Let_def split: if_splits)
  let ?P = "\<lambda>e st t r w y. \<forall>x. fst y = Inl x \<longrightarrow> x \<noteq> 0"
  have "?P env stale timeout remaining w y" if "wait_for_space env stale timeout remaining w = Some y" for y
    by (rule wait_for_space.raw_induct [where P = ?P, OF _ that])
      (auto split: if_split_asm sum.split_asm prod.split_asm simp: o)
  then show "wait_for_space env stale timeout remaining w = Some (Inl e, w') \<Longrightarrow> e \<noteq> 0" by force
  have "?P env stale timeout remaining w y" if "wait_for_response env stale timeout remaining w = Some y" for y
    by (rule wait_for_response.raw_induct [where P = ?P, OF _ that])
      (auto split: if_split_asm sum.split_asm prod.split_asm simp: o)
  then show "wait_for_response env stale timeout remaining w = Some (Inl e, w') \<Longrightarrow> e \<noteq> 0" by force
qed

lemma batch_unchanged:
  "us' = us \<and> ret \<noteq> 0 \<and> kernel_wf w \<Longrightarrow> list_all slot_wf us \<Longrightarrow> batch_typed us ub ret b us' w"
  by (simp add: batch_typed_def)

lemma submit_batch_wf:
  assumes "typed_env env" "kernel_wf w" "list_all slot_wf us" "unat (batch_count ub) \<le> length us"
    and "submit_batch env f ub us w = Some (ret, b', us', w')"
  shows "batch_typed us ub ret b' us' w'"
proof (cases "is_owner f w")
  case False
  then show ?thesis using assms(2,3,5) by (intro batch_unchanged) (auto simp: submit_batch_def)
next
  case owner: True
  note typed = typed_rules [OF assms(1)] and un = batch_unchanged [OF _ assms(3)]
  obtain r w1 where 1: "copy_batch_from_user env ub w = (r, w1)" by fastforce
  note w1 = copy_batch_from_user_wf [OF assms(1,2) 1]
  show ?thesis
  proof (cases r)
    case (Inl e)
    then have "e \<noteq> 0" using 1 by (auto simp: copy_batch_from_user_def Let_def split: if_splits prod.splits)
    then show ?thesis using assms(5) owner Inl w1(1) by (intro un) (auto simp: submit_batch_def 1)
  next
    case (Inr b)
    have b: "batch_count b = batch_count ub" "unat (batch_count b) \<le> 64" using w1(2) [OF Inr] by blast+
    obtain e w2 where 2: "lock_interruptible env Transmit_lock w1 = (e, w2)" by fastforce
    note w2 = typed(3) [OF w1(1) 2]
    obtain ok w3 where 3: "copy_from_user env w2 = (ok, w3)" by fastforce
    note w3 = typed(4) [OF w2 3]
    let ?n = "unat (batch_count b)"
    let ?w3 = "w3\<lparr>tx_batch := take ?n us @ drop ?n (tx_batch w3)\<rparr>"
    have w3': "kernel_wf ?w3" using w3 assms(3,4) b by (intro kernel_wf_buffers) simp_all
    define long where "long = list_ex (\<lambda>m. slot_length m > SG2002_RTOS_SHM_PAYLOAD_SIZE) (take ?n (tx_batch ?w3))"
    show ?thesis
    proof (cases "e = 0 \<and> ok \<and> \<not> long")
      case False
      then show ?thesis
        using assms(5) owner Inr w2 typed(8) [OF w3] typed(8) [OF w3']
        by (intro un) (auto simp: submit_batch_def 1 2 3 Let_def long_def split: if_splits)
    next
      case True
      obtain found w4 where 4: "wait_for_space env (\<lambda>v. batch_generation b \<noteq> generation v) (batch_timeout_ms b)
          (first_wait env (batch_timeout_ms b)) ?w3 = Some (found, w4)"
        using assms(5) owner Inr True unfolding long_def
        by (auto simp: submit_batch_def 1 2 3 Let_def split: Option.bind_split_asm)
      have w4: "kernel_wf w4" using wait_for_space_wf [OF assms(1) 4 w3'] by simp
      show ?thesis
      proof (cases found)
        case found: (Inl e')
        have "e' \<noteq> 0" using wait_error(1) 4 found by blast
        then show ?thesis using assms(5) owner Inr True found typed(8) [OF w4] unfolding long_def
          by (intro un) (auto simp: submit_batch_def 1 2 3 4 Let_def)
      next
        case found: (Inr pair)
        obtain producer n where p: "pair = (producer, n)" by fastforce
        define completed where "completed = min (batch_count b) (ucast (SG2002_RTOS_SHM_SLOT_COUNT - n))"
        have c: "completed \<le> batch_count ub" "unat completed \<le> 64" "unat completed \<le> length us"
          using b assms(4) by (simp_all add: completed_def min_def word_le_nat_alt)
        let ?w5 = "assign_sequences [0..<unat completed] w4"
        have w5: "kernel_wf ?w5" using w4 c(2) by (intro assign_sequences_wf) auto
        obtain ok6 ub6 us6 w6 where 6: "copy_batch_to_user env (b\<lparr>batch_completed := completed\<rparr>) (take (unat completed) (tx_batch ?w5)) ub us ?w5 =
            (ok6, ub6, us6, w6)" by (metis prod_cases4)
        have "buffer_wf (tx_batch ?w5)" using w5 by (simp add: kernel_wf_def)
        note w6 = copy_batch_wf [OF assms(1) w5 6 this assms(3) c(3)]
        let ?w7 = "set_counter Request_producer (producer + ucast completed) (write_requests producer [0..<unat completed] w6)"
        have "kernel_wf ?w7" using write_requests_wf [OF w6(1), of "[0..<unat completed]" producer] c(2) by simp
        then have w7: "kernel_wf (unlock_mutex env Transmit_lock (request_kick env ?w7))"
          by (intro typed(8) request_kick_wf assms(1))
        have "(\<exists>e. e \<noteq> 0 \<and> ret = e \<and> us' = us6 \<and> w' = unlock_mutex env Transmit_lock w6) \<or>
            (ret = 0 \<and> ok6 \<and> b' = ub6 \<and> us' = us6 \<and> w' = unlock_mutex env Transmit_lock (request_kick env ?w7))"
          using assms(5) owner Inr True unfolding long_def
          by (auto simp: submit_batch_def 1 2 3 4 found p 6 Let_def completed_def [symmetric] split: if_splits)
        then show ?thesis using w6 w7 typed(8) [OF w6(1)] c(1) by (auto simp: batch_typed_def)
      qed
    qed
  qed
qed

lemma reap_batch_wf:
  assumes "typed_env env" "kernel_wf w" "list_all slot_wf us" "unat (batch_count ub) \<le> length us"
    and "reap_batch env f ub us w = Some (ret, b', us', w')"
  shows "batch_typed us ub ret b' us' w'"
proof (cases "is_owner f w")
  case False
  then show ?thesis using assms(2,3,5) by (intro batch_unchanged) (auto simp: reap_batch_def)
next
  case owner: True
  note typed = typed_rules [OF assms(1)] and un = batch_unchanged [OF _ assms(3)]
  obtain r w1 where 1: "copy_batch_from_user env ub w = (r, w1)" by fastforce
  note w1 = copy_batch_from_user_wf [OF assms(1,2) 1]
  show ?thesis
  proof (cases r)
    case (Inl e)
    then have "e \<noteq> 0" using 1 by (auto simp: copy_batch_from_user_def Let_def split: if_splits prod.splits)
    then show ?thesis using assms(5) owner Inl w1(1) by (intro un) (auto simp: reap_batch_def 1)
  next
    case (Inr b)
    have b: "batch_count b = batch_count ub" "unat (batch_count b) \<le> 64" using w1(2) [OF Inr] by blast+
    obtain e w2 where 2: "lock_interruptible env Receive_lock w1 = (e, w2)" by fastforce
    note w2 = typed(3) [OF w1(1) 2]
    show ?thesis
    proof (cases "e = 0")
      case False
      then show ?thesis using assms(5) owner Inr w2 by (intro un) (auto simp: reap_batch_def 1 2)
    next
      case True
      obtain found w3 where 3: "wait_for_response env (\<lambda>v. batch_generation b \<noteq> generation v) (batch_timeout_ms b)
          (first_wait env (batch_timeout_ms b)) w2 = Some (found, w3)"
        using assms(5) owner Inr True by (auto simp: reap_batch_def 1 2 Let_def split: Option.bind_split_asm)
      have w3: "kernel_wf w3" using wait_for_response_wf [OF assms(1) 3 w2] by simp
      show ?thesis
      proof (cases found)
        case found: (Inl e')
        have "e' \<noteq> 0" using wait_error(2) 3 found by blast
        then show ?thesis using assms(5) owner Inr True found typed(8) [OF w3]
          by (intro un) (auto simp: reap_batch_def 1 2 3)
      next
        case found: (Inr pair)
        obtain consumer n where p: "pair = (consumer, n)" by fastforce
        let ?c = "unat (min (batch_count b) (ucast n))"
        have c: "?c \<le> unat (batch_count ub)" using b(1) by (simp add: min_def word_le_nat_alt)
        obtain k w4 where 4: "reap_responses consumer [0..<?c] ?c w3 = (k, w4)" by fastforce
        have w4: "kernel_wf w4" "k \<le> ?c" using reap_responses_wf [OF w3 _ 4] by auto
        then have k: "k \<le> length us" "unat (of_nat k :: u16) = k" "k \<le> unat (batch_count ub)"
          using c assms(4) b by (simp_all add: unat_of_nat_u16)
        have fin: "kernel_wf (unlock_mutex env Receive_lock (kick_pending env (set_counter Response_consumer x v)))" if "kernel_wf v" for x v
          using that by (intro typed(8) kick_pending_wf assms(1)) simp
        show ?thesis
        proof (cases "k = 0")
          case True
          then show ?thesis
            using assms(5) owner Inr \<open>e = 0\<close> fin [OF w4(1)]
            by (intro un) (auto simp: reap_batch_def 1 2 3 found p 4 Let_def)
        next
          case False
          obtain ok5 ub5 us5 w5 where 5: "copy_batch_to_user env (b\<lparr>batch_completed := of_nat k\<rparr>) (take k (rx_batch w4)) ub us w4 =
              (ok5, ub5, us5, w5)" by (metis prod_cases4)
          have "buffer_wf (rx_batch w4)" using w4(1) by (simp add: kernel_wf_def)
          note w5 = copy_batch_wf [OF assms(1) w4(1) 5 this assms(3) k(1)]
          have "(\<exists>e. e \<noteq> 0 \<and> ret = e \<and> us' = us5 \<and> w' = unlock_mutex env Receive_lock w5) \<or>
              (ret = 0 \<and> ok5 \<and> b' = ub5 \<and> us' = us5 \<and>
                w' = unlock_mutex env Receive_lock (kick_pending env (set_counter Response_consumer (consumer + of_nat k) w5)))"
            using assms(5) owner Inr \<open>e = 0\<close> False
            by (auto simp: reap_batch_def 1 2 3 found p 4 5 Let_def split: if_splits)
          moreover have "of_nat k \<le> batch_count ub" using k(2,3) by (simp add: word_le_nat_alt)
          ultimately show ?thesis using w5 fin [OF w5(1)] typed(8) [OF w5(1)] by (auto simp: batch_typed_def)
        qed
      qed
    qed
  qed
qed

text \<open>The dispatcher, command by command.\<close>

lemma ioctl_cases:
  assumes "sg2002_rtos_shm_linux_ioctl env f c w = Some (a, w')"
  obtains e where "a = Error_answer e" "w' = w"
  | r where "c = SG2002_RTOS_SHM_ACQUIRE" "acquire env f w = (r, w')"
      "a = (case r of Inl e \<Rightarrow> Error_answer e | Inr info \<Rightarrow> Info_answer info)"
  | t r where "c = SG2002_RTOS_SHM_SEND t" "send_message env f t w = Some (r, w')" "a = transfer_answer r"
  | t r where "c = SG2002_RTOS_SHM_RECEIVE t" "receive_message env f t w = Some (r, w')" "a = transfer_answer r"
  | b us ret b' us' where "c = SG2002_RTOS_SHM_SUBMIT_BATCH b us" "submit_batch env f b us w = Some (ret, b', us', w')"
      "a = Batch_answer ret b' us'"
  | b us ret b' us' where "c = SG2002_RTOS_SHM_REAP_BATCH b us" "reap_batch env f b us w = Some (ret, b', us', w')"
      "a = Batch_answer ret b' us'"
proof (cases "shutting_down w")
  case True
  then have "Some (Error_answer (- ENODEV), w) = Some (a, w')" using assms by (simp add: sg2002_rtos_shm_linux_ioctl_def)
  then show thesis by (intro that(1) [of "- ENODEV"]) simp_all
next
  case run: False
  show thesis
  proof (cases c)
    case SG2002_RTOS_SHM_ACQUIRE
    then show thesis using assms run that(2) by (simp add: sg2002_rtos_shm_linux_ioctl_def split: prod.split_asm sum.split_asm)
  next
    case (SG2002_RTOS_SHM_SEND t)
    then show thesis using assms run that(3) by (simp add: sg2002_rtos_shm_linux_ioctl_def split: Option.bind_split_asm prod.split_asm)
  next
    case (SG2002_RTOS_SHM_RECEIVE t)
    then show thesis using assms run that(4) by (simp add: sg2002_rtos_shm_linux_ioctl_def split: Option.bind_split_asm prod.split_asm)
  next
    case (SG2002_RTOS_SHM_SUBMIT_BATCH b us)
    then show thesis using assms run that(5) by (simp add: sg2002_rtos_shm_linux_ioctl_def split: Option.bind_split_asm prod.split_asm)
  next
    case (SG2002_RTOS_SHM_REAP_BATCH b us)
    then show thesis using assms run that(6) by (simp add: sg2002_rtos_shm_linux_ioctl_def split: Option.bind_split_asm prod.split_asm)
  next
    case Other_command
    then have "Some (Error_answer (- ENOTTY), w) = Some (a, w')" using assms run by (simp add: sg2002_rtos_shm_linux_ioctl_def)
    then show thesis by (intro that(1) [of "- ENOTTY"]) simp_all
  qed
qed

lemma ioctl_wf:
  assumes "typed_env env" "kernel_wf w" "command_wf c" "sg2002_rtos_shm_linux_ioctl env f c w = Some (a, w')"
  shows "kernel_wf w' \<and> answer_wf c a"
  using assms(4)
proof (cases rule: ioctl_cases)
  case (1 e)
  then show ?thesis using assms(2) by (simp add: answer_wf_def)
next
  case (2 r)
  then show ?thesis using acquire_wf [OF assms(1,2) 2(2)] by (cases r) (simp_all add: answer_wf_def)
next
  case (3 t r)
  then have "transfer_typed r w'" using send_message_wf [OF assms(1,2) _ 3(2)] assms(3) by (simp add: command_wf_def)
  then show ?thesis using 3 by (cases r) (simp_all add: answer_wf_def transfer_answer_def transfer_typed_def)
next
  case (4 t r)
  have "transfer_typed r w'" by (rule receive_message_wf [OF assms(1,2) 4(2)])
  then show ?thesis using 4 by (cases r) (simp_all add: answer_wf_def transfer_answer_def transfer_typed_def)
next
  case (5 b us ret b' us')
  then have "batch_typed us b ret b' us' w'" using submit_batch_wf [OF assms(1,2) _ _ 5(2)] assms(3) by (simp add: command_wf_def)
  then show ?thesis using 5 by (simp add: answer_wf_def batch_typed_def)
next
  case (6 b us ret b' us')
  then have "batch_typed us b ret b' us' w'" using reap_batch_wf [OF assms(1,2) _ _ 6(2)] assms(3) by (simp add: command_wf_def)
  then show ?thesis using 6 by (simp add: answer_wf_def batch_typed_def)
qed

subsection \<open>Properties\<close>


text \<open>A firmware that scribbles over the counters, the lengths and the state lines whenever the driver waits.\<close>

definition hostile_env :: "kernel_world kernel_env" where
  "hostile_env = still_env\<lparr>wait_event := (\<lambda>c t w. (1, w\<lparr>shm_base := (shm_base w)\<lparr>request_producer := 12345,
     response_producer := 1, response_slots := replicate 64 (zero_slot\<lparr>slot_length := 65535\<rparr>)\<rparr>\<rparr>))\<rparr>"


end
